(* ===== verification/Prelude.thy ===== *)
theory Prelude
  imports Main "HOL-Library.Word"
begin

unbundle bit_operations_syntax

text \<open>
  Shared vocabulary of the development: the C integer types, byte memory, the
  representation of pointers, the counting loop, and the generic lemmas on words,
  loops and memory updates that the component theories use.

  \<^item> \<open>byte\<close>, \<open>u16\<close> and \<open>u32\<close> are \<open>uint8_t\<close>, \<open>uint16_t\<close> and \<open>uint32_t\<close> of
    \<open>types.h\<close>; a signed \<open>int32_t\<close> is an \<open>int\<close>, and where the code turns an unsigned
    value into a signed one the model writes \<open>sint\<close>.
  \<^item> \<open>mem\<close> is byte-addressed memory over 32-bit addresses; address arithmetic wraps.
  \<^item> A pointer the code only reads through is the function from offsets to the bytes it
    reads (\<open>ptr\<close>, for instance \<open>at m a\<close>); a buffer the code fills front to back is
    the list of bytes stored.
\<close>

type_synonym byte = "8 word"
type_synonym u16 = "16 word"
type_synonym u32 = "32 word"
type_synonym addr = "32 word"
type_synonym mem = "addr \<Rightarrow> byte"
type_synonym ptr = "nat \<Rightarrow> byte"

named_theorems mem_laws
named_theorems const_defs

section \<open>Pointers and little-endian loads\<close>

definition at :: "mem \<Rightarrow> addr \<Rightarrow> ptr" where
  "at m a = (\<lambda>i. m (a + of_nat i))"

definition of_bytes :: "byte list \<Rightarrow> ptr" where
  "of_bytes xs = (\<lambda>i. if i < length xs then xs ! i else 0)"

definition load32 :: "mem \<Rightarrow> addr \<Rightarrow> u32" where
  "load32 m a = ucast (m a) OR push_bit 8 (ucast (m (a + 1)))
     OR push_bit 16 (ucast (m (a + 2))) OR push_bit 24 (ucast (m (a + 3)))"

fun store_bytes :: "mem \<Rightarrow> addr \<Rightarrow> byte list \<Rightarrow> mem" where
  "store_bytes m a [] = m"
| "store_bytes m a (b # bs) = store_bytes (m(a := b)) (a + 1) bs"

definition chars :: "string \<Rightarrow> byte list" where
  "chars s = map of_char s"

section \<open>Counting loops\<close>

text \<open>\<open>for_loop a b f s\<close> is \<open>for (i = a; i < b; i++) s = f(i, s)\<close>.\<close>

definition for_loop :: "nat \<Rightarrow> nat \<Rightarrow> (nat \<Rightarrow> 's \<Rightarrow> 's) \<Rightarrow> 's \<Rightarrow> 's" where
  "for_loop a b f s = fold f [a..<b] s"

lemma for_loop_empty [simp]: "b \<le> a \<Longrightarrow> for_loop a b f s = s"
  by (simp add: for_loop_def)

lemma for_loop_Suc [simp]: "a \<le> n \<Longrightarrow> for_loop a (Suc n) f s = f n (for_loop a n f s)"
  by (simp add: for_loop_def)

lemma for_loop_split:
  assumes "a \<le> b" and "b \<le> c"
  shows "for_loop a c f s = for_loop b c f (for_loop a b f s)"
proof -
  have "[a..<c] = [a..<b] @ [b..<c]"
    using assms upt_add_eq_append [of a b "c - b"] by simp
  then show ?thesis by (simp add: for_loop_def)
qed

lemma for_loop_invariant:
  assumes "P s" and "\<And>i s. a \<le> i \<Longrightarrow> i < b \<Longrightarrow> P s \<Longrightarrow> P (f i s)"
  shows "P (for_loop a b f s)"
  using assms(2)
proof (induction b)
  case 0
  then show ?case using assms(1) by simp
next
  case (Suc b)
  then show ?case using assms(1) by (cases "a \<le> b") (simp_all)
qed

lemma for_loop_rule:
  assumes "P a s" and "a \<le> b" and "\<And>i s. a \<le> i \<Longrightarrow> i < b \<Longrightarrow> P i s \<Longrightarrow> P (Suc i) (f i s)"
  shows "P b (for_loop a b f s)"
  using assms(2,3)
proof (induction b rule: dec_induct)
  case base
  then show ?case using assms(1) by simp
next
  case (step n)
  then show ?case by simp
qed

lemma for_loop_unroll: "a < b \<Longrightarrow> for_loop a b f s = for_loop (Suc a) b f (f a s)"
  by (simp add: for_loop_def upt_conv_Cons)

text \<open>A nest of two counting loops that runs over \<open>r * c\<close> cells row by row is one loop.\<close>

lemma for_loop_nest:
  "for_loop 0 r (\<lambda>i. for_loop 0 c (\<lambda>j. f (i * c + j))) s = for_loop 0 (r * c) f s"
proof (induction r)
  case 0
  show ?case by simp
next
  case (Suc r)
  have row: "for_loop 0 n (\<lambda>j. f (r * c + j)) t = for_loop (r * c) (r * c + n) f t" for t n
    by (induction n) simp_all
  have "for_loop 0 (Suc r * c) f s = for_loop (r * c) (r * c + c) f (for_loop 0 (r * c) f s)"
    by (subst for_loop_split [of 0 "r * c"]) (simp_all add: add.commute)
  then show ?case using Suc row by simp
qed

section \<open>Words\<close>

lemma of_nat_word_inj:
  "i < 2 ^ LENGTH('a) \<Longrightarrow> j < 2 ^ LENGTH('a) \<Longrightarrow>
    (of_nat i :: 'a::len word) = of_nat j \<longleftrightarrow> i = j"
  by (metis of_nat_inverse)

lemma of_nat_u32_inj [simp]:
  "i < 4294967296 \<Longrightarrow> j < 4294967296 \<Longrightarrow> (of_nat i :: u32) = of_nat j \<longleftrightarrow> i = j"
  using of_nat_word_inj [of i j, where 'a = 32] by simp

lemma unat_of_nat_u32 [simp]: "n < 4294967296 \<Longrightarrow> unat (of_nat n :: u32) = n"
  by (simp add: unat_of_nat)

lemma u32_lt: "unat (x :: u32) < 4294967296"
  using unsigned_less [of x] by simp

lemma unat_add_u32: "unat (a :: u32) + unat b < 4294967296 \<Longrightarrow> unat (a + b) = unat a + unat b"
  by (simp add: unat_word_ariths)

lemma unat_plus_of_nat: "unat (a :: u32) + i < 4294967296 \<Longrightarrow> unat (a + of_nat i) = unat a + i"
  by (subst unat_add_u32) simp_all

lemma u32_diff_unat: "i \<le> e \<Longrightarrow> unat (e - i :: u32) = unat e - unat i"
  by (simp add: unat_sub)

lemma u32_suc_le: "i < e \<Longrightarrow> unat (i + 1 :: u32) = Suc (unat i)"
  using u32_lt [of e] by (simp add: word_less_nat_alt unat_word_ariths)

lemma sint_u32_small:
  assumes "unat (w :: u32) < 2147483648"
  shows "sint w = int (unat w)"
proof -
  have u: "int (unat w) = uint w" by simp
  with assms have "uint w < 2147483648" by linarith
  then have "uint w < 2 ^ 31" by simp
  moreover have "- (2 ^ 31) \<le> uint w" by (rule order_trans [OF _ unsigned_greater_eq]) simp
  ultimately have "signed_take_bit 31 (uint w) = uint w" by (intro signed_take_bit_int_eq_self)
  with u show ?thesis by (simp add: sint_uint)
qed

lemma unat_of_int_u32: "0 \<le> n \<Longrightarrow> n < 4294967296 \<Longrightarrow> unat (word_of_int n :: u32) = nat n"
  by (simp add: uint_word_of_int flip: nat_uint_eq)

lemma bit_255 [simp]: "bit (255 :: int) n \<longleftrightarrow> n < 8"
proof -
  have "(255 :: int) = mask 8" by (simp add: mask_eq_exp_minus_1)
  then show ?thesis by (simp only: bit_mask_iff) simp
qed

text \<open>Addresses of one buffer are pairwise distinct as long as it does not wrap round.\<close>

lemma buffer_addr_inj [simp]:
  "i < 4294967296 \<Longrightarrow> j < 4294967296 \<Longrightarrow> (a :: u32) + of_nat i = a + of_nat j \<longleftrightarrow> i = j"
  by simp

section \<open>Storing a run of bytes\<close>

lemma store_bytes_out:
  "(\<And>i. i < length bs \<Longrightarrow> b \<noteq> a + of_nat i) \<Longrightarrow> store_bytes m a bs b = m b"
proof (induction m a bs rule: store_bytes.induct)
  case (1 m a)
  show ?case by simp
next
  case (2 m a x bs)
  have "store_bytes (m(a := x)) (a + 1) bs b = (m(a := x)) b"
  proof (rule "2.IH")
    fix i
    assume "i < length bs"
    then show "b \<noteq> a + 1 + of_nat i" using "2.prems" [of "Suc i"] by (simp add: algebra_simps)
  qed
  moreover have "b \<noteq> a" using "2.prems" [of 0] by simp
  ultimately show ?case by simp
qed

lemma store_bytes_in:
  "i < length bs \<Longrightarrow> length bs \<le> 4294967296 \<Longrightarrow> store_bytes m a bs (a + of_nat i) = bs ! i"
proof (induction m a bs arbitrary: i rule: store_bytes.induct)
  case (1 m a)
  then show ?case by simp
next
  case (2 m a x bs)
  show ?case
  proof (cases i)
    case 0
    have "a \<noteq> a + 1 + of_nat j" if "j < length bs" for j
    proof -
      have "(of_nat 0 :: u32) \<noteq> of_nat (Suc j)"
        using that "2.prems" by (subst of_nat_u32_inj) simp_all
      then show ?thesis by (simp add: add.assoc)
    qed
    then show ?thesis using 0 by (simp add: store_bytes_out)
  next
    case (Suc j)
    then have "store_bytes (m(a := x)) (a + 1) bs (a + 1 + of_nat j) = bs ! j"
      using "2.prems" by (intro "2.IH") simp_all
    then show ?thesis using Suc by (simp add: algebra_simps)
  qed
qed

lemma store_bytes_append:
  "store_bytes m a (xs @ ys) = store_bytes (store_bytes m a xs) (a + of_nat (length xs)) ys"
  by (induction xs arbitrary: m a) (simp_all add: add.assoc)

lemma store_bytes_upd:
  "(\<And>i. i < length bs \<Longrightarrow> c \<noteq> a + of_nat i) \<Longrightarrow>
    store_bytes (m(c := v)) a bs = (store_bytes m a bs)(c := v)"
proof (induction bs arbitrary: m a)
  case Nil
  show ?case by simp
next
  case (Cons b bs)
  have "c \<noteq> a" using Cons.prems [of 0] by simp
  moreover have "c \<noteq> a + 1 + of_nat i" if "i < length bs" for i
    using Cons.prems [of "Suc i"] that by (simp add: add.assoc)
  ultimately show ?case using Cons.IH [of "a + 1" "m(a := b)"]
    by (simp add: fun_upd_twist del: fun_upd_apply)
qed

lemmas [mem_laws] = store_bytes_in store_bytes_out store_bytes_append

end
