(* ===== verification/Lib_Mem.thy ===== *)
theory Lib_Mem
  imports Prelude
begin

text \<open>
  The block operations of \<open>lib.c\<close> (\<open>memset\<close>, \<open>memset_word\<close>, \<open>memset_dword\<close>,
  \<open>memcpy\<close>, \<open>memmove\<close>), translated instruction by instruction from their inline
  assembly: the byte loop up to a 4-byte boundary, the \<open>rep stosl\<close> / \<open>rep movsl\<close> over
  the aligned middle, the byte loop over the rest, and the direction \<open>memmove\<close> chooses.
  The reference definition is \<open>store_bytes\<close>: all bytes stored front to back.  The locale
  \<open>block_copy\<close> is the contract the video-page code relies on; \<open>memcpy\<close> and
  \<open>memmove\<close> both implement it.
\<close>

section \<open>Memory instructions\<close>

definition store16 :: "mem \<Rightarrow> addr \<Rightarrow> u16 \<Rightarrow> mem" where
  "store16 m a v = m(a := ucast v, a + 1 := ucast (drop_bit 8 v))"

definition store32 :: "mem \<Rightarrow> addr \<Rightarrow> u32 \<Rightarrow> mem" where
  "store32 m a v = m(a := ucast v, a + 1 := ucast (drop_bit 8 v),
     a + 2 := ucast (drop_bit 16 v), a + 3 := ucast (drop_bit 24 v))"

fun stosb_loop :: "mem \<Rightarrow> addr \<Rightarrow> byte \<Rightarrow> nat \<Rightarrow> mem" where
  "stosb_loop m edi al 0 = m"
| "stosb_loop m edi al (Suc k) = stosb_loop (m(edi := al)) (edi + 1) al k"

fun rep_stosw :: "mem \<Rightarrow> addr \<Rightarrow> u16 \<Rightarrow> nat \<Rightarrow> mem" where
  "rep_stosw m edi ax 0 = m"
| "rep_stosw m edi ax (Suc k) = rep_stosw (store16 m edi ax) (edi + 2) ax k"

fun rep_stosl :: "mem \<Rightarrow> addr \<Rightarrow> u32 \<Rightarrow> nat \<Rightarrow> mem" where
  "rep_stosl m edi eax 0 = m"
| "rep_stosl m edi eax (Suc k) = rep_stosl (store32 m edi eax) (edi + 4) eax k"

fun movsb_up :: "mem \<Rightarrow> addr \<Rightarrow> addr \<Rightarrow> nat \<Rightarrow> mem" where
  "movsb_up m esi edi 0 = m"
| "movsb_up m esi edi (Suc k) = movsb_up (m(edi := m esi)) (esi + 1) (edi + 1) k"

fun movsb_down :: "mem \<Rightarrow> addr \<Rightarrow> addr \<Rightarrow> nat \<Rightarrow> mem" where
  "movsb_down m esi edi 0 = m"
| "movsb_down m esi edi (Suc k) = movsb_down (m(edi := m esi)) (esi - 1) (edi - 1) k"

fun rep_movsl :: "mem \<Rightarrow> addr \<Rightarrow> addr \<Rightarrow> nat \<Rightarrow> mem" where
  "rep_movsl m esi edi 0 = m"
| "rep_movsl m esi edi (Suc k) = rep_movsl (store32 m edi (load32 m esi)) (esi + 4) (edi + 4) k"

section \<open>The routines\<close>

fun memset_top :: "mem \<Rightarrow> addr \<Rightarrow> u32 \<Rightarrow> nat \<Rightarrow> mem" where
  "memset_top m edi eax 0 = m"
| "memset_top m edi eax (Suc k) =
     (if edi AND 3 = 0
      then let n = Suc k; m' = rep_stosl m edi eax (n div 4)
           in stosb_loop m' (edi + of_nat (4 * (n div 4))) (ucast eax) (n mod 4)
      else memset_top (m(edi := ucast eax)) (edi + 1) eax k)"

definition memset :: "mem \<Rightarrow> addr \<Rightarrow> u32 \<Rightarrow> u32 \<Rightarrow> mem" where
  "memset m s c n =
     (let c = c AND 0xFF
      in memset_top m s (push_bit 24 c OR push_bit 16 c OR push_bit 8 c OR c) (unat n))"

definition memset_word :: "mem \<Rightarrow> addr \<Rightarrow> u32 \<Rightarrow> u32 \<Rightarrow> mem" where
  "memset_word m s c n = rep_stosw m s (ucast c) (unat n)"

definition memset_dword :: "mem \<Rightarrow> addr \<Rightarrow> u32 \<Rightarrow> u32 \<Rightarrow> mem" where
  "memset_dword m s c n = rep_stosl m s c (unat n)"

fun memcpy_top :: "mem \<Rightarrow> addr \<Rightarrow> addr \<Rightarrow> nat \<Rightarrow> mem" where
  "memcpy_top m esi edi 0 = m"
| "memcpy_top m esi edi (Suc k) =
     (if edi AND 3 = 0
      then let n = Suc k; m' = rep_movsl m esi edi (n div 4); done = of_nat (4 * (n div 4))
           in movsb_up m' (esi + done) (edi + done) (n mod 4)
      else memcpy_top (m(edi := m esi)) (esi + 1) (edi + 1) k)"

definition memcpy :: "mem \<Rightarrow> addr \<Rightarrow> addr \<Rightarrow> u32 \<Rightarrow> mem" where
  "memcpy m dest src n = memcpy_top m src dest (unat n)"

definition memmove :: "mem \<Rightarrow> addr \<Rightarrow> addr \<Rightarrow> u32 \<Rightarrow> mem" where
  "memmove m dest src n =
     (if src \<ge> dest then movsb_up m src dest (unat n)
      else movsb_down m (src + n - 1) (dest + n - 1) (unat n))"

section \<open>Filling\<close>

lemma memset_pattern:
  assumes "p = (let c = c AND 0xFF in push_bit 24 c OR push_bit 16 c OR push_bit 8 c OR c)"
  shows "ucast (p :: u32) = (ucast c :: byte)" and "ucast (drop_bit 8 p) = (ucast c :: byte)"
    and "ucast (drop_bit 16 p) = (ucast c :: byte)" and "ucast (drop_bit 24 p) = (ucast c :: byte)"
  unfolding assms Let_def by ((rule bit_word_eqI, auto simp: bit_simps)[1])+

lemma stosb_loop_eq: "stosb_loop m a b n = store_bytes m a (replicate n b)"
  by (induction n arbitrary: m a) simp_all

lemma store32_eq:
  "store32 m a v = store_bytes m a
     [ucast v, ucast (drop_bit 8 v), ucast (drop_bit 16 v), ucast (drop_bit 24 v)]"
  by (simp add: store32_def add.assoc)

lemma store16_eq: "store16 m a v = store_bytes m a [ucast v, ucast (drop_bit 8 v)]"
  by (simp add: store16_def)

text \<open>The little-endian bytes of a 16-bit and of a 32-bit value, as \<open>stos\<close> stores them.\<close>

definition bytes_of_u16 :: "u16 \<Rightarrow> byte list" where
  "bytes_of_u16 v = [ucast v, ucast (drop_bit 8 v)]"

definition bytes_of_u32 :: "u32 \<Rightarrow> byte list" where
  "bytes_of_u32 v = [ucast v, ucast (drop_bit 8 v), ucast (drop_bit 16 v), ucast (drop_bit 24 v)]"

lemma rep_stosw_eq: "rep_stosw m a v n = store_bytes m a (concat (replicate n (bytes_of_u16 v)))"
  by (induction n arbitrary: m a) (simp_all add: store16_eq bytes_of_u16_def add.assoc)

lemma rep_stosl_eq: "rep_stosl m a v n = store_bytes m a (concat (replicate n (bytes_of_u32 v)))"
  by (induction n arbitrary: m a) (simp_all add: store32_eq bytes_of_u32_def add.assoc)

lemma concat_replicate4: "concat (replicate n [b, b, b, b]) = replicate (4 * n) b"
  by (induction n) (simp_all add: numeral_eq_Suc)

lemma memset_top_eq:
  assumes "bytes_of_u32 eax = [b, b, b, b]"
  shows "memset_top m edi eax n = store_bytes m edi (replicate n b)"
proof (induction n arbitrary: m edi)
  case 0
  show ?case by simp
next
  case (Suc k)
  let ?q = "Suc k div 4"
  have al: "ucast eax = b" using assms by (simp add: bytes_of_u32_def)
  have "replicate (Suc k) b = replicate (4 * ?q) b @ replicate (Suc k mod 4) b"
    by (simp only: mult_div_mod_eq flip: replicate_add)
  then have "store_bytes m edi (replicate (Suc k) b) =
    stosb_loop (rep_stosl m edi eax ?q) (edi + of_nat (4 * ?q)) b (Suc k mod 4)"
    by (simp only: stosb_loop_eq rep_stosl_eq assms concat_replicate4 store_bytes_append
        length_replicate)
  then show ?case using Suc.IH al by (simp add: Let_def del: fun_upd_apply)
qed

section \<open>Copying\<close>

definition bytes_at :: "mem \<Rightarrow> addr \<Rightarrow> nat \<Rightarrow> byte list" where
  "bytes_at m a n = map (at m a) [0..<n]"

text \<open>
  \<open>up_safe d s n\<close>: a copy that runs upwards never stores to a source byte it has still to
  read.  \<open>down_safe d s n\<close> is the same for a copy that runs downwards.
\<close>

definition up_safe :: "addr \<Rightarrow> addr \<Rightarrow> nat \<Rightarrow> bool" where
  "up_safe d s n \<longleftrightarrow> (\<forall>j<n. \<forall>i<j. d + of_nat i \<noteq> s + of_nat j)"

definition down_safe :: "addr \<Rightarrow> addr \<Rightarrow> nat \<Rightarrow> bool" where
  "down_safe d s n \<longleftrightarrow> (\<forall>j<n. \<forall>i<j. d + of_nat j \<noteq> s + of_nat i)"

lemma bytes_at_simps [simp]:
  "length (bytes_at m a n) = n" "i < n \<Longrightarrow> bytes_at m a n ! i = m (a + of_nat i)"
  "bytes_at m a 0 = []"
  by (simp_all add: bytes_at_def at_def)

lemma bytes_at_Suc: "bytes_at m a (Suc n) = m a # bytes_at m (a + 1) n"
  by (simp add: bytes_at_def at_def upt_conv_Cons add.assoc comp_def del: upt_Suc flip: map_Suc_upt)

lemma bytes_at_add: "bytes_at m a (k + n) = bytes_at m a k @ bytes_at m (a + of_nat k) n"
  by (induction k arbitrary: a) (simp_all add: bytes_at_Suc add.assoc)

lemma bytes_at_cong: "(\<And>i. i < n \<Longrightarrow> m (a + of_nat i) = m' (a + of_nat i)) \<Longrightarrow> bytes_at m a n = bytes_at m' a n"
  by (rule nth_equalityI) simp_all

lemma up_safe_tail: "up_safe d s (k + n) \<Longrightarrow> up_safe (d + of_nat k) (s + of_nat k) n"
  unfolding up_safe_def
proof (intro allI impI)
  fix j i
  assume safe: "\<forall>j<k + n. \<forall>i<j. d + of_nat i \<noteq> s + of_nat j" and "j < n" "i < j"
  then have "d + of_nat (k + i) \<noteq> s + of_nat (k + j)" by simp
  then show "d + of_nat k + of_nat i \<noteq> s + of_nat k + of_nat j" by (simp add: add.assoc)
qed

text \<open>A safe upward copy can be cut in two, the second part reading the memory the first left.\<close>

lemma copy_compose:
  assumes "up_safe d s (k + n)" and m': "m' = store_bytes m d (bytes_at m s k)"
  shows "store_bytes m' (d + of_nat k) (bytes_at m' (s + of_nat k) n)
    = store_bytes m d (bytes_at m s (k + n))"
proof -
  have "bytes_at m' (s + of_nat k) n = bytes_at m (s + of_nat k) n"
    unfolding m'
  proof (rule bytes_at_cong, rule store_bytes_out)
    fix j i
    assume "j < n" and "i < length (bytes_at m s k)"
    then have "d + of_nat i \<noteq> s + of_nat (k + j)"
      using assms(1) unfolding up_safe_def by (simp del: of_nat_add)
    then show "s + of_nat k + of_nat j \<noteq> d + of_nat i" by (simp add: add.assoc)
  qed
  then show ?thesis by (simp add: m' bytes_at_add store_bytes_append)
qed

lemma movsb_up_eq: "up_safe d s n \<Longrightarrow> movsb_up m s d n = store_bytes m d (bytes_at m s n)"
proof (induction n arbitrary: m d s)
  case 0
  show ?case by simp
next
  case (Suc n)
  let ?m = "store_bytes m d (bytes_at m s 1)"
  have one: "?m = m(d := m s)" by (simp add: bytes_at_Suc)
  have "movsb_up ?m (s + 1) (d + 1) n = store_bytes ?m (d + 1) (bytes_at ?m (s + 1) n)"
    using up_safe_tail [of d s 1 n] Suc.prems by (intro Suc.IH) simp
  also have "\<dots> = store_bytes m d (bytes_at m s (Suc n))"
    using copy_compose [of d s 1 n ?m m] Suc.prems by simp
  finally show ?case using one by simp
qed

lemma ucast_bytes_u32:
  fixes a b c d :: byte
  assumes "w = ucast a OR push_bit 8 (ucast b) OR push_bit 16 (ucast c) OR push_bit 24 (ucast d :: u32)"
  shows "ucast w = a" and "ucast (drop_bit 8 w) = b" and "ucast (drop_bit 16 w) = c"
    and "ucast (drop_bit 24 w) = d"
  unfolding assms
  by ((rule bit_word_eqI, auto simp: bit_simps dest: bit_imp_le_length)[1])+

lemma movsl_eq: "store32 m d (load32 m s) = store_bytes m d (bytes_at m s 4)"
proof -
  have "bytes_at m s 4 = [m s, m (s + 1), m (s + 2), m (s + 3)]"
    by (simp add: numeral_eq_Suc bytes_at_Suc add.assoc)
  then show ?thesis
    by (simp only: store32_eq ucast_bytes_u32 [OF load32_def])
qed

lemma rep_movsl_eq:
  "up_safe d s (4 * n) \<Longrightarrow> rep_movsl m s d n = store_bytes m d (bytes_at m s (4 * n))"
proof (induction n arbitrary: m d s)
  case 0
  show ?case by simp
next
  case (Suc n)
  let ?m = "store_bytes m d (bytes_at m s 4)"
  have safe: "up_safe d s (4 + 4 * n)" using Suc.prems by simp
  have "rep_movsl ?m (s + 4) (d + 4) n = store_bytes ?m (d + 4) (bytes_at ?m (s + 4) (4 * n))"
    using up_safe_tail [OF safe] by (intro Suc.IH) simp
  also have "\<dots> = store_bytes m d (bytes_at m s (4 + 4 * n))"
    using copy_compose [OF safe refl, of m] by simp
  finally show ?case by (simp add: movsl_eq)
qed

lemma memcpy_top_eq: "up_safe d s n \<Longrightarrow> memcpy_top m s d n = store_bytes m d (bytes_at m s n)"
proof (induction n arbitrary: m d s)
  case 0
  show ?case by simp
next
  case (Suc k)
  let ?n = "Suc k" and ?a = "4 * (Suc k div 4)" and ?r = "Suc k mod 4"
  show ?case
  proof (cases "d AND 3 = 0")
    case True
    have n: "?n = ?a + ?r" by simp
    have safe: "up_safe d s (?a + ?r)" using Suc.prems n by simp
    then have "up_safe d s ?a" by (simp add: up_safe_def)
    then have "rep_movsl m s d (?n div 4) = store_bytes m d (bytes_at m s ?a)"
      by (rule rep_movsl_eq)
    with True have "memcpy_top m s d ?n = movsb_up (store_bytes m d (bytes_at m s ?a))
        (s + of_nat ?a) (d + of_nat ?a) ?r"
      by (simp add: Let_def)
    also have "\<dots> = store_bytes m d (bytes_at m s (?a + ?r))"
      by (simp only: movsb_up_eq [OF up_safe_tail [OF safe]] copy_compose [OF safe refl])
    finally show ?thesis using n by simp
  next
    case False
    let ?m = "store_bytes m d (bytes_at m s 1)"
    have safe: "up_safe d s (1 + k)" using Suc.prems by simp
    have "memcpy_top ?m (s + 1) (d + 1) k = store_bytes ?m (d + 1) (bytes_at ?m (s + 1) k)"
      using up_safe_tail [OF safe] by (intro Suc.IH) simp
    also have "\<dots> = store_bytes m d (bytes_at m s ?n)"
      using copy_compose [OF safe refl, of m] by simp
    finally show ?thesis using False by (simp add: bytes_at_Suc)
  qed
qed

lemma movsb_down_eq:
  "down_safe d s n \<Longrightarrow> n \<le> 4294967296 \<Longrightarrow>
    movsb_down m (s + of_nat n - 1) (d + of_nat n - 1) n = store_bytes m d (bytes_at m s n)"
proof (induction n arbitrary: m)
  case 0
  show ?case by simp
next
  case (Suc n)
  let ?m = "m(d + of_nat n := m (s + of_nat n))"
  have safe: "d + of_nat n \<noteq> s + of_nat i" if "i < n" for i
    using Suc.prems(1) that unfolding down_safe_def by blast
  have "movsb_down m (s + of_nat (Suc n) - 1) (d + of_nat (Suc n) - 1) (Suc n)
      = movsb_down ?m (s + of_nat n - 1) (d + of_nat n - 1) n" by simp
  also have "\<dots> = store_bytes ?m d (bytes_at ?m s n)"
    using Suc.prems by (intro Suc.IH) (simp_all add: down_safe_def)
  also have "bytes_at ?m s n = bytes_at m s n"
    using safe by (intro bytes_at_cong) (metis fun_upd_other)
  also have "store_bytes ?m d (bytes_at m s n)
      = (store_bytes m d (bytes_at m s n))(d + of_nat n := m (s + of_nat n))"
    using Suc.prems(2) by (intro store_bytes_upd) simp
  also have "\<dots> = store_bytes m d (bytes_at m s (n + 1))"
    by (simp only: bytes_at_add store_bytes_append bytes_at_simps bytes_at_Suc One_nat_def store_bytes.simps)
  finally show ?case by simp
qed

text \<open>The two directions of \<open>memmove\<close> are the safe ones for buffers that do not wrap round.\<close>

lemma up_safe_below:
  assumes "dest \<le> src" and "unat src + n \<le> 4294967296"
  shows "up_safe dest src n"
  unfolding up_safe_def
proof (intro allI impI notI)
  fix j i
  assume ij: "j < n" "i < j" and "dest + of_nat i = src + of_nat j"
  then have "unat (dest + of_nat i) = unat (src + of_nat j)" by simp
  with ij assms show False by (simp add: unat_plus_of_nat word_le_nat_alt)
qed

lemma down_safe_above:
  assumes "src < dest" and "unat dest + n \<le> 4294967296"
  shows "down_safe dest src n"
  unfolding down_safe_def
proof (intro allI impI notI)
  fix j i
  assume ij: "j < n" "i < j" and "dest + of_nat j = src + of_nat i"
  then have "unat (dest + of_nat j) = unat (src + of_nat i)" by simp
  with ij assms show False by (simp add: unat_plus_of_nat word_less_nat_alt)
qed

lemma up_safe_disjoint:
  assumes "unat src + n \<le> unat dest" and "unat dest + n \<le> 4294967296"
  shows "up_safe dest src n"
  unfolding up_safe_def
proof (intro allI impI notI)
  fix j i
  assume ij: "j < n" "i < j" and "dest + of_nat i = src + of_nat j"
  then have "unat (dest + of_nat i) = unat (src + of_nat j)" by simp
  with ij assms show False by (simp add: unat_plus_of_nat)
qed

definition no_wrap :: "addr \<Rightarrow> nat \<Rightarrow> bool" where
  "no_wrap a n \<longleftrightarrow> unat a + n \<le> 4294967296"

lemma memmove_eq:
  assumes "no_wrap dest (unat n)" and "no_wrap src (unat n)"
  shows "memmove m dest src n = store_bytes m dest (bytes_at m src (unat n))"
proof (cases "dest \<le> src")
  case True
  then show ?thesis using assms
    by (simp add: memmove_def no_wrap_def movsb_up_eq up_safe_below)
next
  case False
  then have "down_safe dest src (unat n)"
    using assms by (intro down_safe_above) (simp_all add: no_wrap_def)
  moreover have "unat n \<le> 4294967296" using u32_lt [of n] by simp
  ultimately show ?thesis
    using False movsb_down_eq [of dest src "unat n" m] by (simp add: memmove_def)
qed

section \<open>The contract of a block copy\<close>

text \<open>
  What the users of a block copy rely on: under \<open>safe\<close>, the destination receives the
  bytes the source held before the call, and nothing else changes.
\<close>

locale block_copy =
  fixes copy :: "mem \<Rightarrow> addr \<Rightarrow> addr \<Rightarrow> u32 \<Rightarrow> mem"
    and safe :: "addr \<Rightarrow> addr \<Rightarrow> nat \<Rightarrow> bool"
  assumes copies: "safe d s (unat n) \<Longrightarrow> copy m d s n = store_bytes m d (bytes_at m s (unat n))"
begin

lemma copy_inside:
  "safe d s (unat n) \<Longrightarrow> i < unat n \<Longrightarrow> copy m d s n (d + of_nat i) = m (s + of_nat i)"
  using u32_lt [of n] by (simp add: copies store_bytes_in)

lemma copy_outside:
  assumes "safe d s (unat n)" and "\<And>i. i < unat n \<Longrightarrow> a \<noteq> d + of_nat i"
  shows "copy m d s n a = m a"
  unfolding copies [OF assms(1)] by (rule store_bytes_out) (simp add: assms(2))

text \<open>Copying a block away and, after any change to it, copying it back restores it.\<close>

lemma save_restore:
  assumes "safe b v (unat n)" and "safe v b (unat n)"
    and "\<And>i. i < unat n \<Longrightarrow> m' (b + of_nat i) = copy m b v n (b + of_nat i)"
    and "i < unat n"
  shows "copy m' v b n (v + of_nat i) = m (v + of_nat i)"
  using assms by (simp add: copy_inside)

end

interpretation mcpy: block_copy memcpy up_safe
  by unfold_locales (simp add: memcpy_def memcpy_top_eq)

interpretation mmov: block_copy memmove "\<lambda>d s n. no_wrap d n \<and> no_wrap s n"
  by unfold_locales (simp add: memmove_eq)

section \<open>Properties\<close>

text \<open>C35: \<open>memset\<close>, whose assembly stores single bytes up to a 4-byte boundary, then
  double words, then the remaining bytes, is the plain byte fill: for every address, value and
  length it stores the low byte of \<open>c\<close> to exactly the \<open>n\<close> bytes at \<open>s\<close>.\<close>

theorem memset_correct:
  "memset m s c n = store_bytes m s (replicate (unat n) (ucast c))"
proof -
  let ?p = "let c = c AND 0xFF in push_bit 24 c OR push_bit 16 c OR push_bit 8 c OR c"
  have "bytes_of_u32 ?p = [ucast c, ucast c, ucast c, ucast c]"
    unfolding bytes_of_u32_def by (simp only: memset_pattern [OF refl])
  then show ?thesis by (simp add: memset_def Let_def memset_top_eq)
qed

text \<open>C34: \<open>memcpy\<close>, whose assembly copies a byte prefix, aligned double words and a byte
  tail, gives every destination byte the value the source byte had before the call and leaves
  the rest of memory alone, whenever no store hits a source byte still to be read (in
  particular for disjoint buffers).\<close>

theorem memcpy_correct:
  assumes "up_safe dest src (unat n)"
  shows "(\<forall>i < unat n. memcpy m dest src n (dest + of_nat i) = m (src + of_nat i))
    \<and> (\<forall>a. (\<forall>i < unat n. a \<noteq> dest + of_nat i) \<longrightarrow> memcpy m dest src n a = m a)"
  using assms mcpy.copy_inside mcpy.copy_outside by blast

text \<open>The hypothesis holds for the two video pages the terminal switch copies between.\<close>

theorem memcpy_correct_witness:
  "up_safe 0xB9000 0xB8000 (unat (4096 :: u32)) \<and>
   memcpy (\<lambda>a. ucast a) 0xB9000 0xB8000 4096 (0xB9000 + of_nat 7) = 7"
proof -
  have safe: "up_safe 0xB9000 0xB8000 (unat (4096 :: u32))"
    by (rule up_safe_disjoint) simp_all
  have all: "\<forall>i < 4096. memcpy (\<lambda>a. ucast a) 0xB9000 0xB8000 4096 (0xB9000 + of_nat i)
      = (ucast (0xB8000 + of_nat i :: u32) :: byte)"
    using memcpy_correct [OF safe, of "\<lambda>a. ucast a"] by simp
  show ?thesis using safe all [rule_format, of 7] by simp
qed

text \<open>\<open>memmove\<close> is correct for overlapping buffers: whatever the overlap, as long as
  neither buffer wraps round the address space, the destination ends up with the bytes the
  source held before the call and nothing else changes.\<close>

lemma memmove_correct:
  assumes "no_wrap dest (unat n)" and "no_wrap src (unat n)"
  shows "(\<forall>i < unat n. memmove m dest src n (dest + of_nat i) = m (src + of_nat i))
    \<and> (\<forall>a. (\<forall>i < unat n. a \<noteq> dest + of_nat i) \<longrightarrow> memmove m dest src n a = m a)"
  using assms mmov.copy_inside mmov.copy_outside by blast

lemma memmove_correct_witness:
  "memmove (\<lambda>a. ucast a) 0x1001 0x1000 3 (0x1001 + of_nat 2) = 2 \<and>
   memmove (\<lambda>a. ucast a) 0x1001 0x1000 3 (0x1001 + of_nat 0) = 0"
proof -
  have "no_wrap 0x1001 (unat (3 :: u32))" "no_wrap 0x1000 (unat (3 :: u32))"
    by (simp_all add: no_wrap_def)
  from memmove_correct [OF this, of "\<lambda>a. ucast a"]
  have all: "\<forall>i < 3. memmove (\<lambda>a. ucast a) 0x1001 0x1000 3 (0x1001 + of_nat i)
      = (ucast (0x1000 + of_nat i :: u32) :: byte)" by simp
  show ?thesis using all [rule_format, of 2] all [rule_format, of 0] by simp
qed

text \<open>\<open>memset_word\<close> and \<open>memset_dword\<close> store \<open>n\<close> elements, not \<open>n\<close> bytes: the
  little-endian bytes of the 16-bit (32-bit) value, \<open>n\<close> times over, from \<open>s\<close> upwards.\<close>

lemma memset_words_correct:
  "memset_word m s c n = store_bytes m s (concat (replicate (unat n) (bytes_of_u16 (ucast c))))
   \<and> memset_dword m s c n = store_bytes m s (concat (replicate (unat n) (bytes_of_u32 c)))"
  by (simp add: memset_word_def memset_dword_def rep_stosw_eq rep_stosl_eq)

end
