(* ===== verification/Lib_String.thy ===== *)
theory Lib_String
  imports Prelude
begin

text \<open>
  The string routines of \<open>lib.c\<close>: \<open>strlen\<close>, \<open>strncmp\<close>, \<open>strcpy\<close>, \<open>strncpy\<close>,
  \<open>strrev\<close> and \<open>itoa\<close>.  A source string is a \<open>ptr\<close>, a destination buffer is the
  list of bytes the routine stores.  The loops that only stop at a terminating NUL are
  \<open>partial_function (option)\<close>: \<open>None\<close> is a loop that never ends.  Characters are
  \<open>int8_t\<close>, so the difference \<open>strncmp\<close> returns is of signed values.
\<close>

section \<open>The routines\<close>

partial_function (option) strlen_from :: "ptr \<Rightarrow> nat \<Rightarrow> nat option" where
  "strlen_from s len = (if s len \<noteq> 0 then strlen_from s (Suc len) else Some len)"

definition strlen :: "ptr \<Rightarrow> nat option" where
  "strlen s = strlen_from s 0"

function strncmp_from :: "ptr \<Rightarrow> ptr \<Rightarrow> nat \<Rightarrow> nat \<Rightarrow> int" where
  "strncmp_from s1 s2 n i =
     (if i < n
      then if s1 i \<noteq> s2 i \<or> s1 i = 0 then sint (s1 i) - sint (s2 i)
           else strncmp_from s1 s2 n (Suc i)
      else 0)"
  by pat_completeness auto
termination by (relation "measure (\<lambda>(s1, s2, n, i). n - i)") auto

declare strncmp_from.simps [simp del]

definition strncmp :: "ptr \<Rightarrow> ptr \<Rightarrow> u32 \<Rightarrow> int" where
  "strncmp s1 s2 n = strncmp_from s1 s2 (unat n) 0"

partial_function (option) strcpy_from :: "ptr \<Rightarrow> nat \<Rightarrow> byte list \<Rightarrow> byte list option" where
  "strcpy_from src i dest =
     (if src i \<noteq> 0 then strcpy_from src (Suc i) (dest @ [src i]) else Some (dest @ [0]))"

definition strcpy :: "ptr \<Rightarrow> byte list option" where
  "strcpy src = strcpy_from src 0 []"

function strncpy_copy :: "ptr \<Rightarrow> nat \<Rightarrow> nat \<Rightarrow> byte list \<Rightarrow> byte list" where
  "strncpy_copy src n i dest =
     (if src i \<noteq> 0 \<and> i < n then strncpy_copy src n (Suc i) (dest @ [src i]) else dest)"
  by pat_completeness auto
termination by (relation "measure (\<lambda>(src, n, i, dest). n - i)") auto

function strncpy_pad :: "nat \<Rightarrow> nat \<Rightarrow> byte list \<Rightarrow> byte list" where
  "strncpy_pad n i dest = (if i < n then strncpy_pad n (Suc i) (dest @ [0]) else dest)"
  by pat_completeness auto
termination by (relation "measure (\<lambda>(n, i, dest). n - i)") auto

declare strncpy_copy.simps [simp del] strncpy_pad.simps [simp del]

definition strncpy :: "ptr \<Rightarrow> u32 \<Rightarrow> byte list" where
  "strncpy src n =
     (let dest = strncpy_copy src (unat n) 0 [] in strncpy_pad (unat n) (length dest) dest)"

function strrev_loop :: "byte list \<Rightarrow> int \<Rightarrow> int \<Rightarrow> byte list" where
  "strrev_loop s beg fin =
     (if beg < fin
      then let tmp = s ! nat fin; s1 = s[nat fin := s ! nat beg]; s2 = s1[nat beg := tmp]
           in strrev_loop s2 (beg + 1) (fin - 1)
      else s)"
  by pat_completeness auto
termination by (relation "measure (\<lambda>(s, b, l). nat (l - b))") auto

declare strrev_loop.simps [simp del]

definition strrev :: "byte list \<Rightarrow> byte list option" where
  "strrev s = map_option (\<lambda>n. strrev_loop s 0 (int n - 1)) (strlen (of_bytes s))"

definition itoa_lookup :: "byte list" where
  "itoa_lookup = chars ''0123456789ABCDEFGHIJKLMNOPQRSTUVWXYZ'' @ [0]"

text \<open>
  The digit loop.  \<open>None\<close> stands for the runs that do not produce a string: a zero radix
  raises the divide exception, a radix of one never ends, and a digit beyond the table reads
  outside it.
\<close>

partial_function (option) itoa_loop :: "u32 \<Rightarrow> u32 \<Rightarrow> byte list \<Rightarrow> byte list option" where
  "itoa_loop newval radix newbuf =
     (if newval > 0
      then if radix = 0 \<or> length itoa_lookup \<le> unat (newval mod radix) then None
           else itoa_loop (newval div radix) radix (newbuf @ [itoa_lookup ! unat (newval mod radix)])
      else Some newbuf)"

definition itoa :: "u32 \<Rightarrow> u32 \<Rightarrow> byte list option" where
  "itoa val radix =
     (if val = 0 then Some (chars ''0'' @ [0])
      else case itoa_loop val radix [] of None \<Rightarrow> None | Some ds \<Rightarrow> strrev (ds @ [0]))"

section \<open>Length of a string\<close>

text \<open>\<open>is_cstr s n\<close>: the string at \<open>s\<close> is NUL-terminated and has length \<open>n\<close>.\<close>

definition is_cstr :: "ptr \<Rightarrow> nat \<Rightarrow> bool" where
  "is_cstr s n \<longleftrightarrow> s n = 0 \<and> (\<forall>i<n. s i \<noteq> 0)"

lemma is_cstr_unique: "is_cstr s n \<Longrightarrow> is_cstr s n' \<Longrightarrow> n = n'"
  by (metis is_cstr_def linorder_neqE_nat)

lemma strlen_from_Some:
  assumes "is_cstr s n" and "i \<le> n"
  shows "strlen_from s i = Some n"
  using assms(2)
proof (induction rule: inc_induct)
  case base
  then show ?case using assms(1) by (simp add: is_cstr_def strlen_from.simps)
next
  case (step i)
  then show ?case using assms(1) by (simp add: is_cstr_def strlen_from.simps [of s i])
qed

lemma strlen_Some: "is_cstr s n \<Longrightarrow> strlen s = Some n"
  by (simp add: strlen_def strlen_from_Some)

lemma strlen_from_inv:
  assumes "strlen_from s i = Some n"
  shows "s n = 0 \<and> i \<le> n \<and> (\<forall>k. i \<le> k \<and> k < n \<longrightarrow> s k \<noteq> 0)"
proof (rule strlen_from.raw_induct
    [where P = "\<lambda>s i n. s n = 0 \<and> i \<le> n \<and> (\<forall>k. i \<le> k \<and> k < n \<longrightarrow> s k \<noteq> 0)", OF _ assms])
  fix f s i n
  assume IH: "\<And>s i n. f s i = Some n \<Longrightarrow> s n = 0 \<and> i \<le> n \<and> (\<forall>k. i \<le> k \<and> k < n \<longrightarrow> s k \<noteq> 0)"
    and eq: "(if s i \<noteq> (0 :: byte) then f s (Suc i) else Some i) = Some n"
  show "s n = 0 \<and> i \<le> n \<and> (\<forall>k. i \<le> k \<and> k < n \<longrightarrow> s k \<noteq> 0)"
  proof (cases "s i = 0")
    case True
    then show ?thesis using eq by auto
  next
    case False
    then have "f s (Suc i) = Some n" using eq by simp
    from IH [OF this] have "s n = 0" "Suc i \<le> n" "\<And>k. Suc i \<le> k \<Longrightarrow> k < n \<Longrightarrow> s k \<noteq> 0"
      by auto
    with False show ?thesis by (metis Suc_leD Suc_leI le_neq_implies_less)
  qed
qed

lemma strlen_iff: "strlen s = Some n \<longleftrightarrow> is_cstr s n"
proof
  assume "strlen s = Some n"
  then have "strlen_from s 0 = Some n" by (simp add: strlen_def)
  from strlen_from_inv [OF this] show "is_cstr s n" by (simp add: is_cstr_def)
qed (rule strlen_Some)

lemma is_cstr_of_bytes: "0 \<notin> set xs \<Longrightarrow> is_cstr (of_bytes (xs @ [0])) (length xs)"
  by (auto simp: is_cstr_def of_bytes_def nth_append in_set_conv_nth)

lemma strlen_of_bytes [simp]: "0 \<notin> set xs \<Longrightarrow> strlen (of_bytes (xs @ [0])) = Some (length xs)"
  by (simp add: strlen_Some is_cstr_of_bytes)


section \<open>Comparison and copying\<close>

text \<open>
  \<open>strncmp\<close> compares up to the first difference or the first NUL, within the first \<open>n\<close>
  bytes; \<open>cstr_eq n s1 s2\<close> says that the two strings agree as far as it looks.
\<close>

definition cstr_eq :: "nat \<Rightarrow> ptr \<Rightarrow> ptr \<Rightarrow> bool" where
  "cstr_eq n s1 s2 \<longleftrightarrow> (\<forall>i<n. (\<forall>k<i. s1 k \<noteq> 0) \<longrightarrow> s1 i = s2 i)"

lemma cstr_eq_nonzero:
  assumes "\<forall>i<n. s2 i \<noteq> 0"
  shows "cstr_eq n s1 s2 \<longleftrightarrow> (\<forall>i<n. s1 i = s2 i)"
proof
  assume eq: "cstr_eq n s1 s2"
  have "i < n \<longrightarrow> s1 i = s2 i" for i
  proof (induction i rule: less_induct)
    case (less i)
    then show ?case using eq assms unfolding cstr_eq_def by (metis less_trans)
  qed
  then show "\<forall>i<n. s1 i = s2 i" by simp
qed (simp add: cstr_eq_def)

lemma strncmp_from_0:
  "(\<forall>k<i. s1 k \<noteq> 0) \<Longrightarrow>
    strncmp_from s1 s2 n i = 0 \<longleftrightarrow> (\<forall>j. i \<le> j \<and> j < n \<and> (\<forall>k<j. s1 k \<noteq> 0) \<longrightarrow> s1 j = s2 j)"
proof (induction s1 s2 n i rule: strncmp_from.induct)
  case (1 s1 s2 n i)
  show ?case
  proof (cases "i < n \<and> s1 i = s2 i \<and> s1 i \<noteq> 0")
    case True
    then have "strncmp_from s1 s2 n i = strncmp_from s1 s2 n (Suc i)"
      by (subst strncmp_from.simps) auto
    moreover have "strncmp_from s1 s2 n (Suc i) = 0 \<longleftrightarrow>
        (\<forall>j. Suc i \<le> j \<and> j < n \<and> (\<forall>k<j. s1 k \<noteq> 0) \<longrightarrow> s1 j = s2 j)"
      using True "1.prems" by (intro "1.IH") (auto simp: less_Suc_eq)
    moreover have "i \<le> j \<longleftrightarrow> j = i \<or> Suc i \<le> j" for j by auto
    ultimately show ?thesis using True by (simp only:) blast
  next
    case False
    show ?thesis
    proof (cases "i < n")
      case True
      then have "strncmp_from s1 s2 n i = sint (s1 i) - sint (s2 i)"
        using False by (subst strncmp_from.simps) auto
      then have "strncmp_from s1 s2 n i = 0 \<longleftrightarrow> s1 i = s2 i"
        by (simp flip: word_eq_iff_signed)
      then show ?thesis using True False "1.prems" by (metis le_neq_implies_less order_refl)
    next
      case False
      then show ?thesis by (subst strncmp_from.simps) auto
    qed
  qed
qed

lemma strncmp_0_iff: "strncmp s1 s2 n = 0 \<longleftrightarrow> cstr_eq (unat n) s1 s2"
  by (auto simp: strncmp_def strncmp_from_0 cstr_eq_def)

lemma strcpy_from_Some:
  assumes "is_cstr src n" and "i \<le> n"
  shows "strcpy_from src i dest = Some (dest @ map src [i..<n] @ [0])"
  using assms(2)
proof (induction arbitrary: dest rule: inc_induct)
  case base
  then show ?case using assms(1) by (simp add: is_cstr_def strcpy_from.simps)
next
  case (step i)
  then show ?case using assms(1)
    by (simp add: is_cstr_def strcpy_from.simps [of src i] upt_conv_Cons)
qed

lemma strcpy_Some: "is_cstr src n \<Longrightarrow> strcpy src = Some (map src [0..<n] @ [0])"
  by (simp add: strcpy_def strcpy_from_Some)

lemma strncpy_pad_eq: "strncpy_pad n i dest = dest @ replicate (n - i) 0"
  by (induction n i dest rule: strncpy_pad.induct)
     (subst strncpy_pad.simps, auto simp: Suc_diff_Suc simp flip: replicate_Suc)

text \<open>What \<open>strncpy\<close> stores at offset \<open>i\<close>: the source byte up to the first NUL, then NULs.\<close>

definition strncpy_byte :: "ptr \<Rightarrow> nat \<Rightarrow> byte" where
  "strncpy_byte src i = (if \<forall>k\<le>i. src k \<noteq> 0 then src i else 0)"

lemma strncpy_copy_pad:
  "(\<forall>k<i. src k \<noteq> 0) \<Longrightarrow> i \<le> n \<Longrightarrow> length dest = i \<Longrightarrow>
    (let d = strncpy_copy src n i dest in strncpy_pad n (length d) d)
      = dest @ map (strncpy_byte src) [i..<n]"
proof (induction src n i dest rule: strncpy_copy.induct)
  case (1 src n i dest)
  show ?case
  proof (cases "src i \<noteq> 0 \<and> i < n")
    case True
    then have "strncpy_byte src i = src i"
      using "1.prems"(1) by (auto simp: strncpy_byte_def le_less)
    moreover have "\<forall>k<Suc i. src k \<noteq> 0" using True "1.prems"(1) by (auto simp: less_Suc_eq)
    ultimately show ?thesis
      using True "1.IH" "1.prems" by (subst strncpy_copy.simps) (simp add: upt_conv_Cons)
  next
    case False
    have "map (strncpy_byte src) [i..<n] = replicate (n - i) 0"
      using False by (intro replicate_eqI) (auto simp: strncpy_byte_def)
    then show ?thesis
      using False "1.prems" by (subst strncpy_copy.simps) (auto simp: strncpy_pad_eq)
  qed
qed

lemma strncpy_eq: "strncpy src n = map (strncpy_byte src) [0..<unat n]"
  using strncpy_copy_pad [of 0 src "unat n" "[]"] by (simp add: strncpy_def)

section \<open>Reversal and number conversion\<close>

lemma strrev_loop_nth:
  "0 \<le> beg \<Longrightarrow> fin < int (length s) \<Longrightarrow>
    length (strrev_loop s beg fin) = length s \<and>
    (\<forall>k < length s. strrev_loop s beg fin ! k =
       (if beg \<le> int k \<and> int k \<le> fin then s ! nat (beg + fin - int k) else s ! k))"
proof (induction s beg fin rule: strrev_loop.induct)
  case (1 s beg fin)
  show ?case
  proof (cases "beg < fin")
    case True
    let ?s = "s[nat fin := s ! nat beg, nat beg := s ! nat fin]"
    have step: "strrev_loop s beg fin = strrev_loop ?s (beg + 1) (fin - 1)"
      using True by (subst strrev_loop.simps) (simp add: Let_def)
    have IH: "length (strrev_loop ?s (beg + 1) (fin - 1)) = length s \<and>
      (\<forall>k < length s. strrev_loop ?s (beg + 1) (fin - 1) ! k =
        (if beg + 1 \<le> int k \<and> int k \<le> fin - 1 then ?s ! nat (beg + fin - int k) else ?s ! k))"
      using "1.IH" [OF True refl refl refl] "1.prems" by simp
    have "?s ! nat (beg + fin - int k) = s ! nat (beg + fin - int k)"
      if "beg + 1 \<le> int k" "int k \<le> fin - 1" for k
    proof -
      have "nat (beg + fin - int k) \<noteq> nat beg" "nat (beg + fin - int k) \<noteq> nat fin"
        using that "1.prems" by (simp_all add: nat_eq_iff)
      then show ?thesis by simp
    qed
    with IH step "1.prems" True show ?thesis
      by (auto simp: nth_list_update nat_eq_iff)
  next
    case False
    then have "nat (beg + fin - int k) = k" if "beg \<le> int k" "int k \<le> fin" for k
      using that by linarith
    with False show ?thesis by (subst (1 2) strrev_loop.simps) auto
  qed
qed

lemma strrev_loop_prefix: "strrev_loop (xs @ ys) 0 (int (length xs) - 1) = rev xs @ ys"
proof (intro nth_equalityI)
  fix k
  assume "k < length (strrev_loop (xs @ ys) 0 (int (length xs) - 1))"
  moreover have "nat (int (length xs) - 1 - int k) = length xs - Suc k" by simp
  ultimately show "strrev_loop (xs @ ys) 0 (int (length xs) - 1) ! k = (rev xs @ ys) ! k"
    using strrev_loop_nth [of 0 "int (length xs) - 1" "xs @ ys"] by (auto simp: nth_append rev_nth)
qed (simp add: strrev_loop_nth)

lemma strrev_string: "0 \<notin> set xs \<Longrightarrow> strrev (xs @ [0]) = Some (rev xs @ [0])"
  by (simp add: strrev_def strrev_loop_prefix)

text \<open>The digits of \<open>n\<close> in base \<open>r\<close>, least significant first, and the value of a digit string.\<close>

function lsd :: "nat \<Rightarrow> nat \<Rightarrow> nat list" where
  "lsd r n = (if n = 0 \<or> r < 2 then [] else n mod r # lsd r (n div r))"
  by pat_completeness auto
termination by (relation "measure snd") auto

declare lsd.simps [simp del]

definition numval :: "nat \<Rightarrow> nat list \<Rightarrow> nat" where
  "numval r ds = foldl (\<lambda>a d. a * r + d) 0 ds"

lemma lsd_digits: "d \<in> set (lsd r n) \<Longrightarrow> d < r"
proof (induction r n rule: lsd.induct)
  case (1 r n)
  then show ?case by (subst (asm) lsd.simps) (auto split: if_splits)
qed

lemma numval_lsd: "2 \<le> r \<Longrightarrow> numval r (rev (lsd r n)) = n"
proof (induction r n rule: lsd.induct)
  case (1 r n)
  then show ?case by (subst lsd.simps) (auto simp: numval_def)
qed

lemma lsd_last: "2 \<le> r \<Longrightarrow> n \<noteq> 0 \<Longrightarrow> lsd r n \<noteq> [] \<and> last (lsd r n) \<noteq> 0"
proof (induction r n rule: lsd.induct)
  case (1 r n)
  show ?case
  proof (cases "n < r")
    case True
    then have "lsd r (n div r) = []" by (subst lsd.simps) simp
    then show ?thesis using True 1 by (subst (1 2) lsd.simps) auto
  next
    case False
    then have "n div r \<noteq> 0" using 1 by (simp add: div_eq_0_iff)
    then show ?thesis using 1 by (subst (1 2) lsd.simps) auto
  qed
qed

lemma length_lsd: "2 \<le> r \<Longrightarrow> n < r ^ k \<Longrightarrow> length (lsd r n) \<le> k"
proof (induction k arbitrary: n)
  case 0
  then show ?case by (subst lsd.simps) simp
next
  case (Suc k)
  then have "n div r < r ^ k" by (simp add: less_mult_imp_div_less mult.commute)
  with Suc show ?case by (subst lsd.simps) auto
qed

lemma itoa_lookup_props: "length itoa_lookup = 37" "d < 36 \<Longrightarrow> itoa_lookup ! d \<noteq> 0"
proof -
  have *: "list_all (\<lambda>b. b \<noteq> 0) (take 36 itoa_lookup)" "length itoa_lookup = 37"
    by (simp_all add: itoa_lookup_def chars_def)
  then show "length itoa_lookup = 37" by simp
  show "itoa_lookup ! d \<noteq> 0" if "d < 36"
    using * that by (auto simp: list_all_length)
qed

lemma itoa_loop_eq:
  assumes "2 \<le> unat radix" and "unat radix \<le> 36"
  shows "itoa_loop v radix buf = Some (buf @ map ((!) itoa_lookup) (lsd (unat radix) (unat v)))"
proof (induction "unat v" arbitrary: v buf rule: less_induct)
  case less
  show ?case
  proof (cases "v = 0")
    case True
    then show ?thesis by (simp add: itoa_loop.simps lsd.simps)
  next
    case False
    then have pos: "0 < v" "unat v \<noteq> 0" by (simp_all add: word_gt_0 unat_eq_0)
    have d: "unat (v div radix) = unat v div unat radix" "unat (v mod radix) = unat v mod unat radix"
      by (simp_all add: unat_div_distrib unat_mod_distrib)
    have "unat (v div radix) < unat v" using assms pos d by simp
    note IH = less [OF this]
    have digit: "unat v mod unat radix < 36"
      using assms mod_less_divisor [of "unat radix" "unat v"] by linarith
    have "lsd (unat radix) (unat v) = unat v mod unat radix # lsd (unat radix) (unat v div unat radix)"
      using assms pos by (subst lsd.simps) simp
    moreover have "radix \<noteq> 0" using assms by auto
    ultimately show ?thesis
      using IH pos digit by (subst itoa_loop.simps) (simp add: d itoa_lookup_props)
  qed
qed

lemma itoa_digits:
  assumes "2 \<le> unat radix" and "unat radix \<le> 36" and "v \<noteq> 0"
  shows "itoa v radix = Some (map ((!) itoa_lookup) (rev (lsd (unat radix) (unat v))) @ [0])"
proof -
  let ?ds = "lsd (unat radix) (unat v)"
  have "0 \<notin> set (map ((!) itoa_lookup) ?ds)"
    using lsd_digits [of _ "unat radix" "unat v"] itoa_lookup_props(2) assms(2)
    by (metis (no_types, lifting) imageE image_set order_less_le_trans)
  then show ?thesis
    using assms by (simp add: itoa_def itoa_loop_eq strrev_string rev_map)
qed

section \<open>Properties\<close>

text \<open>C36: \<open>itoa\<close> round trip and bounds: for every value and every radix from 2 to 36 the
  loop terminates and the buffer holds a NUL-terminated digit string whose digits are all
  below the radix, whose value in that base is the number converted, which has no leading
  zero unless the number is zero, and which has at most 32 digits; in base 10 at most 10
  digits and in base 16 at most 8, so that \<open>printf\<close>'s conversion buffers of 36 and 64
  bytes are never overrun.\<close>

theorem itoa_correct:
  assumes "2 \<le> unat radix" and "unat radix \<le> 36"
  shows "\<exists>ds. itoa v radix = Some (map ((!) itoa_lookup) ds @ [0])
    \<and> ds \<noteq> [] \<and> (\<forall>d \<in> set ds. d < unat radix) \<and> numval (unat radix) ds = unat v
    \<and> (v \<noteq> 0 \<longrightarrow> hd ds \<noteq> 0) \<and> length ds \<le> 32
    \<and> (radix = 10 \<longrightarrow> length ds \<le> 10) \<and> (radix = 16 \<longrightarrow> length ds \<le> 8)"
proof (cases "v = 0")
  case True
  then show ?thesis using assms
    by (intro exI [of _ "[0]"]) (simp add: itoa_def itoa_lookup_def chars_def numval_def)
next
  case False
  let ?ds = "rev (lsd (unat radix) (unat v))"
  have "unat v < unat radix ^ 32"
  proof -
    have "(2 :: nat) ^ 32 \<le> unat radix ^ 32" using assms(1) by (rule power_mono) simp
    with u32_lt [of v] show ?thesis by simp
  qed
  moreover have "radix = 10 \<Longrightarrow> unat v < unat radix ^ 10" "radix = 16 \<Longrightarrow> unat v < unat radix ^ 8"
    using u32_lt [of v] by simp_all
  ultimately show ?thesis
    using assms False lsd_last [of "unat radix" "unat v"] lsd_digits [of _ "unat radix" "unat v"]
      length_lsd [of "unat radix" "unat v"]
    by (intro exI [of _ ?ds])
       (auto simp: itoa_digits numval_lsd hd_rev unat_eq_0)
qed

theorem itoa_correct_witness:
  "\<exists>ds. itoa 391 10 = Some (map ((!) itoa_lookup) ds @ [0]) \<and> numval 10 ds = 391 \<and> length ds \<le> 10"
  using itoa_correct [of 10 391] by auto

text \<open>\<open>strncmp\<close> returns zero exactly when the two strings agree up to the first NUL or
  up to \<open>n\<close> bytes, whichever comes first.\<close>

lemma strncmp_equal: "strncmp s1 s2 n = 0 \<longleftrightarrow> cstr_eq (unat n) s1 s2"
  by (rule strncmp_0_iff)

text \<open>\<open>strncpy\<close> always stores exactly \<open>n\<close> bytes: the source up to its NUL, then NUL
  bytes; without a NUL among the first \<open>n\<close> source bytes the result is not terminated.\<close>

lemma strncpy_correct:
  "length (strncpy src n) = unat n
   \<and> (\<forall>i < unat n. strncpy src n ! i = (if \<forall>k\<le>i. src k \<noteq> 0 then src i else 0))
   \<and> ((\<forall>k < unat n. src k \<noteq> 0) \<longrightarrow> 0 \<notin> set (strncpy src n))"
  by (auto simp: strncpy_eq strncpy_byte_def)

lemma strncpy_correct_witness:
  "length (strncpy (of_bytes [0x61, 0x62, 0x63, 0]) 2) = 2
   \<and> strncpy (of_bytes [0x61, 0x62, 0x63, 0]) 2 ! 1 = 0x62
   \<and> 0 \<notin> set (strncpy (of_bytes [0x61, 0x62, 0x63, 0]) 2)"
proof -
  have le: "\<forall>k \<le> 1. of_bytes [0x61, 0x62, 0x63, 0] k \<noteq> 0"
    by (auto simp: of_bytes_def le_Suc_eq)
  then have nz: "\<forall>k < unat (2 :: u32). of_bytes [0x61, 0x62, 0x63, 0] k \<noteq> 0" by simp
  from le show ?thesis
    using strncpy_correct [of "of_bytes [0x61, 0x62, 0x63, 0]" 2] nz by (simp add: of_bytes_def)
qed

end
