(* ===== verification/File_System.thy ===== *)
theory File_System
  imports Lib_Mem Lib_String
begin

text \<open>
  The read-only file system of \<open>file_system.c\<close>: the boot block, directory entries, inodes
  and data blocks of the image GRUB loads at \<open>file_system_addr\<close>, and the routines that
  search and read it, with the helpers of \<open>execute\<close> (\<open>parse_command\<close>,
  \<open>check_validity\<close>, \<open>program_loader\<close>).  The image is the memory \<open>m\<close> itself, every
  field is loaded at the offset the C structs give it, and all address and index arithmetic
  is on 32-bit words.  An output buffer is the list of bytes stored to it, in order; the
  buffers never overlap the image, which no kernel code writes.
\<close>

section \<open>Data\<close>

record fs =
  file_system_addr :: addr
  dentry_num :: u32
  inode_num :: u32
  block_num :: u32

record dentry =
  file_name :: "byte list"
  file_type :: u32
  d_inode_idx :: u32
  reserved :: "byte list"

definition NAME_LENGTH_MAX :: nat where "NAME_LENGTH_MAX = 32"
definition RESERVE_LENGTH :: nat where "RESERVE_LENGTH = 24"
definition DATA_LENGTH :: u32 where "DATA_LENGTH = 4096"
definition MAGIC_NUM_LENGTH :: int where "MAGIC_NUM_LENGTH = 4"
definition EXEC_HEAD :: "byte list" where "EXEC_HEAD = [0x7f, 0x45, 0x4c, 0x46]"

lemmas [const_defs] = NAME_LENGTH_MAX_def RESERVE_LENGTH_def DATA_LENGTH_def
  MAGIC_NUM_LENGTH_def EXEC_HEAD_def

text \<open>\<open>dentry_t\<close> is 64 bytes: name at 0, type at 32, inode at 36, reserved at 40.\<close>

definition load_dentry :: "mem \<Rightarrow> addr \<Rightarrow> dentry" where
  "load_dentry m a = \<lparr>file_name = bytes_at m a NAME_LENGTH_MAX,
     file_type = load32 m (a + 32), d_inode_idx = load32 m (a + 36),
     reserved = bytes_at m (a + 40) RESERVE_LENGTH\<rparr>"

definition dentry_addr :: "fs \<Rightarrow> u32 \<Rightarrow> addr" where
  "dentry_addr fs index = file_system_addr fs + 64 * (index + 1)"

definition inode_addr :: "fs \<Rightarrow> u32 \<Rightarrow> addr" where
  "inode_addr fs inode = file_system_addr fs + 4096 * (inode + 1)"

definition inode_length :: "fs \<Rightarrow> mem \<Rightarrow> u32 \<Rightarrow> u32" where
  "inode_length fs m inode = load32 m (inode_addr fs inode)"

definition inode_block :: "fs \<Rightarrow> mem \<Rightarrow> u32 \<Rightarrow> u32 \<Rightarrow> u32" where
  "inode_block fs m inode k = load32 m (inode_addr fs inode + 4 + 4 * k)"

definition data_addr :: "fs \<Rightarrow> u32 \<Rightarrow> addr" where
  "data_addr fs block = file_system_addr fs + 4096 * (1 + inode_num fs + block)"

section \<open>Operations\<close>

definition boot_block_fs :: "mem \<Rightarrow> u32 \<Rightarrow> fs" where
  "boot_block_fs m fs_addr = \<lparr>file_system_addr = fs_addr, dentry_num = load32 m fs_addr,
     inode_num = load32 m (fs_addr + 4), block_num = load32 m (fs_addr + 8)\<rparr>"

text \<open>
  \<open>dentry\<close> is the object the \<open>dentry_t*\<close> argument points to, \<open>None\<close> for a NULL pointer;
  it is returned as the call leaves it.
\<close>

function find_dentry :: "fs \<Rightarrow> mem \<Rightarrow> ptr \<Rightarrow> dentry option \<Rightarrow> u32 \<Rightarrow> int \<times> dentry option" where
  "find_dentry fs m fname dentry dentry_idx =
     (if dentry_idx < dentry_num fs
      then if strncmp fname (at m (dentry_addr fs dentry_idx)) (of_nat NAME_LENGTH_MAX) = 0
           then (0, Some (load_dentry m (dentry_addr fs dentry_idx)))
           else find_dentry fs m fname dentry (dentry_idx + 1)
      else (-1, dentry))"
  by pat_completeness auto
termination
  by (relation "measure (\<lambda>(fs, m, f, d, i). unat (dentry_num fs) - unat i)")
     (auto simp: u32_suc_le word_less_nat_alt)

declare find_dentry.simps [simp del]

definition read_dentry_by_name ::
  "fs \<Rightarrow> mem \<Rightarrow> ptr option \<Rightarrow> dentry option \<Rightarrow> (int \<times> dentry option) option" where
  "read_dentry_by_name fs m fname dentry =
     (case fname of
        None \<Rightarrow> Some (-1, dentry)
      | Some f \<Rightarrow>
          if dentry = None then Some (-1, dentry)
          else map_option (\<lambda>len. if len > 32 then (-1, dentry) else find_dentry fs m f dentry 0)
                 (strlen f))"

definition read_dentry_by_index :: "fs \<Rightarrow> mem \<Rightarrow> u32 \<Rightarrow> dentry option \<Rightarrow> int \<times> dentry option" where
  "read_dentry_by_index fs m index dentry =
     (if index \<ge> dentry_num fs \<or> dentry = None then (-1, dentry)
      else (0, Some (load_dentry m (dentry_addr fs index))))"

definition get_file_size :: "fs \<Rightarrow> mem \<Rightarrow> dentry option \<Rightarrow> int" where
  "get_file_size fs m dentry =
     (case dentry of
        None \<Rightarrow> -1
      | Some d \<Rightarrow>
          if d_inode_idx d \<ge> inode_num fs then -1
          else sint (inode_length fs m (d_inode_idx d)))"

function read_data_loop ::
  "fs \<Rightarrow> mem \<Rightarrow> u32 \<Rightarrow> u32 \<Rightarrow> u32 \<Rightarrow> u32 \<Rightarrow> byte list \<Rightarrow> byte list \<times> int" where
  "read_data_loop fs m inode offset fin i buf =
     (if i < fin
      then let block_idx = inode_block fs m inode (i div DATA_LENGTH)
           in if block_idx \<ge> block_num fs then (buf, sint (i - offset - 1))
              else let buf' = buf @ [m (data_addr fs block_idx + i mod DATA_LENGTH)]
                   in if i = inode_length fs m inode then (buf', sint (i - offset))
                      else read_data_loop fs m inode offset fin (i + 1) buf'
      else (buf, sint (i - offset)))"
  by pat_completeness auto
termination
  by (relation "measure (\<lambda>(fs, m, inode, offset, fin, i, buf). unat fin - unat i)")
     (auto simp: u32_suc_le word_less_nat_alt)

declare read_data_loop.simps [simp del]

text \<open>\<open>buf\<close> is whether the buffer pointer is non-NULL.\<close>

definition read_data :: "fs \<Rightarrow> mem \<Rightarrow> u32 \<Rightarrow> u32 \<Rightarrow> bool \<Rightarrow> int \<Rightarrow> byte list \<times> int" where
  "read_data fs m inode offset buf len =
     (if inode \<ge> inode_num fs \<or> \<not> buf \<or> len < 0 then ([], -1)
      else read_data_loop fs m inode offset (offset + word_of_int len) offset [])"

text \<open>The bytes \<open>program_loader\<close> stores from \<open>0x08048000\<close> on, and its return value.\<close>

definition program_loader :: "fs \<Rightarrow> mem \<Rightarrow> dentry \<Rightarrow> byte list \<times> int" where
  "program_loader fs m prog_dentry =
     (let len = get_file_size fs m (Some prog_dentry)
      in if len = -1 then ([], -1)
         else let (bytes, ret) = read_data fs m (d_inode_idx prog_dentry) 0 True len
              in if ret \<noteq> 0 then (bytes, -1) else (bytes, 0))"

partial_function (option) skip_spaces :: "ptr \<Rightarrow> nat \<Rightarrow> nat option" where
  "skip_spaces command i = (if command i = 0x20 then skip_spaces command (Suc i) else Some i)"

partial_function (option) parse_filename ::
  "ptr \<Rightarrow> nat \<Rightarrow> nat \<Rightarrow> byte list \<Rightarrow> (nat \<times> byte list) option" where
  "parse_filename command i char_count filename =
     (if command i \<noteq> 0x20 \<and> command i \<noteq> 0x0A \<and> command i \<noteq> 0
      then if char_count < NAME_LENGTH_MAX
           then parse_filename command (Suc i) (Suc char_count) (filename @ [command i])
           else parse_filename command (Suc i) (Suc char_count) filename
      else Some (i, filename))"

partial_function (option) parse_params :: "ptr \<Rightarrow> nat \<Rightarrow> byte list \<Rightarrow> byte list option" where
  "parse_params command i params =
     (if command i \<noteq> 0x0A \<and> command i \<noteq> 0
      then parse_params command (Suc i) (params @ [command i])
      else Some params)"

definition parse_command :: "ptr \<Rightarrow> (byte list \<times> byte list) option" where
  "parse_command command =
     Option.bind (skip_spaces command 0) (\<lambda>a.
     Option.bind (parse_filename command a 0 []) (\<lambda>(b, filename).
     Option.bind (skip_spaces command b) (\<lambda>c.
     Option.bind (parse_params command c []) (\<lambda>params.
     Some (filename @ [0], params @ [0])))))"

text \<open>
  \<open>magic_buf\<close> is what the uninitialised stack buffer held before the call; the bytes
  \<open>read_data\<close> stores replace its front.
\<close>

definition check_validity :: "fs \<Rightarrow> mem \<Rightarrow> byte list \<Rightarrow> dentry \<Rightarrow> int" where
  "check_validity fs m magic_buf prog_dentry =
     (if file_type prog_dentry \<noteq> 2 then -1
      else let (bytes, ret) = read_data fs m (d_inode_idx prog_dentry) 0 True MAGIC_NUM_LENGTH;
               magic = bytes @ drop (length bytes) magic_buf
           in if strncmp (of_bytes magic) (of_bytes EXEC_HEAD) (word_of_int MAGIC_NUM_LENGTH) \<noteq> 0
              then -1 else 0)"

section \<open>Searching the directory\<close>

definition dentry_matches :: "fs \<Rightarrow> mem \<Rightarrow> ptr \<Rightarrow> nat \<Rightarrow> bool" where
  "dentry_matches fs m fname k \<longleftrightarrow> cstr_eq 32 fname (at m (dentry_addr fs (of_nat k)))"

lemma find_dentry_none:
  "(\<And>k. unat i \<le> k \<Longrightarrow> k < unat (dentry_num fs) \<Longrightarrow> \<not> dentry_matches fs m f k) \<Longrightarrow>
    find_dentry fs m f d i = (-1, d)"
proof (induction fs m f d i rule: find_dentry.induct)
  case (1 fs m f d i)
  show ?case
  proof (cases "i < dentry_num fs")
    case True
    then have "\<not> dentry_matches fs m f (unat i)" using "1.prems" by (simp add: word_less_nat_alt)
    then have no: "strncmp f (at m (dentry_addr fs i)) (of_nat NAME_LENGTH_MAX) \<noteq> 0"
      by (simp add: dentry_matches_def strncmp_0_iff NAME_LENGTH_MAX_def)
    have "find_dentry fs m f d (i + 1) = (-1, d)"
      using True no "1.prems" by (intro "1.IH") (auto simp: u32_suc_le)
    then show ?thesis using True no by (subst find_dentry.simps) simp
  next
    case False
    then show ?thesis by (subst find_dentry.simps) simp
  qed
qed

lemma find_dentry_first:
  assumes "dentry_matches fs m f k" and "k < unat (dentry_num fs)"
    and "\<And>j. unat i \<le> j \<Longrightarrow> j < k \<Longrightarrow> \<not> dentry_matches fs m f j" and "unat i \<le> k"
  shows "find_dentry fs m f d i = (0, Some (load_dentry m (dentry_addr fs (of_nat k))))"
  using assms
proof (induction fs m f d i rule: find_dentry.induct)
  case (1 fs m f d i)
  have lt: "i < dentry_num fs" using "1.prems" by (simp add: word_less_nat_alt)
  show ?case
  proof (cases "unat i = k")
    case True
    then have "of_nat k = i" by auto
    with 1 lt True show ?thesis
      by (subst find_dentry.simps) (simp add: dentry_matches_def strncmp_0_iff NAME_LENGTH_MAX_def)
  next
    case False
    then have no: "strncmp f (at m (dentry_addr fs i)) (of_nat NAME_LENGTH_MAX) \<noteq> 0"
      using "1.prems"(3) [of "unat i"] "1.prems"(4)
      by (simp add: dentry_matches_def strncmp_0_iff NAME_LENGTH_MAX_def)
    have "find_dentry fs m f d (i + 1) = (0, Some (load_dentry m (dentry_addr fs (of_nat k))))"
      using lt no "1.prems" False by (intro "1.IH") (auto simp: u32_suc_le)
    then show ?thesis using lt no by (subst find_dentry.simps) simp
  qed
qed

section \<open>Reading file data\<close>

text \<open>Byte \<open>k\<close> of a file, and whether the block that holds it is within the image.\<close>

definition file_byte :: "fs \<Rightarrow> mem \<Rightarrow> u32 \<Rightarrow> nat \<Rightarrow> byte" where
  "file_byte fs m inode k =
     m (data_addr fs (inode_block fs m inode (of_nat (k div 4096))) + of_nat (k mod 4096))"

definition block_ok :: "fs \<Rightarrow> mem \<Rightarrow> u32 \<Rightarrow> nat \<Rightarrow> bool" where
  "block_ok fs m inode k \<longleftrightarrow> inode_block fs m inode (of_nat (k div 4096)) < block_num fs"

lemma div_DATA_LENGTH: "i div DATA_LENGTH = of_nat (unat i div 4096)"
  and mod_DATA_LENGTH: "i mod DATA_LENGTH = of_nat (unat i mod 4096)"
  by (simp_all add: DATA_LENGTH_def word_arith_nat_div word_arith_nat_mod)

lemma read_data_loop_step:
  assumes "i < fin" and "block_ok fs m inode (unat i)" and "i \<noteq> inode_length fs m inode"
  shows "read_data_loop fs m inode offset fin i buf =
    read_data_loop fs m inode offset fin (i + 1) (buf @ [file_byte fs m inode (unat i)])"
  using assms
  by (subst read_data_loop.simps)
     (auto simp: Let_def block_ok_def file_byte_def div_DATA_LENGTH mod_DATA_LENGTH not_le)

lemma read_data_loop_eof:
  assumes "i < fin" and "block_ok fs m inode (unat i)" and "i = inode_length fs m inode"
  shows "read_data_loop fs m inode offset fin i buf =
    (buf @ [file_byte fs m inode (unat i)], sint (i - offset))"
  using assms
  by (subst read_data_loop.simps)
     (auto simp: Let_def block_ok_def file_byte_def div_DATA_LENGTH mod_DATA_LENGTH not_le)

lemma read_data_loop_bad:
  assumes "i < fin" and "\<not> block_ok fs m inode (unat i)"
  shows "read_data_loop fs m inode offset fin i buf = (buf, sint (i - offset - 1))"
  using assms
  by (subst read_data_loop.simps)
     (simp add: Let_def block_ok_def div_DATA_LENGTH not_le)

lemma read_data_loop_end:
  "\<not> i < fin \<Longrightarrow> read_data_loop fs m inode offset fin i buf = (buf, sint (i - offset))"
  by (subst read_data_loop.simps) simp

text \<open>
  The loop runs over good blocks up to \<open>j\<close>: it has appended the file's bytes and stands at
  \<open>j\<close>.
\<close>

lemma read_data_loop_run:
  assumes "i \<le> j" and "j \<le> fin"
    and "\<And>k. unat i \<le> k \<Longrightarrow> k < unat j \<Longrightarrow> block_ok fs m inode k \<and> k \<noteq> unat (inode_length fs m inode)"
  shows "read_data_loop fs m inode offset fin i buf =
    read_data_loop fs m inode offset fin j (buf @ map (file_byte fs m inode) [unat i..<unat j])"
  using assms
proof (induction "unat j - unat i" arbitrary: i buf)
  case 0
  then have "i = j" by (simp add: word_le_nat_alt word_unat_eq_iff)
  then show ?case by simp
next
  case (Suc n)
  then have lt: "i < j" by (metis diff_self_eq_0 nat.distinct(1) order_le_imp_less_or_eq)
  then have lt': "i < fin" using Suc.prems(2) by simp
  have s: "unat (i + 1) = Suc (unat i)" using lt by (rule u32_suc_le)
  have le: "i + 1 \<le> j" using lt s by (simp add: word_le_nat_alt word_less_nat_alt)
  have "read_data_loop fs m inode offset fin i buf =
      read_data_loop fs m inode offset fin (i + 1) (buf @ [file_byte fs m inode (unat i)])"
    using lt lt' Suc.prems(3) [of "unat i"]
    by (intro read_data_loop_step) (auto simp: word_less_nat_alt)
  also have "\<dots> = read_data_loop fs m inode offset fin j
      ((buf @ [file_byte fs m inode (unat i)]) @ map (file_byte fs m inode) [unat (i + 1)..<unat j])"
    using Suc.hyps(2) s le Suc.prems by (intro Suc.hyps(1)) auto
  finally show ?case using lt s by (simp add: upt_conv_Cons word_less_nat_alt)
qed

lemma read_data_inside:
  assumes "inode < inode_num fs" and "0 \<le> len" and "len < 2147483648"
    and "unat offset + nat len < 4294967296" and "unat offset \<le> unat (inode_length fs m inode)"
    and blocks: "\<And>k. unat offset \<le> k \<Longrightarrow> k < unat offset + nat len \<Longrightarrow>
      k \<le> unat (inode_length fs m inode) \<Longrightarrow> block_ok fs m inode k"
  shows "read_data fs m inode offset True len =
    (let left = unat (inode_length fs m inode) - unat offset; n = min (nat len) left
     in (map (file_byte fs m inode) [unat offset..<unat offset + min (nat len) (Suc left)], int n))"
proof -
  let ?L = "inode_length fs m inode" and ?fin = "offset + word_of_int len"
  have fin: "unat ?fin = unat offset + nat len"
    using assms(2-4) by (subst unat_add_u32) (auto simp: unat_of_int_u32)
  have start: "read_data fs m inode offset True len = read_data_loop fs m inode offset ?fin offset []"
    using assms(1,2) by (auto simp: read_data_def)
  show ?thesis
  proof (cases "unat ?L < unat ?fin")
    case True
    have "read_data_loop fs m inode offset ?fin offset [] = read_data_loop fs m inode offset ?fin ?L
        (map (file_byte fs m inode) [unat offset..<unat ?L])"
      using assms(5) True fin blocks
      by (subst read_data_loop_run [where j = ?L]) (auto simp: word_le_nat_alt)
    also have "\<dots> = (map (file_byte fs m inode) [unat offset..<unat ?L] @ [file_byte fs m inode (unat ?L)],
        sint (?L - offset))"
      using True assms(5) fin by (intro read_data_loop_eof blocks) (auto simp: word_less_nat_alt)
    also have "sint (?L - offset) = int (unat ?L - unat offset)"
      using True assms(3,5) fin by (subst sint_u32_small) (auto simp: unat_sub word_le_nat_alt)
    finally have run: "read_data fs m inode offset True len =
        (map (file_byte fs m inode) [unat offset..<Suc (unat ?L)], int (unat ?L - unat offset))"
      using start assms(5) by simp
    have "min (nat len) (unat ?L - unat offset) = unat ?L - unat offset"
      "unat offset + min (nat len) (Suc (unat ?L - unat offset)) = Suc (unat ?L)"
      using True assms(5) fin by simp_all
    then show ?thesis unfolding Let_def run by (simp only:)
  next
    case False
    have "read_data_loop fs m inode offset ?fin offset [] = read_data_loop fs m inode offset ?fin ?fin
        (map (file_byte fs m inode) [unat offset..<unat ?fin])"
      using False fin assms(2) blocks
      by (subst read_data_loop_run [where j = ?fin]) (auto simp: word_le_nat_alt)
    also have "\<dots> = (map (file_byte fs m inode) [unat offset..<unat ?fin], sint (?fin - offset))"
      by (rule read_data_loop_end) simp
    also have "sint (?fin - offset) = len"
      using assms(2,3) by (subst sint_u32_small) (auto simp: unat_of_int_u32)
    finally have run: "read_data fs m inode offset True len =
        (map (file_byte fs m inode) [unat offset..<unat offset + nat len], len)"
      using start fin by simp
    have "min (nat len) (unat ?L - unat offset) = nat len"
      "min (nat len) (Suc (unat ?L - unat offset)) = nat len"
      using False fin by simp_all
    then show ?thesis unfolding Let_def run using assms(2) by simp
  qed
qed

section \<open>Parsing a command\<close>

lemma skip_spaces_run:
  assumes "i \<le> j" and "\<forall>k. i \<le> k \<and> k < j \<longrightarrow> s k = 0x20" and "s j \<noteq> 0x20"
  shows "skip_spaces s i = Some j"
  using assms(1,2)
proof (induction rule: inc_induct)
  case base
  then show ?case using assms(3) by (simp add: skip_spaces.simps)
next
  case (step i)
  then show ?case by (simp add: skip_spaces.simps [of s i])
qed

definition name_char :: "byte \<Rightarrow> bool" where
  "name_char b \<longleftrightarrow> b \<noteq> 0x20 \<and> b \<noteq> 0x0A \<and> b \<noteq> 0"

definition arg_char :: "byte \<Rightarrow> bool" where
  "arg_char b \<longleftrightarrow> b \<noteq> 0x0A \<and> b \<noteq> 0"

lemma parse_filename_run:
  assumes "i \<le> j" and "\<forall>k. i \<le> k \<and> k < j \<longrightarrow> name_char (s k)" and "\<not> name_char (s j)"
  shows "parse_filename s i c f = Some (j, f @ take (32 - c) (map s [i..<j]))"
  using assms(1,2)
proof (induction arbitrary: c f rule: inc_induct)
  case base
  then show ?case using assms(3) by (subst parse_filename.simps) (auto simp: name_char_def)
next
  case (step i)
  have "name_char (s i)" using step.prems step.hyps by simp
  moreover have "parse_filename s (Suc i) (Suc c) g = Some (j, g @ take (32 - Suc c) (map s [Suc i..<j]))" for g
    using step.prems by (intro step.IH) simp
  moreover have "map s [i..<j] = s i # map s [Suc i..<j]" using step.hyps by (simp add: upt_conv_Cons)
  ultimately show ?case
    by (subst parse_filename.simps) (simp add: name_char_def NAME_LENGTH_MAX_def take_Cons')
qed

lemma parse_params_run:
  assumes "i \<le> j" and "\<forall>k. i \<le> k \<and> k < j \<longrightarrow> arg_char (s k)" and "\<not> arg_char (s j)"
  shows "parse_params s i p = Some (p @ map s [i..<j])"
  using assms(1,2)
proof (induction arbitrary: p rule: inc_induct)
  case base
  then show ?case using assms(3) by (subst parse_params.simps) (auto simp: arg_char_def)
next
  case (step i)
  have "arg_char (s i)" using step.prems step.hyps by simp
  moreover have "parse_params s (Suc i) q = Some (q @ map s [Suc i..<j])" for q
    using step.prems by (intro step.IH) simp
  moreover have "map s [i..<j] = s i # map s [Suc i..<j]" using step.hyps by (simp add: upt_conv_Cons)
  ultimately show ?case by (subst parse_params.simps) (simp add: arg_char_def)
qed

text \<open>A command that is a single word.\<close>

lemma parse_word:
  assumes "w \<noteq> []" and "\<forall>b \<in> set w. name_char b" and "length w \<le> 32"
  shows "parse_command (of_bytes (w @ [0])) = Some (w @ [0], [0])"
proof -
  let ?s = "of_bytes (w @ [0])"
  have at: "?s i = w ! i" if "i < length w" for i using that by (simp add: of_bytes_def nth_append)
  have e: "?s (length w) = 0" by (simp add: of_bytes_def)
  have c: "name_char (?s i)" if "i < length w" for i using at that assms(2) by simp
  have m: "map ?s [0..<length w] = w" by (rule nth_equalityI) (simp_all add: at)
  have "skip_spaces ?s 0 = Some 0" using c [of 0] assms(1) by (intro skip_spaces_run) (simp_all add: name_char_def)
  moreover have "parse_filename ?s 0 0 [] = Some (length w, w)"
    using parse_filename_run [of 0 "length w" ?s 0 "[]"] c e m assms(3) by (simp add: name_char_def)
  moreover have "skip_spaces ?s (length w) = Some (length w)"
    using e by (intro skip_spaces_run) auto
  moreover have "parse_params ?s (length w) [] = Some []"
    using e by (simp add: parse_params.simps [of ?s "length w"])
  ultimately show ?thesis by (simp add: parse_command_def)
qed

text \<open>Every scan that must stop by position \<open>n\<close> stops at a first place.\<close>

lemma first_stop:
  assumes "i \<le> (n :: nat)" and "\<not> P n"
  shows "\<exists>j. i \<le> j \<and> j \<le> n \<and> (\<forall>k. i \<le> k \<and> k < j \<longrightarrow> P k) \<and> \<not> P j"
proof -
  let ?j = "LEAST j. i \<le> j \<and> \<not> P j"
  have "i \<le> ?j \<and> \<not> P ?j" using assms by (intro LeastI [of "\<lambda>j. i \<le> j \<and> \<not> P j" n]) simp
  moreover have "?j \<le> n" using assms by (intro Least_le) simp
  moreover have "P k" if "i \<le> k" "k < ?j" for k using not_less_Least [OF that(2)] that(1) by auto
  ultimately show ?thesis by blast
qed

section \<open>A small image\<close>

text \<open>
  A one-file image at \<open>0x500000\<close> on which the properties are exercised: a directory with
  the regular file \<open>a\<close>, whose five bytes are the executable magic and \<open>!\<close>.
\<close>

definition demo_mem :: mem where
  "demo_mem a =
     (let k = a - 0x500000
      in if k = 0 \<or> k = 4 \<or> k = 8 then 1
         else if k = 64 then 0x61 else if k = 96 then 2 else if k = 4096 then 5
         else if k = 8192 then 0x7f else if k = 8193 then 0x45 else if k = 8194 then 0x4c
         else if k = 8195 then 0x46 else if k = 8196 then 0x21 else 0)"

definition demo_fs :: fs where
  "demo_fs = \<lparr>file_system_addr = 0x500000, dentry_num = 1, inode_num = 1, block_num = 1\<rparr>"

lemma demo_init: "boot_block_fs demo_mem 0x500000 = demo_fs"
  by (simp add: boot_block_fs_def demo_fs_def demo_mem_def load32_def Let_def)

lemma demo_file:
  "inode_num demo_fs = 1" "inode_length demo_fs demo_mem 0 = 5" "k < 4096 \<Longrightarrow> block_ok demo_fs demo_mem 0 k"
  by (simp_all add: demo_fs_def inode_length_def inode_addr_def block_ok_def inode_block_def
      demo_mem_def load32_def Let_def)

lemma demo_match: "dentry_matches demo_fs demo_mem (of_bytes [0x61, 0]) 0"
proof -
  have step: "of_bytes [0x61, 0] i = at demo_mem (dentry_addr demo_fs 0) i"
    if "\<forall>k<i. of_bytes [0x61, 0] k \<noteq> 0" for i
  proof -
    have "\<not> 1 < i" using that [rule_format, of 1] by (auto simp: of_bytes_def)
    then have "i = 0 \<or> i = 1" by arith
    then show ?thesis
      by (auto simp: of_bytes_def at_def dentry_addr_def demo_fs_def demo_mem_def Let_def)
  qed
  then show ?thesis
    unfolding dentry_matches_def cstr_eq_def semiring_1_class.of_nat_0 by (intro allI impI) (rule step)
qed

lemma demo_lookup:
  "read_dentry_by_name demo_fs demo_mem (Some (of_bytes [0x61, 0])) (Some d)
     = Some (0, Some (load_dentry demo_mem (dentry_addr demo_fs 0)))"
proof -
  have "is_cstr (of_bytes [0x61, 0]) 1" by (auto simp: is_cstr_def of_bytes_def)
  moreover have "find_dentry demo_fs demo_mem (of_bytes [0x61, 0]) (Some d) 0
      = (0, Some (load_dentry demo_mem (dentry_addr demo_fs 0)))"
    using find_dentry_first [of demo_fs demo_mem "of_bytes [0x61, 0]" 0 0 "Some d"] demo_match
    by (simp add: demo_fs_def)
  ultimately show ?thesis by (simp add: read_dentry_by_name_def strlen_Some)
qed

lemma demo_dentry:
  "file_type (load_dentry demo_mem (dentry_addr demo_fs 0)) = 2"
  "d_inode_idx (load_dentry demo_mem (dentry_addr demo_fs 0)) = 0"
  by (simp_all add: load_dentry_def dentry_addr_def demo_fs_def demo_mem_def load32_def Let_def)

text \<open>The result of a search, from the names in the directory.\<close>

lemma lookup_first:
  assumes "is_cstr f n" and "n \<le> 32" and "k < unat (dentry_num fs)" and "dentry_matches fs m f k" and "\<forall>j<k. \<not> dentry_matches fs m f j"
  shows "read_dentry_by_name fs m (Some f) (Some d) = Some (0, Some (load_dentry m (dentry_addr fs (of_nat k))))"
proof -
  have "find_dentry fs m f (Some d) 0 = (0, Some (load_dentry m (dentry_addr fs (of_nat k))))"
    using assms(3-5) by (intro find_dentry_first) auto
  then show ?thesis using assms(1,2) by (simp add: read_dentry_by_name_def strlen_Some)
qed

lemma lookup_none:
  assumes "is_cstr f n" and "n \<le> 32" and "\<forall>k < unat (dentry_num fs). \<not> dentry_matches fs m f k"
  shows "read_dentry_by_name fs m (Some f) (Some d) = Some (-1, Some d)"
  using assms by (simp add: read_dentry_by_name_def strlen_Some find_dentry_none)

lemma first_match:
  assumes "k < D" and "P k"
  shows "\<exists>i<D. P i \<and> (\<forall>j<i. \<not> P (j :: nat))"
proof -
  have "P (LEAST i. P i)" "\<forall>j < (LEAST i. P i). \<not> P j" using assms(2) by (auto intro: LeastI dest: not_less_Least)
  moreover have "(LEAST i. P i) < D" using Least_le [of P k] assms by simp
  ultimately show ?thesis by blast
qed

section \<open>Properties\<close>

text \<open>C32: \<open>read_dentry_by_name\<close> finds a file by name: with a terminated name of at most 32
  bytes it returns 0 and the first directory entry whose 32-byte name field agrees with it,
  and returns -1, leaving the caller's entry alone, exactly when no entry agrees.\<close>

theorem read_dentry_by_name_correct:
  assumes "is_cstr f n" and "n \<le> 32"
  shows "(\<exists>k < unat (dentry_num fs). dentry_matches fs m f k \<and> (\<forall>j<k. \<not> dentry_matches fs m f j)
            \<and> read_dentry_by_name fs m (Some f) (Some d) =
                Some (0, Some (load_dentry m (dentry_addr fs (of_nat k)))))
       \<or> ((\<forall>k < unat (dentry_num fs). \<not> dentry_matches fs m f k)
            \<and> read_dentry_by_name fs m (Some f) (Some d) = Some (-1, Some d))"
proof (cases "\<exists>k < unat (dentry_num fs). dentry_matches fs m f k")
  case True
  then obtain k where "k < unat (dentry_num fs)" "dentry_matches fs m f k" "\<forall>j<k. \<not> dentry_matches fs m f j"
    using first_match [of _ "unat (dentry_num fs)" "dentry_matches fs m f"] by blast
  then show ?thesis using lookup_first [OF assms, of k fs m d] by blast
next
  case False
  then show ?thesis using lookup_none [OF assms, of fs m d] by blast
qed

theorem read_dentry_by_name_correct_witness:
  "read_dentry_by_name demo_fs demo_mem (Some (of_bytes [0x61, 0])) (Some (load_dentry demo_mem 0))
     = Some (0, Some (load_dentry demo_mem (dentry_addr demo_fs 0)))"
  using read_dentry_by_name_correct [of "of_bytes [0x61, 0]" 1 demo_fs demo_mem "load_dentry demo_mem 0"]
    demo_file demo_match by (auto simp: is_cstr_def of_bytes_def demo_fs_def)

text \<open>a name longer than 32 bytes, a NULL name or a NULL result pointer is refused
  without a search; an index past the directory is refused too.\<close>

lemma read_dentry_refused:
  "(is_cstr f n \<longrightarrow> n > 32 \<longrightarrow> read_dentry_by_name fs m (Some f) d = Some (-1, d))
   \<and> read_dentry_by_name fs m None d = Some (-1, d)
   \<and> read_dentry_by_name fs m fname None = Some (-1, None)
   \<and> (index \<ge> dentry_num fs \<longrightarrow> read_dentry_by_index fs m index d = (-1, d))"
  by (auto simp: read_dentry_by_name_def read_dentry_by_index_def strlen_Some split: option.splits)

lemma read_dentry_refused_witness:
  "read_dentry_by_name (boot_block_fs (\<lambda>_. 0) 0x500000) (\<lambda>_. 0)
     (Some (\<lambda>i. if i < 33 then 0x61 else 0)) None = Some (-1, None)
   \<and> read_dentry_by_index (boot_block_fs (\<lambda>_. 0) 0x500000) (\<lambda>_. 0) 0 None = (-1, None)"
proof -
  have "is_cstr (\<lambda>i. if i < 33 then 0x61 else 0) 33" by (simp add: is_cstr_def)
  moreover have "dentry_num (boot_block_fs (\<lambda>_. 0) 0x500000) \<le> 0"
    by (simp add: boot_block_fs_def load32_def)
  ultimately show ?thesis
    using read_dentry_refused [of "\<lambda>i. if i < 33 then 0x61 else 0" 33
        "boot_block_fs (\<lambda>_. 0) 0x500000" "\<lambda>_. 0" None None 0] by auto
qed

text \<open>C15: \<open>read_data\<close> reads the file: for a valid inode, an offset inside the file and good
  blocks, the return value is the number of bytes left in the file, at most the number asked
  for, and the buffer starts with exactly those bytes of the file, taken from its data blocks.
  When the request reaches past the end of the file one more byte, the one after the last, is
  stored behind them; never more than the number asked for.\<close>

theorem read_data_correct:
  assumes "inode < inode_num fs" and "0 \<le> len" and "len < 2147483648"
    and "unat offset + nat len < 4294967296" and "unat offset \<le> unat (inode_length fs m inode)"
    and "\<And>k. unat offset \<le> k \<Longrightarrow> k < unat offset + nat len \<Longrightarrow>
      k \<le> unat (inode_length fs m inode) \<Longrightarrow> block_ok fs m inode k"
  shows "let left = unat (inode_length fs m inode) - unat offset; n = min (nat len) left
    in \<exists>bytes. read_data fs m inode offset True len = (bytes, int n)
      \<and> take n bytes = map (file_byte fs m inode) [unat offset..<unat offset + n]
      \<and> length bytes = min (nat len) (Suc left)"
  using read_data_inside [OF assms] by (auto simp: Let_def take_map take_upt)

theorem read_data_correct_witness:
  "\<exists>bytes. read_data demo_fs demo_mem 0 1 True 3 = (bytes, 3)
      \<and> take 3 bytes = map (file_byte demo_fs demo_mem 0) [1..<4]"
  using read_data_correct [of 0 demo_fs 3 1 demo_mem]
  by (auto simp: demo_file Let_def upt_rec)

text \<open>at a block number outside the image \<open>read_data\<close> stops with the bytes before it
  stored, but reports one byte fewer than it stored: a bad block right at the offset gives -1,
  a bad block further on gives the count of good bytes minus one.\<close>

lemma read_data_bad_block:
  assumes "inode < inode_num fs" and "0 \<le> len" and "j < nat len"
    and "unat offset + nat len < 4294967296" and "int j < 2147483648"
    and "\<And>k. k < j \<Longrightarrow> block_ok fs m inode (unat offset + k)
      \<and> unat offset + k \<noteq> unat (inode_length fs m inode)"
    and "\<not> block_ok fs m inode (unat offset + j)"
  shows "read_data fs m inode offset True len =
    (map (file_byte fs m inode) [unat offset..<unat offset + j], int j - 1)"
proof -
  let ?fin = "offset + word_of_int len" and ?j = "offset + of_nat j :: u32"
  have fin: "unat ?fin = unat offset + nat len"
    using assms(2,4) by (subst unat_add_u32) (auto simp: unat_of_int_u32)
  have j: "unat ?j = unat offset + j" using assms(3,4) by (simp add: unat_plus_of_nat)
  have "read_data fs m inode offset True len = read_data_loop fs m inode offset ?fin offset []"
    using assms(1,2) by (auto simp: read_data_def)
  also have "\<dots> = read_data_loop fs m inode offset ?fin ?j
      (map (file_byte fs m inode) [unat offset..<unat ?j])"
  proof (subst read_data_loop_run [where j = ?j])
    fix k
    assume "unat offset \<le> k" "k < unat ?j"
    then show "block_ok fs m inode k \<and> k \<noteq> unat (inode_length fs m inode)"
      using assms(6) [of "k - unat offset"] j by auto
  qed (use j fin assms(3) in \<open>auto simp: word_le_nat_alt\<close>)
  also have "\<dots> = (map (file_byte fs m inode) [unat offset..<unat ?j], sint (?j - offset - 1))"
    using j fin assms(3,7) by (intro read_data_loop_bad) (auto simp: word_less_nat_alt)
  also have "sint (?j - offset - 1) = int j - 1"
  proof (cases j)
    case (Suc i)
    then have "?j - offset - 1 = of_nat i" by simp
    then show ?thesis using Suc assms(5) by (simp add: sint_u32_small)
  qed simp
  finally show ?thesis using j by simp
qed

lemma read_data_bad_block_witness:
  "read_data (demo_fs\<lparr>block_num := 0\<rparr>) demo_mem 0 0 True 3 = ([], -1)"
proof -
  have "\<not> block_ok (demo_fs\<lparr>block_num := 0\<rparr>) demo_mem 0 0"
    by (simp add: block_ok_def)
  then show ?thesis
    using read_data_bad_block [of 0 "demo_fs\<lparr>block_num := 0\<rparr>" 3 0 0 demo_mem]
    by (simp add: demo_fs_def)
qed

text \<open>\<open>program_loader\<close> copies a whole non-empty executable from its data blocks, yet
  returns -1 for it: its test \<open>read_data(...) != 0\<close> takes the byte count for an error.\<close>

lemma program_loader_result:
  assumes "d_inode_idx d < inode_num fs" and "inode_length fs m (d_inode_idx d) \<noteq> 0"
    and "unat (inode_length fs m (d_inode_idx d)) < 2147483648"
    and "\<And>k. k < unat (inode_length fs m (d_inode_idx d)) \<Longrightarrow> block_ok fs m (d_inode_idx d) k"
  shows "program_loader fs m d =
    (map (file_byte fs m (d_inode_idx d)) [0..<unat (inode_length fs m (d_inode_idx d))], -1)"
proof -
  let ?L = "inode_length fs m (d_inode_idx d)"
  have size: "get_file_size fs m (Some d) = int (unat ?L)"
    using assms(1,3) sint_u32_small [of ?L] by (auto simp: get_file_size_def)
  have len: "int (unat ?L) < 2147483648" using assms(3) by linarith
  have "read_data fs m (d_inode_idx d) 0 True (int (unat ?L)) =
      (map (file_byte fs m (d_inode_idx d)) [0..<unat ?L], int (unat ?L))"
    using assms(1,4) len u32_lt [of ?L] read_data_inside [of "d_inode_idx d" fs "int (unat ?L)" 0 m]
    by (simp add: Let_def)
  moreover have "uint ?L \<noteq> -1" using uint_ge_0 [of ?L] by linarith
  moreover have "uint ?L \<noteq> 0" using assms(2) by (simp add: unsigned_eq_0_iff)
  ultimately show ?thesis using size by (simp add: program_loader_def Let_def)
qed

text \<open>C33: \<open>parse_command\<close> terminates on every NUL-terminated command and splits it into
  leading blanks, the program name (cut at 32 characters), blanks, and the rest of the line up
  to a newline or the NUL as the argument string.\<close>

theorem parse_command_correct:
  assumes "is_cstr s n"
  shows "\<exists>a b c d. a \<le> b \<and> b \<le> c \<and> c \<le> d \<and> d \<le> n
    \<and> (\<forall>k<a. s k = 0x20) \<and> (\<forall>k. a \<le> k \<and> k < b \<longrightarrow> name_char (s k)) \<and> \<not> name_char (s b)
    \<and> (\<forall>k. b \<le> k \<and> k < c \<longrightarrow> s k = 0x20) \<and> s c \<noteq> 0x20
    \<and> (\<forall>k. c \<le> k \<and> k < d \<longrightarrow> arg_char (s k)) \<and> \<not> arg_char (s d)
    \<and> parse_command s = Some (take 32 (map s [a..<b]) @ [0], map s [c..<d] @ [0])"
proof -
  have z: "s n = 0" using assms by (simp add: is_cstr_def)
  obtain a where a: "a \<le> n" "\<forall>k. 0 \<le> k \<and> k < a \<longrightarrow> s k = 0x20" "s a \<noteq> 0x20"
    using first_stop [of 0 n "\<lambda>k. s k = 0x20"] z by auto
  obtain b where b: "a \<le> b" "b \<le> n" "\<forall>k. a \<le> k \<and> k < b \<longrightarrow> name_char (s k)" "\<not> name_char (s b)"
    using first_stop [of a n "\<lambda>k. name_char (s k)"] a z by (auto simp: name_char_def)
  obtain c where c: "b \<le> c" "c \<le> n" "\<forall>k. b \<le> k \<and> k < c \<longrightarrow> s k = 0x20" "s c \<noteq> 0x20"
    using first_stop [of b n "\<lambda>k. s k = 0x20"] b z by auto
  obtain d where d: "c \<le> d" "d \<le> n" "\<forall>k. c \<le> k \<and> k < d \<longrightarrow> arg_char (s k)" "\<not> arg_char (s d)"
    using first_stop [of c n "\<lambda>k. arg_char (s k)"] c z by (auto simp: arg_char_def)
  have "parse_command s = Some (take 32 (map s [a..<b]) @ [0], map s [c..<d] @ [0])"
    using skip_spaces_run [of 0 a s] parse_filename_run [of a b s 0 "[]"] skip_spaces_run [of b c s]
      parse_params_run [of c d s "[]"] a b c d
    by (simp add: parse_command_def)
  moreover have "\<forall>k<a. s k = 0x20" using a by simp
  ultimately show ?thesis using b c d by blast
qed

theorem parse_command_correct_witness:
  "\<exists>f p. parse_command (of_bytes (chars ''cat f'' @ [0])) = Some (f, p)"
proof -
  have "is_cstr (of_bytes (chars ''cat f'' @ [0])) 5"
  proof -
    have "0 \<notin> set (chars ''cat f'')" "length (chars ''cat f'') = 5" by (simp_all add: chars_def)
    then show ?thesis using is_cstr_of_bytes [of "chars ''cat f''"] by metis
  qed
  from parse_command_correct [OF this] show ?thesis by auto
qed

text \<open>\<open>check_validity\<close> accepts exactly the regular files of at least four bytes that
  start with the ELF magic, whatever its uninitialised buffer held.\<close>

lemma check_validity_correct:
  assumes "d_inode_idx d < inode_num fs" and "4 \<le> unat (inode_length fs m (d_inode_idx d))"
    and "\<And>k. k < 4 \<Longrightarrow> block_ok fs m (d_inode_idx d) k"
  shows "check_validity fs m junk d =
    (if file_type d = 2 \<and> map (file_byte fs m (d_inode_idx d)) [0..<4] = EXEC_HEAD then 0 else -1)"
proof -
  let ?f = "file_byte fs m (d_inode_idx d)"
  let ?b = "[?f 0, ?f 1, ?f 2, ?f 3]"
  have b: "map ?f [0..<4] = ?b" by (simp add: upt_rec numeral_2_eq_2 numeral_3_eq_3)
  have read: "read_data fs m (d_inode_idx d) 0 True 4 = (?b, 4)"
    using assms read_data_inside [of "d_inode_idx d" fs 4 0 m]
    by (simp only: Let_def b [symmetric]) (simp add: min_def)
  have less4: "(\<forall>i<4. P i) \<longleftrightarrow> P 0 \<and> P 1 \<and> P 2 \<and> P (3 :: nat)" for P
    by (auto simp: numeral_eq_Suc less_Suc_eq)
  have "\<forall>i<4. of_bytes EXEC_HEAD i \<noteq> 0"
    unfolding less4 by (simp add: of_bytes_def EXEC_HEAD_def)
  moreover have "(\<forall>i<4. of_bytes (?b @ r) i = of_bytes EXEC_HEAD i) \<longleftrightarrow> ?b = EXEC_HEAD" for r
    unfolding less4 by (simp add: of_bytes_def EXEC_HEAD_def)
  ultimately have cmp: "strncmp (of_bytes (?b @ r)) (of_bytes EXEC_HEAD) 4 = 0 \<longleftrightarrow> ?b = EXEC_HEAD" for r
    by (simp add: strncmp_0_iff cstr_eq_nonzero)
  obtain bs where "read_data fs m (d_inode_idx d) 0 True 4 = (bs, 4)" "map ?f [0..<4] = bs"
    "strncmp (of_bytes (bs @ drop (length bs) junk)) (of_bytes EXEC_HEAD) 4 = 0 \<longleftrightarrow> bs = EXEC_HEAD"
    by (rule that [OF read b cmp])
  then show ?thesis by (auto simp: check_validity_def MAGIC_NUM_LENGTH_def)
qed

end
