(* ===== verification/Kernel_State.thy ===== *)
theory Kernel_State
  imports File_System
begin

text \<open>
  The global state of the kernel: the C structs of \<open>process.h\<close>, \<open>keyboard.h\<close> and
  \<open>paging.h\<close> as records with the source's fields, and one record \<open>kernel\<close> with the
  global variables of all components, the physical memory and a log of the bytes sent to I/O
  ports (newest first).  A \<open>pcb_t*\<close> is the number of the PCB it designates (\<open>None\<close>
  for NULL): \<open>FIND_PCB\<close> gives its address.  A value the code reads from a port or a register
  is an argument of the operation that reads it.
\<close>

section \<open>Processes and open files\<close>

datatype op_table = OP_NULL | rtc_op_table | dirt_op_table | regular_file_op_table | terminal_op_table

record file_abs_entry =
  op_ptr :: op_table
  inode_idx :: u32
  file_position :: u32
  flags :: u32

record pcb =
  ebp :: u32
  pcb_file_array :: "file_abs_entry list"
  status :: int
  pid :: int
  parent_pcb_pointer :: "nat option"
  params :: "byte list"
  term_idx :: int
  term_ebp :: u32
  video_mem_flag :: int

record terminal =
  active :: int
  keyboard_buf :: "byte list"
  buf_index :: int
  cursor_x :: int
  cursor_y :: int
  prog_pids :: "int list"
  term_prog_counter :: int
  TERMINAL_READ_FLAG :: int

section \<open>Paging structures\<close>

record page_dicr_entry =
  pd_present :: "1 word"
  pd_r_w :: "1 word"
  pd_u_s :: "1 word"
  pd_write_t :: "1 word"
  pd_cache_dis :: "1 word"
  pd_access :: "1 word"
  pd_reserve_0 :: "1 word"
  pd_page_size :: "1 word"
  pd_ignored :: "1 word"
  pd_reserve_1 :: "3 word"
  page_table_addr :: "20 word"

record page_table_entry =
  pt_present :: "1 word"
  pt_r_w :: "1 word"
  pt_u_s :: "1 word"
  pt_write_t :: "1 word"
  pt_cache_dis :: "1 word"
  pt_access :: "1 word"
  pt_dirty :: "1 word"
  pt_ptai :: "1 word"
  pt_global :: "1 word"
  pt_reserve_1 :: "3 word"
  page_base_addr :: "20 word"

text \<open>
  The three tables, where the linker put them (4 kB aligned, by their attribute), the control
  registers, and \<open>tlb\<close>, the contents of the tables when \<open>cr3\<close> was last written: the
  translations the processor may still use until the next write.
\<close>

record paging =
  page_directory :: "nat \<Rightarrow> page_dicr_entry"
  page_table_0 :: "nat \<Rightarrow> page_table_entry"
  page_table_video :: "nat \<Rightarrow> page_table_entry"
  page_directory_at :: addr
  page_table_0_at :: addr
  page_table_video_at :: addr
  cr0 :: u32
  cr3 :: u32
  cr4 :: u32
  tlb :: "(nat \<Rightarrow> page_dicr_entry) \<times> (nat \<Rightarrow> page_table_entry) \<times> (nat \<Rightarrow> page_table_entry)"

section \<open>The kernel\<close>

record kernel =
  mem :: mem
  io :: "(u16 \<times> byte) list"
  master_mask :: byte
  slave_mask :: byte
  pg :: paging
  terminals :: "terminal list"
  active_term_idx :: int
  cur_term_id :: int
  prev_term_id :: int
  CAPS_FLAG :: bool
  L_SHIFT_FLAG :: bool
  R_SHIFT_FLAG :: bool
  SHIFT_FLAG :: bool
  CTRL_FLAG :: bool
  ALT_FLAG :: bool
  rtc_counter_global :: int
  rtc_exe_flag :: int
  filesys :: fs
  pcbs :: "pcb list"
  file_array :: "nat option"
  prog_counter :: int
  program_exception_flag :: int
  tss_esp0 :: u32
  tss_ss0 :: u16
  cpu_ebp :: u32
  video_mem :: addr

definition MAX_TERMINAL_NUM :: int where "MAX_TERMINAL_NUM = 3"
definition MAX_PROG_NUM_PER_TERM :: int where "MAX_PROG_NUM_PER_TERM = 4"
definition KB_BUF_SIZE :: int where "KB_BUF_SIZE = 128"
definition FILE_LIMIT :: int where "FILE_LIMIT = 8"
definition MAX_PID :: int where "MAX_PID = 5"
definition MAX_PROGRAM_COUNT :: int where "MAX_PROGRAM_COUNT = 6"
definition PROG0_KSTACK_BOTTOM :: u32 where "PROG0_KSTACK_BOTTOM = 0x800000"
definition KERNEL_STACK_SIZE :: u32 where "KERNEL_STACK_SIZE = 0x2000"
definition KERNEL_DS :: u16 where "KERNEL_DS = 0x18"

lemmas [const_defs] = MAX_TERMINAL_NUM_def MAX_PROG_NUM_PER_TERM_def KB_BUF_SIZE_def
  FILE_LIMIT_def MAX_PID_def MAX_PROGRAM_COUNT_def PROG0_KSTACK_BOTTOM_def
  KERNEL_STACK_SIZE_def KERNEL_DS_def

text \<open>\<open>outb(data, port)\<close>.\<close>

definition outb :: "byte \<Rightarrow> u16 \<Rightarrow> kernel \<Rightarrow> kernel" where
  "outb data port k = k\<lparr>io := (port, data) # io k\<rparr>"

text \<open>\<open>terminals[i]\<close>, read and updated.\<close>

definition tm :: "kernel \<Rightarrow> int \<Rightarrow> terminal" where
  "tm k i = terminals k ! nat i"

definition upd_tm :: "int \<Rightarrow> (terminal \<Rightarrow> terminal) \<Rightarrow> kernel \<Rightarrow> kernel" where
  "upd_tm i f k = k\<lparr>terminals := (terminals k)[nat i := f (tm k i)]\<rparr>"

text \<open>The address of a PCB, the macro \<open>FIND_PCB\<close> of \<open>system_call.h\<close>.\<close>

definition FIND_PCB :: "u32 \<Rightarrow> addr" where
  "FIND_PCB p = PROG0_KSTACK_BOTTOM - (p + 1) * KERNEL_STACK_SIZE"

abbreviation valid_term :: "kernel \<Rightarrow> int \<Rightarrow> bool" where
  "valid_term k i \<equiv> 0 \<le> i \<and> nat i < length (terminals k)"

lemma tm_upd_tm: "valid_term k i \<Longrightarrow> 0 \<le> j \<Longrightarrow> tm (upd_tm i f k) j = (if i = j then f (tm k j) else tm k j)"
  by (auto simp: tm_def upd_tm_def nat_eq_iff2 nth_list_update)

lemma upd_tm_simps [simp]:
  "mem (upd_tm i f k) = mem k" "io (upd_tm i f k) = io k" "pg (upd_tm i f k) = pg k"
  "active_term_idx (upd_tm i f k) = active_term_idx k" "cur_term_id (upd_tm i f k) = cur_term_id k"
  "length (terminals (upd_tm i f k)) = length (terminals k)"
  "filesys (upd_tm i f k) = filesys k" "pcbs (upd_tm i f k) = pcbs k"
  "file_array (upd_tm i f k) = file_array k" "prog_counter (upd_tm i f k) = prog_counter k"
  by (simp_all add: upd_tm_def)

lemma tm_mem_upd [simp]: "tm (k\<lparr>mem := m\<rparr>) i = tm k i"
  and tm_io_upd [simp]: "tm (k\<lparr>io := l\<rparr>) i = tm k i"
  by (simp_all add: tm_def)

lemma outb_simps [simp]:
  "mem (outb d p k) = mem k" "terminals (outb d p k) = terminals k" "tm (outb d p k) i = tm k i"
  "active_term_idx (outb d p k) = active_term_idx k" "cur_term_id (outb d p k) = cur_term_id k"
  "io (outb d p k) = (p, d) # io k" "pg (outb d p k) = pg k"
  by (simp_all add: outb_def tm_def)

section \<open>What console output leaves alone\<close>

text \<open>
  The console routines change memory, the port log and the cursors only.  \<open>core\<close> is the rest
  of the state; two states with the same \<open>core\<close> agree on every other variable.
\<close>

definition term_core :: "terminal \<Rightarrow> terminal" where
  "term_core t = t\<lparr>cursor_x := 0, cursor_y := 0\<rparr>"

definition core :: "kernel \<Rightarrow> kernel" where
  "core k = k\<lparr>mem := (\<lambda>_. 0), io := [], terminals := map term_core (terminals k)\<rparr>"

lemma core_mem [simp]: "core (k\<lparr>mem := m\<rparr>) = core k"
  and core_io [simp]: "core (k\<lparr>io := l\<rparr>) = core k"
  and core_outb [simp]: "core (outb d p k) = core k"
  by (simp_all add: core_def outb_def)

lemma core_upd_tm:
  assumes "\<And>t. term_core (g t) = term_core t"
  shows "core (upd_tm i g k) = core k"
proof -
  have "map term_core ((terminals k)[nat i := g (tm k i)]) = map term_core (terminals k)"
    using assms by (cases "nat i < length (terminals k)") (simp_all add: map_update tm_def list_update_same_conv list_update_beyond)
  then show ?thesis by (simp add: core_def upd_tm_def)
qed

lemma core_fields:
  assumes "core k = core k'"
  shows "pcbs k = pcbs k'" "file_array k = file_array k'" "prog_counter k = prog_counter k'"
    "program_exception_flag k = program_exception_flag k'" "filesys k = filesys k'" "pg k = pg k'"
    "cur_term_id k = cur_term_id k'" "active_term_idx k = active_term_idx k'" "tss_esp0 k = tss_esp0 k'"
    "tss_ss0 k = tss_ss0 k'" "map term_core (terminals k) = map term_core (terminals k')"
    "rtc_exe_flag k = rtc_exe_flag k'" "rtc_counter_global k = rtc_counter_global k'"
    "length (terminals k) = length (terminals k')" "cpu_ebp k = cpu_ebp k'" "prev_term_id k = prev_term_id k'"
proof -
  show "pcbs k = pcbs k'" "file_array k = file_array k'" "prog_counter k = prog_counter k'"
    "program_exception_flag k = program_exception_flag k'" "filesys k = filesys k'" "pg k = pg k'"
    "cur_term_id k = cur_term_id k'" "active_term_idx k = active_term_idx k'" "tss_esp0 k = tss_esp0 k'"
    "tss_ss0 k = tss_ss0 k'" "rtc_exe_flag k = rtc_exe_flag k'" "rtc_counter_global k = rtc_counter_global k'"
    "cpu_ebp k = cpu_ebp k'" "prev_term_id k = prev_term_id k'"
    using arg_cong [OF assms, of pcbs] arg_cong [OF assms, of file_array] arg_cong [OF assms, of prog_counter]
      arg_cong [OF assms, of program_exception_flag] arg_cong [OF assms, of filesys] arg_cong [OF assms, of pg]
      arg_cong [OF assms, of cur_term_id] arg_cong [OF assms, of active_term_idx] arg_cong [OF assms, of tss_esp0]
      arg_cong [OF assms, of tss_ss0] arg_cong [OF assms, of rtc_exe_flag] arg_cong [OF assms, of rtc_counter_global]
      arg_cong [OF assms, of cpu_ebp] arg_cong [OF assms, of prev_term_id]
    by (simp_all add: core_def)
  show t: "map term_core (terminals k) = map term_core (terminals k')"
    using arg_cong [OF assms, of terminals] by (simp add: core_def)
  show "length (terminals k) = length (terminals k')" using map_eq_imp_length_eq [OF t] .
qed

lemma core_tm:
  assumes "core k = core k'" and "nat i < length (terminals k)"
  shows "term_core (tm k i) = term_core (tm k' i)"
proof -
  have "map term_core (terminals k) ! nat i = map term_core (terminals k') ! nat i"
    by (simp only: core_fields(11) [OF assms(1)])
  then show ?thesis using assms(2) core_fields(14) [OF assms(1)] by (simp add: tm_def)
qed

lemma term_core_fields:
  assumes "term_core t = term_core t'"
  shows "keyboard_buf t = keyboard_buf t'" "buf_index t = buf_index t'" "prog_pids t = prog_pids t'"
    "term_prog_counter t = term_prog_counter t'" "TERMINAL_READ_FLAG t = TERMINAL_READ_FLAG t'"
    "active t = active t'"
  using arg_cong [OF assms, of keyboard_buf] arg_cong [OF assms, of buf_index] arg_cong [OF assms, of prog_pids]
    arg_cong [OF assms, of term_prog_counter] arg_cong [OF assms, of TERMINAL_READ_FLAG]
    arg_cong [OF assms, of active]
  by (simp_all add: term_core_def)

section \<open>The state the C program starts in\<close>

text \<open>
  Zero-initialised globals, and the three variables with an initialiser: both interrupt masks
  (\<open>0xFF\<close>) and \<open>rtc_exe_flag\<close> (1).
\<close>

definition zero_entry :: file_abs_entry where
  "zero_entry = \<lparr>op_ptr = OP_NULL, inode_idx = 0, file_position = 0, flags = 0\<rparr>"

definition zero_pcb :: pcb where
  "zero_pcb = \<lparr>ebp = 0, pcb_file_array = replicate 8 zero_entry, status = 0, pid = 0,
     parent_pcb_pointer = None, params = replicate 128 0, term_idx = 0, term_ebp = 0, video_mem_flag = 0\<rparr>"

definition zero_terminal :: terminal where
  "zero_terminal = \<lparr>active = 0, keyboard_buf = replicate 128 0, buf_index = 0, cursor_x = 0,
     cursor_y = 0, prog_pids = replicate 4 0, term_prog_counter = 0, TERMINAL_READ_FLAG = 0\<rparr>"

definition zero_pde :: page_dicr_entry where
  "zero_pde = \<lparr>pd_present = 0, pd_r_w = 0, pd_u_s = 0, pd_write_t = 0, pd_cache_dis = 0,
     pd_access = 0, pd_reserve_0 = 0, pd_page_size = 0, pd_ignored = 0, pd_reserve_1 = 0,
     page_table_addr = 0\<rparr>"

definition zero_pte :: page_table_entry where
  "zero_pte = \<lparr>pt_present = 0, pt_r_w = 0, pt_u_s = 0, pt_write_t = 0, pt_cache_dis = 0,
     pt_access = 0, pt_dirty = 0, pt_ptai = 0, pt_global = 0, pt_reserve_1 = 0, page_base_addr = 0\<rparr>"

definition zero_paging :: "addr \<Rightarrow> addr \<Rightarrow> addr \<Rightarrow> paging" where
  "zero_paging d t v = \<lparr>page_directory = (\<lambda>_. zero_pde), page_table_0 = (\<lambda>_. zero_pte),
     page_table_video = (\<lambda>_. zero_pte), page_directory_at = d, page_table_0_at = t,
     page_table_video_at = v, cr0 = 0, cr3 = 0, cr4 = 0,
     tlb = (\<lambda>_. zero_pde, \<lambda>_. zero_pte, \<lambda>_. zero_pte)\<rparr>"

definition start_kernel :: "mem \<Rightarrow> paging \<Rightarrow> kernel" where
  "start_kernel m p = \<lparr>mem = m, io = [], master_mask = 0xFF, slave_mask = 0xFF, pg = p,
     terminals = replicate 3 zero_terminal, active_term_idx = 0, cur_term_id = 0, prev_term_id = 0,
     CAPS_FLAG = False, L_SHIFT_FLAG = False, R_SHIFT_FLAG = False, SHIFT_FLAG = False,
     CTRL_FLAG = False, ALT_FLAG = False, rtc_counter_global = 0, rtc_exe_flag = 1,
     filesys = \<lparr>file_system_addr = 0, dentry_num = 0, inode_num = 0, block_num = 0\<rparr>,
     pcbs = replicate 6 zero_pcb, file_array = None, prog_counter = 0, program_exception_flag = 0,
     tss_esp0 = 0, tss_ss0 = 0, cpu_ebp = 0, video_mem = 0\<rparr>"

text \<open>A concrete start state for the witnesses: empty memory, tables at fixed aligned places.\<close>

definition demo_kernel :: kernel where
  "demo_kernel = start_kernel demo_mem (zero_paging 0x410000 0x411000 0x412000)"

end
