(* ===== verification/Console.thy ===== *)
theory Console
  imports Kernel_State
begin

text \<open>
  The text console of \<open>lib.c\<close>: \<open>clear\<close>, \<open>backspace\<close>, \<open>update_cursor\<close>,
  \<open>scroll\<close>, \<open>putc\<close>, \<open>puts\<close>, \<open>printf\<close> and the keyboard handler's variants
  \<open>putc_direct\<close>, \<open>puts_direct\<close>, \<open>printf_direct\<close>, \<open>scroll_direct\<close>.  They write
  the 80 x 25 text page at \<open>0xB8000\<close> or the terminal's backup page behind it, which the
  kernel's page tables map to themselves (theory \<open>Paging\<close>), so the model stores to \<open>mem\<close>
  directly.  \<open>printf\<close> and \<open>printf_direct\<close> have the same body over \<open>putc\<close> and
  \<open>putc_direct\<close>; the body is \<open>printf_with\<close>.  The cursor is never negative (an invariant
  below), so C's remainder on it is \<open>mod\<close>.
\<close>

definition NUM_COLS :: int where "NUM_COLS = 80"
definition NUM_ROWS :: int where "NUM_ROWS = 25"
definition ATTRIB :: byte where "ATTRIB = 0x7"
definition VIDEO_MEM :: addr where "VIDEO_MEM = 0xb8000"

lemmas [const_defs] = NUM_COLS_def NUM_ROWS_def ATTRIB_def VIDEO_MEM_def

text \<open>\<open>base + (offset << 1)\<close>, the character byte of a cell; its attribute byte follows.\<close>

definition cell :: "addr \<Rightarrow> int \<Rightarrow> addr" where
  "cell base offset = base + word_of_int (2 * offset)"

text \<open>The page a terminal's output goes to: the screen if it is displayed, else its backup page.\<close>

definition backup_page :: "int \<Rightarrow> addr" where
  "backup_page t = VIDEO_MEM + word_of_int (4096 * (t + 1))"

definition video_mem_local :: "kernel \<Rightarrow> addr" where
  "video_mem_local k =
     (if cur_term_id k = active_term_idx k then VIDEO_MEM else backup_page (cur_term_id k))"

section \<open>Operations\<close>

definition update_cursor :: "int \<Rightarrow> int \<Rightarrow> kernel \<Rightarrow> kernel" where
  "update_cursor x y k =
     (let pos = word_of_int (y * NUM_COLS + x) :: u16;
          k = outb 0x0F 0x3D4 k;
          k = outb (ucast (pos AND 0xFF)) 0x3D5 k;
          k = outb 0x0E 0x3D4 k
      in outb (ucast (drop_bit 8 pos AND 0xFF)) 0x3D5 k)"

definition enable_cursor :: "byte \<Rightarrow> byte \<Rightarrow> kernel \<Rightarrow> kernel" where
  "enable_cursor in1 in2 k =
     (let k = outb 0x0A 0x3D4 k;
          k = outb ((in1 AND 0xC0) OR 14) 0x3D5 k;
          k = outb 0x0B 0x3D4 k
      in outb ((in2 AND 0xE0) OR 15) 0x3D5 k)"

definition clear_cells :: "addr \<Rightarrow> mem \<Rightarrow> mem" where
  "clear_cells base = for_loop 0 2000 (\<lambda>i m.
     m(cell base (int i) := (if int i mod NUM_COLS = 0 then 0x20 else 0),
       cell base (int i) + 1 := ATTRIB))"

definition clear :: "kernel \<Rightarrow> kernel" where
  "clear k =
     (let k = k\<lparr>mem := clear_cells VIDEO_MEM (mem k)\<rparr>;
          k = upd_tm (active_term_idx k) (\<lambda>t. t\<lparr>cursor_x := 0, cursor_y := 0\<rparr>) k;
          t = tm k (active_term_idx k)
      in update_cursor (cursor_x t) (cursor_y t) k)"

function backspace_skip :: "mem \<Rightarrow> int \<Rightarrow> int" where
  "backspace_skip m offset =
     (if offset \<ge> 0 \<and> m (cell VIDEO_MEM offset) = 0
      then if (offset + 1) mod NUM_COLS = 0 then offset else backspace_skip m (offset - 1)
      else offset)"
  by pat_completeness auto
termination by (relation "measure (\<lambda>(m, offset). nat (offset + 1))") auto

declare backspace_skip.simps [simp del]

definition backspace :: "kernel \<Rightarrow> kernel" where
  "backspace k =
     (let t = tm k (active_term_idx k);
          offset = cursor_y t * NUM_COLS + cursor_x t
      in if offset = 0 then k
         else let offset = offset - 1;
                  k = k\<lparr>mem := (mem k)(cell VIDEO_MEM offset := 0, cell VIDEO_MEM offset + 1 := ATTRIB)\<rparr>;
                  offset = backspace_skip (mem k) (offset - 1) + 1;
                  k = upd_tm (active_term_idx k)
                        (\<lambda>t. t\<lparr>cursor_y := offset div NUM_COLS, cursor_x := offset mod NUM_COLS\<rparr>) k;
                  t = tm k (active_term_idx k)
              in update_cursor (cursor_x t) (cursor_y t) k)"

definition scroll_cells :: "addr \<Rightarrow> mem \<Rightarrow> mem" where
  "scroll_cells base m =
     (let m = for_loop 0 24 (\<lambda>i. for_loop 0 80 (\<lambda>j m.
                let offset = int (i * 80 + j)
                in m(cell base offset := m (cell base (offset + NUM_COLS)),
                     cell base offset + 1 := ATTRIB))) m
      in for_loop 0 80 (\<lambda>j m.
           let offset = int (24 * 80 + j)
           in m(cell base offset := 0, cell base offset + 1 := ATTRIB)) m)"

definition scroll :: "kernel \<Rightarrow> kernel" where
  "scroll k =
     (let k = k\<lparr>mem := scroll_cells (video_mem_local k) (mem k)\<rparr>
      in upd_tm (cur_term_id k) (\<lambda>t. t\<lparr>cursor_x := 0, cursor_y := NUM_ROWS - 1\<rparr>) k)"

text \<open>\<open>while (cursor_x++ < NUM_COLS)\<close>: the store uses the incremented column, 80 included.\<close>

function newline_fill :: "addr \<Rightarrow> int \<Rightarrow> int \<Rightarrow> mem \<Rightarrow> mem" where
  "newline_fill base y x m =
     (if x < NUM_COLS
      then newline_fill base y (x + 1) (m(cell base (NUM_COLS * y + (x + 1)) := 0))
      else m)"
  by pat_completeness auto
termination by (relation "measure (\<lambda>(b, y, x, m). nat (80 - x))") (auto simp: NUM_COLS_def)

declare newline_fill.simps [simp del]

definition putc :: "byte \<Rightarrow> kernel \<Rightarrow> kernel" where
  "putc c k =
     (let base = video_mem_local k; cur = cur_term_id k; t = tm k cur; x = cursor_x t; y = cursor_y t;
          k = (if c = 0x0A \<or> c = 0x0D
               then upd_tm cur (\<lambda>t. t\<lparr>cursor_y := y + 1, cursor_x := 0\<rparr>)
                      (k\<lparr>mem := newline_fill base y x (mem k)\<rparr>)
               else let k = k\<lparr>mem := (mem k)(cell base (NUM_COLS * y + x) := c,
                                               cell base (NUM_COLS * y + x) + 1 := ATTRIB)\<rparr>;
                        x' = (x + 1) mod NUM_COLS;
                        y' = (y + x' div NUM_COLS) mod NUM_ROWS;
                        y'' = (if x' = 0 then y' + 1 else y')
                    in upd_tm cur (\<lambda>t. t\<lparr>cursor_x := x', cursor_y := y''\<rparr>) k);
          k = (if cursor_y (tm k cur) = NUM_ROWS then scroll k else k)
      in if cur_term_id k = active_term_idx k
         then update_cursor (cursor_x (tm k cur)) (cursor_y (tm k cur)) k
         else k)"

text \<open>The variant for the displayed terminal, which writes the screen and its backup page.\<close>

function newline_fill2 :: "addr \<Rightarrow> int \<Rightarrow> int \<Rightarrow> mem \<Rightarrow> mem" where
  "newline_fill2 bk y x m =
     (if x < NUM_COLS
      then newline_fill2 bk y (x + 1)
             (m(cell VIDEO_MEM (NUM_COLS * y + (x + 1)) := 0, cell bk (NUM_COLS * y + (x + 1)) := 0))
      else m)"
  by pat_completeness auto
termination by (relation "measure (\<lambda>(b, y, x, m). nat (80 - x))") (auto simp: NUM_COLS_def)

declare newline_fill2.simps [simp del]

definition scroll_direct_cells :: "addr \<Rightarrow> mem \<Rightarrow> mem" where
  "scroll_direct_cells bk m =
     (let m = for_loop 0 24 (\<lambda>i. for_loop 0 80 (\<lambda>j m.
                let offset = int (i * 80 + j);
                    m = m(cell VIDEO_MEM offset := m (cell VIDEO_MEM (offset + NUM_COLS)));
                    m = m(cell VIDEO_MEM offset + 1 := ATTRIB);
                    m = m(cell bk offset := m (cell VIDEO_MEM (offset + NUM_COLS)))
                in m(cell bk offset + 1 := ATTRIB))) m
      in for_loop 0 80 (\<lambda>j m.
           let offset = int (24 * 80 + j);
               m = m(cell VIDEO_MEM offset := 0);
               m = m(cell VIDEO_MEM offset + 1 := ATTRIB);
               m = m(cell bk offset := m (cell VIDEO_MEM (offset + NUM_COLS)))
           in m(cell bk offset + 1 := ATTRIB)) m)"

definition scroll_direct :: "kernel \<Rightarrow> kernel" where
  "scroll_direct k =
     (let k = k\<lparr>mem := scroll_direct_cells (backup_page (active_term_idx k)) (mem k)\<rparr>
      in upd_tm (active_term_idx k) (\<lambda>t. t\<lparr>cursor_x := 0, cursor_y := NUM_ROWS - 1\<rparr>) k)"

definition putc_direct :: "byte \<Rightarrow> kernel \<Rightarrow> kernel" where
  "putc_direct c k =
     (let cur = active_term_idx k; bk = backup_page cur; t = tm k cur; x = cursor_x t; y = cursor_y t;
          k = (if c = 0x0A \<or> c = 0x0D
               then upd_tm cur (\<lambda>t. t\<lparr>cursor_y := y + 1, cursor_x := 0\<rparr>)
                      (k\<lparr>mem := newline_fill2 bk y x (mem k)\<rparr>)
               else let k = k\<lparr>mem := (mem k)(cell VIDEO_MEM (NUM_COLS * y + x) := c,
                                               cell VIDEO_MEM (NUM_COLS * y + x) + 1 := ATTRIB,
                                               cell bk (NUM_COLS * y + x) := c,
                                               cell bk (NUM_COLS * y + x) + 1 := ATTRIB)\<rparr>;
                        x' = (x + 1) mod NUM_COLS;
                        y' = (y + x' div NUM_COLS) mod NUM_ROWS;
                        y'' = (if x' = 0 then y' + 1 else y')
                    in upd_tm cur (\<lambda>t. t\<lparr>cursor_x := x', cursor_y := y''\<rparr>) k);
          k = (if cursor_y (tm k cur) = NUM_ROWS then scroll_direct k else k)
      in update_cursor (cursor_x (tm k cur)) (cursor_y (tm k cur)) k)"

partial_function (option) puts_with :: "(byte \<Rightarrow> kernel \<Rightarrow> kernel) \<Rightarrow> ptr \<Rightarrow> nat \<Rightarrow> kernel \<Rightarrow> (int \<times> kernel) option" where
  "puts_with emit s index k =
     (if s index \<noteq> 0 then puts_with emit s (Suc index) (emit (s index) k) else Some (int index, k))"

definition puts :: "ptr \<Rightarrow> kernel \<Rightarrow> (int \<times> kernel) option" where
  "puts s k = puts_with putc s 0 k"

definition puts_direct :: "ptr \<Rightarrow> kernel \<Rightarrow> (int \<times> kernel) option" where
  "puts_direct s k = puts_with putc_direct s 0 k"

text \<open>The conversion buffers of \<open>%x\<close>, \<open>%#x\<close>, \<open>%u\<close> and \<open>%d\<close>.\<close>

definition conv_x :: "bool \<Rightarrow> u32 \<Rightarrow> byte list option" where
  "conv_x alternate v =
     (if \<not> alternate then itoa v 16
      else Option.bind (itoa v 16) (\<lambda>digits.
           map_option (\<lambda>len. replicate (8 - len) 0x30 @ digits) (strlen (of_bytes digits))))"

definition conv_d :: "u32 \<Rightarrow> byte list option" where
  "conv_d v = (if sint v < 0 then map_option (\<lambda>digits. 0x2D # digits) (itoa (- v) 10) else itoa v 10)"

text \<open>
  \<open>printf\<close>: \<open>esp\<close> gives the argument words on the stack, \<open>i\<close> is the position in the
  format, \<open>a\<close> the next argument.  \<open>format_char\<close> is the code after a \<open>%\<close>: the position
  it leaves \<open>buf\<close> at, the arguments it consumed and the output.
\<close>

partial_function (option) format_char ::
  "(byte \<Rightarrow> kernel \<Rightarrow> kernel) \<Rightarrow> ptr \<Rightarrow> (nat \<Rightarrow> u32) \<Rightarrow> bool \<Rightarrow> nat \<Rightarrow> nat \<Rightarrow> kernel \<Rightarrow> (nat \<times> nat \<times> kernel) option" where
  "format_char emit fmt esp alternate i a k =
     (let out = (\<lambda>b. map_option (\<lambda>(n, k). (i, Suc a, k)) (puts_with emit (of_bytes b) 0 k))
      in if fmt i = 0x25 then Some (i, a, emit 0x25 k)
         else if fmt i = 0x23 then format_char emit fmt esp True (Suc i) a k
         else if fmt i = 0x78 then Option.bind (conv_x alternate (esp a)) out
         else if fmt i = 0x75 then Option.bind (itoa (esp a) 10) out
         else if fmt i = 0x64 then Option.bind (conv_d (esp a)) out
         else if fmt i = 0x63 then Some (i, Suc a, emit (ucast (esp a)) k)
         else if fmt i = 0x73
         then map_option (\<lambda>(n, k). (i, Suc a, k)) (puts_with emit (at (mem k) (esp a)) 0 k)
         else Some (i, a, k))"

partial_function (option) printf_with ::
  "(byte \<Rightarrow> kernel \<Rightarrow> kernel) \<Rightarrow> ptr \<Rightarrow> (nat \<Rightarrow> u32) \<Rightarrow> nat \<Rightarrow> nat \<Rightarrow> kernel \<Rightarrow> (int \<times> kernel) option" where
  "printf_with emit fmt esp i a k =
     (if fmt i \<noteq> 0
      then if fmt i = 0x25
           then Option.bind (format_char emit fmt esp False (Suc i) a k)
                  (\<lambda>(i, a, k). printf_with emit fmt esp (Suc i) a k)
           else printf_with emit fmt esp (Suc i) a (emit (fmt i) k)
      else Some (int i, k))"

definition printf :: "ptr \<Rightarrow> (nat \<Rightarrow> u32) \<Rightarrow> kernel \<Rightarrow> (int \<times> kernel) option" where
  "printf fmt esp k = printf_with putc fmt esp 0 0 k"

definition printf_direct :: "ptr \<Rightarrow> (nat \<Rightarrow> u32) \<Rightarrow> kernel \<Rightarrow> (int \<times> kernel) option" where
  "printf_direct fmt esp k = printf_with putc_direct fmt esp 0 0 k"

definition test_interrupts :: "kernel \<Rightarrow> kernel" where
  "test_interrupts k = k\<lparr>mem := for_loop 0 2000 (\<lambda>i m.
     m(cell (video_mem k) (int i) := m (cell (video_mem k) (int i)) + 1)) (mem k)\<rparr>"

section \<open>Addresses of cells\<close>

definition page :: "addr \<Rightarrow> addr set" where
  "page base = {a. unat base \<le> unat a \<and> unat a < unat base + 4096}"

definition low_page :: "addr \<Rightarrow> bool" where
  "low_page base \<longleftrightarrow> unat base \<le> 0xC0000"

lemma unat_cell:
  assumes "low_page base" and "0 \<le> off" and "off < 2048"
  shows "unat (cell base off) = unat base + nat (2 * off)"
    and "unat (cell base off + 1) = unat base + nat (2 * off) + 1"
proof -
  have "cell base off = base + of_nat (nat (2 * off))"
    using assms(2) by (simp add: cell_def)
  moreover have "cell base off + 1 = base + of_nat (nat (2 * off) + 1)"
    using assms(2) by (simp add: cell_def)
  ultimately show "unat (cell base off) = unat base + nat (2 * off)"
    "unat (cell base off + 1) = unat base + nat (2 * off) + 1"
    using assms by (simp_all only: low_page_def unat_plus_of_nat)
qed

lemma cell_inj:
  assumes "low_page base" and "0 \<le> a" and "a < 2048" and "0 \<le> b" and "b < 2048"
  shows "cell base a = cell base b \<longleftrightarrow> a = b" and "cell base a + 1 = cell base b + 1 \<longleftrightarrow> a = b"
    and "cell base a \<noteq> cell base b + 1" and "cell base b + 1 \<noteq> cell base a"
proof -
  note u = unat_cell [OF assms(1)]
  show "cell base a = cell base b \<longleftrightarrow> a = b"
    using u(1) [of a] u(1) [of b] assms(2-5) by (metis add_left_cancel mult_cancel_left nat_eq_iff2 mult_nonneg_nonneg zero_le_numeral zero_neq_numeral)
  then show "cell base a + 1 = cell base b + 1 \<longleftrightarrow> a = b" by simp
  have "unat (cell base a) \<noteq> unat (cell base b + 1)"
    using u(1) [of a] u(2) [of b] assms(2-5) by (simp add: nat_mult_distrib) presburger
  then show "cell base a \<noteq> cell base b + 1" "cell base b + 1 \<noteq> cell base a" by auto
qed

lemma cell_in_page:
  assumes "low_page base" and "0 \<le> off" and "off < 2048"
  shows "cell base off \<in> page base" and "cell base off + 1 \<in> page base"
  using unat_cell [OF assms] assms(2,3) by (simp_all add: page_def nat_less_iff)

lemma low_page_simps [simp]: "low_page VIDEO_MEM" "0 \<le> i \<Longrightarrow> i < 3 \<Longrightarrow> low_page (backup_page i)"
proof -
  show "low_page VIDEO_MEM" by (simp add: low_page_def VIDEO_MEM_def)
  assume "0 \<le> i" "i < 3"
  then have "i = 0 \<or> i = 1 \<or> i = 2" by auto
  then show "low_page (backup_page i)" by (auto simp: low_page_def backup_page_def VIDEO_MEM_def)
qed

section \<open>The console invariant\<close>

definition cursor_ok :: "terminal \<Rightarrow> bool" where
  "cursor_ok t \<longleftrightarrow> 0 \<le> cursor_x t \<and> cursor_x t < NUM_COLS \<and> 0 \<le> cursor_y t \<and> cursor_y t < NUM_ROWS"

definition console_ok :: "kernel \<Rightarrow> bool" where
  "console_ok k \<longleftrightarrow> length (terminals k) = 3 \<and> 0 \<le> cur_term_id k \<and> cur_term_id k < 3
     \<and> 0 \<le> active_term_idx k \<and> active_term_idx k < 3 \<and> (\<forall>t \<in> set (terminals k). cursor_ok t)"

lemma console_ok_tm: "console_ok k \<Longrightarrow> 0 \<le> i \<Longrightarrow> i < 3 \<Longrightarrow> cursor_ok (tm k i)"
  by (simp add: console_ok_def tm_def)

lemma console_ok_upd_tm: "console_ok k \<Longrightarrow> cursor_ok (f (tm k i)) \<Longrightarrow> console_ok (upd_tm i f k)"
  by (auto simp: console_ok_def upd_tm_def dest: set_update_subset_insert [THEN subsetD])

lemma console_ok_frame [simp]:
  "console_ok (k\<lparr>mem := m\<rparr>) = console_ok k" "console_ok (outb d p k) = console_ok k"
  by (simp_all add: console_ok_def outb_def)

lemma update_cursor_simps [simp]:
  "mem (update_cursor x y k) = mem k" "terminals (update_cursor x y k) = terminals k"
  "active_term_idx (update_cursor x y k) = active_term_idx k"
  "cur_term_id (update_cursor x y k) = cur_term_id k" "tm (update_cursor x y k) i = tm k i"
  "console_ok (update_cursor x y k) = console_ok k"
  by (simp_all add: update_cursor_def Let_def)

lemma low_page_local: "console_ok k \<Longrightarrow> low_page (video_mem_local k)"
  by (simp add: video_mem_local_def console_ok_def)

section \<open>What the loops do to memory\<close>

lemma newline_fill_out:
  "low_page base \<Longrightarrow> 0 \<le> x \<Longrightarrow> 0 \<le> y \<Longrightarrow> y < 25 \<Longrightarrow> a \<notin> page base \<Longrightarrow> newline_fill base y x m a = m a"
proof (induction base y x m rule: newline_fill.induct)
  case (1 base y x m)
  show ?case
  proof (cases "x < NUM_COLS")
    case True
    then have "cell base (NUM_COLS * y + (x + 1)) \<in> page base"
      using 1 by (intro cell_in_page) (auto simp: NUM_COLS_def)
    then have "a \<noteq> cell base (NUM_COLS * y + (x + 1))" using "1.prems"(5) by auto
    moreover have "newline_fill base y (x + 1) (m(cell base (NUM_COLS * y + (x + 1)) := 0)) a
        = (m(cell base (NUM_COLS * y + (x + 1)) := 0)) a"
      using True "1.prems" by (intro "1.IH") auto
    ultimately show ?thesis using True by (subst newline_fill.simps) simp
  next
    case False
    then show ?thesis by (subst newline_fill.simps) simp
  qed
qed

lemma newline_fill2_out:
  "low_page bk \<Longrightarrow> 0 \<le> x \<Longrightarrow> 0 \<le> y \<Longrightarrow> y < 25 \<Longrightarrow> a \<notin> page VIDEO_MEM \<Longrightarrow> a \<notin> page bk \<Longrightarrow>
    newline_fill2 bk y x m a = m a"
proof (induction bk y x m rule: newline_fill2.induct)
  case (1 bk y x m)
  show ?case
  proof (cases "x < NUM_COLS")
    case True
    have "cell bk (NUM_COLS * y + (x + 1)) \<in> page bk"
      "cell VIDEO_MEM (NUM_COLS * y + (x + 1)) \<in> page VIDEO_MEM"
      using 1 True by (auto intro!: cell_in_page simp: NUM_COLS_def)
    then have "a \<noteq> cell bk (NUM_COLS * y + (x + 1))" "a \<noteq> cell VIDEO_MEM (NUM_COLS * y + (x + 1))"
      using "1.prems" by auto
    moreover have "newline_fill2 bk y (x + 1) (m(cell VIDEO_MEM (NUM_COLS * y + (x + 1)) := 0,
        cell bk (NUM_COLS * y + (x + 1)) := 0)) a
      = (m(cell VIDEO_MEM (NUM_COLS * y + (x + 1)) := 0, cell bk (NUM_COLS * y + (x + 1)) := 0)) a"
      using True "1.prems" by (intro "1.IH") auto
    ultimately show ?thesis using True by (subst newline_fill2.simps) simp
  next
    case False
    then show ?thesis by (subst newline_fill2.simps) simp
  qed
qed

text \<open>
  \<open>moved base n m m'\<close>: the first \<open>n\<close> cells have received the character one row below,
  with the standard attribute, and nothing else has changed.
\<close>

definition moved :: "addr \<Rightarrow> nat \<Rightarrow> mem \<Rightarrow> mem \<Rightarrow> bool" where
  "moved base n m m' \<longleftrightarrow>
     (\<forall>off<n. m' (cell base (int off)) = m (cell base (int off + 80)) \<and> m' (cell base (int off) + 1) = ATTRIB)
     \<and> (\<forall>a. (\<forall>off<n. a \<noteq> cell base (int off) \<and> a \<noteq> cell base (int off) + 1) \<longrightarrow> m' a = m a)"

lemma scroll_rows_moved:
  assumes "low_page base"
  shows "moved base 1920 m (for_loop 0 24 (\<lambda>i. for_loop 0 80 (\<lambda>j m.
    let offset = int (i * 80 + j)
    in m(cell base offset := m (cell base (offset + NUM_COLS)), cell base offset + 1 := ATTRIB))) m)"
proof -
  let ?f = "\<lambda>i m. m(cell base (int i) := m (cell base (int i + 80)), cell base (int i) + 1 := ATTRIB)"
  have "moved base 1920 m (for_loop 0 1920 ?f m)"
  proof (rule for_loop_rule [where P = "\<lambda>n. moved base n m"])
    show "moved base 0 m m" by (simp add: moved_def)
    fix i m'
    assume i: "i < 1920" and IH: "moved base i m m'"
    have "m' (cell base (int i + 80)) = m (cell base (int i + 80))"
      using IH i assms by (auto simp: moved_def cell_inj)
    then show "moved base (Suc i) m (?f i m')"
      using IH i assms by (auto simp: moved_def cell_inj less_Suc_eq)
  qed simp
  moreover have "for_loop 0 24 (\<lambda>i. for_loop 0 80 (\<lambda>j. ?f (i * 80 + j))) m = for_loop 0 1920 ?f m"
    using for_loop_nest [of 24 80 ?f m] by simp
  ultimately show ?thesis by (simp add: Let_def NUM_COLS_def del: of_nat_add)
qed

lemma blank_row:
  assumes "low_page base"
  shows "let m' = for_loop 0 80 (\<lambda>j m. let offset = int (24 * 80 + j)
           in m(cell base offset := 0, cell base offset + 1 := ATTRIB)) m
    in (\<forall>j<80. m' (cell base (int (1920 + j))) = 0 \<and> m' (cell base (int (1920 + j)) + 1) = ATTRIB)
     \<and> (\<forall>a. (\<forall>j<80. a \<noteq> cell base (int (1920 + j)) \<and> a \<noteq> cell base (int (1920 + j)) + 1) \<longrightarrow> m' a = m a)"
proof -
  let ?f = "\<lambda>j m. m(cell base (int (1920 + j)) := 0, cell base (int (1920 + j)) + 1 := ATTRIB)"
  let ?P = "\<lambda>n m'. (\<forall>j<n. m' (cell base (int (1920 + j))) = 0 \<and> m' (cell base (int (1920 + j)) + 1) = ATTRIB)
     \<and> (\<forall>a. (\<forall>j<n. a \<noteq> cell base (int (1920 + j)) \<and> a \<noteq> cell base (int (1920 + j)) + 1) \<longrightarrow> m' a = m a)"
  have "?P 80 (for_loop 0 80 ?f m)"
  proof (rule for_loop_rule [where P = ?P])
    fix i m'
    assume "i < 80" and "?P i m'"
    then show "?P (Suc i) (?f i m')" using assms by (auto simp: cell_inj less_Suc_eq)
  qed simp_all
  then show ?thesis by (simp add: Let_def)
qed

text \<open>After a scroll: every row holds the row below it, the last one is blank, the rest is untouched.\<close>

lemma scroll_cells_spec:
  assumes "low_page base"
  shows "off < 1920 \<Longrightarrow> scroll_cells base m (cell base (int off)) = m (cell base (int off + 80))"
    and "1920 \<le> off \<Longrightarrow> off < 2000 \<Longrightarrow> scroll_cells base m (cell base (int off)) = 0"
    and "off < 2000 \<Longrightarrow> scroll_cells base m (cell base (int off) + 1) = ATTRIB"
    and "(\<forall>off<2000. a \<noteq> cell base (int off) \<and> a \<noteq> cell base (int off) + 1) \<Longrightarrow> scroll_cells base m a = m a"
proof -
  define m1 where "m1 = for_loop 0 24 (\<lambda>i. for_loop 0 80 (\<lambda>j m. let offset = int (i * 80 + j)
    in m(cell base offset := m (cell base (offset + NUM_COLS)), cell base offset + 1 := ATTRIB))) m"
  have m1: "moved base 1920 m m1" unfolding m1_def by (rule scroll_rows_moved [OF assms])
  have s: "scroll_cells base m = for_loop 0 80 (\<lambda>j m. let offset = int (24 * 80 + j)
      in m(cell base offset := 0, cell base offset + 1 := ATTRIB)) m1"
    by (simp add: scroll_cells_def m1_def Let_def)
  note row = blank_row [OF assms, of m1, folded s, unfolded Let_def]
  have blank: "scroll_cells base m (cell base (int (1920 + j))) = 0"
      "scroll_cells base m (cell base (int (1920 + j)) + 1) = ATTRIB" if "j < 80" for j
    using row [THEN conjunct1, rule_format, OF that] by simp_all
  have frame: "scroll_cells base m a = m1 a"
    if "\<forall>j<80. a \<noteq> cell base (int (1920 + j)) \<and> a \<noteq> cell base (int (1920 + j)) + 1" for a
    using row [THEN conjunct2, THEN spec, THEN mp, OF that] .
  show "scroll_cells base m (cell base (int off)) = m (cell base (int off + 80))" if "off < 1920"
  proof -
    have "scroll_cells base m (cell base (int off)) = m1 (cell base (int off))"
      using that assms by (intro frame) (auto simp: cell_inj)
    also have "\<dots> = m (cell base (int off + 80))" using m1 that unfolding moved_def by blast
    finally show ?thesis .
  qed
  show "scroll_cells base m (cell base (int off)) = 0" if "1920 \<le> off" "off < 2000"
    using blank(1) [of "off - 1920"] that by simp
  show "scroll_cells base m (cell base (int off) + 1) = ATTRIB" if "off < 2000"
  proof (cases "off < 1920")
    case True
    have "scroll_cells base m (cell base (int off) + 1) = m1 (cell base (int off) + 1)"
      using True assms by (intro frame) (auto simp: cell_inj)
    also have "\<dots> = ATTRIB" using m1 True unfolding moved_def by blast
    finally show ?thesis .
  next
    case False
    then show ?thesis using blank(2) [of "off - 1920"] that by simp
  qed
  show "scroll_cells base m a = m a"
    if "\<forall>off<2000. a \<noteq> cell base (int off) \<and> a \<noteq> cell base (int off) + 1"
  proof -
    have "\<forall>j<80. a \<noteq> cell base (int (1920 + j)) \<and> a \<noteq> cell base (int (1920 + j)) + 1"
      using that by (intro allI impI) (simp only: that [rule_format], simp)
    then have "scroll_cells base m a = m1 a" by (rule frame)
    moreover have "\<forall>off<1920. a \<noteq> cell base (int off) \<and> a \<noteq> cell base (int off) + 1"
      using that by simp
    then have "m1 a = m a" using m1 unfolding moved_def by blast
    ultimately show ?thesis by simp
  qed
qed

lemma scroll_cells_out: "low_page base \<Longrightarrow> a \<notin> page base \<Longrightarrow> scroll_cells base m a = m a"
proof (rule scroll_cells_spec(4))
  assume base: "low_page base" and out: "a \<notin> page base"
  show "\<forall>off<2000. a \<noteq> cell base (int off) \<and> a \<noteq> cell base (int off) + 1"
  proof (intro allI impI)
    fix off :: nat
    assume "off < 2000"
    then have "cell base (int off) \<in> page base" "cell base (int off) + 1 \<in> page base"
      using base by (simp_all add: cell_in_page)
    then show "a \<noteq> cell base (int off) \<and> a \<noteq> cell base (int off) + 1" using out by blast
  qed
qed

section \<open>One character at a time\<close>

definition is_newline :: "byte \<Rightarrow> bool" where
  "is_newline c \<longleftrightarrow> c = 0x0A \<or> c = 0x0D"

text \<open>Where the cursor goes, and whether the page scrolls.\<close>

definition next_cursor :: "byte \<Rightarrow> int \<Rightarrow> int \<Rightarrow> int \<times> int" where
  "next_cursor c x y =
     (if is_newline c \<or> x = 79 then (0, if y = 24 then 24 else y + 1) else (x + 1, y))"

definition needs_scroll :: "byte \<Rightarrow> int \<Rightarrow> int \<Rightarrow> bool" where
  "needs_scroll c x y \<longleftrightarrow> y = 24 \<and> (is_newline c \<or> x = 79)"

definition put_cells :: "byte \<Rightarrow> addr \<Rightarrow> int \<Rightarrow> int \<Rightarrow> mem \<Rightarrow> mem" where
  "put_cells c base x y m =
     (let m = (if is_newline c then newline_fill base y x m
               else m(cell base (80 * y + x) := c, cell base (80 * y + x) + 1 := ATTRIB))
      in if needs_scroll c x y then scroll_cells base m else m)"

definition put_cells_direct :: "byte \<Rightarrow> addr \<Rightarrow> int \<Rightarrow> int \<Rightarrow> mem \<Rightarrow> mem" where
  "put_cells_direct c bk x y m =
     (let m = (if is_newline c then newline_fill2 bk y x m
               else m(cell VIDEO_MEM (80 * y + x) := c, cell VIDEO_MEM (80 * y + x) + 1 := ATTRIB,
                      cell bk (80 * y + x) := c, cell bk (80 * y + x) + 1 := ATTRIB))
      in if needs_scroll c x y then scroll_direct_cells bk m else m)"

definition set_cursor :: "int \<times> int \<Rightarrow> terminal \<Rightarrow> terminal" where
  "set_cursor p t = t\<lparr>cursor_x := fst p, cursor_y := snd p\<rparr>"

lemma cursor_step:
  assumes "0 \<le> (x :: int)" and "x < 80" and "0 \<le> (y :: int)" and "y < 25"
  shows "(x + 1) mod 80 = (if x = 79 then 0 else x + 1)" and "(y + (x + 1) mod 80 div 80) mod 25 = y"
proof -
  show "(x + 1) mod 80 = (if x = 79 then 0 else x + 1)" using assms by auto
  have "(x + 1) mod 80 div 80 = 0" by (simp add: div_eq_0_iff)
  then show "(y + (x + 1) mod 80 div 80) mod 25 = y" using assms by simp
qed

lemma set_cursor_simps [simp]:
  "cursor_x (set_cursor p t) = fst p" "cursor_y (set_cursor p t) = snd p"
  "set_cursor p (set_cursor q t) = set_cursor p t"
  by (simp_all add: set_cursor_def)

lemma set_cursor_upd:
  "(\<lambda>t. t\<lparr>cursor_y := y, cursor_x := x\<rparr>) = set_cursor (x, y)"
  "(\<lambda>t. t\<lparr>cursor_x := x, cursor_y := y\<rparr>) = set_cursor (x, y)"
  by (simp_all add: set_cursor_def fun_eq_iff)

lemma upd_tm_merge:
  "nat i < length (terminals k) \<Longrightarrow> tm (upd_tm i f k) i = f (tm k i)"
  "nat i < length (terminals k) \<Longrightarrow> upd_tm i f ((upd_tm i g k)\<lparr>mem := m\<rparr>) = upd_tm i (\<lambda>t. f (g t)) (k\<lparr>mem := m\<rparr>)"
  by (simp_all add: upd_tm_def tm_def)

lemma video_mem_local_frame [simp]:
  "video_mem_local (upd_tm i f k) = video_mem_local k" "video_mem_local (k\<lparr>mem := m\<rparr>) = video_mem_local k"
  by (simp_all add: video_mem_local_def)

lemma scroll_moved:
  assumes "nat (cur_term_id k) < length (terminals k)"
  shows "scroll (upd_tm (cur_term_id k) (set_cursor p) (k\<lparr>mem := m\<rparr>)) =
    upd_tm (cur_term_id k) (set_cursor (0, 24)) (k\<lparr>mem := scroll_cells (video_mem_local k) m\<rparr>)"
  using assms by (simp add: scroll_def Let_def set_cursor_upd upd_tm_merge NUM_ROWS_def)

lemma putc_finish:
  assumes "nat (cur_term_id k) < length (terminals k)"
    and "k1 = upd_tm (cur_term_id k) (set_cursor p) (k\<lparr>mem := m\<rparr>)"
    and "p' = (if snd p = 25 then (0, 24) else p)"
    and "m' = (if snd p = 25 then scroll_cells (video_mem_local k) m else m)"
  shows "(if cursor_y (tm k1 (cur_term_id k)) = NUM_ROWS then scroll k1 else k1) =
    upd_tm (cur_term_id k) (set_cursor p') (k\<lparr>mem := m'\<rparr>)"
  using assms by (simp add: upd_tm_merge scroll_moved NUM_ROWS_def)

text \<open>\<open>putc\<close> by its effect: the page of the current terminal and that terminal's cursor.\<close>

lemma putc_eq:
  assumes "console_ok k" and "x = cursor_x (tm k (cur_term_id k))" and "y = cursor_y (tm k (cur_term_id k))"
  shows "putc c k =
    (let k' = upd_tm (cur_term_id k) (set_cursor (next_cursor c x y))
                (k\<lparr>mem := put_cells c (video_mem_local k) x y (mem k)\<rparr>)
     in if cur_term_id k = active_term_idx k
        then update_cursor (fst (next_cursor c x y)) (snd (next_cursor c x y)) k' else k')"
proof -
  have c: "0 \<le> x" "x < 80" "0 \<le> y" "y < 25"
    using console_ok_tm [OF assms(1), of "cur_term_id k"] assms
    by (auto simp: cursor_ok_def console_ok_def const_defs)
  have v: "nat (cur_term_id k) < length (terminals k)" using assms(1) by (auto simp: console_ok_def)
  define p where "p = (if is_newline c then (0, y + 1) else if x = 79 then (0, y + 1) else (x + 1, y))"
  define m where "m = (if is_newline c then newline_fill (video_mem_local k) y x (mem k)
    else (mem k)(cell (video_mem_local k) (80 * y + x) := c, cell (video_mem_local k) (80 * y + x) + 1 := ATTRIB))"
  define k1 where "k1 = (if c = 0x0A \<or> c = 0x0D
    then upd_tm (cur_term_id k) (\<lambda>t. t\<lparr>cursor_y := y + 1, cursor_x := 0\<rparr>)
           (k\<lparr>mem := newline_fill (video_mem_local k) y x (mem k)\<rparr>)
    else let k' = k\<lparr>mem := (mem k)(cell (video_mem_local k) (NUM_COLS * y + x) := c,
                                    cell (video_mem_local k) (NUM_COLS * y + x) + 1 := ATTRIB)\<rparr>;
             x' = (x + 1) mod NUM_COLS;
             y' = (y + x' div NUM_COLS) mod NUM_ROWS;
             y'' = (if x' = 0 then y' + 1 else y')
         in upd_tm (cur_term_id k) (\<lambda>t. t\<lparr>cursor_x := x', cursor_y := y''\<rparr>) k')"
  have "k1 = upd_tm (cur_term_id k) (set_cursor p) (k\<lparr>mem := m\<rparr>)"
    using c by (simp add: k1_def p_def m_def is_newline_def set_cursor_upd Let_def NUM_COLS_def NUM_ROWS_def cursor_step)
  note k2 = putc_finish [OF v this refl refl]
  have p': "(if snd p = 25 then (0, 24) else p) = next_cursor c x y"
    using c by (auto simp: p_def next_cursor_def)
  have m': "(if snd p = 25 then scroll_cells (video_mem_local k) m else m) = put_cells c (video_mem_local k) x y (mem k)"
    using c by (auto simp: p_def m_def put_cells_def needs_scroll_def)
  have "putc c k = (let k2 = (if cursor_y (tm k1 (cur_term_id k)) = NUM_ROWS then scroll k1 else k1)
      in if cur_term_id k2 = active_term_idx k2
         then update_cursor (cursor_x (tm k2 (cur_term_id k))) (cursor_y (tm k2 (cur_term_id k))) k2 else k2)"
    unfolding putc_def k1_def assms(2,3) Let_def by (rule refl)
  also have "\<dots> = (let k' = upd_tm (cur_term_id k) (set_cursor (next_cursor c x y))
                (k\<lparr>mem := put_cells c (video_mem_local k) x y (mem k)\<rparr>)
     in if cur_term_id k = active_term_idx k
        then update_cursor (fst (next_cursor c x y)) (snd (next_cursor c x y)) k' else k')"
    using v by (simp add: k2 p' m' Let_def upd_tm_merge)
  finally show ?thesis .
qed

lemma scroll_direct_moved:
  assumes "nat (active_term_idx k) < length (terminals k)"
  shows "scroll_direct (upd_tm (active_term_idx k) (set_cursor p) (k\<lparr>mem := m\<rparr>)) =
    upd_tm (active_term_idx k) (set_cursor (0, 24)) (k\<lparr>mem := scroll_direct_cells (backup_page (active_term_idx k)) m\<rparr>)"
  using assms by (simp add: scroll_direct_def Let_def set_cursor_upd upd_tm_merge NUM_ROWS_def)

lemma putc_direct_finish:
  assumes "nat (active_term_idx k) < length (terminals k)"
    and "k1 = upd_tm (active_term_idx k) (set_cursor p) (k\<lparr>mem := m\<rparr>)"
    and "p' = (if snd p = 25 then (0, 24) else p)"
    and "m' = (if snd p = 25 then scroll_direct_cells (backup_page (active_term_idx k)) m else m)"
  shows "(if cursor_y (tm k1 (active_term_idx k)) = NUM_ROWS then scroll_direct k1 else k1) =
    upd_tm (active_term_idx k) (set_cursor p') (k\<lparr>mem := m'\<rparr>)"
  using assms by (simp add: upd_tm_merge scroll_direct_moved NUM_ROWS_def)

text \<open>\<open>putc_direct\<close>: the screen, the displayed terminal's backup page and cursor.\<close>

lemma putc_direct_eq:
  assumes "console_ok k" and "a = active_term_idx k" and "x = cursor_x (tm k a)" and "y = cursor_y (tm k a)"
  shows "putc_direct c k = update_cursor (fst (next_cursor c x y)) (snd (next_cursor c x y))
    (upd_tm a (set_cursor (next_cursor c x y))
      (k\<lparr>mem := put_cells_direct c (backup_page a) x y (mem k)\<rparr>))"
proof -
  have c: "0 \<le> x" "x < 80" "0 \<le> y" "y < 25"
    using console_ok_tm [OF assms(1), of a] assms
    by (auto simp: cursor_ok_def console_ok_def const_defs)
  have v: "nat (active_term_idx k) < length (terminals k)" using assms(1) by (auto simp: console_ok_def)
  define p where "p = (if is_newline c then (0, y + 1) else if x = 79 then (0, y + 1) else (x + 1, y))"
  define m where "m = (if is_newline c then newline_fill2 (backup_page a) y x (mem k)
    else (mem k)(cell VIDEO_MEM (80 * y + x) := c, cell VIDEO_MEM (80 * y + x) + 1 := ATTRIB,
      cell (backup_page a) (80 * y + x) := c, cell (backup_page a) (80 * y + x) + 1 := ATTRIB))"
  define k1 where "k1 = (if c = 0x0A \<or> c = 0x0D
    then upd_tm a (\<lambda>t. t\<lparr>cursor_y := y + 1, cursor_x := 0\<rparr>)
           (k\<lparr>mem := newline_fill2 (backup_page a) y x (mem k)\<rparr>)
    else let k' = k\<lparr>mem := (mem k)(cell VIDEO_MEM (NUM_COLS * y + x) := c,
                                     cell VIDEO_MEM (NUM_COLS * y + x) + 1 := ATTRIB,
                                     cell (backup_page a) (NUM_COLS * y + x) := c,
                                     cell (backup_page a) (NUM_COLS * y + x) + 1 := ATTRIB)\<rparr>;
             x' = (x + 1) mod NUM_COLS;
             y' = (y + x' div NUM_COLS) mod NUM_ROWS;
             y'' = (if x' = 0 then y' + 1 else y')
         in upd_tm a (\<lambda>t. t\<lparr>cursor_x := x', cursor_y := y''\<rparr>) k')"
  have "k1 = upd_tm (active_term_idx k) (set_cursor p) (k\<lparr>mem := m\<rparr>)"
    using c assms(2) by (simp add: k1_def p_def m_def is_newline_def set_cursor_upd Let_def NUM_COLS_def NUM_ROWS_def cursor_step)
  note k2 = putc_direct_finish [OF v this refl refl]
  have p': "(if snd p = 25 then (0, 24) else p) = next_cursor c x y"
    using c by (auto simp: p_def next_cursor_def)
  have m': "(if snd p = 25 then scroll_direct_cells (backup_page (active_term_idx k)) m else m)
      = put_cells_direct c (backup_page a) x y (mem k)"
    using c assms(2) by (auto simp: p_def m_def put_cells_direct_def needs_scroll_def)
  have "putc_direct c k = (let k2 = (if cursor_y (tm k1 (active_term_idx k)) = NUM_ROWS then scroll_direct k1 else k1)
      in update_cursor (cursor_x (tm k2 a)) (cursor_y (tm k2 a)) k2)"
    unfolding putc_direct_def k1_def assms(2-4) Let_def by (rule refl)
  also have "\<dots> = update_cursor (fst (next_cursor c x y)) (snd (next_cursor c x y))
    (upd_tm a (set_cursor (next_cursor c x y))
      (k\<lparr>mem := put_cells_direct c (backup_page a) x y (mem k)\<rparr>))"
    using v by (simp add: k2 p' m' Let_def upd_tm_merge assms(2))
  finally show ?thesis .
qed

section \<open>Output stays inside its pages\<close>

lemma put_cells_out:
  assumes "low_page base" and "0 \<le> x" and "x < 80" and "0 \<le> y" and "y < 25" and "a \<notin> page base"
  shows "put_cells c base x y m a = m a"
proof -
  have "cell base (80 * y + x) \<in> page base" "cell base (80 * y + x) + 1 \<in> page base"
    using assms by (auto intro!: cell_in_page)
  then have "a \<noteq> cell base (80 * y + x)" "a \<noteq> cell base (80 * y + x) + 1" using assms(6) by auto
  then show ?thesis using assms by (simp add: put_cells_def scroll_cells_out newline_fill_out Let_def)
qed

lemma scroll_direct_cells_out:
  assumes "low_page bk" and "a \<notin> page VIDEO_MEM" and "a \<notin> page bk"
  shows "scroll_direct_cells bk m a = m a"
proof -
  have ne: "a \<noteq> cell VIDEO_MEM (int n)" "a \<noteq> cell VIDEO_MEM (int n) + 1" "a \<noteq> cell bk (int n)"
    "a \<noteq> cell bk (int n) + 1" if "n < 2048" for n
    using cell_in_page [of VIDEO_MEM "int n"] cell_in_page [of bk "int n"] that assms by auto
  show ?thesis unfolding scroll_direct_cells_def Let_def
    by (intro for_loop_invariant [where P = "\<lambda>m'. m' a = m a"]) (use ne in \<open>simp_all del: of_nat_add of_nat_mult\<close>)
qed

lemma put_cells_direct_out:
  assumes "low_page bk" and "0 \<le> x" and "x < 80" and "0 \<le> y" and "y < 25"
    and "a \<notin> page VIDEO_MEM" and "a \<notin> page bk"
  shows "put_cells_direct c bk x y m a = m a"
proof -
  have "cell b (80 * y + x) \<in> page b" "cell b (80 * y + x) + 1 \<in> page b" if "low_page b" for b
    using assms that by (auto intro!: cell_in_page)
  from this [of bk] this [of VIDEO_MEM]
  have "a \<noteq> cell bk (80 * y + x)" "a \<noteq> cell bk (80 * y + x) + 1"
    "a \<noteq> cell VIDEO_MEM (80 * y + x)" "a \<noteq> cell VIDEO_MEM (80 * y + x) + 1" using assms by auto
  then show ?thesis
    using assms by (simp add: put_cells_direct_def scroll_direct_cells_out newline_fill2_out Let_def)
qed

lemma next_cursor_ok:
  "0 \<le> x \<Longrightarrow> x < 80 \<Longrightarrow> 0 \<le> y \<Longrightarrow> y < 25 \<Longrightarrow> cursor_ok (set_cursor (next_cursor c x y) t)"
  by (auto simp: cursor_ok_def next_cursor_def const_defs)

lemma console_ok_cursor:
  assumes "console_ok k" and "0 \<le> i" and "i < 3"
  shows "0 \<le> cursor_x (tm k i)" "cursor_x (tm k i) < 80" "0 \<le> cursor_y (tm k i)" "cursor_y (tm k i) < 25"
  using console_ok_tm [OF assms] by (auto simp: cursor_ok_def const_defs)

lemma console_ok_ids: "console_ok k \<Longrightarrow> 0 \<le> cur_term_id k \<and> cur_term_id k < 3
    \<and> 0 \<le> active_term_idx k \<and> active_term_idx k < 3"
  by (simp add: console_ok_def)

lemma putc_fields:
  assumes "console_ok k"
  shows "mem (putc c k) = put_cells c (video_mem_local k) (cursor_x (tm k (cur_term_id k)))
      (cursor_y (tm k (cur_term_id k))) (mem k)"
    and "terminals (putc c k) = terminals (upd_tm (cur_term_id k) (set_cursor
      (next_cursor c (cursor_x (tm k (cur_term_id k))) (cursor_y (tm k (cur_term_id k))))) k)"
    and "cur_term_id (putc c k) = cur_term_id k" and "active_term_idx (putc c k) = active_term_idx k"
  using putc_eq [OF assms refl refl, of c] by (simp_all add: Let_def upd_tm_def tm_def)

lemma putc_laws:
  assumes "console_ok k"
  shows "console_ok (putc c k)" and "video_mem_local (putc c k) = video_mem_local k"
    and "a \<notin> page (video_mem_local k) \<Longrightarrow> mem (putc c k) a = mem k a"
proof -
  note ids = console_ok_ids [OF assms]
  note cur = console_ok_cursor [OF assms, of "cur_term_id k"]
  show "video_mem_local (putc c k) = video_mem_local k"
    by (simp add: video_mem_local_def putc_fields [OF assms])
  show "a \<notin> page (video_mem_local k) \<Longrightarrow> mem (putc c k) a = mem k a"
    using ids cur assms by (simp add: putc_fields(1) put_cells_out low_page_local)
  have "console_ok (upd_tm (cur_term_id k) (set_cursor
      (next_cursor c (cursor_x (tm k (cur_term_id k))) (cursor_y (tm k (cur_term_id k))))) k)"
    using ids cur assms by (intro console_ok_upd_tm next_cursor_ok) simp_all
  then show "console_ok (putc c k)"
    by (simp add: console_ok_def putc_fields [OF assms])
qed

lemma putc_direct_laws:
  assumes "console_ok k"
  shows "console_ok (putc_direct c k)" and "active_term_idx (putc_direct c k) = active_term_idx k"
    and "a \<notin> page VIDEO_MEM \<Longrightarrow> a \<notin> page (backup_page (active_term_idx k)) \<Longrightarrow> mem (putc_direct c k) a = mem k a"
    and "cur_term_id (putc_direct c k) = cur_term_id k"
  using assms console_ok_ids [OF assms] console_ok_cursor [OF assms, of "active_term_idx k"]
  by (simp_all add: putc_direct_eq [OF _ refl refl refl] console_ok_upd_tm next_cursor_ok put_cells_direct_out)

section \<open>The rest of the kernel is not touched\<close>

lemma term_core_cursor [simp]:
  "term_core (t\<lparr>cursor_x := x, cursor_y := y\<rparr>) = term_core t"
  "term_core (t\<lparr>cursor_y := y, cursor_x := x\<rparr>) = term_core t" "term_core (set_cursor p t) = term_core t"
  by (simp_all add: term_core_def set_cursor_def)

lemma core_update_cursor [simp]: "core (update_cursor x y k) = core k"
  by (simp add: update_cursor_def Let_def)

lemma core_scroll [simp]: "core (scroll k) = core k" "core (scroll_direct k) = core k"
  by (simp_all add: scroll_def scroll_direct_def Let_def core_upd_tm)

lemma core_putc [simp]: "core (putc c k) = core k"
  by (simp add: putc_def Let_def core_upd_tm)

lemma core_putc_direct [simp]: "core (putc_direct c k) = core k"
  by (simp add: putc_direct_def Let_def core_upd_tm)

lemma core_clear [simp]: "core (clear k) = core k"
  by (simp add: clear_def Let_def core_upd_tm)

lemma core_backspace [simp]: "core (backspace k) = core k"
  by (simp add: backspace_def Let_def core_upd_tm)

section \<open>The character sink interface\<close>

text \<open>
  What \<open>puts\<close>, \<open>printf\<close> and \<open>terminal_write\<close> rely on: a character operation that keeps
  the console invariant, changes memory only inside a fixed area and leaves everything that is
  not console state as it was.  \<open>putc\<close> and
  \<open>putc_direct\<close> both provide it.
\<close>

locale char_sink =
  fixes emit :: "byte \<Rightarrow> kernel \<Rightarrow> kernel" and area :: "kernel \<Rightarrow> addr set"
  assumes keeps_ok: "console_ok k \<Longrightarrow> console_ok (emit c k)"
    and keeps_area: "console_ok k \<Longrightarrow> area (emit c k) = area k"
    and inside: "console_ok k \<Longrightarrow> a \<notin> area k \<Longrightarrow> mem (emit c k) a = mem k a"
    and keeps_core: "core (emit c k) = core k"
begin

definition confined :: "kernel \<Rightarrow> kernel \<Rightarrow> bool" where
  "confined k k' \<longleftrightarrow> core k' = core k \<and> (console_ok k \<longrightarrow>
     console_ok k' \<and> area k' = area k \<and> (\<forall>a. a \<notin> area k \<longrightarrow> mem k' a = mem k a))"

lemma confined_refl [simp]: "confined k k"
  by (simp add: confined_def)

lemma confined_trans: "confined k k' \<Longrightarrow> confined k' k'' \<Longrightarrow> confined k k''"
  by (auto simp: confined_def)

lemma confined_emit: "confined k k' \<Longrightarrow> confined k (emit c k')"
  by (auto simp: confined_def keeps_ok keeps_area inside keeps_core)

lemma confined_fold: "confined k (fold emit cs k)"
proof (induction cs rule: rev_induct)
  case Nil
  show ?case by simp
next
  case (snoc c cs)
  then show ?case by (simp add: confined_emit)
qed

lemma puts_from:
  assumes "is_cstr s n" and "i \<le> n"
  shows "puts_with emit s i k = Some (int n, fold emit (map s [i..<n]) k)"
  using assms(2)
proof (induction arbitrary: k rule: inc_induct)
  case base
  then show ?case using assms(1) by (subst puts_with.simps) (simp add: is_cstr_def)
next
  case (step i)
  then show ?case using assms(1)
    by (subst puts_with.simps) (simp add: is_cstr_def upt_conv_Cons)
qed

lemma puts_all: "is_cstr s n \<Longrightarrow> puts_with emit s 0 k = Some (int n, fold emit (map s [0..<n]) k)"
  by (rule puts_from) simp_all

lemma puts_bytes: "0 \<notin> set b \<Longrightarrow> puts_with emit (of_bytes (b @ [0])) 0 k = Some (int (length b), fold emit b k)"
proof -
  have "map (of_bytes (b @ [0])) [0..<length b] = b"
    by (rule nth_equalityI) (simp_all add: of_bytes_def nth_append)
  moreover assume "0 \<notin> set b"
  ultimately show ?thesis using puts_all [OF is_cstr_of_bytes [of b]] by simp
qed

lemma puts_confined: "puts_with emit s i k = Some (r, k') \<Longrightarrow> confined k k'"
proof -
  have "e = emit \<longrightarrow> (\<forall>k0. confined k0 k \<longrightarrow> confined k0 (snd p))" if run: "puts_with e s i k = Some p" for e s i k p
    by (rule puts_with.raw_induct [where P = "\<lambda>e s i k p. e = emit \<longrightarrow> (\<forall>k0. confined k0 k \<longrightarrow> confined k0 (snd p))", OF _ run])
      (auto split: if_splits simp: confined_emit)
  then show "puts_with emit s i k = Some (r, k') \<Longrightarrow> confined k k'" by fastforce
qed

lemma format_confined: "format_char emit fmt esp alt i a k = Some (i', a', k') \<Longrightarrow> confined k k'"
proof -
  have "e = emit \<longrightarrow> confined k (snd (snd p))" if run: "format_char e fmt esp alt i a k = Some p" for e fmt esp alt i a k p
    by (rule format_char.raw_induct [where P = "\<lambda>e fmt esp alt i a k p. e = emit \<longrightarrow> confined k (snd (snd p))", OF _ run])
      (auto simp: Let_def bind_eq_Some_conv confined_emit split: if_splits dest: puts_confined)
  then show "format_char emit fmt esp alt i a k = Some (i', a', k') \<Longrightarrow> confined k k'" by fastforce
qed

lemma printf_confined: "printf_with emit fmt esp i a k = Some (r, k') \<Longrightarrow> confined k k'"
proof -
  have "e = emit \<longrightarrow> (\<forall>k0. confined k0 k \<longrightarrow> confined k0 (snd p))" if run: "printf_with e fmt esp i a k = Some p" for e fmt esp i a k p
    by (rule printf_with.raw_induct [where P = "\<lambda>e fmt esp i a k p. e = emit \<longrightarrow> (\<forall>k0. confined k0 k \<longrightarrow> confined k0 (snd p))", OF _ run])
      (auto simp: bind_eq_Some_conv confined_emit split: if_splits
        dest!: format_confined dest: confined_trans)
  then show "printf_with emit fmt esp i a k = Some (r, k') \<Longrightarrow> confined k k'" by fastforce
qed

end

interpretation pc: char_sink putc "\<lambda>k. page (video_mem_local k)"
  by unfold_locales (simp_all add: putc_laws)

interpretation pd: char_sink putc_direct "\<lambda>k. page VIDEO_MEM \<union> page (backup_page (active_term_idx k))"
  by unfold_locales (simp_all add: putc_direct_laws)

section \<open>Numbers\<close>

text \<open>The digits \<open>itoa\<close> prints, and the signed and zero-padded forms of \<open>%d\<close> and \<open>%#x\<close>.\<close>

definition digits_of :: "nat \<Rightarrow> u32 \<Rightarrow> nat list" where
  "digits_of r v = (if v = 0 then [0] else rev (lsd r (unat v)))"

definition num_str :: "nat \<Rightarrow> u32 \<Rightarrow> byte list" where
  "num_str r v = map ((!) itoa_lookup) (digits_of r v)"

definition dec_str :: "u32 \<Rightarrow> byte list" where
  "dec_str v = (if sint v < 0 then 0x2D # num_str 10 (- v) else num_str 10 v)"

definition hex8_str :: "u32 \<Rightarrow> byte list" where
  "hex8_str v = replicate (8 - length (num_str 16 v)) 0x30 @ num_str 16 v"

lemma digits_of_props:
  assumes "2 \<le> r"
  shows "d \<in> set (digits_of r v) \<Longrightarrow> d < r" and "numval r (digits_of r v) = unat v"
  using assms lsd_digits [of d r "unat v"] numval_lsd [of r "unat v"]
  by (auto simp: digits_of_def numval_def split: if_splits)

lemma itoa_num_str:
  assumes "2 \<le> unat r" and "unat r \<le> 36"
  shows "itoa v r = Some (num_str (unat r) v @ [0])" and "0 \<notin> set (num_str (unat r) v)"
proof -
  show "itoa v r = Some (num_str (unat r) v @ [0])"
    using itoa_digits [OF assms, of v]
    by (cases "v = 0") (simp_all add: num_str_def digits_of_def itoa_def itoa_lookup_def chars_def)
  have "itoa_lookup ! d \<noteq> 0" if "d \<in> set (digits_of (unat r) v)" for d
    using digits_of_props(1) [OF assms(1) that] assms(2) itoa_lookup_props(2) [of d] by simp
  then show "0 \<notin> set (num_str (unat r) v)" by (auto simp: num_str_def)
qed

lemma conv_d_eq: "conv_d v = Some (dec_str v @ [0])" and dec_str_nz: "0 \<notin> set (dec_str v)"
  using itoa_num_str [of 10] by (auto simp: conv_d_def dec_str_def)

lemma conv_x_eq: "conv_x alt v = Some ((if alt then hex8_str v else num_str 16 v) @ [0])"
  and hex8_str_nz: "0 \<notin> set (hex8_str v)"
  using itoa_num_str [of 16 v] strlen_Some [OF is_cstr_of_bytes [of "num_str 16 v"]]
  by (auto simp: conv_x_def hex8_str_def)

section \<open>Formats\<close>

text \<open>A format as the list of its items, each with the text it is written as, the stack words
  it consumes and the bytes it prints (\<open>%s\<close> apart, whose bytes are in memory).\<close>

datatype item = Lit byte | Percent | Chr u32 | Dec u32 | Uns u32 | Hex u32 | Hex8 u32

fun item_fmt :: "item \<Rightarrow> byte list" where
  "item_fmt (Lit c) = [c]"
| "item_fmt Percent = [0x25, 0x25]"
| "item_fmt (Chr v) = [0x25, 0x63]"
| "item_fmt (Dec v) = [0x25, 0x64]"
| "item_fmt (Uns v) = [0x25, 0x75]"
| "item_fmt (Hex v) = [0x25, 0x78]"
| "item_fmt (Hex8 v) = [0x25, 0x23, 0x78]"

fun item_args :: "item \<Rightarrow> u32 list" where
  "item_args (Lit c) = []"
| "item_args Percent = []"
| "item_args (Chr v) = [v]"
| "item_args (Dec v) = [v]"
| "item_args (Uns v) = [v]"
| "item_args (Hex v) = [v]"
| "item_args (Hex8 v) = [v]"

fun item_out :: "item \<Rightarrow> byte list" where
  "item_out (Lit c) = [c]"
| "item_out Percent = [0x25]"
| "item_out (Chr v) = [ucast v]"
| "item_out (Dec v) = dec_str v"
| "item_out (Uns v) = num_str 10 v"
| "item_out (Hex v) = num_str 16 v"
| "item_out (Hex8 v) = hex8_str v"

fun item_ok :: "item \<Rightarrow> bool" where
  "item_ok (Lit c) = (c \<noteq> 0 \<and> c \<noteq> 0x25)"
| "item_ok i = True"

definition found :: "(nat \<Rightarrow> 'a) \<Rightarrow> nat \<Rightarrow> 'a list \<Rightarrow> bool" where
  "found f i xs \<longleftrightarrow> (\<forall>j<length xs. f (i + j) = xs ! j)"

lemma found_Nil [simp]: "found f i []" and found_Cons [simp]: "found f i (x # xs) \<longleftrightarrow> f i = x \<and> found f (Suc i) xs"
  by (auto simp: found_def less_Suc_eq_0_disj)

lemma found_append [simp]: "found f i (xs @ ys) \<longleftrightarrow> found f i xs \<and> found f (i + length xs) ys"
  by (induction xs arbitrary: i) auto

context char_sink
begin

lemma format_item:
  assumes "found fmt i (tl (item_fmt it))" and "found esp a (item_args it)" and "\<And>c. it \<noteq> Lit c"
  shows "format_char emit fmt esp False i a k =
    Some (i + length (item_fmt it) - 2, a + length (item_args it), fold emit (item_out it) k)"
proof (cases it)
  case (Hex8 v)
  then show ?thesis using assms
    by (subst format_char.simps, subst format_char.simps) (simp add: conv_x_eq puts_bytes hex8_str_nz)
next
  case (Dec v)
  then show ?thesis using assms
    by (subst format_char.simps) (simp add: conv_d_eq puts_bytes dec_str_nz)
next
  case (Hex v)
  then show ?thesis using assms itoa_num_str(2) [of 16 v]
    by (subst format_char.simps) (simp add: conv_x_eq puts_bytes)
next
  case (Uns v)
  then show ?thesis using assms itoa_num_str [of 10 v]
    by (subst format_char.simps) (simp add: puts_bytes)
qed (use assms in \<open>simp_all add: format_char.simps\<close>)

lemma printf_item:
  assumes "item_ok it" and "found fmt i (item_fmt it)" and "found esp a (item_args it)"
  shows "printf_with emit fmt esp i a k = printf_with emit fmt esp (i + length (item_fmt it))
    (a + length (item_args it)) (fold emit (item_out it) k)"
proof (cases "\<exists>c. it = Lit c")
  case True
  then show ?thesis using assms by (subst printf_with.simps) auto
next
  case False
  then have f: "fmt i = 0x25" "item_fmt it = 0x25 # tl (item_fmt it)" "2 \<le> length (item_fmt it)"
    using assms(2) by (cases it; simp)+
  then have "found fmt (Suc i) (tl (item_fmt it))" using assms(2) by (metis found_Cons)
  note run = format_item [OF this assms(3)]
  have "Suc (i + length (item_fmt it) - Suc 0) = i + length (item_fmt it)" using f(3) by arith
  then show ?thesis using f False run by (subst printf_with.simps) simp
qed

lemma printf_items:
  assumes "list_all item_ok its" and "found fmt i (concat (map item_fmt its) @ [0])"
    and "found esp a (concat (map item_args its))"
  shows "printf_with emit fmt esp i a k =
    Some (int (i + length (concat (map item_fmt its))), fold emit (concat (map item_out its)) k)"
  using assms
proof (induction its arbitrary: i a k)
  case Nil
  then show ?case by (subst printf_with.simps) simp
next
  case (Cons it its)
  then show ?case by (simp add: printf_item [of it] add.assoc)
qed

end

section \<open>Backspace\<close>

lemma backspace_skip_bounds:
  "-1 \<le> off \<Longrightarrow> -1 \<le> backspace_skip m off \<and> backspace_skip m off \<le> off"
proof (induction m off rule: backspace_skip.induct)
  case (1 m off)
  show ?case
  proof (cases "off \<ge> 0 \<and> m (cell VIDEO_MEM off) = 0 \<and> (off + 1) mod NUM_COLS \<noteq> 0")
    case True
    then have "-1 \<le> backspace_skip m (off - 1) \<and> backspace_skip m (off - 1) \<le> off - 1"
      by (intro "1.IH") auto
    then show ?thesis using True by (subst (1 2) backspace_skip.simps) auto
  next
    case False
    then show ?thesis using "1.prems" by (subst (1 2) backspace_skip.simps) auto
  qed
qed

lemma backspace_skip_stop:
  "off < 0 \<or> m (cell VIDEO_MEM off) \<noteq> 0 \<or> (off + 1) mod 80 = 0 \<Longrightarrow> backspace_skip m off = off"
  by (subst backspace_skip.simps) (auto simp: NUM_COLS_def)

lemma backspace_eq:
  assumes "x = cursor_x (tm k (active_term_idx k))" and "y = cursor_y (tm k (active_term_idx k))"
    and "80 * y + x \<noteq> 0"
    and "m = (mem k)(cell VIDEO_MEM (80 * y + x - 1) := 0, cell VIDEO_MEM (80 * y + x - 1) + 1 := ATTRIB)"
    and "off = backspace_skip m (80 * y + x - 2) + 1"
    and "nat (active_term_idx k) < length (terminals k)"
  shows "backspace k = update_cursor (off mod 80) (off div 80)
    (upd_tm (active_term_idx k) (set_cursor (off mod 80, off div 80)) (k\<lparr>mem := m\<rparr>))"
proof -
  have o: "y * NUM_COLS + x = 80 * y + x" by (simp add: NUM_COLS_def)
  have "80 * y + x - 1 - 1 = 80 * y + x - 2" by simp
  then show ?thesis
    unfolding backspace_def Let_def assms(1,2) [symmetric] o set_cursor_upd
    using assms(3-6) by (simp add: upd_tm_merge NUM_COLS_def)
qed

lemma cell_pages_disjoint:
  assumes "0 \<le> t" and "t < 3" and "0 \<le> a" and "a < 2048" and "0 \<le> b" and "b < 2048"
  shows "cell VIDEO_MEM a \<noteq> cell (backup_page t) b" and "cell VIDEO_MEM a \<noteq> cell (backup_page t) b + 1"
    and "cell (backup_page t) b \<noteq> cell VIDEO_MEM a" and "cell (backup_page t) b + 1 \<noteq> cell VIDEO_MEM a"
proof -
  have "t = 0 \<or> t = 1 \<or> t = 2" using assms(1,2) by auto
  then have b: "unat VIDEO_MEM + 4096 \<le> unat (backup_page t)" by (auto simp: backup_page_def VIDEO_MEM_def)
  have "cell VIDEO_MEM a \<in> page VIDEO_MEM" "cell (backup_page t) b \<in> page (backup_page t)"
    "cell (backup_page t) b + 1 \<in> page (backup_page t)" using assms by (simp_all add: cell_in_page)
  with b show "cell VIDEO_MEM a \<noteq> cell (backup_page t) b" "cell VIDEO_MEM a \<noteq> cell (backup_page t) b + 1"
    "cell (backup_page t) b \<noteq> cell VIDEO_MEM a" "cell (backup_page t) b + 1 \<noteq> cell VIDEO_MEM a"
    by (auto simp: page_def)
qed

lemma numval_zeros: "numval r (replicate n 0 @ ds) = numval r ds"
  by (induction n) (simp_all add: numval_def)

lemma demo_console_ok: "console_ok demo_kernel"
  by (simp add: console_ok_def demo_kernel_def start_kernel_def cursor_ok_def zero_terminal_def const_defs)

section \<open>Properties\<close>

text \<open>C23: one character of output by \<open>putc\<close>: the console invariant is kept (every cursor
  stays inside the 80 x 25 page), the current terminal's cursor moves on by one cell, to the
  start of the next row at the last column or at a newline, and stays in the last row when the
  page scrolls; the other terminals keep their cursors, and memory changes only inside the page
  the terminal's output goes to.  \<open>putc_direct\<close> does the same for the displayed terminal, on
  the screen and its backup page.\<close>

theorem putc_correct:
  assumes "console_ok k" and "0 \<le> i" and "i < 3"
  shows "let t = tm k (cur_term_id k); a = tm k (active_term_idx k) in
     console_ok (putc c k) \<and> console_ok (putc_direct c k)
   \<and> tm (putc c k) i = (if i = cur_term_id k then set_cursor (next_cursor c (cursor_x t) (cursor_y t)) t else tm k i)
   \<and> tm (putc_direct c k) i = (if i = active_term_idx k then set_cursor (next_cursor c (cursor_x a) (cursor_y a)) a else tm k i)
   \<and> (\<forall>p. p \<notin> page (video_mem_local k) \<longrightarrow> mem (putc c k) p = mem k p)
   \<and> (\<forall>p. p \<notin> page VIDEO_MEM \<and> p \<notin> page (backup_page (active_term_idx k)) \<longrightarrow> mem (putc_direct c k) p = mem k p)"
proof -
  have v: "valid_term k (cur_term_id k)" "valid_term k (active_term_idx k)"
    using assms(1) by (auto simp: console_ok_def)
  have "tm (putc c k) i = tm (upd_tm (cur_term_id k) (set_cursor
      (next_cursor c (cursor_x (tm k (cur_term_id k))) (cursor_y (tm k (cur_term_id k))))) k) i"
    by (simp add: tm_def putc_fields(2) [OF assms(1)])
  moreover have "tm (putc_direct c k) i = tm (upd_tm (active_term_idx k) (set_cursor
      (next_cursor c (cursor_x (tm k (active_term_idx k))) (cursor_y (tm k (active_term_idx k))))) k) i"
    by (simp add: putc_direct_eq [OF assms(1) refl refl refl]) (simp add: tm_def upd_tm_def)
  ultimately show ?thesis
    using assms v by (auto simp: Let_def tm_upd_tm putc_laws putc_direct_laws)
qed

theorem putc_correct_witness:
  "console_ok demo_kernel \<and> console_ok (putc 0x41 demo_kernel) \<and> cursor_x (tm (putc 0x41 demo_kernel) 0) = 1"
proof -
  show ?thesis using demo_console_ok putc_correct [of demo_kernel 0 65]
    by (simp add: Let_def tm_def demo_kernel_def start_kernel_def zero_terminal_def next_cursor_def is_newline_def)
qed

text \<open>C24: the character lands on the page: after \<open>putc\<close> of a printing character the cell
  under the old cursor holds it with the standard attribute, one row higher if the page
  scrolled.\<close>

theorem putc_places_char:
  assumes "console_ok k" and "\<not> is_newline c"
    and "x = cursor_x (tm k (cur_term_id k))" and "y = cursor_y (tm k (cur_term_id k))"
  shows "let off = 80 * (if needs_scroll c x y then y - 1 else y) + x; base = video_mem_local k
    in mem (putc c k) (cell base off) = c \<and> mem (putc c k) (cell base off + 1) = ATTRIB"
proof -
  have c: "0 \<le> x" "x < 80" "0 \<le> y" "y < 25"
    using console_ok_cursor [OF assms(1), of "cur_term_id k"] assms console_ok_ids [OF assms(1)] by auto
  note low = low_page_local [OF assms(1)]
  show ?thesis
  proof (cases "needs_scroll c x y")
    case True
    then have y: "y = 24" "x = 79" using assms(2) by (auto simp: needs_scroll_def)
    have "80 * (y - 1) + x = int 1919" "int 1919 + 80 = 80 * y + x" using y by simp_all
    then show ?thesis
      using True assms(2-) putc_fields(1) [OF assms(1)] scroll_cells_spec(1,3) [OF low, of 1919]
      by (simp add: put_cells_def Let_def cell_inj [OF low] y)
  next
    case False
    then show ?thesis
      using assms(2-) putc_fields(1) [OF assms(1)] c by (simp add: put_cells_def Let_def cell_inj [OF low])
  qed
qed

theorem putc_places_char_witness:
  "mem (putc 0x41 demo_kernel) 0xB8000 = 0x41"
proof -
  show ?thesis using demo_console_ok putc_places_char [of demo_kernel 65 0 0]
    by (simp add: Let_def tm_def demo_kernel_def start_kernel_def zero_terminal_def is_newline_def
        needs_scroll_def cell_def video_mem_local_def VIDEO_MEM_def)
qed

text \<open>\<open>scroll\<close> moves every row of the current terminal's page up by one, blanks the last
  row, gives every cell the standard attribute, puts the cursor at the start of the last row
  and changes nothing outside the page.\<close>

lemma scroll_correct:
  assumes "console_ok k" and "base = video_mem_local k"
  shows "console_ok (scroll k)
   \<and> (\<forall>off<1920. mem (scroll k) (cell base (int off)) = mem k (cell base (int off + 80)))
   \<and> (\<forall>off. 1920 \<le> off \<and> off < 2000 \<longrightarrow> mem (scroll k) (cell base (int off)) = 0)
   \<and> (\<forall>off<2000. mem (scroll k) (cell base (int off) + 1) = ATTRIB)
   \<and> (\<forall>a. a \<notin> page base \<longrightarrow> mem (scroll k) a = mem k a)
   \<and> cursor_x (tm (scroll k) (cur_term_id k)) = 0 \<and> cursor_y (tm (scroll k) (cur_term_id k)) = 24"
proof -
  have low: "low_page base" using low_page_local [OF assms(1)] assms(2) by simp
  have v: "nat (cur_term_id k) < length (terminals k)" using assms(1) by (auto simp: console_ok_def)
  have s: "scroll k = upd_tm (cur_term_id k) (set_cursor (0, 24)) (k\<lparr>mem := scroll_cells base (mem k)\<rparr>)"
    by (simp add: scroll_def Let_def set_cursor_upd NUM_ROWS_def assms(2))
  have "console_ok (scroll k)"
    using assms(1) by (simp add: s console_ok_upd_tm cursor_ok_def const_defs)
  then show ?thesis
    using scroll_cells_spec [OF low] scroll_cells_out [OF low] v by (simp add: s upd_tm_merge)
qed

lemma scroll_correct_witness:
  "mem (scroll demo_kernel) (cell VIDEO_MEM 1999) = 0 \<and> cursor_y (tm (scroll demo_kernel) 0) = 24"
proof -
  have "VIDEO_MEM = video_mem_local demo_kernel" "cur_term_id demo_kernel = 0"
    by (simp_all add: video_mem_local_def demo_kernel_def start_kernel_def)
  then have "1920 \<le> (1999::nat) \<and> (1999::nat) < 2000 \<longrightarrow> mem (scroll demo_kernel) (cell VIDEO_MEM (int 1999)) = 0"
    and "cursor_y (tm (scroll demo_kernel) 0) = 24"
    using scroll_correct [OF demo_console_ok, of VIDEO_MEM] by (blast, simp)
  then show ?thesis by simp
qed


text \<open>C25: \<open>printf\<close> and \<open>printf_direct\<close> interpret their format: for a format made of
  literal characters, \<open>%%\<close>, \<open>%c\<close>, \<open>%d\<close>, \<open>%u\<close>, \<open>%x\<close> and \<open>%#x\<close> with the
  arguments on the stack, they return the length of the format and have put out exactly the
  characters the items stand for, in order.\<close>

theorem printf_correct:
  assumes "list_all item_ok its" and "found fmt 0 (concat (map item_fmt its) @ [0])"
    and "found esp 0 (concat (map item_args its))"
  shows "printf fmt esp k =
      Some (int (length (concat (map item_fmt its))), fold putc (concat (map item_out its)) k)
   \<and> printf_direct fmt esp k =
      Some (int (length (concat (map item_fmt its))), fold putc_direct (concat (map item_out its)) k)"
  using pc.printf_items [OF assms] pd.printf_items [OF assms]
  by (simp add: printf_def printf_direct_def)

theorem printf_correct_witness:
  "printf (of_bytes [0x25, 0x63, 0x25, 0x25, 0]) (\<lambda>_. 0x41) demo_kernel = Some (4, putc 0x25 (putc 0x41 demo_kernel))"
  using printf_correct [of "[Chr 65, Percent]" "of_bytes [0x25, 0x63, 0x25, 0x25, 0]" "\<lambda>_. 0x41" demo_kernel]
  by (simp add: of_bytes_def)

text \<open>Whatever the format and the arguments, a call of \<open>printf\<close> that returns keeps the
  console invariant and has changed memory only inside the page of the current terminal; one of
  \<open>printf_direct\<close> only on the screen and the displayed terminal's backup page.\<close>

lemma printf_stays_on_page:
  assumes "console_ok k"
  shows "(\<forall>r k'. printf fmt esp k = Some (r, k') \<longrightarrow>
      console_ok k' \<and> (\<forall>a. a \<notin> page (video_mem_local k) \<longrightarrow> mem k' a = mem k a))
   \<and> (\<forall>r k'. printf_direct fmt esp k = Some (r, k') \<longrightarrow>
      console_ok k' \<and> (\<forall>a. a \<notin> page VIDEO_MEM \<and> a \<notin> page (backup_page (active_term_idx k)) \<longrightarrow> mem k' a = mem k a))"
  using assms pc.printf_confined [of fmt esp 0 0 k] pd.printf_confined [of fmt esp 0 0 k]
  by (auto simp: printf_def printf_direct_def pc.confined_def pd.confined_def)

lemma printf_stays_on_page_witness:
  "console_ok (snd (the (printf (of_bytes [0x41, 0]) (\<lambda>_. 0) demo_kernel)))
   \<and> mem (snd (the (printf (of_bytes [0x41, 0]) (\<lambda>_. 0) demo_kernel))) 0x500000 = 1"
proof -
  have run: "printf (of_bytes [0x41, 0]) (\<lambda>_. 0) demo_kernel = Some (1, putc 0x41 demo_kernel)"
    using pc.printf_items [of "[Lit 65]" "of_bytes [0x41, 0]" 0 "\<lambda>_. 0" 0] by (simp add: printf_def of_bytes_def)
  have "(0x500000 :: addr) \<notin> page (video_mem_local demo_kernel)"
    by (simp add: page_def video_mem_local_def demo_kernel_def start_kernel_def VIDEO_MEM_def)
  then have "console_ok (putc 0x41 demo_kernel) \<and> mem (putc 0x41 demo_kernel) 0x500000 = mem demo_kernel 0x500000"
    using printf_stays_on_page [OF demo_console_ok, of "of_bytes [0x41, 0]" "\<lambda>_. 0"] run by blast
  then show ?thesis using run by (simp add: demo_kernel_def start_kernel_def demo_mem_def)
qed

text \<open>\<open>%d\<close> prints the signed value of its argument: a minus sign for a negative one and
  decimal digits whose value is the magnitude, for every 32-bit word, the most negative one
  included; \<open>%#x\<close> prints at least eight digits, with the value in base 16.\<close>

lemma conversions_correct:
  "(\<exists>ds. conv_d v = Some ((if sint v < 0 then [0x2D] else []) @ map ((!) itoa_lookup) ds @ [0])
      \<and> list_all (\<lambda>d. d < 10) ds \<and> int (numval 10 ds) = \<bar>sint v\<bar>)
   \<and> (\<exists>ds. conv_x True v = Some (map ((!) itoa_lookup) ds @ [0])
      \<and> list_all (\<lambda>d. d < 16) ds \<and> numval 16 ds = unat v \<and> 8 \<le> length ds)"
proof
  have u: "uint v < 4294967296" "0 \<le> uint v" using uint_lt2p [of v] by simp_all
  have s: "sint v = (if bit (uint v) 31 then uint v - 4294967296 else uint v)"
    using u by (simp add: sint_uint signed_take_bit_eq_take_bit_minus take_bit_eq_mod)
  have pos: "uint v = sint v" if "\<not> sint v < 0"
    using that s u by (auto split: if_splits)
  have neg: "int (unat (- v)) = - sint v" if "sint v < 0"
  proof -
    have "v \<noteq> 0" using that by auto
    then have "uint v \<noteq> 0" by (simp add: uint_0_iff)
    moreover have "sint v = uint v - 4294967296" using that s u(2) by (auto split: if_splits)
    ultimately show ?thesis using u by (simp add: uint_word_ariths zmod_zminus1_eq_if)
  qed
  show "\<exists>ds. conv_d v = Some ((if sint v < 0 then [0x2D] else []) @ map ((!) itoa_lookup) ds @ [0])
      \<and> list_all (\<lambda>d. d < 10) ds \<and> int (numval 10 ds) = \<bar>sint v\<bar>"
    by (rule exI [of _ "digits_of 10 (if sint v < 0 then - v else v)"])
       (use digits_of_props(1) [of 10] neg pos in
        \<open>auto simp: conv_d_eq dec_str_def num_str_def digits_of_props list_all_iff\<close>)
  show "\<exists>ds. conv_x True v = Some (map ((!) itoa_lookup) ds @ [0])
      \<and> list_all (\<lambda>d. d < 16) ds \<and> numval 16 ds = unat v \<and> 8 \<le> length ds"
    by (rule exI [of _ "replicate (8 - length (digits_of 16 v)) 0 @ digits_of 16 v"])
       (use digits_of_props(1) [of 16] in
        \<open>auto simp: conv_x_eq hex8_str_def num_str_def numval_zeros digits_of_props list_all_iff itoa_lookup_def chars_def\<close>)
qed

text \<open>\<open>backspace\<close> undoes one typed character: if \<open>putc_direct\<close> did not scroll and the
  cell before the cursor was in use (or the cursor at the start of a row), a following
  \<open>backspace\<close> brings the cursor back and blanks the cell.\<close>

lemma backspace_undoes_putc:
  assumes "console_ok k" and "\<not> is_newline c" and "\<not> needs_scroll c x y"
    and "x = cursor_x (tm k (active_term_idx k))" and "y = cursor_y (tm k (active_term_idx k))"
    and "x = 0 \<or> mem k (cell VIDEO_MEM (80 * y + x - 1)) \<noteq> 0"
  shows "cursor_x (tm (backspace (putc_direct c k)) (active_term_idx k)) = x
    \<and> cursor_y (tm (backspace (putc_direct c k)) (active_term_idx k)) = y
    \<and> mem (backspace (putc_direct c k)) (cell VIDEO_MEM (80 * y + x)) = 0"
proof -
  let ?a = "active_term_idx k" and ?k1 = "putc_direct c k"
  have c: "0 \<le> x" "x < 80" "0 \<le> y" "y < 25" and ids: "0 \<le> ?a" "?a < 3"
    using console_ok_cursor [OF assms(1), of ?a] assms console_ok_ids [OF assms(1)] by auto
  have v: "nat ?a < length (terminals k)" using assms(1) by (auto simp: console_ok_def)
  note k1 = putc_direct_eq [OF assms(1) refl assms(4,5), of c]
  have a1: "active_term_idx ?k1 = ?a" by (simp add: putc_direct_laws assms(1))
  have cur: "80 * cursor_y (tm ?k1 ?a) + cursor_x (tm ?k1 ?a) = 80 * y + x + 1"
    using assms(2,3) v by (auto simp: k1 upd_tm_merge next_cursor_def needs_scroll_def)
  have mem1: "mem ?k1 = put_cells_direct c (backup_page ?a) x y (mem k)" by (simp add: k1)
  define m where "m = (mem ?k1)(cell VIDEO_MEM (80 * y + x) := 0, cell VIDEO_MEM (80 * y + x) + 1 := ATTRIB)"
  have "80 * y + x - 1 < 0 \<or> m (cell VIDEO_MEM (80 * y + x - 1)) \<noteq> 0 \<or> (80 * y + x - 1 + 1) mod 80 = 0"
  proof (cases "x = 0")
    case False
    then have "m (cell VIDEO_MEM (80 * y + x - 1)) = mem k (cell VIDEO_MEM (80 * y + x - 1))"
      using c ids assms(2,3)
      by (simp add: m_def mem1 put_cells_direct_def Let_def cell_inj cell_pages_disjoint)
    then show ?thesis using False assms(6) by auto
  qed simp
  from backspace_skip_stop [of "80 * y + x - 1" m, OF this]
  have skip: "backspace_skip m (80 * y + x + 1 - 2) + 1 = 80 * y + x" by simp
  have "backspace ?k1 = update_cursor ((80 * y + x) mod 80) ((80 * y + x) div 80)
    (upd_tm (active_term_idx ?k1) (set_cursor ((80 * y + x) mod 80, (80 * y + x) div 80)) (?k1\<lparr>mem := m\<rparr>))"
  proof (rule backspace_eq [OF refl refl])
    show "m = (mem ?k1)(cell VIDEO_MEM (80 * cursor_y (tm ?k1 (active_term_idx ?k1)) + cursor_x (tm ?k1 (active_term_idx ?k1)) - 1) := 0,
      cell VIDEO_MEM (80 * cursor_y (tm ?k1 (active_term_idx ?k1)) + cursor_x (tm ?k1 (active_term_idx ?k1)) - 1) + 1 := ATTRIB)"
      by (simp add: a1 cur m_def)
    show "80 * y + x = backspace_skip m (80 * cursor_y (tm ?k1 (active_term_idx ?k1)) + cursor_x (tm ?k1 (active_term_idx ?k1)) - 2) + 1"
      using skip by (simp add: a1 cur)
    show "80 * cursor_y (tm ?k1 (active_term_idx ?k1)) + cursor_x (tm ?k1 (active_term_idx ?k1)) \<noteq> 0"
      using c by (simp add: a1 cur)
    show "nat (active_term_idx ?k1) < length (terminals ?k1)" using v by (simp add: a1 k1)
  qed
  then show ?thesis using c v by (simp add: a1 upd_tm_merge m_def cell_inj k1)
qed

lemma backspace_undoes_putc_witness:
  "cursor_x (tm (backspace (putc_direct 0x41 demo_kernel)) 0) = 0"
proof -
  have "active_term_idx demo_kernel = 0" "cursor_x (tm demo_kernel 0) = 0" "cursor_y (tm demo_kernel 0) = 0"
    by (simp_all add: demo_kernel_def start_kernel_def tm_def zero_terminal_def)
  then show ?thesis using backspace_undoes_putc [OF demo_console_ok, of 65 0 0]
    by (simp add: is_newline_def needs_scroll_def)
qed

end
