(* ===== verification/Paging.thy ===== *)
theory Paging
  imports Console
begin

text \<open>
  Virtual memory, \<open>paging.c\<close>: the page directory, the table of the first 4 MB, the table of
  the user video page, and the operations that build and switch them.  The tables keep the
  bit fields of the C structs.  \<open>translate\<close> is the processor's two-level walk over them
  (4 kB and 4 MB pages, user and supervisor accesses).  Writing \<open>cr3\<close> records the tables in
  \<open>tlb\<close>, so that a missing flush is visible.
\<close>

definition NUM_ENTRY :: nat where "NUM_ENTRY = 1024"
definition FOUR_MB :: int where "FOUR_MB = 0x400000"
definition EIGHT_MB :: int where "EIGHT_MB = 0x800000"
definition PROG_VID_ENTRY :: nat where "PROG_VID_ENTRY = 33"
definition PROGRAM_DIRECTORY_VIRTUAL_ADDR :: addr where "PROGRAM_DIRECTORY_VIRTUAL_ADDR = 0x08048000"
definition PROGRAM_DIRECTORY_INDEX :: nat where
  "PROGRAM_DIRECTORY_INDEX = unat (drop_bit 22 PROGRAM_DIRECTORY_VIRTUAL_ADDR)"
definition PD_1_ADDR :: "20 word" where "PD_1_ADDR = 0x400"
definition VIDEO_FRAME :: nat where "VIDEO_FRAME = unat (drop_bit 12 VIDEO_MEM)"

lemmas [const_defs] = NUM_ENTRY_def FOUR_MB_def EIGHT_MB_def PROG_VID_ENTRY_def
  PROGRAM_DIRECTORY_VIRTUAL_ADDR_def PROGRAM_DIRECTORY_INDEX_def PD_1_ADDR_def VIDEO_FRAME_def

section \<open>Operations\<close>

definition set_pde :: "nat \<Rightarrow> (page_dicr_entry \<Rightarrow> page_dicr_entry) \<Rightarrow> paging \<Rightarrow> paging" where
  "set_pde i f p = p\<lparr>page_directory := (page_directory p)(i := f (page_directory p i))\<rparr>"

definition set_pte0 :: "nat \<Rightarrow> (page_table_entry \<Rightarrow> page_table_entry) \<Rightarrow> paging \<Rightarrow> paging" where
  "set_pte0 i f p = p\<lparr>page_table_0 := (page_table_0 p)(i := f (page_table_0 p i))\<rparr>"

definition set_ptev :: "nat \<Rightarrow> (page_table_entry \<Rightarrow> page_table_entry) \<Rightarrow> paging \<Rightarrow> paging" where
  "set_ptev i f p = p\<lparr>page_table_video := (page_table_video p)(i := f (page_table_video p i))\<rparr>"

definition load_cr3 :: "addr \<Rightarrow> paging \<Rightarrow> paging" where
  "load_cr3 a p = p\<lparr>cr3 := a, tlb := (page_directory p, page_table_0 p, page_table_video p)\<rparr>"

definition flush_tlb :: "paging \<Rightarrow> paging" where
  "flush_tlb p = load_cr3 (cr3 p) p"

definition load_page_directory :: "addr \<Rightarrow> paging \<Rightarrow> paging" where
  "load_page_directory a p = load_cr3 a p"

definition enable_paging :: "paging \<Rightarrow> paging" where
  "enable_paging p =
     (let p = p\<lparr>cr4 := cr4 p OR 0x00000010\<rparr> in p\<lparr>cr0 := cr0 p OR 0x80000001\<rparr>)"

definition init_directory :: "paging \<Rightarrow> paging" where
  "init_directory p =
     (let p = for_loop 0 NUM_ENTRY (\<lambda>i. set_pde i (\<lambda>_.
                \<lparr>pd_present = 0, pd_r_w = 1, pd_u_s = 0, pd_write_t = 0, pd_cache_dis = 0,
                 pd_access = 0, pd_reserve_0 = 0, pd_page_size = 0, pd_ignored = 0,
                 pd_reserve_1 = 0, page_table_addr = 0\<rparr>)) p
      in set_pde 1 (\<lambda>_. \<lparr>pd_present = 1, pd_r_w = 1, pd_u_s = 0, pd_write_t = 0, pd_cache_dis = 0,
                 pd_access = 0, pd_reserve_0 = 0, pd_page_size = 1, pd_ignored = 1,
                 pd_reserve_1 = 0, page_table_addr = PD_1_ADDR\<rparr>) p)"

definition enable_program_page :: "int \<Rightarrow> paging \<Rightarrow> paging" where
  "enable_program_page prog_idx p =
     (let physical_addr = prog_idx * FOUR_MB + EIGHT_MB
      in set_pde PROGRAM_DIRECTORY_INDEX (\<lambda>_.
           \<lparr>pd_present = 1, pd_r_w = 1, pd_u_s = 1, pd_write_t = 0, pd_cache_dis = 0,
            pd_access = 0, pd_reserve_0 = 0, pd_page_size = 1, pd_ignored = 1,
            pd_reserve_1 = 0, page_table_addr = word_of_int (physical_addr div 4096)\<rparr>) p)"

definition setup_paging :: "int \<Rightarrow> paging \<Rightarrow> paging" where
  "setup_paging prog_idx p = flush_tlb (enable_program_page prog_idx p)"

definition init_table_0 :: "paging \<Rightarrow> paging" where
  "init_table_0 p =
     (let p = for_loop 0 NUM_ENTRY (\<lambda>i. set_pte0 i (\<lambda>_.
                \<lparr>pt_present = 0, pt_r_w = 1, pt_u_s = 0, pt_write_t = 0, pt_cache_dis = 0,
                 pt_access = 0, pt_dirty = 0, pt_ptai = 0, pt_global = 0, pt_reserve_1 = 0,
                 page_base_addr = of_nat i\<rparr>)) p;
          p = set_pte0 VIDEO_FRAME (\<lambda>e. e\<lparr>pt_present := 1\<rparr>) p;
          p = set_pte0 (VIDEO_FRAME + 1) (\<lambda>e. e\<lparr>pt_present := 1\<rparr>) p;
          p = set_pte0 (VIDEO_FRAME + 2) (\<lambda>e. e\<lparr>pt_present := 1\<rparr>) p;
          p = set_pte0 (VIDEO_FRAME + 3) (\<lambda>e. e\<lparr>pt_present := 1\<rparr>) p
      in set_pde 0 (\<lambda>e. e\<lparr>pd_present := 1, pd_r_w := 1,
           page_table_addr := ucast (drop_bit 12 (page_table_0_at p))\<rparr>) p)"

definition init_prog_vid :: "paging \<Rightarrow> paging" where
  "init_prog_vid p =
     (let p = for_loop 0 NUM_ENTRY (\<lambda>i. set_ptev i (\<lambda>_.
                \<lparr>pt_present = 0, pt_r_w = 1, pt_u_s = 1, pt_write_t = 0, pt_cache_dis = 0,
                 pt_access = 0, pt_dirty = 0, pt_ptai = 0, pt_global = 0, pt_reserve_1 = 0,
                 page_base_addr = of_nat i\<rparr>)) p;
          p = set_pde PROG_VID_ENTRY (\<lambda>e. e\<lparr>pd_present := 0, pd_r_w := 1, pd_u_s := 1,
                page_table_addr := ucast (drop_bit 12 (page_table_video_at p))\<rparr>) p
      in set_ptev 0 (\<lambda>e. e\<lparr>page_base_addr := of_nat VIDEO_FRAME\<rparr>) p)"

definition enable_prog_vid_page :: "paging \<Rightarrow> paging" where
  "enable_prog_vid_page p =
     (let p = set_pde PROG_VID_ENTRY (\<lambda>e. e\<lparr>pd_present := 1\<rparr>) p;
          p = set_ptev 0 (\<lambda>e. e\<lparr>pt_present := 1\<rparr>) p
      in flush_tlb p)"

definition disable_prog_vid_page :: "paging \<Rightarrow> paging" where
  "disable_prog_vid_page p =
     (let p = set_pde PROG_VID_ENTRY (\<lambda>e. e\<lparr>pd_present := 0\<rparr>) p;
          p = set_ptev 0 (\<lambda>e. e\<lparr>pt_present := 0\<rparr>) p
      in flush_tlb p)"

text \<open>\<open>active_idx\<close> is the global \<open>active_term_idx\<close>.\<close>

definition change_prog_vid_mapping :: "int \<Rightarrow> int \<Rightarrow> paging \<Rightarrow> paging" where
  "change_prog_vid_mapping active_idx term_id p =
     flush_tlb (if term_id = active_idx
       then set_ptev 0 (\<lambda>e. e\<lparr>page_base_addr := of_nat VIDEO_FRAME\<rparr>) p
       else set_ptev 0 (\<lambda>e. e\<lparr>page_base_addr := word_of_int (int VIDEO_FRAME + term_id + 1)\<rparr>) p)"

definition init_paging :: "paging \<Rightarrow> paging" where
  "init_paging p =
     (let p = init_directory p; p = init_table_0 p; p = init_prog_vid p;
          p = load_page_directory (page_directory_at p) p
      in enable_paging p)"

definition save_video_to_backup :: "int \<Rightarrow> mem \<Rightarrow> mem" where
  "save_video_to_backup prev_id m = memcpy m (backup_page prev_id) VIDEO_MEM 4096"

definition restore_backup_to_video :: "int \<Rightarrow> mem \<Rightarrow> mem" where
  "restore_backup_to_video next_id m = memcpy m VIDEO_MEM (backup_page next_id) 4096"

section \<open>The processor's page walk\<close>

text \<open>
  \<open>None\<close> is a page fault.  A directory entry without the page-size bit points to one of the
  two tables; a user access needs the user bit at both levels.
\<close>

definition walk_table :: "paging \<Rightarrow> addr \<Rightarrow> (nat \<Rightarrow> page_table_entry) option" where
  "walk_table p a =
     (if a = page_table_0_at p then Some (page_table_0 p)
      else if a = page_table_video_at p then Some (page_table_video p) else None)"

definition translate :: "paging \<Rightarrow> bool \<Rightarrow> addr \<Rightarrow> addr option" where
  "translate p user a =
     (if \<not> bit (cr0 p) 31 then Some a
      else let e = page_directory p (unat (drop_bit 22 a))
           in if pd_present e = 0 \<or> (user \<and> pd_u_s e = 0) then None
              else if pd_page_size e = 1 \<and> bit (cr4 p) 4
              then Some ((push_bit 12 (ucast (page_table_addr e)) AND 0xFFC00000) OR (a AND 0x003FFFFF))
              else case walk_table p (push_bit 12 (ucast (page_table_addr e))) of
                     None \<Rightarrow> None
                   | Some t \<Rightarrow>
                       let q = t (unat (drop_bit 12 a AND 0x3FF))
                       in if pt_present q = 0 \<or> (user \<and> pt_u_s q = 0) then None
                          else Some (push_bit 12 (ucast (page_base_addr q)) OR (a AND 0xFFF)))"

section \<open>The tables the operations build\<close>

lemma set_simps [simp]:
  "page_directory (set_pde i f p) = (page_directory p)(i := f (page_directory p i))"
  "page_table_0 (set_pde i f p) = page_table_0 p" "page_table_video (set_pde i f p) = page_table_video p"
  "page_directory (set_pte0 i g p) = page_directory p" "page_table_video (set_pte0 i g p) = page_table_video p"
  "page_table_0 (set_pte0 i g p) = (page_table_0 p)(i := g (page_table_0 p i))"
  "page_directory (set_ptev i g p) = page_directory p" "page_table_0 (set_ptev i g p) = page_table_0 p"
  "page_table_video (set_ptev i g p) = (page_table_video p)(i := g (page_table_video p i))"
  by (simp_all add: set_pde_def set_pte0_def set_ptev_def)

definition regs :: "paging \<Rightarrow> addr \<times> addr \<times> addr \<times> u32 \<times> u32" where
  "regs p = (page_directory_at p, page_table_0_at p, page_table_video_at p, cr0 p, cr4 p)"

lemma regs_simps [simp]:
  "regs (set_pde i f p) = regs p" "regs (set_pte0 i g p) = regs p" "regs (set_ptev i g p) = regs p"
  "regs (load_cr3 a p) = regs p" "regs (p\<lparr>page_directory := d\<rparr>) = regs p"
  "regs (p\<lparr>page_table_0 := t\<rparr>) = regs p" "regs (p\<lparr>page_table_video := t\<rparr>) = regs p"
  by (simp_all add: regs_def set_pde_def set_pte0_def set_ptev_def load_cr3_def)

lemma load_cr3_simps [simp]:
  "page_directory (load_cr3 a p) = page_directory p" "page_table_0 (load_cr3 a p) = page_table_0 p"
  "page_table_video (load_cr3 a p) = page_table_video p"
  "tlb (load_cr3 a p) = (page_directory p, page_table_0 p, page_table_video p)"
  by (simp_all add: load_cr3_def)

lemma set_pde_loop:
  "for_loop 0 n (\<lambda>i. set_pde i (\<lambda>_. e i)) p = p\<lparr>page_directory := \<lambda>i. if i < n then e i else page_directory p i\<rparr>"
  by (induction n) (simp_all add: set_pde_def fun_eq_iff less_Suc_eq)

lemma set_pte0_loop:
  "for_loop 0 n (\<lambda>i. set_pte0 i (\<lambda>_. e i)) p = p\<lparr>page_table_0 := \<lambda>i. if i < n then e i else page_table_0 p i\<rparr>"
  by (induction n) (simp_all add: set_pte0_def fun_eq_iff less_Suc_eq)

lemma set_ptev_loop:
  "for_loop 0 n (\<lambda>i. set_ptev i (\<lambda>_. e i)) p = p\<lparr>page_table_video := \<lambda>i. if i < n then e i else page_table_video p i\<rparr>"
  by (induction n) (simp_all add: set_ptev_def fun_eq_iff less_Suc_eq)

section \<open>The paging invariant\<close>

text \<open>What the linker guarantees about the three tables.\<close>

definition tables_placed :: "paging \<Rightarrow> bool" where
  "tables_placed p \<longleftrightarrow> page_table_0_at p AND 0xFFF = 0 \<and> page_table_video_at p AND 0xFFF = 0
     \<and> page_table_0_at p \<noteq> page_table_video_at p"

definition vid_frames :: "20 word set" where
  "vid_frames = {0xB8, 0xB9, 0xBA, 0xBB}"

definition prog_frame :: "int \<Rightarrow> 20 word" where
  "prog_frame n = word_of_int (0x800 + 0x400 * n)"

definition dir_inv :: "paging \<Rightarrow> bool" where
  "dir_inv p \<longleftrightarrow> (\<forall>i<1024. i \<notin> {0, 1, 32, 33} \<longrightarrow> pd_present (page_directory p i) = 0)
     \<and> pd_present (page_directory p 0) = 1 \<and> pd_u_s (page_directory p 0) = 0
     \<and> pd_page_size (page_directory p 0) = 0
     \<and> page_table_addr (page_directory p 0) = ucast (drop_bit 12 (page_table_0_at p))
     \<and> pd_present (page_directory p 1) = 1 \<and> pd_u_s (page_directory p 1) = 0
     \<and> pd_page_size (page_directory p 1) = 1 \<and> page_table_addr (page_directory p 1) = 0x400
     \<and> (pd_present (page_directory p 32) \<noteq> 0 \<longrightarrow>
          pd_u_s (page_directory p 32) = 1 \<and> pd_page_size (page_directory p 32) = 1
          \<and> (\<exists>n. 0 \<le> n \<and> n < 6 \<and> page_table_addr (page_directory p 32) = prog_frame n))
     \<and> pd_page_size (page_directory p 33) = 0 \<and> pd_u_s (page_directory p 33) = 1
     \<and> page_table_addr (page_directory p 33) = ucast (drop_bit 12 (page_table_video_at p))"

definition table_inv :: "paging \<Rightarrow> bool" where
  "table_inv p \<longleftrightarrow> (\<forall>i<1024. page_base_addr (page_table_0 p i) = of_nat i
        \<and> pt_u_s (page_table_0 p i) = 0
        \<and> pt_present (page_table_0 p i) = (if of_nat i \<in> vid_frames then 1 else 0))
     \<and> (\<forall>i<1024. pt_u_s (page_table_video p i) = 1)
     \<and> (\<forall>i<1024. i \<noteq> 0 \<longrightarrow> pt_present (page_table_video p i) = 0)
     \<and> page_base_addr (page_table_video p 0) \<in> vid_frames"

definition paging_inv :: "paging \<Rightarrow> bool" where
  "paging_inv p \<longleftrightarrow> bit (cr0 p) 31 \<and> bit (cr4 p) 4 \<and> tables_placed p \<and> dir_inv p \<and> table_inv p
     \<and> tlb p = (page_directory p, page_table_0 p, page_table_video p)"

lemma of_nat_vid_frames:
  assumes "i < 1024"
  shows "(of_nat i :: 20 word) \<in> vid_frames \<longleftrightarrow> i \<in> {0xB8, 0xB9, 0xBA, 0xBB}"
proof -
  have "(of_nat i :: 20 word) = of_nat j \<longleftrightarrow> i = j" if "j < 1024" for j
    using of_nat_word_inj [of i j, where 'a = 20] assms that by simp
  from this [of "0xB8"] this [of "0xB9"] this [of "0xBA"] this [of "0xBB"]
  show ?thesis by (simp add: vid_frames_def)
qed

text \<open>The control registers and placements stay as they are under every table operation.\<close>

lemma regs_fields:
  "regs p = regs q \<Longrightarrow> page_directory_at p = page_directory_at q \<and> page_table_0_at p = page_table_0_at q
    \<and> page_table_video_at p = page_table_video_at q \<and> cr0 p = cr0 q \<and> cr4 p = cr4 q"
  by (simp add: regs_def)

lemma paging_inv_flush:
  assumes "paging_inv p" and "regs q = regs p" and "dir_inv q" and "table_inv q"
  shows "paging_inv (flush_tlb q)"
proof -
  have "regs (flush_tlb q) = regs p" using assms(2) by (simp add: flush_tlb_def)
  note r = regs_fields [OF this] regs_fields [OF assms(2)]
  show ?thesis using assms r
    by (simp add: paging_inv_def tables_placed_def) (simp add: flush_tlb_def dir_inv_def table_inv_def)
qed

lemma prog_frame_eq: "word_of_int ((n * FOUR_MB + EIGHT_MB) div 4096) = prog_frame n"
proof -
  have "n * FOUR_MB + EIGHT_MB = 4096 * (0x800 + 0x400 * n)" by (simp add: FOUR_MB_def EIGHT_MB_def)
  then show ?thesis by (simp add: prog_frame_def)
qed

lemma setup_paging_inv:
  assumes "paging_inv p" and "0 \<le> n" and "n < 6"
  shows "paging_inv (setup_paging n p)"
  unfolding setup_paging_def
proof (rule paging_inv_flush [OF assms(1)])
  have inv: "dir_inv p" "table_inv p" using assms(1) by (simp_all add: paging_inv_def)
  have e: "regs (enable_program_page n p) = regs p" by (simp add: enable_program_page_def Let_def)
  show "regs (enable_program_page n p) = regs p" by (rule e)
  show "table_inv (enable_program_page n p)"
    using inv(2) by (simp add: table_inv_def enable_program_page_def Let_def)
  show "dir_inv (enable_program_page n p)"
    using inv(1) assms(2,3) regs_fields [OF e] unfolding dir_inv_def
    by (auto simp: enable_program_page_def Let_def prog_frame_eq PROGRAM_DIRECTORY_INDEX_def
        PROGRAM_DIRECTORY_VIRTUAL_ADDR_def)
qed

lemma vid_page_inv:
  assumes "paging_inv p"
  shows "paging_inv (enable_prog_vid_page p)" and "paging_inv (disable_prog_vid_page p)"
proof -
  have inv: "dir_inv p" "table_inv p" using assms(1) by (simp_all add: paging_inv_def)
  let ?q = "\<lambda>b. set_ptev 0 (\<lambda>e. e\<lparr>pt_present := b\<rparr>) (set_pde PROG_VID_ENTRY (\<lambda>e. e\<lparr>pd_present := b\<rparr>) p)"
  have "paging_inv (flush_tlb (?q b))" for b
  proof (rule paging_inv_flush [OF assms(1)])
    show r: "regs (?q b) = regs p" by simp
    show "dir_inv (?q b)" using inv(1) regs_fields [OF r] by (auto simp: dir_inv_def PROG_VID_ENTRY_def)
    show "table_inv (?q b)" using inv(2) by (auto simp: table_inv_def)
  qed
  then show "paging_inv (enable_prog_vid_page p)" "paging_inv (disable_prog_vid_page p)"
    by (simp_all add: enable_prog_vid_page_def disable_prog_vid_page_def Let_def)
qed

lemma change_vid_inv:
  assumes "paging_inv p" and "0 \<le> t" and "t < 3"
  shows "paging_inv (change_prog_vid_mapping a t p)"
proof -
  have inv: "dir_inv p" "table_inv p" using assms(1) by (simp_all add: paging_inv_def)
  define w :: "20 word" where "w = (if t = a then of_nat VIDEO_FRAME else word_of_int (int VIDEO_FRAME + t + 1))"
  have "t = 0 \<or> t = 1 \<or> t = 2" using assms(2,3) by auto
  then have w: "w \<in> vid_frames" by (auto simp: w_def vid_frames_def VIDEO_FRAME_def VIDEO_MEM_def)
  let ?q = "set_ptev 0 (\<lambda>e. e\<lparr>page_base_addr := w\<rparr>) p"
  have "paging_inv (flush_tlb ?q)"
  proof (rule paging_inv_flush [OF assms(1)])
    show r: "regs ?q = regs p" by simp
    show "dir_inv ?q" using inv(1) regs_fields [OF r] by (auto simp: dir_inv_def)
    show "table_inv ?q" using inv(2) w by (auto simp: table_inv_def)
  qed
  moreover have "change_prog_vid_mapping a t p = flush_tlb ?q"
    unfolding change_prog_vid_mapping_def w_def by (cases "t = a") (simp_all only: if_True if_False simp_thms)
  ultimately show ?thesis by simp
qed

lemma init_tables:
  fixes p defines "q \<equiv> init_prog_vid (init_table_0 (init_directory p))"
  shows "regs q = regs p" and "dir_inv q" and "table_inv q"
proof -
  have vf: "VIDEO_FRAME = 0xB8" by (simp add: VIDEO_FRAME_def VIDEO_MEM_def)
  note defs = init_prog_vid_def init_table_0_def init_directory_def Let_def set_pde_loop set_pte0_loop
    set_ptev_loop NUM_ENTRY_def PROG_VID_ENTRY_def vf
  show r: "regs q = regs p" by (simp add: q_def defs)
  have at: "page_table_0_at (init_table_0 (init_directory p)) = page_table_0_at p"
    "page_table_video_at (init_table_0 (init_directory p)) = page_table_video_at p"
    by (simp_all add: defs set_pde_def set_pte0_def)
  show "dir_inv q" using regs_fields [OF r]
    by (auto simp: dir_inv_def q_def defs PD_1_ADDR_def) (simp_all add: set_pde_def set_pte0_def set_ptev_def)
  show "table_inv q"
    by (auto simp: table_inv_def q_def defs of_nat_vid_frames) (simp_all add: vid_frames_def)
qed

lemma init_paging_inv: "tables_placed p \<Longrightarrow> paging_inv (init_paging p)"
proof -
  assume placed: "tables_placed p"
  let ?q = "init_prog_vid (init_table_0 (init_directory p))"
  note q = init_tables [of p] and r = regs_fields [OF init_tables(1) [of p]]
  have "dir_inv (init_paging p)" "table_inv (init_paging p)"
    using q(2,3) by (simp_all add: init_paging_def Let_def enable_paging_def load_page_directory_def load_cr3_def
        dir_inv_def table_inv_def)
  then show ?thesis using placed r
    by (simp add: paging_inv_def init_paging_def Let_def enable_paging_def load_page_directory_def
        load_cr3_def tables_placed_def bit_simps)
qed

section \<open>What the tables map\<close>

lemma low_bits:
  "(a :: u32) AND 0x003FFFFF = take_bit 22 a" "a AND 0xFFF = take_bit 12 a" "a AND 0x3FF = take_bit 10 a"
proof -
  have m: "(0x003FFFFF :: u32) = mask 22" "(0xFFF :: u32) = mask 12" "(0x3FF :: u32) = mask 10"
    by (simp_all add: mask_eq_exp_minus_1)
  show "a AND 0x003FFFFF = take_bit 22 a" "a AND 0xFFF = take_bit 12 a" "a AND 0x3FF = take_bit 10 a"
    by (simp_all only: m take_bit_eq_mask)
qed

lemma u32_parts:
  "unat (drop_bit 22 (a :: u32)) = unat a div 4194304" "unat (drop_bit 12 a) = unat a div 4096"
  "unat (take_bit 22 a) = unat a mod 4194304" "unat (take_bit 12 a) = unat a mod 4096"
  "unat (take_bit 10 (drop_bit 12 a)) = unat a div 4096 mod 1024"
  by (simp_all add: drop_bit_eq_div take_bit_eq_mod unat_div unat_mod)

text \<open>A frame address and an offset inside the frame combine by addition.\<close>

lemma frame_or_offset:
  assumes "take_bit n (w :: u32) = 0" and "unat w + unat (take_bit n a) < 4294967296"
  shows "unat (w OR take_bit n a) = unat w + unat (take_bit n a)"
proof -
  have "\<not> bit w i \<or> \<not> bit (take_bit n a) i" for i
  proof (cases "i < n")
    case True
    then have "bit (take_bit n w) i = bit w i" by (simp add: bit_take_bit_iff)
    then show ?thesis using assms(1) by simp
  qed (simp add: bit_take_bit_iff)
  then have "w OR take_bit n a = w + take_bit n a" by (simp add: disjunctive_add)
  then show ?thesis using assms(2) by (simp add: unat_add_u32)
qed

lemma translate_4m:
  assumes "paging_inv p" and "unat a div 4194304 = i" and "e = page_directory p i"
    and "pd_present e \<noteq> 0" and "user \<longrightarrow> pd_u_s e \<noteq> 0" and "pd_page_size e = 1"
    and "unat (page_table_addr e) = 1024 * f" and "f < 1024"
  shows "\<exists>pa. translate p user a = Some pa \<and> unat pa = 4194304 * f + unat a mod 4194304"
proof -
  define w :: u32 where "w = push_bit 12 (ucast (page_table_addr e))"
  have uw: "unat w = 4194304 * f"
    using assms(7,8) by (simp add: w_def push_bit_eq_mult unat_word_ariths unsigned_ucast_eq take_bit_nat_eq_self)
  have w: "w AND 0xFFC00000 = w" "take_bit 22 w = 0"
  proof -
    show z: "take_bit 22 w = 0"
    proof -
      have "unat (take_bit 22 w) = 0" unfolding u32_parts uw by simp
      then show ?thesis by (simp only: unat_eq_0)
    qed
    have "w = NOT (mask 22) AND w OR (w AND mask 22)"
      by (rule bit_word_eqI) (auto simp: bit_simps)
    moreover have "(0xFFC00000 :: u32) = NOT (mask 22)" by (simp add: mask_eq_exp_minus_1)
    ultimately show "w AND 0xFFC00000 = w" using z by (simp add: take_bit_eq_mask and.commute)
  qed
  have e: "page_directory p (unat (drop_bit 22 a)) = e" using assms(2,3) by (simp add: u32_parts)
  have "translate p user a = Some (w OR take_bit 22 a)"
    unfolding translate_def e Let_def using assms(1,4-6) w(1)
    by (auto simp: paging_inv_def low_bits w_def)
  moreover have "unat (w OR take_bit 22 a) = 4194304 * f + unat a mod 4194304"
    using w(2) uw assms(8) by (subst frame_or_offset) (simp_all add: u32_parts)
  ultimately show ?thesis by blast
qed

lemma table_addr:
  assumes "t AND 0xFFF = (0 :: u32)"
  shows "push_bit 12 (ucast (ucast (drop_bit 12 t) :: 20 word)) = t"
proof (rule bit_word_eqI)
  fix n
  assume n: "n < LENGTH(32)"
  have "\<not> bit t n" if "n < 12"
  proof -
    have "bit (take_bit 12 t) n = bit t n" using that by (simp add: bit_take_bit_iff)
    then show ?thesis using assms by (simp add: low_bits)
  qed
  then show "bit (push_bit 12 (ucast (ucast (drop_bit 12 t) :: 20 word)) :: u32) n = bit t n"
    using n by (cases "n < 12") (auto simp: bit_simps)
qed

lemma translate_4k:
  assumes "paging_inv p" and "e = page_directory p (unat a div 4194304)"
    and "pd_present e \<noteq> 0" and "user \<longrightarrow> pd_u_s e \<noteq> 0" and "pd_page_size e = 0"
    and "walk_table p (push_bit 12 (ucast (page_table_addr e))) = Some t"
    and "q = t (unat a div 4096 mod 1024)"
  shows "translate p user a =
    (if pt_present q = 0 \<or> (user \<and> pt_u_s q = 0) then None
     else Some (push_bit 12 (ucast (page_base_addr q)) OR take_bit 12 a))"
proof -
  have e: "page_directory p (unat (drop_bit 22 a)) = e" using assms(2) by (simp add: u32_parts)
  have q: "t (unat (take_bit 10 (drop_bit 12 a))) = q" using assms(7) by (simp only: u32_parts)
  show ?thesis
    unfolding translate_def e Let_def low_bits using assms(1,3-6) q by (auto simp: paging_inv_def)
qed

lemma frame_4k:
  "unat (push_bit 12 (ucast (f :: 20 word)) OR take_bit 12 (a :: u32)) = 4096 * unat f + unat a mod 4096"
proof -
  have f: "unat f < 1048576" using unsigned_less [of f] by simp
  have u: "unat (push_bit 12 (ucast f) :: u32) = 4096 * unat f"
    using f by (simp add: push_bit_eq_mult unat_word_ariths unsigned_ucast_eq take_bit_nat_eq_self)
  have m: "unat a mod 4096 < 4096" by simp
  have "unat (take_bit 12 (push_bit 12 (ucast f) :: u32)) = 0" unfolding u32_parts u by simp
  then have z: "take_bit 12 (push_bit 12 (ucast f) :: u32) = 0" by (simp only: unat_eq_0)
  have "4096 * unat f + unat a mod 4096 < 4294967296" using f m by linarith
  with frame_or_offset [OF z, of a] show ?thesis by (simp only: u u32_parts)
qed

section \<open>The address space\<close>

lemma vid_frames_unat: "f \<in> vid_frames \<Longrightarrow> 0xB8 \<le> unat f \<and> unat f \<le> 0xBB"
  by (auto simp: vid_frames_def)

lemma unat_prog_frame: "0 \<le> n \<Longrightarrow> n < 6 \<Longrightarrow> unat (prog_frame n) = 1024 * (2 + nat n)"
proof -
  assume "0 \<le> n" "n < 6"
  then have "n = 0 \<or> n = 1 \<or> n = 2 \<or> n = 3 \<or> n = 4 \<or> n = 5" by auto
  then show ?thesis by (elim disjE) (simp_all add: prog_frame_def)
qed

lemma kernel_page:
  assumes "paging_inv p" and "unat a div 4194304 = 1"
  shows "translate p False a = Some a" and "translate p True a = None"
proof -
  have d: "pd_present (page_directory p 1) = 1" "pd_u_s (page_directory p 1) = 0"
    "pd_page_size (page_directory p 1) = 1" "page_table_addr (page_directory p 1) = 0x400"
    using assms(1) by (simp_all add: paging_inv_def dir_inv_def)
  have "\<exists>pa. translate p False a = Some pa \<and> unat pa = 4194304 * 1 + unat a mod 4194304"
    by (rule translate_4m [OF assms refl]) (use d in simp_all)
  then obtain pa where pa: "translate p False a = Some pa" "unat pa = 4194304 + unat a mod 4194304" by auto
  have "unat a = 4194304 + unat a mod 4194304" using assms(2) div_mult_mod_eq [of "unat a" 4194304] by simp
  with pa(2) have "unat pa = unat a" by simp
  then have "pa = a" by (simp only: word_unat_eq_iff)
  with pa(1) show "translate p False a = Some a" by simp
  show "translate p True a = None"
    using assms d by (simp add: translate_def paging_inv_def Let_def u32_parts)
qed

lemma low_table:
  assumes "paging_inv p"
  shows "walk_table p (push_bit 12 (ucast (page_table_addr (page_directory p 0)))) = Some (page_table_0 p)"
    and "walk_table p (push_bit 12 (ucast (page_table_addr (page_directory p 33)))) = Some (page_table_video p)"
  using assms by (auto simp: paging_inv_def dir_inv_def tables_placed_def table_addr walk_table_def)

text \<open>The screen and the three backup pages are mapped to themselves, for the kernel only.\<close>

lemma video_pages:
  assumes "paging_inv p" and "0xB8 \<le> unat a div 4096" and "unat a div 4096 \<le> 0xBB"
  shows "translate p False a = Some a"
proof -
  have i: "unat a div 4194304 = 0" "unat a div 4096 mod 1024 = unat a div 4096" using assms(2,3) by auto
  have d: "pd_present (page_directory p 0) = 1" "pd_page_size (page_directory p 0) = 0"
    using assms(1) by (simp_all add: paging_inv_def dir_inv_def)
  have n: "unat a div 4096 < 1024" using assms(3) by simp
  then have t: "page_base_addr (page_table_0 p (unat a div 4096)) = of_nat (unat a div 4096)"
    "pt_present (page_table_0 p (unat a div 4096)) = 1"
    using assms by (auto simp: paging_inv_def table_inv_def of_nat_vid_frames)
  have f: "unat (of_nat (unat a div 4096) :: 20 word) = unat a div 4096"
    using n by (simp add: unat_of_nat)
  have "translate p False a = Some (push_bit 12 (ucast (of_nat (unat a div 4096) :: 20 word)) OR take_bit 12 a)"
    using translate_4k [OF assms(1) refl, of a False "page_table_0 p"] i d t low_table(1) [OF assms(1)] by simp
  moreover have "unat (push_bit 12 (ucast (of_nat (unat a div 4096) :: 20 word)) OR take_bit 12 a) = unat a"
    unfolding frame_4k f by simp
  then have "push_bit 12 (ucast (of_nat (unat a div 4096) :: 20 word)) OR take_bit 12 a = a"
    by (simp only: word_unat_eq_iff)
  ultimately show ?thesis by simp
qed

text \<open>The 4 MB window at 128 MB shows the frame of the program it was set up for.\<close>

lemma program_window:
  assumes "paging_inv p" and "0 \<le> n" and "n < 6" and "unat a div 4194304 = 32"
  shows "\<exists>pa. translate (setup_paging n p) user a = Some pa
    \<and> unat pa = 0x800000 + 0x400000 * nat n + unat a mod 0x400000"
proof -
  have inv: "paging_inv (setup_paging n p)" by (rule setup_paging_inv [OF assms(1-3)])
  have e: "page_directory (setup_paging n p) 32 = \<lparr>pd_present = 1, pd_r_w = 1, pd_u_s = 1, pd_write_t = 0,
      pd_cache_dis = 0, pd_access = 0, pd_reserve_0 = 0, pd_page_size = 1, pd_ignored = 1,
      pd_reserve_1 = 0, page_table_addr = prog_frame n\<rparr>"
    by (simp add: setup_paging_def flush_tlb_def enable_program_page_def Let_def prog_frame_eq
        PROGRAM_DIRECTORY_INDEX_def PROGRAM_DIRECTORY_VIRTUAL_ADDR_def)
  have "\<exists>pa. translate (setup_paging n p) user a = Some pa
      \<and> unat pa = 4194304 * (2 + nat n) + unat a mod 4194304"
    by (rule translate_4m [OF inv assms(4) refl]) (use assms(2,3) in \<open>simp_all add: e unat_prog_frame\<close>)
  then show ?thesis by simp
qed

text \<open>Whatever a user access reaches is a program frame or a text page.\<close>

lemma user_reach:
  assumes "paging_inv p" and "translate p True a = Some pa"
  shows "unat a div 4194304 = 32 \<and> 0x800000 \<le> unat pa \<and> unat pa < 0x2000000
    \<or> unat a div 4194304 = 33 \<and> 0xB8000 \<le> unat pa \<and> unat pa < 0xBC000"
proof -
  define i where "i = unat a div 4194304"
  have i: "i < 1024" using u32_lt [of a] by (simp add: i_def)
  define e where "e = page_directory p i"
  have e: "pd_present e \<noteq> 0" "pd_u_s e \<noteq> 0"
    using assms by (auto simp: translate_def paging_inv_def Let_def u32_parts e_def i_def split: if_splits)
  have inv: "dir_inv p" "table_inv p" using assms(1) by (simp_all add: paging_inv_def)
  have "i = 32 \<or> i = 33" using inv(1) i e unfolding e_def dir_inv_def by fastforce
  then show ?thesis
  proof
    assume i32: "i = 32"
    then obtain n where n: "0 \<le> n" "n < 6" "page_table_addr e = prog_frame n" "pd_page_size e = 1"
      using inv(1) e unfolding e_def dir_inv_def by blast
    have "\<exists>pa. translate p True a = Some pa \<and> unat pa = 4194304 * (2 + nat n) + unat a mod 4194304"
      by (rule translate_4m [OF assms(1) i_def [symmetric] e_def]) (use n e in \<open>simp_all add: unat_prog_frame\<close>)
    moreover have "unat a mod 4194304 < 4194304" by simp
    moreover have "nat n \<le> 5" using n(2) by simp
    ultimately show ?thesis using assms(2) i32 by (auto simp: i_def)
  next
    assume i33: "i = 33"
    define q where "q = page_table_video p (unat a div 4096 mod 1024)"
    have "translate p True a = (if pt_present q = 0 \<or> (True \<and> pt_u_s q = 0) then None
     else Some (push_bit 12 (ucast (page_base_addr q)) OR take_bit 12 a))"
      by (rule translate_4k [OF assms(1) e_def [unfolded i_def]])
        (use e i33 inv(1) low_table(2) [OF assms(1)] in \<open>simp_all add: e_def dir_inv_def q_def\<close>)
    then have pa: "pa = push_bit 12 (ucast (page_base_addr q)) OR take_bit 12 a" "pt_present q \<noteq> 0"
      using assms(2) by (auto split: if_splits)
    have "\<forall>j<1024. j \<noteq> 0 \<longrightarrow> pt_present (page_table_video p j) = 0" using inv(2) by (simp add: table_inv_def)
    from this [rule_format, of "unat a div 4096 mod 1024"]
    have "unat a div 4096 mod 1024 = 0" using pa(2) unfolding q_def by (meson mod_less_divisor zero_less_numeral)
    then have "page_base_addr q \<in> vid_frames" using inv(2) by (simp add: q_def table_inv_def)
    then have "0xB8 \<le> unat (page_base_addr q) \<and> unat (page_base_addr q) \<le> 0xBB" by (rule vid_frames_unat)
    moreover have "unat pa = 4096 * unat (page_base_addr q) + unat a mod 4096" by (simp only: pa(1) frame_4k)
    moreover have "unat a mod 4096 < 4096" by simp
    ultimately show ?thesis using i33 by (auto simp: i_def)
  qed
qed

section \<open>Save and restore of the screen\<close>

lemma backup_pages_safe:
  assumes "0 \<le> t" and "t < 3"
  shows "up_safe (backup_page t) VIDEO_MEM 4096" and "up_safe VIDEO_MEM (backup_page t) 4096"
proof -
  have t: "t = 0 \<or> t = 1 \<or> t = 2" using assms by auto
  then show "up_safe (backup_page t) VIDEO_MEM 4096"
    by (intro up_safe_disjoint) (auto simp: backup_page_def VIDEO_MEM_def)
  show "up_safe VIDEO_MEM (backup_page t) 4096"
    unfolding up_safe_def
  proof (intro allI impI notI)
    fix j i
    assume ij: "j < 4096" "i < j" and eq: "VIDEO_MEM + of_nat i = backup_page t + of_nat j"
    have "unat VIDEO_MEM + i < 4294967296" "unat (backup_page t) + j < 4294967296"
      using ij t by (auto simp: VIDEO_MEM_def backup_page_def)
    then have "unat (VIDEO_MEM + of_nat i) = unat VIDEO_MEM + i"
      "unat (backup_page t + of_nat j) = unat (backup_page t) + j" by (simp_all only: unat_plus_of_nat)
    moreover have "unat VIDEO_MEM < unat (backup_page t)" using t by (auto simp: VIDEO_MEM_def backup_page_def)
    ultimately show False using eq ij by simp
  qed
qed

section \<open>Sequences of paging operations\<close>

text \<open>The operations the kernel calls after \<open>init_paging\<close>, with the arguments it gives them: a
  process number below 6, a terminal number below 3.\<close>

inductive pg_step :: "paging \<Rightarrow> paging \<Rightarrow> bool" where
  prog_page: "0 \<le> n \<Longrightarrow> n < 6 \<Longrightarrow> pg_step p (setup_paging n p)"
| enable_vid: "pg_step p (enable_prog_vid_page p)"
| disable_vid: "pg_step p (disable_prog_vid_page p)"
| remap: "0 \<le> t \<Longrightarrow> t < 3 \<Longrightarrow> pg_step p (change_prog_vid_mapping a t p)"

inductive_cases pg_stepE: "pg_step p q"

lemma pg_step_inv: "pg_step p q \<Longrightarrow> paging_inv p \<Longrightarrow> paging_inv q"
  by (erule pg_stepE) (auto simp: setup_paging_inv vid_page_inv change_vid_inv)

lemma pg_steps_inv: "pg_step\<^sup>*\<^sup>* p q \<Longrightarrow> paging_inv p \<Longrightarrow> paging_inv q"
  by (induction rule: rtranclp_induct) (auto intro: pg_step_inv)

section \<open>Properties\<close>



text \<open>The program window: after \<open>setup_paging\<close> for process \<open>n\<close> every address of the 4 MB
  window at 128 MB goes to the frame at 8 MB + 4 MB * \<open>n\<close>, for user and kernel accesses alike,
  so the windows of two processes never share a physical byte.\<close>

lemma program_windows_disjoint:
  assumes "paging_inv p" and "0 \<le> n" and "n < 6" and "unat a div 4194304 = 32"
    and "paging_inv p'" and "0 \<le> n'" and "n' < 6" and "unat a' div 4194304 = 32"
  shows "(\<exists>pa. translate (setup_paging n p) user a = Some pa
      \<and> unat pa = 0x800000 + 0x400000 * nat n + unat a mod 0x400000)
    \<and> (n \<noteq> n' \<longrightarrow> translate (setup_paging n p) user a \<noteq> translate (setup_paging n' p') user' a')"
proof -
  obtain pa where pa: "translate (setup_paging n p) user a = Some pa"
    "unat pa = 0x800000 + 0x400000 * nat n + unat a mod 0x400000"
    using program_window [OF assms(1-4)] by blast
  obtain pa' where pa': "translate (setup_paging n' p') user' a' = Some pa'"
    "unat pa' = 0x800000 + 0x400000 * nat n' + unat a' mod 0x400000"
    using program_window [OF assms(5-8)] by blast
  have "unat a mod 0x400000 < 0x400000" "unat a' mod 0x400000 < 0x400000" by simp_all
  moreover have "nat n < nat n' \<or> nat n' < nat n" if "n \<noteq> n'" using that assms(2,6) by auto
  ultimately have "unat pa \<noteq> unat pa'" if "n \<noteq> n'" using that pa(2) pa'(2) by force
  then show ?thesis using pa pa'(1) by auto
qed

lemma program_windows_disjoint_witness:
  "translate (setup_paging 0 (init_paging (zero_paging 0x410000 0x411000 0x412000))) True 0x08048000
   \<noteq> translate (setup_paging 1 (init_paging (zero_paging 0x410000 0x411000 0x412000))) True 0x08048000"
proof -
  have "paging_inv (init_paging (zero_paging 0x410000 0x411000 0x412000))"
    by (rule init_paging_inv) (simp add: tables_placed_def zero_paging_def)
  from program_windows_disjoint [OF this _ _ _ this, of 0 "0x08048000" 1 "0x08048000" True True]
  show ?thesis by simp
qed

text \<open>\<open>vidmap\<close>'s page: once enabled, the user page at 132 MB is the screen for a process of
  the displayed terminal and the terminal's own backup page otherwise; once disabled, every
  access to it faults.\<close>

lemma vid_page_mapping:
  assumes "paging_inv p" and "0 \<le> t" and "t < 3" and "unat a div 4096 = 33792"
  shows "(\<exists>pa. translate (enable_prog_vid_page (change_prog_vid_mapping act t p)) True a = Some pa
      \<and> unat pa = unat (if t = act then VIDEO_MEM else backup_page t) + unat a mod 4096)
    \<and> translate (disable_prog_vid_page p) user a = None"
proof
  have i: "unat a div 4194304 = 33" "unat a div 4096 mod 1024 = 0"
    using assms(4) div_mult2_eq [of "unat a" 4096 1024] by simp_all
  define w :: "20 word" where "w = (if t = act then of_nat VIDEO_FRAME else word_of_int (int VIDEO_FRAME + t + 1))"
  define q where "q = change_prog_vid_mapping act t p"
  define r where "r = enable_prog_vid_page q"
  have inv: "paging_inv q" "paging_inv r" "paging_inv (disable_prog_vid_page p)"
    using assms(1-3) by (simp_all add: q_def r_def change_vid_inv vid_page_inv)
  have e: "pd_present (page_directory r 33) = 1" "pt_present (page_table_video r 0) = 1"
    by (simp_all add: r_def enable_prog_vid_page_def Let_def flush_tlb_def PROG_VID_ENTRY_def)
  have b: "page_base_addr (page_table_video r 0) = w"
    by (simp add: r_def enable_prog_vid_page_def q_def change_prog_vid_mapping_def Let_def flush_tlb_def w_def)
  have d: "pd_u_s (page_directory r 33) = 1" "pd_page_size (page_directory r 33) = 0" "pt_u_s (page_table_video r 0) = 1"
    using inv(2) by (simp_all add: paging_inv_def dir_inv_def table_inv_def)
  have "translate r True a = Some (push_bit 12 (ucast w) OR take_bit 12 a)"
    using translate_4k [OF inv(2) refl, of a True "page_table_video r"] i e d b low_table(2) [OF inv(2)] by simp
  moreover have "t = 0 \<or> t = 1 \<or> t = 2" using assms(2,3) by auto
  then have "4096 * unat w = unat (if t = act then VIDEO_MEM else backup_page t)"
    by (auto simp: w_def VIDEO_FRAME_def VIDEO_MEM_def backup_page_def)
  ultimately show "\<exists>pa. translate (enable_prog_vid_page (change_prog_vid_mapping act t p)) True a = Some pa
      \<and> unat pa = unat (if t = act then VIDEO_MEM else backup_page t) + unat a mod 4096"
    by (simp add: frame_4k flip: r_def q_def)
  have "pd_present (page_directory (disable_prog_vid_page p) 33) = 0"
    by (simp add: disable_prog_vid_page_def Let_def flush_tlb_def PROG_VID_ENTRY_def)
  then show "translate (disable_prog_vid_page p) user a = None"
    using inv(3) i by (simp add: translate_def paging_inv_def Let_def u32_parts)
qed

lemma vid_page_mapping_witness:
  "translate (disable_prog_vid_page (init_paging (zero_paging 0x410000 0x411000 0x412000))) True 0x8400000 = None"
proof -
  have "paging_inv (init_paging (zero_paging 0x410000 0x411000 0x412000))"
    by (rule init_paging_inv) (simp add: tables_placed_def zero_paging_def)
  from vid_page_mapping [OF this, of 0 "0x8400000"] show ?thesis by simp
qed

text \<open>the screen survives a round trip through a backup page: saving it to the page of
  terminal \<open>t\<close>, changing anything but that page, and restoring from it gives back every byte of
  the screen; saving changes nothing but the backup page.\<close>

lemma save_restore_screen:
  assumes "0 \<le> t" and "t < 3"
    and "\<And>i. i < 4096 \<Longrightarrow> m' (backup_page t + of_nat i) = save_video_to_backup t m (backup_page t + of_nat i)"
  shows "(\<forall>i < 4096. restore_backup_to_video t m' (VIDEO_MEM + of_nat i) = m (VIDEO_MEM + of_nat i))
    \<and> (\<forall>a. (\<forall>i < 4096. a \<noteq> backup_page t + of_nat i) \<longrightarrow> save_video_to_backup t m a = m a)"
proof -
  have u: "unat (4096 :: u32) = 4096" by simp
  note safe = backup_pages_safe [OF assms(1,2)]
  have "restore_backup_to_video t m' (VIDEO_MEM + of_nat i) = m (VIDEO_MEM + of_nat i)" if "i < 4096" for i
    using mcpy.save_restore [of "backup_page t" VIDEO_MEM 4096 m' m i] safe assms(3) that
    by (simp add: save_video_to_backup_def restore_backup_to_video_def)
  moreover have "save_video_to_backup t m a = m a" if "\<forall>i < 4096. a \<noteq> backup_page t + of_nat i" for a
    using mcpy.copy_outside [of "backup_page t" VIDEO_MEM 4096 a m] safe that
    by (simp add: save_video_to_backup_def)
  ultimately show ?thesis by blast
qed

lemma save_restore_screen_witness:
  "restore_backup_to_video 1 (save_video_to_backup 1 demo_mem) VIDEO_MEM = demo_mem VIDEO_MEM"
  using save_restore_screen [of 1 "save_video_to_backup 1 demo_mem" demo_mem] by (auto dest: spec [of _ "0::nat"])

end
