(* ===== verification/User_Memory.thy ===== *)
theory User_Memory
  imports Paging
begin

text \<open>
  How kernel code reads and writes the buffers a user program passes: byte by byte through the
  current page tables.  \<open>None\<close> is an access that faults.
\<close>

definition vread :: "kernel \<Rightarrow> addr \<Rightarrow> byte option" where
  "vread k a = map_option (mem k) (translate (pg k) False a)"

fun vstore :: "kernel \<Rightarrow> addr \<Rightarrow> byte list \<Rightarrow> kernel option" where
  "vstore k a [] = Some k"
| "vstore k a (b # bs) =
     Option.bind (translate (pg k) False a) (\<lambda>p. vstore (k\<lparr>mem := (mem k)(p := b)\<rparr>) (a + 1) bs)"

fun vread_bytes :: "kernel \<Rightarrow> addr \<Rightarrow> nat \<Rightarrow> byte list option" where
  "vread_bytes k a 0 = Some []"
| "vread_bytes k a (Suc n) =
     Option.bind (vread k a) (\<lambda>b. map_option ((#) b) (vread_bytes k (a + 1) n))"

text \<open>The bytes of a string up to and including the first one in \<open>stop\<close>.\<close>

partial_function (option) fetch_str :: "(byte \<Rightarrow> bool) \<Rightarrow> kernel \<Rightarrow> addr \<Rightarrow> byte list \<Rightarrow> byte list option" where
  "fetch_str stop k a acc =
     Option.bind (vread k a) (\<lambda>b. if stop b then Some (acc @ [b]) else fetch_str stop k (a + 1) (acc @ [b]))"

section \<open>Mapped buffers\<close>

text \<open>\<open>linear k a pa n\<close>: the \<open>n\<close> bytes at \<open>a\<close> are mapped one after the other from \<open>pa\<close> on.\<close>

definition linear :: "kernel \<Rightarrow> addr \<Rightarrow> addr \<Rightarrow> nat \<Rightarrow> bool" where
  "linear k a pa n \<longleftrightarrow> (\<forall>i<n. translate (pg k) False (a + of_nat i) = Some (pa + of_nat i))"

lemma linear_Suc:
  assumes "linear k a pa (Suc n)"
  shows "translate (pg k) False a = Some pa" and "linear k (a + 1) (pa + 1) n"
proof -
  show "translate (pg k) False a = Some pa" using assms by (auto simp: linear_def dest: spec [of _ 0])
  have "translate (pg k) False (a + 1 + of_nat i) = Some (pa + 1 + of_nat i)" if "i < n" for i
    using assms [unfolded linear_def, rule_format, of "Suc i"] that by (simp add: add.assoc)
  then show "linear k (a + 1) (pa + 1) n" by (simp add: linear_def)
qed

lemma linear_mem [simp]: "linear (k\<lparr>mem := m\<rparr>) a pa n = linear k a pa n"
  by (simp add: linear_def)

lemma vstore_linear:
  "linear k a pa (length bs) \<Longrightarrow> vstore k a bs = Some (k\<lparr>mem := store_bytes (mem k) pa bs\<rparr>)"
proof (induction bs arbitrary: k a pa)
  case Nil
  show ?case by simp
next
  case (Cons b bs)
  from linear_Suc [of k a pa "length bs"] Cons.prems
  have "translate (pg k) False a = Some pa" "linear k (a + 1) (pa + 1) (length bs)" by simp_all
  with Cons.IH [of "k\<lparr>mem := (mem k)(pa := b)\<rparr>" "a + 1" "pa + 1"] show ?case
    by (simp del: fun_upd_apply)
qed

lemma vread_bytes_linear:
  "linear k a pa n \<Longrightarrow> vread_bytes k a n = Some (bytes_at (mem k) pa n)"
proof (induction n arbitrary: a pa)
  case 0
  show ?case by (simp add: bytes_at_def)
next
  case (Suc n)
  note l = linear_Suc [OF Suc.prems]
  have "bytes_at (mem k) pa (Suc n) = mem k pa # bytes_at (mem k) (pa + 1) n"
    by (simp add: bytes_at_def at_def upt_conv_Cons add.assoc del: upt_Suc flip: map_Suc_upt)
  then show ?case using Suc.IH [OF l(2)] l(1) by (simp add: vread_def)
qed

text \<open>A buffer inside the 128 MB window of process \<open>n\<close>.\<close>

lemma window_linear:
  assumes "paging_inv p" and "pg k = setup_paging n p" and "0 \<le> n" and "n < 6"
    and "unat a div 4194304 = 32" and "unat a mod 4194304 + len \<le> 4194304"
  shows "linear k a (of_nat (0x800000 + 0x400000 * nat n + unat a mod 0x400000)) len"
  unfolding linear_def
proof (intro allI impI)
  fix i
  assume i: "i < len"
  let ?b = "0x800000 + 0x400000 * nat n + unat a mod 0x400000"
  have d: "unat a = 32 * 4194304 + unat a mod 4194304" using assms(5) div_mult_mod_eq [of "unat a" 4194304] by simp
  then have "unat a + i < 4294967296" using i assms(6) by linarith
  then have u: "unat (a + of_nat i) = unat a + i" by (rule unat_plus_of_nat)
  have i2: "unat a mod 4194304 + i < 4194304" using i assms(6) by linarith
  moreover have "unat a + i = 32 * 4194304 + (unat a mod 4194304 + i)" using d by simp
  ultimately have "(unat a + i) div 4194304 = 32" "(unat a + i) mod 4194304 = unat a mod 4194304 + i"
    by (simp_all only: div_mult_self3 mod_mult_self3 div_less mod_less)
  then have "unat (a + of_nat i) div 4194304 = 32" "unat (a + of_nat i) mod 4194304 = unat a mod 4194304 + i"
    by (simp_all add: u)
  then obtain pa where pa: "translate (setup_paging n p) False (a + of_nat i) = Some pa" "unat pa = ?b + i"
    using program_window [OF assms(1,3,4), of "a + of_nat i" False] by auto
  have nn: "nat n \<le> 5" using assms(4) by simp
  have "?b + i < 4294967296" using i2 nn by linarith
  then have "unat (of_nat (?b + i) :: u32) = ?b + i" by (rule unat_of_nat_u32)
  with pa(2) have "unat pa = unat (of_nat (?b + i) :: u32)" by simp
  then have "pa = of_nat (?b + i)" by (simp only: word_unat_eq_iff)
  then show "translate (pg k) False (a + of_nat i) = Some (of_nat ?b + of_nat i)"
    using pa(1) assms(2) by simp
qed

end
