(* ===== verification/I8259.thy ===== *)
theory I8259
  imports Kernel_State
begin

text \<open>
  The interrupt controller driver \<open>i8259.c\<close>: initialisation of both PICs, masking and
  unmasking of a line, and the specific end-of-interrupt commands.  The model is the two mask
  variables and the exact sequence of port writes.
\<close>

definition MASTER_8259_PORT :: u16 where "MASTER_8259_PORT = 0x20"
definition SLAVE_8259_PORT :: u16 where "SLAVE_8259_PORT = 0xA0"
definition ICW1 :: byte where "ICW1 = 0x11"
definition ICW2_MASTER :: byte where "ICW2_MASTER = 0x20"
definition ICW2_SLAVE :: byte where "ICW2_SLAVE = 0x28"
definition ICW3_MASTER :: byte where "ICW3_MASTER = 0x04"
definition ICW3_SLAVE :: byte where "ICW3_SLAVE = 0x02"
definition ICW4 :: byte where "ICW4 = 0x01"
definition EOI :: byte where "EOI = 0x60"

lemmas [const_defs] = MASTER_8259_PORT_def SLAVE_8259_PORT_def ICW1_def ICW2_MASTER_def
  ICW2_SLAVE_def ICW3_MASTER_def ICW3_SLAVE_def ICW4_def EOI_def

definition i8259_init :: "kernel \<Rightarrow> kernel" where
  "i8259_init k =
     (let k = outb 0xFF (MASTER_8259_PORT + 1) k;
          k = outb 0xFF (SLAVE_8259_PORT + 1) k;
          k = outb ICW1 MASTER_8259_PORT k;
          k = outb ICW2_MASTER (MASTER_8259_PORT + 1) k;
          k = outb ICW3_MASTER (MASTER_8259_PORT + 1) k;
          k = outb ICW4 (MASTER_8259_PORT + 1) k;
          k = outb ICW1 SLAVE_8259_PORT k;
          k = outb ICW2_SLAVE (SLAVE_8259_PORT + 1) k;
          k = outb ICW3_SLAVE (SLAVE_8259_PORT + 1) k;
          k = outb ICW4 (SLAVE_8259_PORT + 1) k;
          k = outb (master_mask k) (MASTER_8259_PORT + 1) k
      in outb (slave_mask k) (SLAVE_8259_PORT + 1) k)"

definition enable_irq :: "u32 \<Rightarrow> kernel \<Rightarrow> kernel" where
  "enable_irq irq_num k =
     (if irq_num \<le> 7
      then let k = k\<lparr>master_mask := master_mask k AND NOT (push_bit (unat irq_num) 1)\<rparr>
           in outb (master_mask k) (MASTER_8259_PORT + 1) k
      else if irq_num \<ge> 8 \<and> irq_num \<le> 15
      then let k = k\<lparr>master_mask := master_mask k AND NOT (push_bit 2 1)\<rparr>;
               k = k\<lparr>slave_mask := slave_mask k AND NOT (push_bit (unat (irq_num - 8)) 1)\<rparr>;
               k = outb (master_mask k) (MASTER_8259_PORT + 1) k
           in outb (slave_mask k) (SLAVE_8259_PORT + 1) k
      else k)"

definition disable_irq :: "u32 \<Rightarrow> kernel \<Rightarrow> kernel" where
  "disable_irq irq_num k =
     (if irq_num \<le> 7
      then let k = k\<lparr>master_mask := master_mask k OR push_bit (unat irq_num) 1\<rparr>
           in outb (master_mask k) (MASTER_8259_PORT + 1) k
      else if irq_num \<ge> 8 \<and> irq_num \<le> 15
      then let k = k\<lparr>slave_mask := slave_mask k OR push_bit (unat (irq_num - 8)) 1\<rparr>
           in outb (slave_mask k) (SLAVE_8259_PORT + 1) k
      else k)"

definition send_eoi :: "u32 \<Rightarrow> kernel \<Rightarrow> kernel" where
  "send_eoi irq_num k =
     (let k = (if irq_num \<le> 7 then outb (EOI OR ucast irq_num) MASTER_8259_PORT k else k)
      in if irq_num \<ge> 8 \<and> irq_num \<le> 15
         then outb (EOI OR ucast (irq_num - 8)) SLAVE_8259_PORT (outb (EOI OR 0x02) MASTER_8259_PORT k)
         else k)"

section \<open>Which lines are open\<close>

text \<open>A line is open when its mask bit is clear and, for the slave, line 2 of the master is too.\<close>

definition irq_enabled :: "kernel \<Rightarrow> nat \<Rightarrow> bool" where
  "irq_enabled k n =
     (if n \<le> 7 then \<not> bit (master_mask k) n
      else n \<le> 15 \<and> \<not> bit (master_mask k) 2 \<and> \<not> bit (slave_mask k) (n - 8))"

lemma outb_masks [simp]: "master_mask (outb d p k) = master_mask k" "slave_mask (outb d p k) = slave_mask k"
  by (simp_all add: outb_def)

lemma send_eoi_simps [simp]:
  "mem (send_eoi n k) = mem k" "terminals (send_eoi n k) = terminals k"
  "active_term_idx (send_eoi n k) = active_term_idx k" "cur_term_id (send_eoi n k) = cur_term_id k"
  "tm (send_eoi n k) i = tm k i"
  by (simp_all add: send_eoi_def Let_def)

lemma u32_ranges:
  "(irq :: u32) \<le> 7 \<longleftrightarrow> unat irq \<le> 7" "irq \<ge> 8 \<longleftrightarrow> 8 \<le> unat irq" "irq \<le> 15 \<longleftrightarrow> unat irq \<le> 15"
  by (simp_all add: word_le_nat_alt)

lemma send_eoi_frame [simp]:
  "core (send_eoi i k) = core k" "mem (send_eoi i k) = mem k" "terminals (send_eoi i k) = terminals k"
  "tm (send_eoi i k) j = tm k j"
  by (simp_all add: send_eoi_def Let_def)

section \<open>Properties\<close>

text \<open>\<open>enable_irq\<close> opens the line it names, opening the cascade line 2 for a slave line,
  and closes none; \<open>disable_irq\<close> closes exactly the line it names (line 2 stands for the whole
  slave) and opens none.\<close>

lemma irq_masking_correct:
  assumes "unat irq \<le> 15" and "n \<le> 15"
  shows "irq_enabled (enable_irq irq k) (unat irq)
    \<and> (irq_enabled k n \<longrightarrow> irq_enabled (enable_irq irq k) n)
    \<and> (irq_enabled (disable_irq irq k) n \<longleftrightarrow>
        irq_enabled k n \<and> n \<noteq> unat irq \<and> \<not> (unat irq = 2 \<and> 8 \<le> n))"
proof -
  have d: "unat (irq - 8) = unat irq - 8" if "8 \<le> unat irq"
    using that by (subst unat_sub) (simp_all add: word_le_nat_alt)
  have "irq_enabled (enable_irq irq k) (unat irq)"
    using assms d by (auto simp: irq_enabled_def enable_irq_def Let_def u32_ranges bit_simps)
  moreover have "irq_enabled k n \<longrightarrow> irq_enabled (enable_irq irq k) n"
    using assms d by (auto simp: irq_enabled_def enable_irq_def Let_def u32_ranges bit_simps)
  moreover have "irq_enabled (disable_irq irq k) n \<longleftrightarrow>
      irq_enabled k n \<and> n \<noteq> unat irq \<and> \<not> (unat irq = 2 \<and> 8 \<le> n)"
    using assms d by (auto simp: irq_enabled_def disable_irq_def Let_def u32_ranges bit_simps)
  ultimately show ?thesis by blast
qed

lemma irq_masking_correct_witness:
  "irq_enabled (enable_irq 8 demo_kernel) 8 \<and> \<not> irq_enabled demo_kernel 8
   \<and> \<not> irq_enabled (disable_irq 1 (enable_irq 1 demo_kernel)) 1"
  using irq_masking_correct [of 8 8 demo_kernel] irq_masking_correct [of 1 1 "enable_irq 1 demo_kernel"]
  by (simp add: irq_enabled_def demo_kernel_def start_kernel_def bit_numeral_rec)

text \<open>\<open>send_eoi\<close> acknowledges the line it names: one specific EOI to the master for lines
  0 to 7; for lines 8 to 15 first the cascade line to the master, then the slave's own line;
  nothing for any other number.\<close>

lemma send_eoi_writes:
  "io (send_eoi irq k) =
     (if unat irq \<le> 7 then [(0x20, 0x60 OR ucast irq)]
      else if unat irq \<le> 15 then [(0xA0, 0x60 OR ucast (irq - 8)), (0x20, 0x62)]
      else []) @ io k"
  by (simp add: send_eoi_def Let_def const_defs u32_ranges)

end
