(* ===== verification/Keyboard.thy ===== *)
theory Keyboard
  imports I8259 Paging
begin

text \<open>
  The keyboard driver and the terminal, \<open>keyboard.c\<close>, with \<open>switch_terminal\<close> of
  \<open>scheduling.c\<close>: translation of scancodes, the modifier flags, the line buffer of the
  displayed terminal and its echo, switching the displayed terminal, and the terminal's file
  operations.  A \<open>char\<close> is a \<open>byte\<close> (the codes -1, \<open>CTRL_L\<close> and \<open>CTRL_C\<close> are the
  bytes of the negative values).  \<open>None\<close> as the result of a handler would be a \<open>printf\<close>
  that never ends; it is shown never to happen.
\<close>

section \<open>Constants\<close>

definition KEYBOARD_PIC :: u32 where "KEYBOARD_PIC = 1"
definition NUM_SCANCODE :: byte where "NUM_SCANCODE = 0x3A"
definition NEW_LINE :: byte where "NEW_LINE = 0x0A"
definition CTRL_L :: byte where "CTRL_L = -2"
definition CAPS_PRESS :: byte where "CAPS_PRESS = 0x3A"
definition L_SHIFT_PRESS :: byte where "L_SHIFT_PRESS = 0x2A"
definition L_SHIFT_RELEASE :: byte where "L_SHIFT_RELEASE = 0xAA"
definition CTRL_PRESS :: byte where "CTRL_PRESS = 0x1D"
definition CTRL_RELEASE :: byte where "CTRL_RELEASE = 0x9D"
definition R_SHIFT_PRESS :: byte where "R_SHIFT_PRESS = 0x36"
definition R_SHIFT_RELEASE :: byte where "R_SHIFT_RELEASE = 0xB6"
definition ENTER_PRESS :: byte where "ENTER_PRESS = 0x1C"
definition BACKSPACE :: byte where "BACKSPACE = 0x0E"
definition TAB :: byte where "TAB = 0x0F"
definition TAB_SPACE :: nat where "TAB_SPACE = 4"
definition ALT_PRESS :: byte where "ALT_PRESS = 0x38"
definition ALT_RELEASE :: byte where "ALT_RELEASE = 0xB8"
definition F1_PRESS :: byte where "F1_PRESS = 0x3B"
definition F2_PRESS :: byte where "F2_PRESS = 0x3C"
definition F3_PRESS :: byte where "F3_PRESS = 0x3D"

lemmas key_codes = KEYBOARD_PIC_def NUM_SCANCODE_def NEW_LINE_def CTRL_L_def CAPS_PRESS_def L_SHIFT_PRESS_def
  L_SHIFT_RELEASE_def CTRL_PRESS_def CTRL_RELEASE_def R_SHIFT_PRESS_def R_SHIFT_RELEASE_def
  ENTER_PRESS_def BACKSPACE_def TAB_def TAB_SPACE_def ALT_PRESS_def ALT_RELEASE_def F1_PRESS_def
  F2_PRESS_def F3_PRESS_def

text \<open>The three key tables: plain, capitals, shifted.\<close>

definition scancode_set_1 :: "byte list" where
  "scancode_set_1 = [0, 0] @ chars ''1234567890'' @ chars ''-='' @ [0, 0] @ chars ''qwertyuiop[]''
     @ [0, 0] @ chars ''asdfghjkl;'' @ [0x27, 0x60, 0, 0x5C] @ chars ''zxcvbnm,./'' @ [0, 0, 0, 0x20]"

definition scancode_set_2 :: "byte list" where
  "scancode_set_2 = [0, 0] @ chars ''1234567890'' @ chars ''-='' @ [0, 0] @ chars ''QWERTYUIOP[]''
     @ [0, 0] @ chars ''ASDFGHJKL;'' @ [0x27, 0x60, 0, 0x5C] @ chars ''ZXCVBNM,./'' @ [0, 0, 0, 0x20]"

definition scancode_set_3 :: "byte list" where
  "scancode_set_3 = [0, 0] @ chars ''!@#$%^&*()'' @ chars ''_+'' @ [0, 0] @ chars ''QWERTYUIOP{}''
     @ [0, 0] @ chars ''ASDFGHJKL:'' @ [0x22, 0x7E, 0, 0x7C] @ chars ''ZXCVBNM<>?'' @ [0, 0, 0, 0x20]"

lemmas key_tables = scancode_set_1_def scancode_set_2_def scancode_set_3_def

section \<open>Operations\<close>

text \<open>\<open>terminal0\<close> of the source is the displayed terminal.\<close>

abbreviation terminal0 :: "kernel \<Rightarrow> terminal" where
  "terminal0 k \<equiv> tm k (active_term_idx k)"

abbreviation upd_terminal0 :: "(terminal \<Rightarrow> terminal) \<Rightarrow> kernel \<Rightarrow> kernel" where
  "upd_terminal0 f k \<equiv> upd_tm (active_term_idx k) f k"

definition switch_terminal :: "int \<Rightarrow> int \<Rightarrow> kernel \<Rightarrow> kernel" where
  "switch_terminal prev_id term_id k =
     (let k = k\<lparr>mem := save_video_to_backup prev_id (mem k)\<rparr>;
          k = k\<lparr>mem := restore_backup_to_video term_id (mem k)\<rparr>;
          k = k\<lparr>active_term_idx := term_id\<rparr>
      in update_cursor (cursor_x (terminal0 k)) (cursor_y (terminal0 k)) k)"

text \<open>The modifier keys, the first part of \<open>scancode_handler\<close>.\<close>

definition scancode_flags :: "byte \<Rightarrow> kernel \<Rightarrow> kernel" where
  "scancode_flags scancode k =
     (let k = k\<lparr>CAPS_FLAG := (if scancode = CAPS_PRESS then \<not> CAPS_FLAG k else CAPS_FLAG k)\<rparr>;
          k = k\<lparr>L_SHIFT_FLAG := (if scancode = L_SHIFT_PRESS then True else L_SHIFT_FLAG k)\<rparr>;
          k = k\<lparr>R_SHIFT_FLAG := (if scancode = R_SHIFT_PRESS then True else R_SHIFT_FLAG k)\<rparr>;
          k = k\<lparr>L_SHIFT_FLAG := (if scancode = L_SHIFT_RELEASE then False else L_SHIFT_FLAG k)\<rparr>;
          k = k\<lparr>R_SHIFT_FLAG := (if scancode = R_SHIFT_RELEASE then False else R_SHIFT_FLAG k)\<rparr>;
          k = k\<lparr>SHIFT_FLAG := L_SHIFT_FLAG k \<or> R_SHIFT_FLAG k\<rparr>;
          k = k\<lparr>CTRL_FLAG := (if scancode = CTRL_PRESS then True else CTRL_FLAG k)\<rparr>;
          k = k\<lparr>CTRL_FLAG := (if scancode = CTRL_RELEASE then False else CTRL_FLAG k)\<rparr>;
          k = k\<lparr>ALT_FLAG := (if scancode = ALT_PRESS then True else ALT_FLAG k)\<rparr>
      in k\<lparr>ALT_FLAG := (if scancode = ALT_RELEASE then False else ALT_FLAG k)\<rparr>)"

text \<open>The table look-up at its end.\<close>

definition scancode_char :: "byte \<Rightarrow> kernel \<Rightarrow> byte" where
  "scancode_char scancode k =
     (if scancode = ENTER_PRESS then NEW_LINE
      else if scancode = TAB then TAB
      else if scancode < NUM_SCANCODE \<and> \<not> CAPS_FLAG k \<and> \<not> SHIFT_FLAG k
      then let character = scancode_set_1 ! unat scancode in if character = 0 then -1 else character
      else if scancode < NUM_SCANCODE \<and> CAPS_FLAG k \<and> \<not> SHIFT_FLAG k
      then let character = scancode_set_2 ! unat scancode in if character = 0 then -1 else character
      else if scancode < NUM_SCANCODE \<and> SHIFT_FLAG k
      then let character = scancode_set_3 ! unat scancode in if character = 0 then -1 else character
      else -1)"

definition scancode_handler :: "byte \<Rightarrow> kernel \<Rightarrow> byte \<times> kernel" where
  "scancode_handler scancode k =
     (let k = scancode_flags scancode k
      in if scancode = F1_PRESS then (F1_PRESS, k)
         else if scancode = F2_PRESS then (F2_PRESS, k)
         else if scancode = F3_PRESS then (F3_PRESS, k)
         else if CTRL_FLAG k \<and> scancode = 0x26 then (CTRL_L, clear k)
         else if scancode = BACKSPACE \<and> TERMINAL_READ_FLAG (terminal0 k) \<noteq> 0 \<and> buf_index (terminal0 k) = 0
         then (-1, k)
         else let k = (if scancode = BACKSPACE
                       then backspace (if TERMINAL_READ_FLAG (terminal0 k) \<noteq> 0
                              then upd_terminal0 (\<lambda>t. t\<lparr>buf_index := buf_index t - 1\<rparr>) k else k)
                       else k)
              in (scancode_char scancode k, k))"

text \<open>\<open>printf_direct("%c", c)\<close>.\<close>

definition echo :: "byte \<Rightarrow> kernel \<Rightarrow> kernel option" where
  "echo c k = map_option snd (printf_direct (of_bytes (chars ''%c'' @ [0])) (\<lambda>_. scast c) k)"

definition put_key :: "byte \<Rightarrow> terminal \<Rightarrow> terminal" where
  "put_key c t = t\<lparr>keyboard_buf := (keyboard_buf t)[nat (buf_index t) := c]\<rparr>"

fun tab_fill :: "nat \<Rightarrow> kernel \<Rightarrow> kernel option" where
  "tab_fill 0 k = Some k"
| "tab_fill (Suc n) k =
     (if buf_index (terminal0 k) < KB_BUF_SIZE - 1
      then let k = upd_terminal0 (put_key 0x20) k;
               k = upd_terminal0 (\<lambda>t. t\<lparr>buf_index := buf_index t + 1\<rparr>) k
           in Option.bind (echo 0x20 k) (tab_fill n)
      else Some k)"

fun tab_echo :: "nat \<Rightarrow> kernel \<Rightarrow> kernel option" where
  "tab_echo 0 k = Some k"
| "tab_echo (Suc n) k = Option.bind (echo 0x20 k) (tab_echo n)"

text \<open>The part of \<open>keyboard_handler\<close> after the call of \<open>scancode_handler\<close>.\<close>

definition key_action :: "byte \<Rightarrow> kernel \<Rightarrow> kernel option" where
  "key_action ascii_char k =
     (if ascii_char = -1 then Some (send_eoi KEYBOARD_PIC k)
      else if ascii_char = F1_PRESS \<or> ascii_char = F2_PRESS \<or> ascii_char = F3_PRESS
      then if ALT_FLAG k
           then let prev_term_idx = active_term_idx k;
                    k = (if ascii_char = F1_PRESS \<and> active_term_idx k \<noteq> 0 then k\<lparr>active_term_idx := 0\<rparr>
                         else if ascii_char = F2_PRESS \<and> active_term_idx k \<noteq> 1 then k\<lparr>active_term_idx := 1\<rparr>
                         else if ascii_char = F3_PRESS \<and> active_term_idx k \<noteq> 2 then k\<lparr>active_term_idx := 2\<rparr>
                         else k);
                    k = switch_terminal prev_term_idx (active_term_idx k) k
                in Some (send_eoi KEYBOARD_PIC k)
           else Some (send_eoi KEYBOARD_PIC k)
      else if TERMINAL_READ_FLAG (terminal0 k) \<noteq> 0
      then if ascii_char = CTRL_L
           then Some (send_eoi KEYBOARD_PIC (upd_terminal0 (\<lambda>t. t\<lparr>buf_index := 0\<rparr>) k))
           else if ascii_char = NEW_LINE
           then let k = upd_terminal0 (\<lambda>t. t\<lparr>TERMINAL_READ_FLAG := 0\<rparr>) k;
                    k = upd_terminal0 (put_key ascii_char) k
                in map_option (\<lambda>k. send_eoi KEYBOARD_PIC
                                (upd_terminal0 (\<lambda>t. t\<lparr>buf_index := buf_index t + 1\<rparr>) k))
                     (echo ascii_char k)
           else Option.bind (if ascii_char = TAB then tab_fill TAB_SPACE k else Some k) (\<lambda>k.
                map_option (send_eoi KEYBOARD_PIC)
                  (if buf_index (terminal0 k) < KB_BUF_SIZE - 1 \<and> ascii_char \<noteq> TAB
                   then let k = upd_terminal0 (put_key ascii_char) k;
                            k = upd_terminal0 (\<lambda>t. t\<lparr>buf_index := buf_index t + 1\<rparr>) k
                        in echo ascii_char k
                   else Some k))
      else if ascii_char = CTRL_L then Some (send_eoi KEYBOARD_PIC k)
      else Option.bind (if ascii_char = TAB then tab_echo TAB_SPACE k else Some k) (\<lambda>k.
           map_option (send_eoi KEYBOARD_PIC)
             (if ascii_char \<noteq> TAB then echo ascii_char k else Some k)))"

text \<open>\<open>scancode\<close> is the byte read from the data port.\<close>

definition keyboard_handler :: "byte \<Rightarrow> kernel \<Rightarrow> kernel option" where
  "keyboard_handler scancode k =
     (let (ascii_char, k) = scancode_handler scancode k in key_action ascii_char k)"

section \<open>What the parts of the handler do\<close>

lemma echo_eq: "echo c k = Some (putc_direct c k)"
proof -
  have "(ucast (scast c :: u32) :: byte) = c"
    by (rule bit_word_eqI) (auto simp: bit_simps)
  moreover have "found (of_bytes (chars ''%c'' @ [0])) 0 (concat (map item_fmt [Chr (scast c)]) @ [0])"
    by (simp add: of_bytes_def chars_def)
  ultimately show ?thesis
    using pd.printf_items [of "[Chr (scast c)]" "of_bytes (chars ''%c'' @ [0])" 0 "\<lambda>_. scast c" 0 k]
    by (simp add: echo_def printf_direct_def)
qed

text \<open>The line editing state of a terminal, and what only changes the rest.\<close>

definition kbd :: "terminal \<Rightarrow> int \<times> int \<times> byte list" where
  "kbd t = (TERMINAL_READ_FLAG t, buf_index t, keyboard_buf t)"

definition kbd_term_ok :: "terminal \<Rightarrow> bool" where
  "kbd_term_ok t \<longleftrightarrow> length (keyboard_buf t) = 128 \<and> 0 \<le> buf_index t \<and> buf_index t \<le> 128
     \<and> (TERMINAL_READ_FLAG t \<noteq> 0 \<longrightarrow> buf_index t \<le> 127)"

definition kbd_ok :: "kernel \<Rightarrow> bool" where
  "kbd_ok k \<longleftrightarrow> console_ok k \<and> (\<forall>t \<in> set (terminals k). kbd_term_ok t)"

lemma kbd_term_ok_cong: "kbd t = kbd t' \<Longrightarrow> kbd_term_ok t = kbd_term_ok t'"
  by (simp add: kbd_def kbd_term_ok_def)

lemma kbd_core: "term_core t = term_core t' \<Longrightarrow> kbd t = kbd t'"
  using term_core_fields [of t t'] by (simp add: kbd_def)

lemma kbd_ok_core:
  assumes "core k = core k'" and "kbd_ok k'" and "console_ok k"
  shows "kbd_ok k"
proof -
  have "kbd_term_ok (terminals k ! i)" if i: "i < length (terminals k)" for i
  proof -
    have "kbd (tm k (int i)) = kbd (tm k' (int i))" using core_tm [OF assms(1), of "int i"] i by (intro kbd_core) simp
    moreover have "kbd_term_ok (terminals k' ! i)"
      using assms(2) i core_fields(14) [OF assms(1)] by (simp add: kbd_ok_def)
    ultimately show ?thesis using kbd_term_ok_cong [of "tm k (int i)" "tm k' (int i)"] by (simp add: tm_def)
  qed
  then show ?thesis using assms(3) by (auto simp: kbd_ok_def in_set_conv_nth)
qed

lemma kbd_ok_console [dest]: "kbd_ok k \<Longrightarrow> console_ok k"
  by (simp add: kbd_ok_def)

lemma kbd_ok_tm: "kbd_ok k \<Longrightarrow> 0 \<le> i \<Longrightarrow> i < 3 \<Longrightarrow> kbd_term_ok (tm k i)"
  by (simp add: kbd_ok_def tm_def console_ok_def)

lemma kbd_ok_upd_tm:
  assumes "kbd_ok k" and "kbd_term_ok (f (tm k i))" and "cursor_x (f (tm k i)) = cursor_x (tm k i)"
    and "cursor_y (f (tm k i)) = cursor_y (tm k i)" and "0 \<le> i" and "i < 3"
  shows "kbd_ok (upd_tm i f k)"
proof -
  have "cursor_ok (f (tm k i))"
    using console_ok_tm [of k i] assms by (auto simp: cursor_ok_def)
  then have "console_ok (upd_tm i f k)" using assms(1) by (auto intro: console_ok_upd_tm)
  then show ?thesis using assms(1,2)
    by (auto simp: kbd_ok_def upd_tm_def dest: set_update_subset_insert [THEN subsetD])
qed

lemma kbd_ok_putc_direct: "kbd_ok k \<Longrightarrow> kbd_ok (putc_direct c k)"
  by (rule kbd_ok_core) (auto simp: putc_direct_laws)

text \<open>\<open>clear\<close> and \<open>backspace\<close> keep the cursors on the page.\<close>

lemma console_ok_clear: "console_ok k \<Longrightarrow> console_ok (clear k)"
  by (simp add: clear_def Let_def console_ok_upd_tm cursor_ok_def const_defs)

lemma console_ok_backspace:
  assumes "console_ok k"
  shows "console_ok (backspace k)"
proof -
  note ids = console_ok_ids [OF assms]
  note c = console_ok_cursor [OF assms, of "active_term_idx k"]
  define x where "x = cursor_x (tm k (active_term_idx k))"
  define y where "y = cursor_y (tm k (active_term_idx k))"
  have v: "nat (active_term_idx k) < length (terminals k)" using assms by (auto simp: console_ok_def)
  show ?thesis
  proof (cases "80 * y + x = 0")
    case True
    then show ?thesis using assms by (simp add: backspace_def Let_def NUM_COLS_def x_def y_def)
  next
    case False
    define m where "m = (mem k)(cell VIDEO_MEM (80 * y + x - 1) := 0, cell VIDEO_MEM (80 * y + x - 1) + 1 := ATTRIB)"
    define off where "off = backspace_skip m (80 * y + x - 2) + 1"
    have "0 \<le> 80 * y + x" "80 * y + x < 2000" using c ids by (simp_all add: x_def y_def)
    then have off: "0 \<le> off" "off < 2000"
      using backspace_skip_bounds [of "80 * y + x - 2" m] False by (auto simp: off_def)
    have eq: "backspace k = update_cursor (off mod 80) (off div 80)
      (upd_tm (active_term_idx k) (set_cursor (off mod 80, off div 80)) (k\<lparr>mem := m\<rparr>))"
      by (rule backspace_eq [OF x_def y_def False m_def off_def v])
    have "cursor_ok (set_cursor (off mod 80, off div 80) t)" for t
      using off by (auto simp: cursor_ok_def const_defs)
    then show ?thesis unfolding eq using assms by (simp add: console_ok_upd_tm)
  qed
qed

lemma kbd_ok_clear: "kbd_ok k \<Longrightarrow> kbd_ok (clear k)"
  by (rule kbd_ok_core) (auto simp: console_ok_clear)

lemma kbd_ok_backspace: "kbd_ok k \<Longrightarrow> kbd_ok (backspace k)"
  by (rule kbd_ok_core) (auto simp: console_ok_backspace)

lemma kbd_ok_frame:
  "terminals k = terminals k' \<Longrightarrow> active_term_idx k = active_term_idx k' \<Longrightarrow> cur_term_id k = cur_term_id k' \<Longrightarrow>
    kbd_ok k = kbd_ok k'"
  by (simp add: kbd_ok_def console_ok_def)

lemma kbd_ok_send_eoi [simp]: "kbd_ok (send_eoi i k) = kbd_ok k"
  using core_fields [of "send_eoi i k" k] by (intro kbd_ok_frame) simp_all

lemma scancode_flags_frame [simp]:
  "mem (scancode_flags s k) = mem k" "terminals (scancode_flags s k) = terminals k"
  "active_term_idx (scancode_flags s k) = active_term_idx k" "cur_term_id (scancode_flags s k) = cur_term_id k"
  "tm (scancode_flags s k) j = tm k j" "io (scancode_flags s k) = io k" "pcbs (scancode_flags s k) = pcbs k"
  "kbd_ok (scancode_flags s k) = kbd_ok k"
  by (simp_all add: scancode_flags_def Let_def tm_def kbd_ok_def console_ok_def)

section \<open>The line discipline\<close>

text \<open>
  What the driver is for, without buffers and screens: a key stroke edits the current line.  A
  line holds at most 127 characters before the newline; a terminal nobody reads from ignores
  the keys.
\<close>

datatype key = KChar byte | KTab | KBack | KEnter | KClear | KOther

fun line_edit :: "key \<Rightarrow> bool \<times> byte list \<Rightarrow> bool \<times> byte list" where
  "line_edit key (False, l) = (False, l)"
| "line_edit (KChar c) (True, l) = (True, if length l < 127 then l @ [c] else l)"
| "line_edit KTab (True, l) = (True, l @ replicate (min 4 (127 - length l)) 0x20)"
| "line_edit KBack (True, l) = (True, butlast l)"
| "line_edit KEnter (True, l) = (False, l @ [0x0A])"
| "line_edit KClear (True, l) = (True, [])"
| "line_edit KOther (True, l) = (True, l)"

definition line :: "terminal \<Rightarrow> bool \<times> byte list" where
  "line t = (TERMINAL_READ_FLAG t \<noteq> 0, take (nat (buf_index t)) (keyboard_buf t))"

text \<open>The key a scancode stands for, with the modifiers as they are after it.\<close>

definition key_of :: "byte \<Rightarrow> kernel \<Rightarrow> key" where
  "key_of sc k =
     (let f = scancode_flags sc k; c = scancode_char sc f
      in if sc = F1_PRESS \<or> sc = F2_PRESS \<or> sc = F3_PRESS then KOther
         else if CTRL_FLAG f \<and> sc = 0x26 then KClear
         else if sc = BACKSPACE then KBack
         else if sc = ENTER_PRESS then KEnter
         else if sc = TAB then KTab
         else if c = -1 \<or> c = F1_PRESS \<or> c = F2_PRESS \<or> c = F3_PRESS then KOther
         else KChar c)"

lemma line_core: "term_core t = term_core t' \<Longrightarrow> line t = line t'"
  using term_core_fields [of t t'] by (simp add: line_def)

text \<open>\<open>edits k k' f\<close>: the line of the displayed terminal went through \<open>f\<close>, the others are as before.\<close>

definition edits :: "kernel \<Rightarrow> kernel \<Rightarrow> (bool \<times> byte list \<Rightarrow> bool \<times> byte list) \<Rightarrow> bool" where
  "edits k k' f \<longleftrightarrow> kbd_ok k' \<and> active_term_idx k' = active_term_idx k \<and> cur_term_id k' = cur_term_id k
     \<and> (\<forall>i. 0 \<le> i \<and> i < 3 \<longrightarrow>
          line (tm k' i) = (if i = active_term_idx k then f (line (tm k i)) else line (tm k i)))"

lemma edits_trans: "edits k k' f \<Longrightarrow> edits k' k'' g \<Longrightarrow> edits k k'' (\<lambda>l. g (f l))"
  by (simp add: edits_def)

lemma edits_core:
  assumes "kbd_ok k" and "core k' = core k" and "console_ok k'"
  shows "edits k k' (\<lambda>l. l)"
proof -
  have "length (terminals k') = 3" using assms(3) by (simp add: console_ok_def)
  then have "line (tm k' i) = line (tm k i)" if "0 \<le> i" "i < 3" for i
    using that by (intro line_core core_tm [OF assms(2)]) auto
  then show ?thesis using assms kbd_ok_core [OF assms(2,1,3)] core_fields [OF assms(2)]
    by (simp add: edits_def)
qed

lemma edits_upd:
  assumes "kbd_ok k" and "t = terminal0 k" and "line (g t) = f (line t)" and "kbd_term_ok (g t)"
    and "cursor_x (g t) = cursor_x t" and "cursor_y (g t) = cursor_y t"
  shows "edits k (upd_terminal0 g k) f"
proof -
  have a: "0 \<le> active_term_idx k" "active_term_idx k < 3" "length (terminals k) = 3"
    using assms(1) by (auto simp: kbd_ok_def console_ok_def)
  then have v: "valid_term k (active_term_idx k)" by auto
  have "kbd_ok (upd_terminal0 g k)" using assms a by (intro kbd_ok_upd_tm) simp_all
  moreover have "line (tm (upd_terminal0 g k) i) = (if i = active_term_idx k then f (line (tm k i)) else line (tm k i))"
    if "0 \<le> i" for i
    using tm_upd_tm [OF v that, of g] assms(2,3) by auto
  ultimately show ?thesis by (simp add: edits_def)
qed

lemma terminal0_ok: "kbd_ok k \<Longrightarrow> kbd_term_ok (terminal0 k)"
  using kbd_ok_tm console_ok_ids by blast

text \<open>The three changes the handler makes to a line.\<close>

lemma line_len: "kbd_term_ok t \<Longrightarrow> length (snd (line t)) = nat (buf_index t)"
  by (auto simp: kbd_term_ok_def line_def min_def)

lemma put_key_line:
  assumes "kbd_term_ok t" and "buf_index t < 128"
  shows "line ((put_key c t)\<lparr>buf_index := buf_index t + 1\<rparr>) = (fst (line t), snd (line t) @ [c])"
proof -
  have n: "nat (buf_index t + 1) = Suc (nat (buf_index t))" "nat (buf_index t) < length (keyboard_buf t)"
    using assms by (auto simp: kbd_term_ok_def)
  then show ?thesis by (simp add: line_def put_key_def take_Suc_conv_app_nth)
qed

lemma edits_put:
  assumes "kbd_ok k" and "buf_index (terminal0 k) < 127"
  shows "edits k (upd_terminal0 (\<lambda>t. t\<lparr>buf_index := buf_index t + 1\<rparr>) (upd_terminal0 (put_key c) k))
    (\<lambda>(r, l). (r, l @ [c]))"
proof -
  let ?t = "terminal0 k"
  have v: "nat (active_term_idx k) < length (terminals k)" using assms(1) by (auto simp: kbd_ok_def console_ok_def)
  have ok: "kbd_term_ok ?t" by (rule terminal0_ok [OF assms(1)])
  have eq: "upd_terminal0 (\<lambda>t. t\<lparr>buf_index := buf_index t + 1\<rparr>) (upd_terminal0 (put_key c) k) =
      upd_terminal0 (\<lambda>t. (put_key c t)\<lparr>buf_index := buf_index t + 1\<rparr>) k"
    using v by (simp add: upd_tm_def tm_def put_key_def)
  have "line ((put_key c ?t)\<lparr>buf_index := buf_index ?t + 1\<rparr>) = (case line ?t of (r, l) \<Rightarrow> (r, l @ [c]))"
    using put_key_line [OF ok, of c] assms(2) by (simp add: case_prod_beta)
  then show ?thesis unfolding eq using assms ok
    by (intro edits_upd [OF assms(1) refl]) (auto simp: put_key_def kbd_term_ok_def)
qed

lemma edits_echo: "edits k k' f \<Longrightarrow> edits k (putc_direct c k') f"
proof -
  assume e: "edits k k' f"
  then have "edits k' (putc_direct c k') (\<lambda>l. l)"
    by (intro edits_core) (auto simp: edits_def putc_direct_laws)
  with e show ?thesis using edits_trans by fastforce
qed

lemma edits_eoi: "edits k k' f \<Longrightarrow> edits k (send_eoi i k') f"
  using core_fields [of "send_eoi i k'" k'] by (simp add: edits_def)

lemma tab_fill_edits:
  "kbd_ok k \<Longrightarrow> fst (line (terminal0 k)) \<Longrightarrow> \<exists>k'. tab_fill n k = Some k' \<and>
    edits k k' (\<lambda>(r, l). (r, l @ replicate (min n (127 - length l)) 0x20))"
proof (induction n arbitrary: k)
  case 0
  then show ?case using edits_core [of k k] by (auto simp: case_prod_beta)
next
  case (Suc n)
  let ?f = "\<lambda>n (r :: bool, l). (r, l @ replicate (min n (127 - length l)) (0x20 :: byte))"
  let ?len = "length (snd (line (terminal0 k)))"
  have ok: "kbd_term_ok (terminal0 k)" by (rule terminal0_ok [OF Suc.prems(1)])
  note len = line_len [OF ok]
  have bound: "0 \<le> buf_index (terminal0 k)" "buf_index (terminal0 k) \<le> 127"
    using ok Suc.prems(2) by (auto simp: kbd_term_ok_def line_def)
  show ?case
  proof (cases "buf_index (terminal0 k) < 127")
    case True
    define k1 where "k1 = putc_direct 0x20
      (upd_terminal0 (\<lambda>t. t\<lparr>buf_index := buf_index t + 1\<rparr>) (upd_terminal0 (put_key 0x20) k))"
    have e1: "edits k k1 (\<lambda>(r, l). (r, l @ [0x20]))"
      unfolding k1_def by (intro edits_echo edits_put Suc.prems(1) True)
    have l1: "line (terminal0 k1) = (fst (line (terminal0 k)), snd (line (terminal0 k)) @ [0x20])"
      using e1 console_ok_ids [OF kbd_ok_console [OF Suc.prems(1)]] by (simp add: edits_def case_prod_beta)
    have "kbd_ok k1" "fst (line (terminal0 k1))" using e1 l1 Suc.prems(2) by (auto simp: edits_def)
    from Suc.IH [OF this] obtain k2 where k2: "tab_fill n k1 = Some k2" "edits k1 k2 (?f n)" by blast
    have "?len < 127" using len True bound by simp
    then have "min (Suc n) (127 - ?len) = Suc (min n (127 - Suc ?len))" by auto
    then have "replicate (min (Suc n) (127 - ?len)) (0x20 :: byte) = 0x20 # replicate (min n (127 - Suc ?len)) 0x20"
      by (simp only: replicate_Suc)
    then have "edits k k2 (?f (Suc n))"
      using edits_trans [OF e1 k2(2)] by (auto simp: edits_def case_prod_beta)
    moreover have "tab_fill (Suc n) k = Some k2"
      using True k2(1) by (simp add: KB_BUF_SIZE_def echo_eq k1_def)
    ultimately show ?thesis by blast
  next
    case False
    then have "?len = 127" using len bound by simp
    then have "edits k k (?f (Suc n))"
      using edits_core [OF Suc.prems(1) refl kbd_ok_console [OF Suc.prems(1)]]
      by (auto simp: edits_def case_prod_beta)
    then show ?thesis using False by (simp add: KB_BUF_SIZE_def)
  qed
qed

section \<open>The handler refines the line discipline\<close>

lemma table_chars:
  assumes "sc < NUM_SCANCODE" and "tab \<in> {scancode_set_1, scancode_set_2, scancode_set_3}"
  shows "tab ! unat sc \<notin> {CTRL_L, NEW_LINE, TAB}" and "unat sc = 14 \<Longrightarrow> tab ! unat sc = 0"
proof -
  have "list_all (\<lambda>c. c \<notin> {CTRL_L, NEW_LINE, TAB}) tab" "length tab = 58" "tab ! 14 = 0"
    using assms(2) by (auto simp: key_tables chars_def key_codes)
  moreover have "unat sc < 58" using assms(1) by (simp add: word_less_nat_alt NUM_SCANCODE_def)
  ultimately show "tab ! unat sc \<notin> {CTRL_L, NEW_LINE, TAB}" "unat sc = 14 \<Longrightarrow> tab ! unat sc = 0"
    by (auto simp: list_all_length)
qed

lemma scancode_char_other:
  assumes "sc \<noteq> ENTER_PRESS" and "sc \<noteq> TAB"
  shows "scancode_char sc k \<notin> {CTRL_L, NEW_LINE, TAB}"
proof -
  have m: "(-1 :: byte) \<notin> {CTRL_L, NEW_LINE, TAB}" by (simp add: key_codes)
  show ?thesis
    using assms m table_chars(1) [of sc scancode_set_1] table_chars(1) [of sc scancode_set_2] table_chars(1) [of sc scancode_set_3]
    unfolding scancode_char_def Let_def by (auto split: if_splits)
qed

lemma scancode_char_backspace: "scancode_char BACKSPACE k = -1"
  using table_chars(2) [of BACKSPACE scancode_set_1] table_chars(2) [of BACKSPACE scancode_set_2]
    table_chars(2) [of BACKSPACE scancode_set_3]
  by (simp add: scancode_char_def key_codes)

lemma edits_read_change:
  assumes "kbd_ok k" and "t = terminal0 k" and "0 \<le> n" and "n \<le> buf_index t"
  shows "edits k (upd_terminal0 (\<lambda>t. t\<lparr>buf_index := n\<rparr>) k) (\<lambda>(r, l). (r, take (nat n) l))"
proof (rule edits_upd [OF assms(1,2)])
  have ok: "kbd_term_ok t" using terminal0_ok [OF assms(1)] assms(2) by simp
  show "line (t\<lparr>buf_index := n\<rparr>) = (case line t of (r, l) \<Rightarrow> (r, take (nat n) l))"
    using assms(3,4) by (simp add: line_def min_absorb1)
  show "kbd_term_ok (t\<lparr>buf_index := n\<rparr>)" using ok assms(3,4) by (auto simp: kbd_term_ok_def)
qed simp_all

text \<open>Handling of the character \<open>c\<close> that \<open>scancode_handler\<close> returned.\<close>

lemma enter_edits:
  assumes "kbd_ok k" and "TERMINAL_READ_FLAG (terminal0 k) \<noteq> 0"
  shows "edits k (upd_terminal0 (\<lambda>t. t\<lparr>buf_index := buf_index t + 1\<rparr>)
    (putc_direct c (upd_terminal0 (put_key c) (upd_terminal0 (\<lambda>t. t\<lparr>TERMINAL_READ_FLAG := 0\<rparr>) k))))
    (\<lambda>(r, l). (False, l @ [c]))"
proof -
  let ?a = "active_term_idx k" and ?t = "terminal0 k"
  define k1 where "k1 = upd_terminal0 (\<lambda>t. put_key c (t\<lparr>TERMINAL_READ_FLAG := 0\<rparr>)) k"
  have v: "nat ?a < length (terminals k)" using assms(1) by (auto simp: kbd_ok_def console_ok_def)
  have ok: "kbd_term_ok ?t" by (rule terminal0_ok [OF assms(1)])
  have b: "0 \<le> buf_index ?t" "buf_index ?t \<le> 127" "length (keyboard_buf ?t) = 128"
    using ok assms(2) by (auto simp: kbd_term_ok_def)
  have e1: "edits k k1 (\<lambda>(r, l). (False, l))"
    unfolding k1_def by (rule edits_upd [OF assms(1) refl])
      (use ok in \<open>auto simp: line_def put_key_def kbd_term_ok_def\<close>)
  define k2 where "k2 = putc_direct c k1"
  have e2: "edits k k2 (\<lambda>(r, l). (False, l))" unfolding k2_def by (rule edits_echo [OF e1])
  have t1: "terminal0 k1 = put_key c (?t\<lparr>TERMINAL_READ_FLAG := 0\<rparr>)"
    using v by (simp add: k1_def upd_tm_merge)
  have a2: "active_term_idx k2 = ?a" using e2 by (simp add: edits_def)
  have len: "nat (active_term_idx k2) < length (terminals k2)"
    using e2 by (auto simp: edits_def kbd_ok_def console_ok_def)
  have "term_core (tm k2 ?a) = term_core (tm k1 ?a)"
    using core_tm [of k2 k1 ?a] len a2 by (simp add: k2_def)
  note t2 = term_core_fields [OF this]
  have a1: "active_term_idx k1 = ?a" by (simp add: k1_def)
  have f: "keyboard_buf (terminal0 k2) = (keyboard_buf ?t)[nat (buf_index ?t) := c]"
    "buf_index (terminal0 k2) = buf_index ?t" "TERMINAL_READ_FLAG (terminal0 k2) = 0"
    using t1 t2 by (simp_all add: a1 a2 put_key_def)
  have n: "nat (buf_index ?t + 1) = Suc (nat (buf_index ?t))" using b by simp
  have l: "line ((terminal0 k2)\<lparr>buf_index := buf_index (terminal0 k2) + 1\<rparr>) = (False, snd (line ?t) @ [c])"
    using f b by (simp add: line_def n take_Suc_conv_app_nth)
  have "edits k2 (upd_terminal0 (\<lambda>t. t\<lparr>buf_index := buf_index t + 1\<rparr>) k2) (\<lambda>_. (False, snd (line ?t) @ [c]))"
    by (rule edits_upd [OF _ refl]) (use e2 l f b in \<open>simp_all add: edits_def kbd_term_ok_def\<close>)
  from edits_trans [OF e2 this]
  have "edits k (upd_terminal0 (\<lambda>t. t\<lparr>buf_index := buf_index t + 1\<rparr>) k2) (\<lambda>(r, l). (False, l @ [c]))"
    using console_ok_ids [OF kbd_ok_console [OF assms(1)]] by (auto simp: edits_def case_prod_beta)
  moreover have "k2 = putc_direct c (upd_terminal0 (put_key c) (upd_terminal0 (\<lambda>t. t\<lparr>TERMINAL_READ_FLAG := 0\<rparr>) k))"
    using v by (simp add: k2_def k1_def upd_tm_def tm_def)
  ultimately show ?thesis by simp
qed

lemma key_distinct [simp]:
  "NEW_LINE \<noteq> -1" "NEW_LINE \<noteq> F1_PRESS" "NEW_LINE \<noteq> F2_PRESS"
  "NEW_LINE \<noteq> F3_PRESS" "NEW_LINE \<noteq> TAB" "NEW_LINE \<noteq> CTRL_L"
  "TAB \<noteq> -1" "TAB \<noteq> F1_PRESS" "TAB \<noteq> F2_PRESS" "TAB \<noteq> F3_PRESS"
  "TAB \<noteq> NEW_LINE" "TAB \<noteq> CTRL_L" "CTRL_L \<noteq> -1" "CTRL_L \<noteq> F1_PRESS"
  "CTRL_L \<noteq> F2_PRESS" "CTRL_L \<noteq> F3_PRESS" "CTRL_L \<noteq> NEW_LINE"
  "CTRL_L \<noteq> TAB" "F1_PRESS \<noteq> -1" "F1_PRESS \<noteq> F2_PRESS"
  "F1_PRESS \<noteq> F3_PRESS" "F2_PRESS \<noteq> -1" "F2_PRESS \<noteq> F1_PRESS"
  "F2_PRESS \<noteq> F3_PRESS" "F3_PRESS \<noteq> -1" "F3_PRESS \<noteq> F1_PRESS"
  "F3_PRESS \<noteq> F2_PRESS"
  by (simp_all add: key_codes)

definition lines_after :: "kernel \<Rightarrow> kernel \<Rightarrow> (bool \<times> byte list \<Rightarrow> bool \<times> byte list) \<Rightarrow> bool" where
  "lines_after k k' f \<longleftrightarrow> kbd_ok k' \<and> (\<forall>i. 0 \<le> i \<and> i < 3 \<longrightarrow>
     line (tm k' i) = (if i = active_term_idx k then f (line (tm k i)) else line (tm k i)))"

lemma lines_after_edits:
  "edits k k' f \<Longrightarrow> f (line (terminal0 k)) = g (line (terminal0 k)) \<Longrightarrow> lines_after k k' g"
  by (auto simp: lines_after_def edits_def)

lemma switch_lines:
  assumes "kbd_ok k" and "0 \<le> n" and "n < 3"
  shows "lines_after k (send_eoi i (switch_terminal p n (k\<lparr>active_term_idx := n\<rparr>))) (\<lambda>l. l)"
proof -
  define k' where "k' = send_eoi i (switch_terminal p n (k\<lparr>active_term_idx := n\<rparr>))"
  have "terminals k' = terminals k" by (simp add: k'_def switch_terminal_def Let_def)
  moreover have "core k' = core (k\<lparr>active_term_idx := n\<rparr>)"
    unfolding k'_def switch_terminal_def Let_def by (simp, simp add: core_def)
  then have "active_term_idx k' = n" "cur_term_id k' = cur_term_id k"
    using core_fields [of k' "k\<lparr>active_term_idx := n\<rparr>"] by simp_all
  ultimately show ?thesis using assms unfolding k'_def [symmetric]
    by (auto simp: lines_after_def kbd_ok_def console_ok_def tm_def)
qed

lemma key_action_other:
  assumes "kbd_ok k" and "c = -1 \<or> c = F1_PRESS \<or> c = F2_PRESS \<or> c = F3_PRESS"
  shows "\<exists>k'. key_action c k = Some k' \<and> lines_after k k' (\<lambda>l. l)"
proof (cases "c \<noteq> -1 \<and> ALT_FLAG k")
  case False
  have "lines_after k (send_eoi KEYBOARD_PIC k) (\<lambda>l. l)"
    using assms(1) by (simp add: lines_after_def)
  moreover have "key_action c k = Some (send_eoi KEYBOARD_PIC k)"
  proof (cases "c = -1")
    case True
    then show ?thesis by (simp only: key_action_def if_True simp_thms)
  next
    case c: False
    then have "(c = -1) = False" "(c = F1_PRESS \<or> c = F2_PRESS \<or> c = F3_PRESS) = True" "ALT_FLAG k = False"
      using False assms(2) by auto
    then show ?thesis unfolding key_action_def Let_def by (simp only: if_True if_False)
  qed
  ultimately show ?thesis by blast
next
  case True
  have a: "0 \<le> active_term_idx k" "active_term_idx k < 3"
    using console_ok_ids [OF kbd_ok_console [OF assms(1)]] by auto
  define k1 where "k1 = (if c = F1_PRESS \<and> active_term_idx k \<noteq> 0 then k\<lparr>active_term_idx := 0\<rparr>
    else if c = F2_PRESS \<and> active_term_idx k \<noteq> 1 then k\<lparr>active_term_idx := 1\<rparr>
    else if c = F3_PRESS \<and> active_term_idx k \<noteq> 2 then k\<lparr>active_term_idx := 2\<rparr> else k)"
  define n where "n = active_term_idx k1"
  have n: "0 \<le> n" "n < 3" "k1 = k\<lparr>active_term_idx := n\<rparr>" using a by (simp_all add: n_def k1_def)
  have "(c = -1) = False" "(c = F1_PRESS \<or> c = F2_PRESS \<or> c = F3_PRESS) = True" "ALT_FLAG k = True"
    using True assms(2) by auto
  then have run: "key_action c k = Some (send_eoi KEYBOARD_PIC (switch_terminal (active_term_idx k) n k1))"
    unfolding key_action_def n_def k1_def Let_def by (simp only: if_True if_False)
  have "lines_after k (send_eoi KEYBOARD_PIC (switch_terminal (active_term_idx k) n k1)) (\<lambda>l. l)"
    unfolding n(3) using assms(1) n(1,2) by (rule switch_lines)
  with run show ?thesis by blast
qed

lemma key_action_clear:
  assumes "kbd_ok k"
  shows "\<exists>k'. key_action CTRL_L k = Some k' \<and> lines_after k k' (line_edit KClear)"
proof (cases "TERMINAL_READ_FLAG (terminal0 k) = 0")
  case True
  have "edits k (send_eoi KEYBOARD_PIC k) (\<lambda>l. l)"
    by (intro edits_eoi edits_core) (use assms in auto)
  then have "lines_after k (send_eoi KEYBOARD_PIC k) (line_edit KClear)"
    by (rule lines_after_edits) (simp add: line_def True)
  then show ?thesis using True by (simp add: key_action_def Let_def)
next
  case False
  have "0 \<le> buf_index (terminal0 k)" using terminal0_ok [OF assms] by (simp add: kbd_term_ok_def)
  from edits_read_change [OF assms refl order_refl this]
  have "edits k (send_eoi KEYBOARD_PIC (upd_terminal0 (\<lambda>t. t\<lparr>buf_index := 0\<rparr>) k)) (\<lambda>(r, l). (r, take (nat 0) l))"
    by (rule edits_eoi)
  then have "lines_after k (send_eoi KEYBOARD_PIC (upd_terminal0 (\<lambda>t. t\<lparr>buf_index := 0\<rparr>) k)) (line_edit KClear)"
    by (rule lines_after_edits) (simp add: line_def False)
  then show ?thesis using False by (simp add: key_action_def Let_def)
qed

lemma key_action_enter:
  assumes "kbd_ok k"
  shows "\<exists>k'. key_action NEW_LINE k = Some k' \<and> lines_after k k' (line_edit KEnter)"
proof (cases "TERMINAL_READ_FLAG (terminal0 k) = 0")
  case True
  have "edits k (send_eoi KEYBOARD_PIC (putc_direct NEW_LINE k)) (\<lambda>l. l)"
    by (intro edits_eoi edits_echo edits_core) (use assms in auto)
  then have "lines_after k (send_eoi KEYBOARD_PIC (putc_direct NEW_LINE k)) (line_edit KEnter)"
    by (rule lines_after_edits) (simp add: line_def True)
  then show ?thesis using True by (simp add: key_action_def echo_eq Let_def)
next
  case False
  note e = edits_eoi [OF enter_edits [OF assms False, of NEW_LINE], of KEYBOARD_PIC]
  have "lines_after k (send_eoi KEYBOARD_PIC (upd_terminal0 (\<lambda>t. t\<lparr>buf_index := buf_index t + 1\<rparr>)
    (putc_direct NEW_LINE (upd_terminal0 (put_key NEW_LINE) (upd_terminal0 (\<lambda>t. t\<lparr>TERMINAL_READ_FLAG := 0\<rparr>) k)))))
    (line_edit KEnter)"
    by (rule lines_after_edits [OF e]) (simp add: line_def False NEW_LINE_def)
  then show ?thesis using False by (simp add: key_action_def echo_eq Let_def)
qed

lemma tab_echo_edits: "kbd_ok k \<Longrightarrow> \<exists>k'. tab_echo n k = Some k' \<and> edits k k' (\<lambda>l. l)"
proof (induction n arbitrary: k)
  case 0
  then show ?case using edits_core [of k k] by auto
next
  case (Suc n)
  have e: "edits k (putc_direct 0x20 k) (\<lambda>l. l)" by (intro edits_echo edits_core) (use Suc.prems in auto)
  obtain k' where "tab_echo n (putc_direct 0x20 k) = Some k'" "edits (putc_direct 0x20 k) k' (\<lambda>l. l)"
    using Suc.IH [OF kbd_ok_putc_direct [OF Suc.prems]] by blast
  then show ?case using edits_trans [OF e] by (auto simp: echo_eq)
qed

lemma key_action_tab:
  assumes "kbd_ok k"
  shows "\<exists>k'. key_action TAB k = Some k' \<and> lines_after k k' (line_edit KTab)"
proof (cases "TERMINAL_READ_FLAG (terminal0 k) = 0")
  case True
  obtain k' where k': "tab_echo TAB_SPACE k = Some k'" "edits k k' (\<lambda>l. l)" using tab_echo_edits [OF assms] by blast
  have "lines_after k (send_eoi KEYBOARD_PIC k') (line_edit KTab)"
    by (rule lines_after_edits [OF edits_eoi [OF k'(2)]]) (simp add: line_def True)
  then show ?thesis using True k'(1) by (simp add: key_action_def Let_def)
next
  case False
  have "fst (line (terminal0 k))" using False by (simp add: line_def)
  from tab_fill_edits [OF assms this, of TAB_SPACE] obtain k' where k': "tab_fill TAB_SPACE k = Some k'"
    "edits k k' (\<lambda>(r, l). (r, l @ replicate (min TAB_SPACE (127 - length l)) 0x20))" by blast
  have "lines_after k (send_eoi KEYBOARD_PIC k') (line_edit KTab)"
    by (rule lines_after_edits [OF edits_eoi [OF k'(2)]]) (simp add: line_def False TAB_SPACE_def)
  then show ?thesis using False k'(1) by (simp add: key_action_def Let_def)
qed

lemma key_action_char:
  assumes "kbd_ok k" and "c \<notin> {-1, F1_PRESS, F2_PRESS, F3_PRESS, CTRL_L, NEW_LINE, TAB}"
  shows "\<exists>k'. key_action c k = Some k' \<and> lines_after k k' (line_edit (KChar c))"
proof (cases "TERMINAL_READ_FLAG (terminal0 k) = 0")
  case True
  have "edits k (send_eoi KEYBOARD_PIC (putc_direct c k)) (\<lambda>l. l)"
    by (intro edits_eoi edits_echo edits_core) (use assms in auto)
  then have "lines_after k (send_eoi KEYBOARD_PIC (putc_direct c k)) (line_edit (KChar c))"
    by (rule lines_after_edits) (simp add: line_def True)
  then show ?thesis using True assms(2) by (simp add: key_action_def echo_eq Let_def)
next
  case False
  have ok: "kbd_term_ok (terminal0 k)" by (rule terminal0_ok [OF assms(1)])
  have len: "length (snd (line (terminal0 k))) < 127 \<longleftrightarrow> buf_index (terminal0 k) < 127"
    unfolding line_len [OF ok] using ok by (auto simp: kbd_term_ok_def)
  show ?thesis
  proof (cases "buf_index (terminal0 k) < 127")
    case True
    note e = edits_eoi [OF edits_echo [OF edits_put [OF assms(1) True, of c], of c], of KEYBOARD_PIC]
    have "lines_after k (send_eoi KEYBOARD_PIC (putc_direct c (upd_terminal0 (\<lambda>t. t\<lparr>buf_index := buf_index t + 1\<rparr>)
        (upd_terminal0 (put_key c) k)))) (line_edit (KChar c))"
      by (rule lines_after_edits [OF e]) (use len True False in \<open>simp add: line_def\<close>)
    then show ?thesis using True False assms(2) by (simp add: key_action_def echo_eq KB_BUF_SIZE_def)
  next
    case full: False
    have "edits k (send_eoi KEYBOARD_PIC k) (\<lambda>l. l)" by (intro edits_eoi edits_core) (use assms in auto)
    then have "lines_after k (send_eoi KEYBOARD_PIC k) (line_edit (KChar c))"
      by (rule lines_after_edits) (use len full False in \<open>simp add: line_def\<close>)
    then show ?thesis using full False assms(2) by (simp add: key_action_def KB_BUF_SIZE_def)
  qed
qed

lemma lines_after_flags: "lines_after (scancode_flags sc k) k' f = lines_after k k' f"
  by (simp add: lines_after_def)

lemma lines_after_via:
  assumes "edits k k1 f" and "\<exists>k'. key_action c k1 = Some k' \<and> lines_after k1 k' g"
    and "kbd_ok k"
  shows "\<exists>k'. key_action c k1 = Some k' \<and> lines_after k k' (\<lambda>l. g (f l))"
  using assms by (auto simp: lines_after_def edits_def)

lemma lines_after_cong:
  assumes "\<exists>k'. r = Some k' \<and> lines_after k k' f" and "f (line (terminal0 k)) = g (line (terminal0 k))"
  shows "\<exists>k'. r = Some k' \<and> lines_after k k' g"
  using assms by (auto simp: lines_after_def)

lemma backspace_deletes:
  assumes "kbd_ok f" and del: "TERMINAL_READ_FLAG (terminal0 f) \<noteq> 0" "buf_index (terminal0 f) \<noteq> 0"
    and k1_def: "k1 = upd_terminal0 (\<lambda>t. t\<lparr>buf_index := buf_index t - 1\<rparr>) f"
  shows "\<exists>k'. key_action (-1) (backspace k1) = Some k' \<and> lines_after f k' (line_edit KBack)"
proof -
  have ok: "kbd_term_ok (terminal0 f)" by (rule terminal0_ok [OF assms(1)])
  have b: "1 \<le> buf_index (terminal0 f)" using ok del(2) by (simp add: kbd_term_ok_def)
  have eq: "k1 = upd_terminal0 (\<lambda>t. t\<lparr>buf_index := buf_index (terminal0 f) - 1\<rparr>) f"
    by (simp add: k1_def upd_tm_def)
  have e1: "edits f k1 (\<lambda>(r, l). (r, take (nat (buf_index (terminal0 f) - 1)) l))"
    unfolding eq by (rule edits_read_change [OF assms(1) refl]) (use b in simp_all)
  then have "kbd_ok k1" by (simp add: edits_def)
  then have "edits k1 (backspace k1) (\<lambda>l. l)" by (intro edits_core) (auto simp: console_ok_backspace)
  note e2 = edits_trans [OF e1 this]
  have "\<exists>k'. key_action (-1) (backspace k1) = Some k'
      \<and> lines_after f k' (\<lambda>l. case l of (r, l) \<Rightarrow> (r, take (nat (buf_index (terminal0 f) - 1)) l))"
    by (rule lines_after_via [OF e2 key_action_other [where c = "-1"] assms(1)]) (use e2 in \<open>simp_all add: edits_def\<close>)
  then show ?thesis
  proof (rule lines_after_cong)
    have "nat (buf_index (terminal0 f) - 1) = length (snd (line (terminal0 f))) - 1"
      unfolding line_len [OF ok] using b by simp
    then show "(case line (terminal0 f) of (r, l) \<Rightarrow> (r, take (nat (buf_index (terminal0 f) - 1)) l))
        = line_edit KBack (line (terminal0 f))"
      using del(1) by (simp add: line_def butlast_conv_take)
  qed
qed

lemma backspace_lines:
  assumes "kbd_ok k"
  shows "\<exists>k'. (case scancode_handler BACKSPACE k of (c, k1) \<Rightarrow> key_action c k1) = Some k'
    \<and> lines_after k k' (line_edit KBack)"
proof -
  define f where "f = scancode_flags BACKSPACE k"
  have f: "kbd_ok f" "terminal0 f = terminal0 k" using assms by (simp_all add: f_def)
  have codes: "BACKSPACE \<noteq> F1_PRESS" "BACKSPACE \<noteq> F2_PRESS" "BACKSPACE \<noteq> F3_PRESS" "BACKSPACE \<noteq> 0x26"
    by (simp_all add: key_codes)
  note other = key_action_other [where c = "-1"]
  consider (empty) "TERMINAL_READ_FLAG (terminal0 f) \<noteq> 0" "buf_index (terminal0 f) = 0"
    | (del) "TERMINAL_READ_FLAG (terminal0 f) \<noteq> 0" "buf_index (terminal0 f) \<noteq> 0"
    | (idle) "TERMINAL_READ_FLAG (terminal0 f) = 0" by blast
  then show ?thesis
  proof cases
    case empty
    have "scancode_handler BACKSPACE k = (-1, f)"
      using empty by (simp add: scancode_handler_def f_def codes)
    moreover have "\<exists>k'. key_action (-1) f = Some k' \<and> lines_after f k' (line_edit KBack)"
      by (rule lines_after_cong [OF other [OF f(1)]]) (simp_all add: line_def empty)
    ultimately show ?thesis by (simp add: f_def lines_after_flags)
  next
    case del
    define k1 where "k1 = upd_terminal0 (\<lambda>t. t\<lparr>buf_index := buf_index t - 1\<rparr>) f"
    have "scancode_handler BACKSPACE k = (-1, backspace k1)"
      using del by (simp add: scancode_handler_def f_def codes scancode_char_backspace k1_def)
    then show ?thesis using backspace_deletes [OF f(1) del k1_def] by (simp add: f_def lines_after_flags)
  next
    case idle
    have e: "edits f (backspace f) (\<lambda>l. l)" using f(1) by (intro edits_core) (auto simp: console_ok_backspace)
    have "scancode_handler BACKSPACE k = (-1, backspace f)"
      using idle by (simp add: scancode_handler_def f_def codes scancode_char_backspace)
    moreover have "\<exists>k'. key_action (-1) (backspace f) = Some k' \<and> lines_after f k' (\<lambda>l. l)"
      by (rule lines_after_via [OF e other f(1)]) (use e in \<open>simp_all add: edits_def\<close>)
    then have "\<exists>k'. key_action (-1) (backspace f) = Some k' \<and> lines_after f k' (line_edit KBack)"
      by (rule lines_after_cong) (simp add: line_def idle)
    ultimately show ?thesis by (simp add: f_def lines_after_flags)
  qed
qed

lemma key_action_ignored:
  assumes "kbd_ok k" and "c = -1 \<or> c = F1_PRESS \<or> c = F2_PRESS \<or> c = F3_PRESS"
  shows "\<exists>k'. key_action c (scancode_flags sc k) = Some k' \<and> lines_after k k' (line_edit KOther)"
proof -
  define f where "f = scancode_flags sc k"
  have f: "kbd_ok f" using assms by (simp add: f_def)
  have "\<exists>k'. key_action c f = Some k' \<and> lines_after k k' (line_edit KOther)"
    using lines_after_cong [OF key_action_other [OF f assms(2)], of "line_edit KOther"]
    by (cases "line (terminal0 f)"; cases "fst (line (terminal0 f))") (simp_all add: f_def lines_after_flags)
  then show ?thesis by (simp add: f_def)
qed

lemma handler_lines_plain:
  assumes "kbd_ok k" and f_def: "f = scancode_flags sc k"
    and rest: "\<not> (sc = F1_PRESS \<or> sc = F2_PRESS \<or> sc = F3_PRESS)" "\<not> (CTRL_FLAG f \<and> sc = 0x26)" "sc \<noteq> BACKSPACE"
  shows "\<exists>k'. keyboard_handler sc k = Some k' \<and> lines_after k k' (line_edit (key_of sc k))"
proof -
  have f: "kbd_ok f" using assms(1) by (simp add: f_def)
  have r: "scancode_handler sc k = (scancode_char sc f, f)" using rest by (auto simp: scancode_handler_def f_def Let_def)
  have x: "ENTER_PRESS \<noteq> TAB" by (simp add: key_codes)
  consider (enter) "sc = ENTER_PRESS" | (tab) "sc = TAB" | (oth) "sc \<noteq> ENTER_PRESS" "sc \<noteq> TAB" by blast
  then show ?thesis
  proof cases
    case enter
    have "key_of sc k = KEnter" using rest enter x by (auto simp: key_of_def Let_def f_def)
    then show ?thesis using r enter x key_action_enter [OF f]
      by (simp add: keyboard_handler_def scancode_char_def f_def lines_after_flags)
  next
    case tab
    have "key_of sc k = KTab" using rest tab x by (auto simp: key_of_def Let_def f_def)
    then show ?thesis using r tab x key_action_tab [OF f]
      by (simp add: keyboard_handler_def scancode_char_def f_def lines_after_flags)
  next
    case oth
    define c where "c = scancode_char sc f"
    have n: "c \<notin> {CTRL_L, NEW_LINE, TAB}" unfolding c_def by (rule scancode_char_other [OF oth])
    show ?thesis
    proof (cases "c = -1 \<or> c = F1_PRESS \<or> c = F2_PRESS \<or> c = F3_PRESS")
      case True
      then have "key_of sc k = KOther" using rest oth True by (auto simp: key_of_def Let_def c_def f_def)
      then show ?thesis using key_action_ignored [OF assms(1) True, of sc] r by (simp add: keyboard_handler_def c_def f_def)
    next
      case False
      then have "key_of sc k = KChar c" using rest oth False by (auto simp: key_of_def Let_def c_def f_def)
      then show ?thesis using key_action_char [OF f, of c] False n r
        by (simp add: keyboard_handler_def c_def f_def lines_after_flags)
    qed
  qed
qed

lemma handler_lines:
  assumes "kbd_ok k"
  shows "\<exists>k'. keyboard_handler sc k = Some k' \<and> lines_after k k' (line_edit (key_of sc k))"
proof -
  define f where "f = scancode_flags sc k"
  have f: "kbd_ok f" using assms by (simp add: f_def)
  consider (fn) "sc = F1_PRESS \<or> sc = F2_PRESS \<or> sc = F3_PRESS"
    | (clear) "\<not> (sc = F1_PRESS \<or> sc = F2_PRESS \<or> sc = F3_PRESS)" "CTRL_FLAG f \<and> sc = 0x26"
    | (bs) "sc = BACKSPACE"
    | (rest) "\<not> (sc = F1_PRESS \<or> sc = F2_PRESS \<or> sc = F3_PRESS)" "\<not> (CTRL_FLAG f \<and> sc = 0x26)" "sc \<noteq> BACKSPACE"
    by blast
  then show ?thesis
  proof cases
    case fn
    then have "scancode_handler sc k = (sc, f)" by (auto simp: scancode_handler_def f_def)
    moreover have "key_of sc k = KOther" using fn by (simp add: key_of_def Let_def)
    ultimately show ?thesis using key_action_ignored [OF assms, of sc sc] fn by (simp add: keyboard_handler_def f_def)
  next
    case clear
    have r: "scancode_handler sc k = (CTRL_L, Console.clear f)"
      using clear by (auto simp: scancode_handler_def f_def Let_def)
    have e: "edits f (Console.clear f) (\<lambda>l. l)" using f by (intro edits_core) (auto simp: console_ok_clear)
    have "kbd_ok (Console.clear f)" using f by (rule kbd_ok_clear)
    from lines_after_via [OF e key_action_clear [OF this] f] show ?thesis
      using r clear by (auto simp: keyboard_handler_def key_of_def f_def lines_after_flags Let_def)
  next
    case bs
    have "BACKSPACE \<noteq> F1_PRESS" "BACKSPACE \<noteq> F2_PRESS" "BACKSPACE \<noteq> F3_PRESS" "BACKSPACE \<noteq> 0x26"
      by (simp_all add: key_codes)
    then have "key_of BACKSPACE k = KBack" by (simp add: key_of_def Let_def)
    then show ?thesis using backspace_lines [OF assms] bs by (simp add: keyboard_handler_def)
  next
    case rest
    then show ?thesis by (rule handler_lines_plain [OF assms f_def])
  qed
qed

lemma key_action_eoi: "key_action c k = Some k' \<Longrightarrow> \<exists>k1. k' = send_eoi KEYBOARD_PIC k1"
  unfolding key_action_def Let_def by (auto simp: bind_eq_Some_conv split: if_splits)

lemma demo_kbd_ok: "kbd_ok demo_kernel"
  using demo_console_ok
  by (simp add: kbd_ok_def demo_kernel_def start_kernel_def zero_terminal_def kbd_term_ok_def)

section \<open>Properties\<close>

text \<open>C6: the keyboard driver implements the line discipline: in every state that satisfies the
  keyboard invariant and for every scancode, the interrupt handler returns, keeps the
  invariant (so no store leaves the 128-byte buffer), acknowledges the interrupt as its last
  port access, edits the line of the terminal that was displayed as the abstract editor does
  for that key, and leaves the lines of the other terminals alone.\<close>

theorem keyboard_refines_line_editor:
  assumes "kbd_ok k"
  shows "\<exists>k'. keyboard_handler sc k = Some k' \<and> kbd_ok k' \<and> hd (io k') = (0x20, 0x61)
    \<and> (\<forall>i. 0 \<le> i \<and> i < 3 \<longrightarrow> line (tm k' i) =
          (if i = active_term_idx k then line_edit (key_of sc k) (line (tm k i)) else line (tm k i)))"
proof -
  obtain k' where k': "keyboard_handler sc k = Some k'" "lines_after k k' (line_edit (key_of sc k))"
    using handler_lines [OF assms] by blast
  then have "key_action (fst (scancode_handler sc k)) (snd (scancode_handler sc k)) = Some k'"
    by (simp add: keyboard_handler_def case_prod_beta)
  then obtain k1 where "k' = send_eoi KEYBOARD_PIC k1" using key_action_eoi by blast
  then have "hd (io k') = (0x20, 0x61)" by (simp add: send_eoi_def key_codes const_defs Let_def u32_ranges)
  then show ?thesis using k' by (auto simp: lines_after_def)
qed

theorem keyboard_refines_line_editor_witness:
  "\<exists>k'. keyboard_handler 0x1E demo_kernel = Some k' \<and> line (tm k' 0) = (False, [])"
proof -
  have "line (tm demo_kernel 0) = (False, [])" "active_term_idx demo_kernel = 0"
    by (simp_all add: demo_kernel_def start_kernel_def zero_terminal_def line_def tm_def)
  then show ?thesis using keyboard_refines_line_editor [OF demo_kbd_ok, of "0x1E"] by auto
qed

text \<open>The modifier flags: after any scancode the shift flag is the disjunction of the two
  shift keys, a press sets and a release clears the flag of its key, Caps Lock toggles, and
  every other scancode leaves the flags as they were.\<close>

lemma modifier_flags:
  "SHIFT_FLAG (scancode_flags sc k) = (L_SHIFT_FLAG (scancode_flags sc k) \<or> R_SHIFT_FLAG (scancode_flags sc k))
   \<and> CAPS_FLAG (scancode_flags sc k) = (CAPS_FLAG k \<noteq> (sc = 0x3A))
   \<and> L_SHIFT_FLAG (scancode_flags sc k) = (sc = 0x2A \<or> (sc \<noteq> 0xAA \<and> L_SHIFT_FLAG k))
   \<and> R_SHIFT_FLAG (scancode_flags sc k) = (sc = 0x36 \<or> (sc \<noteq> 0xB6 \<and> R_SHIFT_FLAG k))
   \<and> CTRL_FLAG (scancode_flags sc k) = (sc = 0x1D \<or> (sc \<noteq> 0x9D \<and> CTRL_FLAG k))
   \<and> ALT_FLAG (scancode_flags sc k) = (sc = 0x38 \<or> (sc \<noteq> 0xB8 \<and> ALT_FLAG k))"
  by (auto simp: scancode_flags_def Let_def key_codes)

text \<open>The key of \<open>;\<close> (and \<open>=\<close>, and shifted \<open>,\<close>) has the ASCII code that stands for a
  function key, so it never reaches the line.\<close>

lemma semicolon_is_not_typed:
  assumes "\<not> SHIFT_FLAG (scancode_flags 0x27 k)"
  shows "key_of 0x27 k = KOther" and "\<not> SHIFT_FLAG (scancode_flags 0x0D k) \<Longrightarrow> key_of 0x0D k = KOther"
    and "SHIFT_FLAG (scancode_flags 0x33 k) \<Longrightarrow> key_of 0x33 k = KOther"
  using assms by (auto simp: key_of_def Let_def scancode_char_def key_codes key_tables chars_def)

text \<open>C26: \<open>switch_terminal\<close> shows the other terminal: the screen gets the bytes of the new
  terminal's backup page, the old terminal's backup page gets the screen (when the two differ),
  and the hardware cursor is sent to the new terminal's cursor; all process state stays.\<close>

theorem switch_terminal_correct:
  assumes "0 \<le> p" and "p < 3" and "0 \<le> n" and "n < 3" and "p \<noteq> n"
  shows "let k' = switch_terminal p n k in
     (\<forall>i<4096. mem k' (VIDEO_MEM + of_nat i) = mem k (backup_page n + of_nat i))
   \<and> (\<forall>i<4096. mem k' (backup_page p + of_nat i) = mem k (VIDEO_MEM + of_nat i))
   \<and> active_term_idx k' = n \<and> core k' = core (k\<lparr>active_term_idx := n\<rparr>)"
proof -
  define m1 where "m1 = save_video_to_backup p (mem k)"
  note safe = backup_pages_safe(1) [OF assms(1,2)] backup_pages_safe(2) [OF assms(3,4)]
  have u: "unat (4096 :: u32) = 4096" by simp
  have addr: "unat (VIDEO_MEM + of_nat i) = 0xB8000 + i"
    "unat (backup_page t + of_nat i) = 0xB9000 + 4096 * nat t + i" if "i < 4096" "0 \<le> t" "t < 3" for i t
  proof -
    have "t = 0 \<or> t = 1 \<or> t = 2" using that(2,3) by auto
    then have b: "unat (backup_page t) = 0xB9000 + 4096 * nat t" by (auto simp: backup_page_def VIDEO_MEM_def)
    have v: "unat VIDEO_MEM = 0xB8000" by (simp add: VIDEO_MEM_def)
    show "unat (VIDEO_MEM + of_nat i) = 0xB8000 + i" using that(1) v by (subst unat_plus_of_nat) simp_all
    show "unat (backup_page t + of_nat i) = 0xB9000 + 4096 * nat t + i"
      using that b by (subst unat_plus_of_nat) simp_all
  qed
  have ne1: "backup_page n + of_nat i \<noteq> backup_page p + of_nat j" if "i < 4096" "j < 4096" for i j
  proof -
    have "nat n < nat p \<or> nat p < nat n" using assms by auto
    then have "4096 * nat n + i \<noteq> 4096 * nat p + j" using that by auto
    then have "unat (backup_page n + of_nat i) \<noteq> unat (backup_page p + of_nat j)"
      using addr(2) [OF that(1) assms(3,4)] addr(2) [OF that(2) assms(1,2)] by simp
    then show ?thesis by auto
  qed
  have ne2: "backup_page p + of_nat i \<noteq> VIDEO_MEM + of_nat j" if "i < 4096" "j < 4096" for i j
  proof -
    have "unat (backup_page p + of_nat i) \<noteq> unat (VIDEO_MEM + of_nat j)"
      using addr(2) [OF that(1) assms(1,2)] addr(1) [OF that(2) assms(1,2)] that by simp
    then show ?thesis by auto
  qed
  have m1: "m1 (backup_page p + of_nat i) = mem k (VIDEO_MEM + of_nat i)"
    "m1 (backup_page n + of_nat i) = mem k (backup_page n + of_nat i)" if "i < 4096" for i
    using mcpy.copy_inside [of "backup_page p" VIDEO_MEM 4096 i] safe(1) that
      mcpy.copy_outside [of "backup_page p" VIDEO_MEM 4096 "backup_page n + of_nat i"] ne1 [OF that]
    by (simp_all add: m1_def save_video_to_backup_def)
  have mem': "mem (switch_terminal p n k) = restore_backup_to_video n m1"
    by (simp add: switch_terminal_def Let_def m1_def)
  have m2: "restore_backup_to_video n m1 (VIDEO_MEM + of_nat i) = m1 (backup_page n + of_nat i)"
    "restore_backup_to_video n m1 (backup_page p + of_nat i) = m1 (backup_page p + of_nat i)" if "i < 4096" for i
    using mcpy.copy_inside [of VIDEO_MEM "backup_page n" 4096 i] safe(2) that
      mcpy.copy_outside [of VIDEO_MEM "backup_page n" 4096 "backup_page p + of_nat i"] ne2 [OF that]
    by (simp_all add: restore_backup_to_video_def)
  have c: "core (switch_terminal p n k) = core (k\<lparr>active_term_idx := n\<rparr>)"
    unfolding switch_terminal_def Let_def by (simp, simp add: core_def)
  have "active_term_idx (switch_terminal p n k) = n" using core_fields(8) [OF c] by simp
  then show ?thesis using m1 m2 c by (simp add: Let_def mem')
qed

theorem switch_terminal_correct_witness:
  "active_term_idx (switch_terminal 0 1 demo_kernel) = 1
   \<and> mem (switch_terminal 0 1 demo_kernel) (VIDEO_MEM + of_nat 5) = mem demo_kernel (backup_page 1 + of_nat 5)"
proof -
  have "(\<forall>i<4096. mem (switch_terminal 0 1 demo_kernel) (VIDEO_MEM + of_nat i) = mem demo_kernel (backup_page 1 + of_nat i))
      \<and> active_term_idx (switch_terminal 0 1 demo_kernel) = 1"
    using switch_terminal_correct [of 0 1 demo_kernel] by (simp add: Let_def)
  moreover have "(5 :: nat) < 4096" by simp
  ultimately show ?thesis by blast
qed

end
