(* ===== verification/Rtc.thy ===== *)
theory Rtc
  imports I8259
begin

text \<open>
  The real-time clock driver, the hardware side of \<open>rtc.c\<close>: the interrupt handler,
  initialisation and the rate register.  A byte read from the data port is an argument.  The
  interrupt count is an \<open>int32_t\<close> and wraps.
\<close>

definition RTC_PIC :: u32 where "RTC_PIC = 8"
definition REG_A :: byte where "REG_A = 0x8A"
definition REG_B :: byte where "REG_B = 0x8B"
definition REG_C :: byte where "REG_C = 0x0C"
definition RTC_STATUS :: u16 where "RTC_STATUS = 0x70"
definition RTC_DATA :: u16 where "RTC_DATA = 0x71"
definition MAX_RTC_FREQ :: u32 where "MAX_RTC_FREQ = 512"

lemmas [const_defs] = RTC_PIC_def REG_A_def REG_B_def REG_C_def RTC_STATUS_def RTC_DATA_def MAX_RTC_FREQ_def

definition rtc_handler :: "kernel \<Rightarrow> kernel" where
  "rtc_handler k =
     (let k = k\<lparr>rtc_counter_global := sint (word_of_int (rtc_counter_global k + 1) :: u32)\<rparr>;
          k = k\<lparr>rtc_exe_flag := 1\<rparr>;
          k = outb REG_C RTC_STATUS k
      in send_eoi RTC_PIC k)"

definition set_rtc_freq :: "byte \<Rightarrow> byte \<Rightarrow> kernel \<Rightarrow> kernel" where
  "set_rtc_freq in_a rate k =
     (let rate = rate AND 0x0F;
          k = outb REG_A RTC_STATUS k;
          prev = in_a;
          k = outb REG_A RTC_STATUS k
      in outb ((prev AND 0xF0) OR rate) RTC_DATA k)"

definition rtc_init :: "byte \<Rightarrow> byte \<Rightarrow> kernel \<Rightarrow> kernel" where
  "rtc_init in_b in_a k =
     (let k = outb REG_B RTC_STATUS k;
          prev = in_b;
          k = outb REG_B RTC_STATUS k;
          k = outb (prev OR 0x40) RTC_DATA k
      in set_rtc_freq in_a 3 k)"

lemma rtc_init_writes:
  "io (rtc_init in_b in_a k) =
    [(0x71, (in_a AND 0xF0) OR 3), (0x70, 0x8A), (0x70, 0x8A), (0x71, in_b OR 0x40), (0x70, 0x8B), (0x70, 0x8B)] @ io k"
  by (simp add: rtc_init_def set_rtc_freq_def Let_def const_defs)

lemma rtc_handler_core:
  "core (rtc_handler k) =
    core (k\<lparr>rtc_counter_global := sint (word_of_int (rtc_counter_global k + 1) :: u32), rtc_exe_flag := 1\<rparr>)"
  by (simp add: rtc_handler_def Let_def del: of_int_add)

lemma rtc_handler_frame [simp]:
  "mem (rtc_handler k) = mem k" "terminals (rtc_handler k) = terminals k" "tm (rtc_handler k) i = tm k i"
  "rtc_exe_flag (rtc_handler k) = 1" "cur_term_id (rtc_handler k) = cur_term_id k"
  "active_term_idx (rtc_handler k) = active_term_idx k" "pcbs (rtc_handler k) = pcbs k"
  "file_array (rtc_handler k) = file_array k" "pg (rtc_handler k) = pg k"
  using core_fields [OF rtc_handler_core [of k]] by (simp_all add: rtc_handler_def Let_def tm_def)

lemma rtc_handler_counter:
  assumes "- 2147483648 \<le> rtc_counter_global k" and "rtc_counter_global k < 2147483647"
  shows "rtc_counter_global (rtc_handler k) = rtc_counter_global k + 1"
proof -
  have "rtc_counter_global (rtc_handler k) = sint (word_of_int (rtc_counter_global k + 1) :: u32)"
    using core_fields(13) [OF rtc_handler_core [of k]] by simp
  also have "\<dots> = rtc_counter_global k + 1"
    using assms by (simp only: sint_sbintrunc') (simp add: signed_take_bit_int_eq_self)
  finally show ?thesis .
qed

end
