(* ===== verification/Devices.thy ===== *)
theory Devices
  imports User_Memory Keyboard Rtc
begin

text \<open>
  The file operations behind a descriptor: the terminal (\<open>keyboard.c\<close>), the clock (\<open>rtc.c\<close>),
  regular files and the directory (\<open>file_system.c\<close>), and the dispatch through the operation
  tables.  Results are \<open>(return value, state)\<close>; \<open>None\<close> is a call that does not return: a
  wait that no interrupt ends, or an access that faults.  A wait loop takes the list of the
  keyboard and clock interrupts that arrive while it runs: the calls here are runs in which the
  timer does not switch to another program during the wait.  Waits with timer switches are the
  subject of \<open>Kernel_Run\<close>, where \<open>terminal_read_begin\<close> and \<open>terminal_read_end\<close> are steps of their own.
\<close>

section \<open>Descriptors\<close>

definition fd_entry :: "kernel \<Rightarrow> int \<Rightarrow> file_abs_entry" where
  "fd_entry k fd = pcb_file_array (pcbs k ! the (file_array k)) ! nat fd"

definition upd_fd :: "int \<Rightarrow> (file_abs_entry \<Rightarrow> file_abs_entry) \<Rightarrow> kernel \<Rightarrow> kernel" where
  "upd_fd fd f k =
     (let p = the (file_array k); b = pcbs k ! p
      in k\<lparr>pcbs := (pcbs k)[p := b\<lparr>pcb_file_array := (pcb_file_array b)[nat fd := f (fd_entry k fd)]\<rparr>]\<rparr>)"

section \<open>Interrupts and waiting\<close>

datatype event = Key byte | Tick

fun interrupt :: "event \<Rightarrow> kernel \<Rightarrow> kernel option" where
  "interrupt (Key sc) k = keyboard_handler sc k"
| "interrupt Tick k = Some (rtc_handler k)"

text \<open>\<open>while (busy);\<close> with interrupts enabled.\<close>

fun spin :: "(kernel \<Rightarrow> bool) \<Rightarrow> event list \<Rightarrow> kernel \<Rightarrow> (event list \<times> kernel) option" where
  "spin busy [] k = (if busy k then None else Some ([], k))"
| "spin busy (e # es) k = (if busy k then Option.bind (interrupt e k) (spin busy es) else Some (e # es, k))"

section \<open>The terminal\<close>

definition terminal_open :: "int \<Rightarrow> kernel \<Rightarrow> int \<times> kernel" where
  "terminal_open fd k = (0, k)"

definition terminal_close :: "int \<Rightarrow> kernel \<Rightarrow> int \<times> kernel" where
  "terminal_close fd k = (0, k)"

definition terminal_read_begin :: "kernel \<Rightarrow> kernel" where
  "terminal_read_begin k =
     (let k = upd_tm (cur_term_id k) (\<lambda>t. t\<lparr>TERMINAL_READ_FLAG := 1\<rparr>) k
      in upd_tm (cur_term_id k) (\<lambda>t. t\<lparr>buf_index := 0\<rparr>) k)"

definition terminal_read_end :: "addr \<Rightarrow> int \<Rightarrow> kernel \<Rightarrow> (int \<times> kernel) option" where
  "terminal_read_end buf nbytes k =
     (let t = tm k (cur_term_id k);
          loop_end = (if nbytes < buf_index t then nbytes else buf_index t)
      in Option.bind (vstore k buf (take (nat (loop_end - 1)) (keyboard_buf t))) (\<lambda>k.
         Option.bind (vstore k (buf + word_of_int (loop_end - 1)) [0x0A]) (\<lambda>k.
         Some (loop_end, k))))"

definition terminal_read :: "event list \<Rightarrow> int \<Rightarrow> addr \<Rightarrow> int \<Rightarrow> kernel \<Rightarrow> (int \<times> kernel) option" where
  "terminal_read evs fd buf nbytes k =
     (if buf = 0 \<or> nbytes < 0 \<or> fd \<noteq> 0 then Some (-1, k)
      else Option.bind (spin (\<lambda>k. TERMINAL_READ_FLAG (tm k (cur_term_id k)) \<noteq> 0) evs (terminal_read_begin k))
             (\<lambda>(evs, k). terminal_read_end buf nbytes k))"

fun write_chars :: "nat \<Rightarrow> addr \<Rightarrow> kernel \<Rightarrow> kernel option" where
  "write_chars 0 a k = Some k"
| "write_chars (Suc n) a k =
     Option.bind (vread k a) (\<lambda>c. write_chars n (a + 1) (if c = 0 then k else putc c k))"

definition terminal_write :: "int \<Rightarrow> addr \<Rightarrow> int \<Rightarrow> kernel \<Rightarrow> (int \<times> kernel) option" where
  "terminal_write fd buf nbytes k =
     (if buf = 0 \<or> nbytes < 0 \<or> fd \<noteq> 1 then Some (-1, k)
      else map_option (\<lambda>k. (nbytes, k)) (write_chars (nat nbytes) buf k))"

section \<open>The clock\<close>

definition rtc_open :: "int \<Rightarrow> kernel \<Rightarrow> int \<times> kernel" where
  "rtc_open fd k =
     (if fd < 2 \<or> fd > 7 then (-1, k)
      else let k = upd_fd fd (\<lambda>e. e\<lparr>inode_idx := 0\<rparr>) k
           in (0, upd_fd fd (\<lambda>e. e\<lparr>file_position := MAX_RTC_FREQ div 2\<rparr>) k))"

definition rtc_close :: "int \<Rightarrow> kernel \<Rightarrow> int \<times> kernel" where
  "rtc_close fd k = (0, k)"

definition rtc_div :: "kernel \<Rightarrow> int \<Rightarrow> int" where
  "rtc_div k fd = (let d = sint (file_position (fd_entry k fd) div 3) in if d = 0 then 1 else d)"

definition rtc_read :: "event list \<Rightarrow> int \<Rightarrow> addr \<Rightarrow> int \<Rightarrow> kernel \<Rightarrow> (int \<times> kernel) option" where
  "rtc_read evs fd buf nbytes k =
     (if fd < 2 \<or> fd > 7 then Some (-1, k)
      else Option.bind (spin (\<lambda>k. rtc_exe_flag k = 0) evs k) (\<lambda>(evs, k).
           let d = rtc_div k fd
           in Option.bind (spin (\<lambda>k. rtc_counter_global k mod d \<noteq> 0) evs k) (\<lambda>(evs, k).
              Some (0, k\<lparr>rtc_exe_flag := 0\<rparr>))))"

text \<open>A zero frequency passes the check and divides by zero: no result.\<close>

definition rtc_write :: "int \<Rightarrow> addr \<Rightarrow> int \<Rightarrow> kernel \<Rightarrow> (int \<times> kernel) option" where
  "rtc_write fd buf nbytes k =
     (if buf = 0 \<or> nbytes \<le> 1 then Some (-1, k)
      else if fd < 2 \<or> fd > 7 then Some (-1, k)
      else Option.bind (vread_bytes k buf 4) (\<lambda>bs.
           let freq = load32 (of_bytes bs \<circ> unat) 0
           in if freq AND (freq - 1) \<noteq> 0 \<or> freq > MAX_RTC_FREQ then Some (-1, k)
              else if freq = 0 then None
              else Some (0, upd_fd fd (\<lambda>e. e\<lparr>file_position := MAX_RTC_FREQ div freq\<rparr>) k)))"

section \<open>Regular files and the directory\<close>

definition file_open :: "int \<Rightarrow> kernel \<Rightarrow> int \<times> kernel" where
  "file_open fd k = (0, upd_fd fd (\<lambda>e. e\<lparr>file_position := 0\<rparr>) k)"

definition file_close :: "int \<Rightarrow> kernel \<Rightarrow> int \<times> kernel" where
  "file_close fd k =
     (if file_array k = None \<or> fd < 2 \<or> fd > 7 then (-1, k)
      else (0, upd_fd fd (\<lambda>e. e\<lparr>file_position := 0\<rparr>) k))"

definition file_read :: "int \<Rightarrow> addr \<Rightarrow> int \<Rightarrow> kernel \<Rightarrow> (int \<times> kernel) option" where
  "file_read fd buf nbytes k =
     (if file_array k = None \<or> fd < 2 \<or> fd > 7 then Some (-1, k)
      else if buf = 0 \<or> nbytes < 0 then Some (0, k)
      else let e = fd_entry k fd;
               (bytes, ret_val) = read_data (filesys k) (mem k) (inode_idx e) (file_position e) True nbytes
           in Option.bind (vstore k buf bytes) (\<lambda>k.
              let k = (if ret_val \<noteq> 0
                       then upd_fd fd (\<lambda>e. e\<lparr>file_position := file_position e + word_of_int ret_val\<rparr>) k
                       else k)
              in Some (ret_val, k)))"

definition file_write :: "int \<Rightarrow> addr \<Rightarrow> int \<Rightarrow> kernel \<Rightarrow> (int \<times> kernel) option" where
  "file_write fd buf nbytes k = Some (-1, k)"

definition directory_open :: "int \<Rightarrow> kernel \<Rightarrow> int \<times> kernel" where
  "directory_open fd k =
     (let k = upd_fd fd (\<lambda>e. e\<lparr>file_position := 0\<rparr>) k in (0, upd_fd fd (\<lambda>e. e\<lparr>inode_idx := 0\<rparr>) k))"

definition directory_close :: "int \<Rightarrow> kernel \<Rightarrow> int \<times> kernel" where
  "directory_close fd k = (0, k)"

definition directory_read :: "int \<Rightarrow> addr \<Rightarrow> int \<Rightarrow> kernel \<Rightarrow> (int \<times> kernel) option" where
  "directory_read fd buf nbytes k =
     (if file_position (fd_entry k fd) = dentry_num (filesys k) \<or> buf = 0 then Some (0, k)
      else let dentry = at (mem k) (file_system_addr (filesys k) + 64 * (file_position (fd_entry k fd) + 1))
           in Option.bind (vstore k buf (strncpy dentry 32)) (\<lambda>k.
              let k = upd_fd fd (\<lambda>e. e\<lparr>file_position := file_position e + 1\<rparr>) k
              in map_option (\<lambda>len. (if len > 32 then 32 else int len, k)) (strlen dentry)))"

definition directory_write :: "int \<Rightarrow> addr \<Rightarrow> int \<Rightarrow> kernel \<Rightarrow> (int \<times> kernel) option" where
  "directory_write fd buf nbytes k = Some (-1, k)"

section \<open>The operation tables\<close>

definition op_open :: "op_table \<Rightarrow> int \<Rightarrow> kernel \<Rightarrow> (int \<times> kernel) option" where
  "op_open tbl fd k =
     (case tbl of OP_NULL \<Rightarrow> None | rtc_op_table \<Rightarrow> Some (rtc_open fd k)
      | dirt_op_table \<Rightarrow> Some (directory_open fd k) | regular_file_op_table \<Rightarrow> Some (file_open fd k)
      | terminal_op_table \<Rightarrow> Some (terminal_open fd k))"

definition op_read :: "op_table \<Rightarrow> event list \<Rightarrow> int \<Rightarrow> addr \<Rightarrow> int \<Rightarrow> kernel \<Rightarrow> (int \<times> kernel) option" where
  "op_read tbl evs fd buf nbytes k =
     (case tbl of OP_NULL \<Rightarrow> None | rtc_op_table \<Rightarrow> rtc_read evs fd buf nbytes k
      | dirt_op_table \<Rightarrow> directory_read fd buf nbytes k | regular_file_op_table \<Rightarrow> file_read fd buf nbytes k
      | terminal_op_table \<Rightarrow> terminal_read evs fd buf nbytes k)"

definition op_write :: "op_table \<Rightarrow> int \<Rightarrow> addr \<Rightarrow> int \<Rightarrow> kernel \<Rightarrow> (int \<times> kernel) option" where
  "op_write tbl fd buf nbytes k =
     (case tbl of OP_NULL \<Rightarrow> None | rtc_op_table \<Rightarrow> rtc_write fd buf nbytes k
      | dirt_op_table \<Rightarrow> directory_write fd buf nbytes k | regular_file_op_table \<Rightarrow> file_write fd buf nbytes k
      | terminal_op_table \<Rightarrow> terminal_write fd buf nbytes k)"

definition op_close :: "op_table \<Rightarrow> int \<Rightarrow> kernel \<Rightarrow> (int \<times> kernel) option" where
  "op_close tbl fd k =
     (case tbl of OP_NULL \<Rightarrow> None | rtc_op_table \<Rightarrow> Some (rtc_close fd k)
      | dirt_op_table \<Rightarrow> Some (directory_close fd k) | regular_file_op_table \<Rightarrow> Some (file_close fd k)
      | terminal_op_table \<Rightarrow> Some (terminal_close fd k))"


section \<open>What interrupts leave alone\<close>

text \<open>
  The keyboard changes the screen, the lines typed and the modifier flags; \<open>idle\<close> is the rest of
  the state.  \<open>sys\<close> leaves out the clock too: it is what every interrupt keeps, the processes,
  open files, page tables, file system and scheduling.
\<close>

definition term_idle :: "terminal \<Rightarrow> terminal" where
  "term_idle t = t\<lparr>cursor_x := 0, cursor_y := 0, keyboard_buf := [], buf_index := 0, TERMINAL_READ_FLAG := 0\<rparr>"

definition idle :: "kernel \<Rightarrow> kernel" where
  "idle k = k\<lparr>mem := (\<lambda>_. 0), io := [], terminals := map term_idle (terminals k), active_term_idx := 0,
     CAPS_FLAG := False, L_SHIFT_FLAG := False, R_SHIFT_FLAG := False, SHIFT_FLAG := False,
     CTRL_FLAG := False, ALT_FLAG := False\<rparr>"

definition sys :: "kernel \<Rightarrow> kernel" where
  "sys k = (idle k)\<lparr>rtc_counter_global := 0, rtc_exe_flag := 0\<rparr>"

lemma idle_core: "core k = core k' \<Longrightarrow> idle k = idle k'"
proof -
  have "idle k = idle (core k)" for k by (simp add: idle_def core_def term_idle_def term_core_def)
  then show "core k = core k' \<Longrightarrow> idle k = idle k'" by metis
qed

lemma idle_upd_tm:
  assumes "\<And>t. term_idle (g t) = term_idle t"
  shows "idle (upd_tm i g k) = idle k"
proof -
  have "map term_idle ((terminals k)[nat i := g (tm k i)]) = map term_idle (terminals k)"
    using assms by (cases "nat i < length (terminals k)") (simp_all add: map_update tm_def list_update_same_conv list_update_beyond)
  then show ?thesis by (simp add: idle_def upd_tm_def)
qed

lemma idle_console [simp]:
  "idle (k\<lparr>mem := m\<rparr>) = idle k" "idle (putc c k) = idle k" "idle (putc_direct c k) = idle k"
  "idle (clear k) = idle k" "idle (backspace k) = idle k" "idle (update_cursor x y k) = idle k"
  "idle (send_eoi i k) = idle k" "idle (k\<lparr>active_term_idx := a\<rparr>) = idle k"
  by (auto intro: idle_core) (simp add: idle_def)

lemma idle_line [simp]:
  "idle (upd_tm i (put_key c) k) = idle k" "idle (upd_tm i (\<lambda>t. t\<lparr>buf_index := f t\<rparr>) k) = idle k"
  "idle (upd_tm i (\<lambda>t. t\<lparr>TERMINAL_READ_FLAG := n\<rparr>) k) = idle k"
  by (simp_all add: idle_upd_tm term_idle_def put_key_def)

lemma idle_switch_terminal [simp]: "idle (switch_terminal p n k) = idle k"
  by (simp add: switch_terminal_def Let_def)

lemma idle_scancode_flags [simp]: "idle (scancode_flags sc k) = idle k"
  by (simp add: scancode_flags_def Let_def idle_def)

lemma idle_tab_fill: "tab_fill n k = Some k' \<Longrightarrow> idle k' = idle k"
  by (induction n arbitrary: k) (auto simp: Let_def echo_eq split: if_splits)

lemma idle_tab_echo: "tab_echo n k = Some k' \<Longrightarrow> idle k' = idle k"
  by (induction n arbitrary: k) (auto simp: echo_eq)

lemma idle_key_action: "key_action c k = Some k' \<Longrightarrow> idle k' = idle k"
  unfolding key_action_def Let_def
  by (auto simp: bind_eq_Some_conv echo_eq split: if_splits dest!: idle_tab_fill idle_tab_echo)

lemma idle_keyboard_handler: "keyboard_handler sc k = Some k' \<Longrightarrow> idle k' = idle k"
  using idle_key_action [of "fst (scancode_handler sc k)" "snd (scancode_handler sc k)" k']
  by (simp add: keyboard_handler_def case_prod_beta scancode_handler_def Let_def)

lemma idle_clock:
  assumes "idle k = idle k'"
  shows "rtc_counter_global k = rtc_counter_global k'" and "rtc_exe_flag k = rtc_exe_flag k'"
  using arg_cong [OF assms, of rtc_counter_global] arg_cong [OF assms, of rtc_exe_flag]
  by (simp_all add: idle_def)

lemma sys_idle: "idle k = idle k' \<Longrightarrow> sys k = sys k'"
  by (simp add: sys_def)

lemma sys_simps [simp]:
  "sys (k\<lparr>mem := m\<rparr>) = sys k" "sys (putc c k) = sys k" "sys (clear k) = sys k"
  "sys (k\<lparr>rtc_exe_flag := n\<rparr>) = sys k" "sys (k\<lparr>rtc_counter_global := n\<rparr>) = sys k"
  by (simp_all add: sys_def) (simp_all add: idle_def)

lemma sys_rtc_handler [simp]: "sys (rtc_handler k) = sys k"
  unfolding sys_idle [OF idle_core [OF rtc_handler_core [of k]]] by simp

lemma interrupt_sys: "interrupt e k = Some k' \<Longrightarrow> sys k' = sys k"
  by (cases e) (auto intro: sys_idle idle_keyboard_handler)

lemma sys_fields:
  assumes "sys k = sys k'"
  shows "pcbs k = pcbs k'" "file_array k = file_array k'" "prog_counter k = prog_counter k'"
    "program_exception_flag k = program_exception_flag k'" "filesys k = filesys k'" "pg k = pg k'"
    "cur_term_id k = cur_term_id k'" "tss_esp0 k = tss_esp0 k'" "tss_ss0 k = tss_ss0 k'"
    "map term_idle (terminals k) = map term_idle (terminals k')"
  using arg_cong [OF assms, of pcbs] arg_cong [OF assms, of file_array] arg_cong [OF assms, of prog_counter]
    arg_cong [OF assms, of program_exception_flag] arg_cong [OF assms, of filesys] arg_cong [OF assms, of pg]
    arg_cong [OF assms, of cur_term_id] arg_cong [OF assms, of tss_esp0] arg_cong [OF assms, of tss_ss0]
    arg_cong [OF assms, of terminals]
  by (simp_all add: sys_def idle_def)

section \<open>Waiting\<close>

text \<open>The state after a sequence of interrupts.\<close>

fun run :: "event list \<Rightarrow> kernel \<Rightarrow> kernel option" where
  "run [] k = Some k"
| "run (e # es) k = Option.bind (interrupt e k) (run es)"

lemma run_append: "run (es @ es') k = Option.bind (run es k) (run es')"
proof (induction es arbitrary: k)
  case (Cons e es)
  then show ?case by (cases "interrupt e k") simp_all
qed simp

lemma run_sys: "run es k = Some k' \<Longrightarrow> sys k' = sys k"
proof (induction es arbitrary: k)
  case (Cons e es)
  then obtain k1 where "interrupt e k = Some k1" "run es k1 = Some k'" by (auto simp: bind_eq_Some_conv)
  then show ?case using Cons.IH interrupt_sys by metis
qed simp

text \<open>An interrupt always completes and edits at most one line.\<close>

definition event_edit :: "event \<Rightarrow> kernel \<Rightarrow> bool \<times> byte list \<Rightarrow> bool \<times> byte list" where
  "event_edit e k = (case e of Key sc \<Rightarrow> line_edit (key_of sc k) | Tick \<Rightarrow> (\<lambda>l. l))"

lemma interrupt_lines:
  assumes "kbd_ok k"
  shows "\<exists>k'. interrupt e k = Some k' \<and> lines_after k k' (event_edit e k)"
proof (cases e)
  case (Key sc)
  then show ?thesis using handler_lines [OF assms, of sc] by (simp add: event_edit_def)
next
  case Tick
  have "kbd_ok (rtc_handler k)" using assms by (subst kbd_ok_frame [of _ k]) simp_all
  then show ?thesis using Tick by (simp add: event_edit_def lines_after_def)
qed

lemma run_total: "kbd_ok k \<Longrightarrow> \<exists>k'. run es k = Some k' \<and> kbd_ok k'"
proof (induction es arbitrary: k)
  case (Cons e es)
  then obtain k1 where "interrupt e k = Some k1" "kbd_ok k1"
    using interrupt_lines [OF Cons.prems, of e] by (auto simp: lines_after_def)
  then show ?case using Cons.IH by simp
qed simp

text \<open>A wait ends at the first state in which its condition is false.\<close>

lemma spin_stops:
  "kbd_ok k \<Longrightarrow> run es k = Some k' \<Longrightarrow> \<not> busy k' \<Longrightarrow>
    \<exists>es1 es2 k2. es = es1 @ es2 \<and> run es1 k = Some k2 \<and> \<not> busy k2
      \<and> (es1 \<noteq> [] \<longrightarrow> (\<exists>k1. run (butlast es1) k = Some k1 \<and> busy k1))
      \<and> spin busy (es @ rest) k = Some (es2 @ rest, k2)"
proof (induction es arbitrary: k)
  case Nil
  then have "spin busy rest k = Some (rest, k)" by (cases rest) simp_all
  then show ?case using Nil by (intro exI [of _ "[]"]) simp
next
  case (Cons e es)
  obtain k1 where k1: "interrupt e k = Some k1" "run es k1 = Some k'"
    using Cons.prems(2) by (auto simp: bind_eq_Some_conv)
  have ok: "kbd_ok k1" using interrupt_lines [OF Cons.prems(1), of e] k1(1) by (auto simp: lines_after_def)
  show ?case
  proof (cases "busy k")
    case False
    then show ?thesis by (intro exI [of _ "[]"] exI [of _ "e # es"]) simp
  next
    case True
    obtain es1 es2 k2 where r: "es = es1 @ es2" "run es1 k1 = Some k2" "\<not> busy k2"
      "es1 \<noteq> [] \<longrightarrow> (\<exists>k3. run (butlast es1) k1 = Some k3 \<and> busy k3)"
      "spin busy (es @ rest) k1 = Some (es2 @ rest, k2)"
      using Cons.IH [OF ok k1(2) Cons.prems(3)] by blast
    have "\<exists>k3. run (butlast (e # es1)) k = Some k3 \<and> busy k3"
      using r(4) True k1(1) by (cases "es1 = []") auto
    then show ?thesis using r k1 True by (intro exI [of _ "e # es1"] exI [of _ es2] exI [of _ k2]) simp
  qed
qed

section \<open>Reading a line\<close>

definition reading :: "kernel \<Rightarrow> kernel" where
  "reading k = upd_tm (cur_term_id k) (\<lambda>t. t\<lparr>TERMINAL_READ_FLAG := 1, buf_index := 0\<rparr>) k"

lemma kbd_ok_cur: "kbd_ok k \<Longrightarrow> valid_term k (cur_term_id k) \<and> 0 \<le> cur_term_id k \<and> cur_term_id k < 3"
  by (auto simp: kbd_ok_def console_ok_def)

lemma reading_eq: "kbd_ok k \<Longrightarrow> terminal_read_begin k = reading k"
  using kbd_ok_cur [of k] by (simp add: terminal_read_begin_def reading_def upd_tm_def tm_def)

lemma reading_ok:
  assumes "kbd_ok k"
  shows "kbd_ok (reading k)" and "line (tm (reading k) (cur_term_id k)) = (True, [])" and "sys (reading k) = sys k"
proof -
  note c = kbd_ok_cur [OF assms]
  show "kbd_ok (reading k)" unfolding reading_def
    using kbd_ok_tm [OF assms, of "cur_term_id k"] c assms by (intro kbd_ok_upd_tm) (auto simp: kbd_term_ok_def)
  show "line (tm (reading k) (cur_term_id k)) = (True, [])"
    using c by (simp add: reading_def tm_upd_tm line_def)
  show "sys (reading k) = sys k" by (rule sys_idle) (simp add: reading_def idle_upd_tm term_idle_def)
qed

text \<open>Only the Enter key closes a line.\<close>

lemma line_edit_close:
  "\<not> fst (line_edit key (True, l)) \<Longrightarrow> line_edit key (True, l) = (False, l @ [0x0A])"
  by (cases key) auto

lemma closing_event:
  assumes "kbd_ok k" and "interrupt e k = Some k'" and "0 \<le> c" and "c < 3"
    and "line (tm k c) = (True, l)" and "\<not> fst (line (tm k' c))"
  shows "line (tm k' c) = (False, l @ [0x0A])"
proof -
  have l: "line (tm k' c) = (if c = active_term_idx k then event_edit e k (line (tm k c)) else line (tm k c))"
    using interrupt_lines [OF assms(1), of e] assms(2-4) by (auto simp: lines_after_def)
  then show ?thesis using assms(5,6)
    by (cases e) (auto simp: event_edit_def line_edit_close split: if_splits)
qed

lemma enter_closes:
  assumes "kbd_ok k" and "interrupt (Key ENTER_PRESS) k = Some k'"
  shows "\<not> fst (line (tm k' (active_term_idx k)))"
proof -
  have a: "0 \<le> active_term_idx k" "active_term_idx k < 3" using assms(1) by (auto simp: kbd_ok_def console_ok_def)
  have "key_of ENTER_PRESS k = KEnter" by (simp add: key_of_def Let_def key_codes)
  then have "line (tm k' (active_term_idx k)) = line_edit KEnter (line (tm k (active_term_idx k)))"
    using handler_lines [OF assms(1), of ENTER_PRESS] assms(2) a by (auto simp: lines_after_def)
  then show ?thesis by (cases "line (tm k (active_term_idx k))"; cases "fst (line (tm k (active_term_idx k)))") auto
qed

lemma wait_for_line:
  assumes "kbd_ok k" and "run es (reading k) = Some k0" and "active_term_idx k0 = cur_term_id k"
  shows "\<exists>es1 e es2 k1 k2 l. es @ [Key ENTER_PRESS] = es1 @ e # es2 \<and> run es1 (reading k) = Some k1
    \<and> line (tm k1 (cur_term_id k)) = (True, l) \<and> interrupt e k1 = Some k2
    \<and> line (tm k2 (cur_term_id k)) = (False, l @ [0x0A]) \<and> kbd_ok k2 \<and> sys k2 = sys k
    \<and> spin (\<lambda>k. TERMINAL_READ_FLAG (tm k (cur_term_id k)) \<noteq> 0) (es @ Key ENTER_PRESS # rest) (reading k) = Some (es2 @ rest, k2)"
proof -
  note c = kbd_ok_cur [OF assms(1)] and r = reading_ok [OF assms(1)]
  let ?busy = "\<lambda>k. TERMINAL_READ_FLAG (tm k (cur_term_id k)) \<noteq> 0"
  have cur: "cur_term_id k1 = cur_term_id k" if "run es' (reading k) = Some k1" for es' k1
    using sys_fields(7) [of k1 k] run_sys [OF that] r(3) by simp
  have open_iff: "?busy k1 \<longleftrightarrow> fst (line (tm k1 (cur_term_id k)))" if "run es' (reading k) = Some k1" for es' k1
    using cur [OF that] by (simp add: line_def)
  have ok: "kbd_ok k1" if "run es' (reading k) = Some k1" for es' k1
    using run_total [OF r(1), of es'] that by auto
  obtain k3 where k3: "interrupt (Key ENTER_PRESS) k0 = Some k3" "\<not> fst (line (tm k3 (cur_term_id k)))"
    using interrupt_lines [OF ok [OF assms(2)], of "Key ENTER_PRESS"] enter_closes [OF ok [OF assms(2)]] assms(3) by auto
  then have run3: "run (es @ [Key ENTER_PRESS]) (reading k) = Some k3" using assms(2) by (simp add: run_append)
  obtain es1 es2 k2 where s: "es @ [Key ENTER_PRESS] = es1 @ es2" "run es1 (reading k) = Some k2" "\<not> ?busy k2"
    "es1 \<noteq> [] \<longrightarrow> (\<exists>k1. run (butlast es1) (reading k) = Some k1 \<and> ?busy k1)"
    "spin ?busy ((es @ [Key ENTER_PRESS]) @ rest) (reading k) = Some (es2 @ rest, k2)"
    using spin_stops [OF r(1) run3, of ?busy rest] k3(2) open_iff [OF run3] by blast
  have "es1 \<noteq> []" using s(2,3) r(2) open_iff [of "[]" "reading k"] by auto
  then obtain es0 e where es1: "es1 = es0 @ [e]" using rev_exhaust by blast
  obtain k1 where k1: "run es0 (reading k) = Some k1" "?busy k1" "interrupt e k1 = Some k2"
    using s(2,4) es1 by (auto simp: run_append bind_eq_Some_conv)
  then obtain l where l: "line (tm k1 (cur_term_id k)) = (True, l)"
    using open_iff [OF k1(1)] by (cases "line (tm k1 (cur_term_id k))") auto
  have "line (tm k2 (cur_term_id k)) = (False, l @ [0x0A])"
    using closing_event [OF ok [OF k1(1)] k1(3) _ _ l] c s(3) open_iff [OF s(2)] by auto
  moreover have "sys k2 = sys k" using run_sys [OF s(2)] r(3) by simp
  moreover have "es @ [Key ENTER_PRESS] = es0 @ e # es2" using s(1) es1 by simp
  moreover have "spin ?busy (es @ Key ENTER_PRESS # rest) (reading k) = Some (es2 @ rest, k2)" using s(5) by simp
  ultimately show ?thesis using k1 l ok [OF s(2)] by blast
qed

lemma bytes_at_store: "length bs \<le> 4294967296 \<Longrightarrow> bytes_at (store_bytes m a bs) a (length bs) = bs"
  by (rule nth_equalityI) (simp_all add: store_bytes_in)

lemma bytes_at_take: "n \<le> m \<Longrightarrow> bytes_at mm a n = take n (bytes_at mm a m)"
  by (simp add: bytes_at_def take_map take_upt)

lemma linear_take: "linear k a pa n \<Longrightarrow> m \<le> n \<Longrightarrow> linear k a pa m"
  by (simp add: linear_def)

lemma linear_cong: "pg k = pg k' \<Longrightarrow> linear k a pa n = linear k' a pa n"
  by (simp add: linear_def)

lemma linear_drop:
  assumes "linear k a pa (m + n)"
  shows "linear k (a + of_nat m) (pa + of_nat m) n"
  unfolding linear_def
proof (intro allI impI)
  fix i assume "i < n"
  then have "translate (pg k) False (a + of_nat (m + i)) = Some (pa + of_nat (m + i))"
    using assms by (simp only: linear_def nat_add_left_cancel_less)
  then show "translate (pg k) False (a + of_nat m + of_nat i) = Some (pa + of_nat m + of_nat i)"
    by (simp only: of_nat_add add.assoc)
qed

text \<open>Two stores to one mapped buffer.\<close>

lemma vstore_append:
  assumes "linear k a pa (length xs + length ys)"
  shows "Option.bind (vstore k a xs) (\<lambda>k. vstore k (a + of_nat (length xs)) ys)
    = Some (k\<lparr>mem := store_bytes (mem k) pa (xs @ ys)\<rparr>)"
proof -
  have "vstore k a xs = Some (k\<lparr>mem := store_bytes (mem k) pa xs\<rparr>)"
    by (rule vstore_linear, rule linear_take [OF assms]) simp
  moreover have "linear (k\<lparr>mem := store_bytes (mem k) pa xs\<rparr>) (a + of_nat (length xs)) (pa + of_nat (length xs)) (length ys)"
    using linear_drop [OF assms] by simp
  ultimately show ?thesis by (simp add: vstore_linear store_bytes_append)
qed

lemma deliver_line:
  assumes "kbd_ok k" and "0 \<le> c" and "c < 3" and "line (tm k c) = (False, l @ [0x0A])" and "0 < n"
    and "linear k buf pa (nat (min n 128))"
    and "r = (if n < buf_index (tm k c) then n else buf_index (tm k c))"
  shows "r = min n (int (length l) + 1)"
    and "Option.bind (vstore k buf (take (nat (r - 1)) (keyboard_buf (tm k c)))) (\<lambda>k.
        Option.bind (vstore k (buf + word_of_int (r - 1)) [0x0A]) (\<lambda>k. Some (r, k)))
      = Some (r, k\<lparr>mem := store_bytes (mem k) pa (take (nat r - 1) l @ [0x0A])\<rparr>)"
proof -
  have ok: "kbd_term_ok (tm k c)" using kbd_ok_tm [OF assms(1-3)] .
  have len: "nat (buf_index (tm k c)) = length l + 1" using line_len [OF ok] assms(4) by simp
  then show r: "r = min n (int (length l) + 1)" using assms(7) by auto
  have b: "length l + 1 \<le> 128" using ok len by (auto simp: kbd_term_ok_def)
  have "take (nat (buf_index (tm k c))) (keyboard_buf (tm k c)) = l @ [0x0A]" using assms(4) by (simp add: line_def)
  then have k: "take (nat r - 1) (take (length l + 1) (keyboard_buf (tm k c))) = take (nat r - 1) (l @ [0x0A])"
    using len by simp
  have le: "nat r - 1 \<le> length l" using r by auto
  then have t: "take (nat (r - 1)) (keyboard_buf (tm k c)) = take (nat r - 1) l"
    using k r assms(5) by (simp add: nat_diff_distrib min_absorb1)
  have tl: "length (take (nat r - 1) l) = nat r - 1" using r by auto
  have wr: "word_of_int (r - 1) = (of_nat (nat r - 1) :: addr)"
  proof -
    have "r - 1 = int (nat r - 1)" using r assms(5) by auto
    then show ?thesis by (simp only: of_int_of_nat_eq)
  qed
  have "nat r - 1 + 1 \<le> nat (min n 128)" using r b assms(5) by auto
  then have "linear k buf pa (length (take (nat r - 1) l) + length [0x0A :: byte])"
    using linear_take [OF assms(6)] tl by simp
  from vstore_append [OF this] show "Option.bind (vstore k buf (take (nat (r - 1)) (keyboard_buf (tm k c)))) (\<lambda>k.
        Option.bind (vstore k (buf + word_of_int (r - 1)) [0x0A]) (\<lambda>k. Some (r, k)))
      = Some (r, k\<lparr>mem := store_bytes (mem k) pa (take (nat r - 1) l @ [0x0A])\<rparr>)"
    unfolding t wr tl by (simp add: bind_eq_Some_conv)
qed

section \<open>The virtual clock\<close>

definition ticks :: "event list \<Rightarrow> nat" where
  "ticks es = length (filter (\<lambda>e. e = Tick) es)"

lemma ticks_simps [simp]:
  "ticks [] = 0" "ticks (es @ es') = ticks es + ticks es'" "ticks (Key sc # es) = ticks es" "ticks (Tick # es) = Suc (ticks es)"
  by (simp_all add: ticks_def)

lemma prefix_ticks: "n \<le> ticks es \<Longrightarrow> \<exists>es1 es2. es = es1 @ es2 \<and> ticks es1 = n"
proof (induction es arbitrary: n)
  case (Cons e es)
  show ?case
  proof (cases e)
    case (Key sc)
    then obtain es1 es2 where "es = es1 @ es2" "ticks es1 = n" using Cons.IH [of n] Cons.prems by auto
    then show ?thesis using Key by (intro exI [of _ "e # es1"] exI [of _ es2]) simp
  next
    case Tick
    show ?thesis
    proof (cases n)
      case (Suc m)
      then obtain es1 es2 where "es = es1 @ es2" "ticks es1 = m" using Cons.IH [of m] Cons.prems Tick by auto
      then show ?thesis using Tick Suc by (intro exI [of _ "e # es1"] exI [of _ es2]) simp
    qed (intro exI [of _ "[]"] exI [of _ "e # es"], simp)
  qed
qed simp

lemma run_clock:
  "run es k = Some k' \<Longrightarrow> - 2147483648 \<le> rtc_counter_global k \<Longrightarrow>
    rtc_counter_global k + int (ticks es) < 2147483648 \<Longrightarrow>
    rtc_counter_global k' = rtc_counter_global k + int (ticks es)
    \<and> rtc_exe_flag k' = (if ticks es = 0 then rtc_exe_flag k else 1)"
proof (induction es arbitrary: k)
  case (Cons e es)
  obtain k1 where k1: "interrupt e k = Some k1" "run es k1 = Some k'"
    using Cons.prems(1) by (auto simp: bind_eq_Some_conv)
  show ?case
  proof (cases e)
    case (Key sc)
    then show ?thesis
      using Cons.IH [OF k1(2)] Cons.prems(2,3) k1(1) idle_clock [OF idle_keyboard_handler [of sc k k1]] by simp
  next
    case Tick
    then have "rtc_counter_global k1 = rtc_counter_global k + 1" "rtc_exe_flag k1 = 1"
      using k1(1) Cons.prems(2,3) by (auto intro: rtc_handler_counter)
    then show ?thesis using Cons.IH [OF k1(2)] Cons.prems(2,3) Tick by simp
  qed
qed simp

lemma rtc_div_pos: "1 \<le> rtc_div k fd"
proof -
  have "0 \<le> sint (x div 3)" for x :: u32
  proof -
    have "unat (x div 3) = unat x div 3" by (simp add: unat_div)
    then have "unat (x div 3) < 2147483648" using u32_lt [of x] by linarith
    then have "uint (x div 3) < 2147483648" by (simp only: uint_nat)
    then have "signed_take_bit 31 (uint (x div 3)) = uint (x div 3)"
      by (intro signed_take_bit_int_eq_self) (simp_all add: order_trans [OF _ uint_ge_0])
    then show ?thesis by (simp add: sint_uint)
  qed
  from this [of "file_position (fd_entry k fd)"] show ?thesis by (simp add: rtc_div_def Let_def)
qed

lemma next_multiple: "1 \<le> (d :: int) \<Longrightarrow> \<exists>n. n < nat d \<and> (c + int n) mod d = 0"
  by (intro exI [of _ "nat ((- c) mod d)"]) (simp add: mod_add_right_eq nat_less_iff)

text \<open>The first wait of \<open>rtc_read\<close>: at most one tick.\<close>

lemma wait_for_tick:
  assumes "kbd_ok k" and "1 \<le> ticks evs" and "0 \<le> rtc_counter_global k"
    and "rtc_counter_global k + int (ticks evs) < 2147483648"
  shows "\<exists>es1 es2 k1. evs = es1 @ es2 \<and> run es1 k = Some k1 \<and> ticks es1 \<le> 1
    \<and> spin (\<lambda>k. rtc_exe_flag k = 0) evs k = Some (es2, k1)"
proof (cases "rtc_exe_flag k = 0")
  case False
  then have "spin (\<lambda>k. rtc_exe_flag k = 0) evs k = Some (evs, k)" by (cases evs) simp_all
  then show ?thesis by (intro exI [of _ "[]"] exI [of _ evs] exI [of _ k]) simp
next
  case True
  obtain k' where k': "run evs k = Some k'" using run_total [OF assms(1)] by blast
  then have "rtc_exe_flag k' \<noteq> 0" using run_clock [OF k'] assms(2-4) by simp
  then obtain es1 es2 k2 where s: "evs = es1 @ es2" "run es1 k = Some k2"
    "es1 \<noteq> [] \<longrightarrow> (\<exists>k1. run (butlast es1) k = Some k1 \<and> rtc_exe_flag k1 = 0)"
    "spin (\<lambda>k. rtc_exe_flag k = 0) (evs @ []) k = Some (es2 @ [], k2)"
    using spin_stops [OF assms(1) k', of "\<lambda>k. rtc_exe_flag k = 0" "[]"] by blast
  have "ticks es1 \<le> 1"
  proof (cases "es1 = []")
    case False
    then obtain es0 e where e: "es1 = es0 @ [e]" using rev_exhaust by blast
    obtain k1 where k1: "run es0 k = Some k1" "rtc_exe_flag k1 = 0" using s(3) e by auto
    have "ticks es0 = 0" using run_clock [OF k1(1)] k1(2) s(1) e assms(3,4) by (auto split: if_splits)
    then show ?thesis using e by (cases e) simp_all
  qed simp
  then show ?thesis using s by auto
qed

text \<open>A state with process 0 current, for witnesses.\<close>

definition demo_process :: kernel where
  "demo_process = demo_kernel\<lparr>file_array := Some 0\<rparr>"

lemma demo_process_ok: "kbd_ok demo_process"
  using demo_kbd_ok by (subst kbd_ok_frame [of _ demo_kernel]) (simp_all add: demo_process_def)

section \<open>Writing to the terminal\<close>

lemma write_chars_eq:
  "linear k a pa n \<Longrightarrow> console_ok k \<Longrightarrow> (\<And>i. i < n \<Longrightarrow> pa + of_nat i \<notin> page (video_mem_local k)) \<Longrightarrow>
    write_chars n a k = Some (fold putc (filter (\<lambda>c. c \<noteq> 0) (bytes_at (mem k) pa n)) k)"
proof (induction n arbitrary: a pa k)
  case (Suc n)
  note l = linear_Suc [OF Suc.prems(1)]
  define k1 where "k1 = (if mem k pa = 0 then k else putc (mem k pa) k)"
  have core: "core k1 = core k" by (simp add: k1_def)
  have ok1: "console_ok k1" and vid: "video_mem_local k1 = video_mem_local k"
    using Suc.prems(2) by (simp_all add: k1_def putc_laws)
  have out: "pa + 1 + of_nat i \<notin> page (video_mem_local k)" if "i < n" for i
    using Suc.prems(3) [of "Suc i"] that by (simp add: add.assoc)
  have "linear k1 (a + 1) (pa + 1) n" using l(2) core_fields(6) [OF core] by (simp add: linear_def)
  moreover have "bytes_at (mem k1) (pa + 1) n = bytes_at (mem k) (pa + 1) n"
    using out Suc.prems(2) by (intro bytes_at_cong) (simp add: k1_def putc_laws)
  ultimately have "write_chars n (a + 1) k1 = Some (fold putc (filter (\<lambda>c. c \<noteq> 0) (bytes_at (mem k) (pa + 1) n)) k1)"
    using Suc.IH [of k1 "a + 1" "pa + 1"] ok1 vid out by simp
  then show ?case using l(1) by (simp add: vread_def k1_def bytes_at_Suc)
qed simp

section \<open>Descriptors of one process\<close>

lemma fd_upd_same [simp]: "upd_fd fd (\<lambda>e. e) k = k"
  by (simp add: upd_fd_def fd_entry_def Let_def)

lemma upd_fd_frame [simp]:
  "mem (upd_fd fd f k) = mem k" "pg (upd_fd fd f k) = pg k" "filesys (upd_fd fd f k) = filesys k"
  "file_array (upd_fd fd f k) = file_array k" "terminals (upd_fd fd f k) = terminals k"
  "cur_term_id (upd_fd fd f k) = cur_term_id k" "prog_counter (upd_fd fd f k) = prog_counter k"
  "length (pcbs (upd_fd fd f k)) = length (pcbs k)" "tm (upd_fd fd f k) i = tm k i"
  "active_term_idx (upd_fd fd f k) = active_term_idx k" "program_exception_flag (upd_fd fd f k) = program_exception_flag k"
  by (simp_all add: upd_fd_def Let_def tm_def)

text \<open>The current process has a PCB with its eight descriptors.\<close>

definition files_ok :: "kernel \<Rightarrow> bool" where
  "files_ok k \<longleftrightarrow> (\<exists>p. file_array k = Some p \<and> p < length (pcbs k) \<and> length (pcb_file_array (pcbs k ! p)) = 8)"

lemma files_ok_upd [simp]: "files_ok (upd_fd fd f k) = files_ok k"
  by (auto simp: files_ok_def upd_fd_def Let_def nth_list_update)

lemma fd_entry_upd:
  assumes "files_ok k" and "0 \<le> fd" and "fd < 8" and "0 \<le> i"
  shows "fd_entry (upd_fd fd f k) i = (if i = fd then f (fd_entry k fd) else fd_entry k i)"
  using assms by (auto simp: files_ok_def fd_entry_def upd_fd_def Let_def nth_list_update nat_eq_iff2)

lemma fd_entry_mem [simp]: "fd_entry (k\<lparr>mem := m\<rparr>) i = fd_entry k i"
  by (simp add: fd_entry_def)

section \<open>Reading files\<close>

lemma vstore_Nil [simp]: "vstore k a [] = Some k" by simp

lemma file_read_eq:
  assumes "file_array k \<noteq> None" and "2 \<le> fd" and "fd \<le> 7" and "buf \<noteq> 0" and "0 \<le> nbytes"
    and "read_data (filesys k) (mem k) (inode_idx (fd_entry k fd)) (file_position (fd_entry k fd)) True nbytes = (bs, int n)"
    and "linear k buf pa (length bs)"
  shows "file_read fd buf nbytes k = Some (int n,
    upd_fd fd (\<lambda>e. e\<lparr>file_position := file_position e + of_nat n\<rparr>) (k\<lparr>mem := store_bytes (mem k) pa bs\<rparr>))"
  using assms by (simp add: file_read_def vstore_linear)

section \<open>Clock rates\<close>

definition rtc_rates :: "nat set" where
  "rtc_rates = {1, 2, 4, 8, 16, 32, 64, 128, 256, 512}"

lemma and_pred: "0 < (n :: nat) \<Longrightarrow> n AND (n - 1) = 0 \<longleftrightarrow> n = 1 \<or> even n \<and> n div 2 AND (n div 2 - 1) = 0"
proof -
  assume n: "0 < n"
  have r: "n AND (n - 1) = of_bool (odd n \<and> odd (n - 1)) + 2 * ((n div 2) AND ((n - 1) div 2))"
    by (rule and_rec)
  show ?thesis
  proof (cases "even n")
    case True
    then have "(n - 1) div 2 = n div 2 - 1" using n by (auto elim!: evenE)
    then show ?thesis using r True n by auto
  next
    case False
    then have "(n - 1) div 2 = n div 2" "even (n - 1)" by (auto elim!: oddE)
    then show ?thesis using r False by (auto elim!: oddE)
  qed
qed

lemma and_pred_rates: "0 < n \<Longrightarrow> n \<le> 512 \<Longrightarrow> (n AND (n - 1) = 0) = (n \<in> rtc_rates)"
proof -
  define P where "P b n \<longleftrightarrow> (n AND (n - 1) = (0 :: nat)) = (\<exists>i\<le>b. n = 2 ^ i)" for b n :: nat
  have P: "P b n" if "0 < n" "n \<le> 2 ^ b" for b n
    using that
  proof (induction b arbitrary: n)
    case 0
    then have "n = 1" by simp
    then show ?case by (simp add: P_def)
  next
    case (Suc b)
    show ?case
    proof (cases "n = 1 \<or> odd n")
      case True
      then show ?thesis using Suc.prems and_pred [of n]
        by (auto simp: P_def intro: exI [of _ 0])
    next
      case False
      then obtain m where m: "n = 2 * m" by (auto elim: evenE)
      have "P b m" using Suc m by auto
      moreover have "(\<exists>i\<le>Suc b. n = 2 ^ i) \<longleftrightarrow> (\<exists>i\<le>b. m = 2 ^ i)"
      proof
        assume "\<exists>i\<le>Suc b. n = 2 ^ i"
        then obtain i where i: "i \<le> Suc b" "n = 2 ^ i" by blast
        with False obtain j where "i = Suc j" by (cases i) auto
        then show "\<exists>i\<le>b. m = 2 ^ i" using i m by auto
      next
        assume "\<exists>i\<le>b. m = 2 ^ i"
        then obtain i where "i \<le> b" "m = 2 ^ i" by blast
        then show "\<exists>i\<le>Suc b. n = 2 ^ i" using m by (intro exI [of _ "Suc i"]) simp
      qed
      ultimately show ?thesis using and_pred [of n] Suc.prems m False by (simp add: P_def)
    qed
  qed
  assume n: "0 < n" "n \<le> 512"
  have "i \<le> 9 \<longleftrightarrow> i \<in> {0, 1, 2, 3, 4, 5, 6, 7, 8, 9}" for i :: nat unfolding insert_iff empty_iff by presburger
  then have "(\<exists>i\<le>9. n = 2 ^ i) \<longleftrightarrow> (\<exists>i \<in> {0, 1, 2, 3, 4, 5, 6, 7, 8, 9}. n = 2 ^ i)" by (simp only: Bex_def)
  also have "\<dots> \<longleftrightarrow> n \<in> rtc_rates" by (simp add: rtc_rates_def)
  finally show ?thesis using P [of n 9] n by (simp add: P_def)
qed

lemma power2_check:
  assumes "freq \<noteq> (0 :: u32)"
  shows "freq AND (freq - 1) = 0 \<and> freq \<le> 512 \<longleftrightarrow> unat freq \<in> rtc_rates"
proof -
  have p: "0 < unat freq" using assms by (simp add: unat_gt_0)
  have "unat (freq - 1) = unat freq - 1" using p by (subst unat_sub) (simp_all add: word_le_nat_alt)
  then have "unat (freq AND (freq - 1)) = unat freq AND (unat freq - 1)" by (simp add: unsigned_and_eq)
  then have "freq AND (freq - 1) = 0 \<longleftrightarrow> unat freq AND (unat freq - 1) = 0"
    by (simp only: flip: unat_eq_0)
  moreover have "freq \<le> 512 \<longleftrightarrow> unat freq \<le> 512" by (simp add: word_le_nat_alt)
  moreover have "unat freq \<in> rtc_rates \<Longrightarrow> unat freq \<le> 512" unfolding rtc_rates_def by (elim insertE emptyE) simp_all
  ultimately show ?thesis using and_pred_rates [OF p] by (cases "unat freq \<le> 512") auto
qed

section \<open>The driver interface\<close>

text \<open>
  What \<open>open\<close> and \<open>close\<close> rely on: a driver's own open and close touch nothing but the descriptor
  they are given, and leave alone whether it is in use and which table it has.
\<close>

definition only_fd :: "int \<Rightarrow> kernel \<Rightarrow> kernel \<Rightarrow> bool" where
  "only_fd fd k k' \<longleftrightarrow> (\<exists>f. k' = upd_fd fd f k \<and> (\<forall>e. flags (f e) = flags e \<and> op_ptr (f e) = op_ptr e))"

lemma only_fd_refl [simp]: "only_fd fd k k"
  unfolding only_fd_def by (intro exI [of _ "\<lambda>e. e"]) simp

lemma only_fd_upd: "(\<And>e. flags (f e) = flags e \<and> op_ptr (f e) = op_ptr e) \<Longrightarrow> only_fd fd k (upd_fd fd f k)"
  unfolding only_fd_def by blast

lemma upd_fd_twice:
  assumes "files_ok k" and "0 \<le> fd" and "fd < 8"
  shows "upd_fd fd g (upd_fd fd f k) = upd_fd fd (\<lambda>e. g (f e)) k"
proof -
  have "g (fd_entry (upd_fd fd f k) fd) = g (f (fd_entry k fd))" using fd_entry_upd [OF assms(1-3), of fd f] assms(2) by simp
  then show ?thesis using assms by (auto simp: upd_fd_def Let_def files_ok_def)
qed

locale file_driver =
  fixes drv_open :: "int \<Rightarrow> kernel \<Rightarrow> int \<times> kernel" and drv_close :: "int \<Rightarrow> kernel \<Rightarrow> int \<times> kernel"
  assumes open_only: "files_ok k \<Longrightarrow> 2 \<le> fd \<Longrightarrow> fd \<le> 7 \<Longrightarrow> only_fd fd k (snd (drv_open fd k))"
    and close_only: "files_ok k \<Longrightarrow> 2 \<le> fd \<Longrightarrow> fd \<le> 7 \<Longrightarrow> only_fd fd k (snd (drv_close fd k))"
    and close_zero: "files_ok k \<Longrightarrow> 2 \<le> fd \<Longrightarrow> fd \<le> 7 \<Longrightarrow> fst (drv_close fd k) = 0"
begin

lemma opened:
  assumes "files_ok k" and "2 \<le> fd" and "fd \<le> 7" and "\<And>e. flags (g e) = v \<and> op_ptr (g e) = t"
  shows "\<exists>f. snd (drv_open fd (upd_fd fd g k)) = upd_fd fd f k \<and> (\<forall>e. flags (f e) = v \<and> op_ptr (f e) = t)"
proof -
  obtain f where "snd (drv_open fd (upd_fd fd g k)) = upd_fd fd f (upd_fd fd g k)"
    "\<And>e. flags (f e) = flags e \<and> op_ptr (f e) = op_ptr e"
    using open_only [of "upd_fd fd g k" fd] assms(1-3) by (auto simp: only_fd_def)
  then show ?thesis using assms by (intro exI [of _ "\<lambda>e. f (g e)"]) (simp add: upd_fd_twice)
qed

lemma closed:
  assumes "files_ok k" and "2 \<le> fd" and "fd \<le> 7" and "\<And>e. flags (g e) = v"
  shows "\<exists>f. drv_close fd (upd_fd fd g k) = (0, upd_fd fd f k) \<and> (\<forall>e. flags (f e) = v)"
proof -
  obtain f where f: "snd (drv_close fd (upd_fd fd g k)) = upd_fd fd f (upd_fd fd g k)"
    "\<And>e. flags (f e) = flags e" using close_only [of "upd_fd fd g k" fd] assms(1-3) by (auto simp: only_fd_def)
  have "fst (drv_close fd (upd_fd fd g k)) = 0" using close_zero [of "upd_fd fd g k" fd] assms(1-3) by simp
  then have "drv_close fd (upd_fd fd g k) = (0, upd_fd fd (\<lambda>e. f (g e)) k)"
    using f(1) assms by (simp add: upd_fd_twice prod_eq_iff)
  then show ?thesis using f(2) assms(4) by (intro exI [of _ "\<lambda>e. f (g e)"]) simp
qed

end

interpretation rtcd: file_driver rtc_open rtc_close
  by unfold_locales (auto simp: rtc_open_def rtc_close_def Let_def upd_fd_twice intro: only_fd_upd)

interpretation dird: file_driver directory_open directory_close
  by unfold_locales (auto simp: directory_open_def directory_close_def Let_def upd_fd_twice intro: only_fd_upd)

interpretation regd: file_driver file_open file_close
  by unfold_locales (auto simp: file_open_def file_close_def files_ok_def intro: only_fd_upd)

interpretation termd: file_driver terminal_open terminal_close
  by unfold_locales (simp_all add: terminal_open_def terminal_close_def)

text \<open>The same for the operation tables.\<close>

lemma op_opened:
  assumes "files_ok k" and "2 \<le> fd" and "fd \<le> 7" and "\<And>e. flags (g e) = v \<and> op_ptr (g e) = t" and "tbl \<noteq> OP_NULL"
  shows "\<exists>r f. op_open tbl fd (upd_fd fd g k) = Some (r, upd_fd fd f k) \<and> (\<forall>e. flags (f e) = v \<and> op_ptr (f e) = t)"
  using rtcd.opened [OF assms(1-4)] dird.opened [OF assms(1-4)] regd.opened [OF assms(1-4)]
    termd.opened [OF assms(1-4)] assms(5)
  by (cases tbl) (auto simp: op_open_def prod_eq_iff)

lemma op_closed:
  assumes "files_ok k" and "2 \<le> fd" and "fd \<le> 7" and "\<And>e. flags (g e) = v" and "tbl \<noteq> OP_NULL"
  shows "\<exists>f. op_close tbl fd (upd_fd fd g k) = Some (0, upd_fd fd f k) \<and> (\<forall>e. flags (f e) = v)"
  using rtcd.closed [OF assms(1-4)] dird.closed [OF assms(1-4)] regd.closed [OF assms(1-4)]
    termd.closed [OF assms(1-4)] assms(5)
  by (cases tbl) (auto simp: op_close_def)

section \<open>Reading a line\<close>

lemma terminal_read_line:
  assumes "kbd_ok k" and "run es (reading k) = Some k0" and "active_term_idx k0 = cur_term_id k"
    and "buf \<noteq> 0" and "0 < nbytes" and "linear k buf pa (nat (min nbytes 128))"
  shows "\<exists>es1 e es2 k1 k2 l r. es @ [Key ENTER_PRESS] = es1 @ e # es2
    \<and> run es1 (reading k) = Some k1 \<and> line (tm k1 (cur_term_id k)) = (True, l)
    \<and> interrupt e k1 = Some k2 \<and> line (tm k2 (cur_term_id k)) = (False, l @ [0x0A])
    \<and> kbd_ok k2 \<and> sys k2 = sys k \<and> length l \<le> 127 \<and> r = min nbytes (int (length l) + 1)
    \<and> terminal_read (es @ Key ENTER_PRESS # rest) 0 buf nbytes k
        = Some (r, k2\<lparr>mem := store_bytes (mem k2) pa (take (nat r - 1) l @ [0x0A])\<rparr>)"
proof -
  let ?c = "cur_term_id k"
  note c = kbd_ok_cur [OF assms(1)]
  obtain es1 e es2 k1 k2 l where w: "es @ [Key ENTER_PRESS] = es1 @ e # es2" "run es1 (reading k) = Some k1"
    "line (tm k1 ?c) = (True, l)" "interrupt e k1 = Some k2" "line (tm k2 ?c) = (False, l @ [0x0A])"
    "kbd_ok k2" "sys k2 = sys k"
    "spin (\<lambda>k. TERMINAL_READ_FLAG (tm k (cur_term_id k)) \<noteq> 0) (es @ Key ENTER_PRESS # rest) (reading k) = Some (es2 @ rest, k2)"
    using wait_for_line [OF assms(1-3), of rest] by blast
  have c2: "cur_term_id k2 = ?c" using sys_fields(7) [OF w(7)] .
  have lin: "linear k2 buf pa (nat (min nbytes 128))" using assms(6) linear_cong [OF sys_fields(6) [OF w(7)]] by simp
  define r where "r = (if nbytes < buf_index (tm k2 ?c) then nbytes else buf_index (tm k2 ?c))"
  note d = deliver_line [OF w(6) _ _ w(5) assms(5) lin r_def]
  have g: "(buf = 0 \<or> nbytes < 0 \<or> (0 :: int) \<noteq> 0) = False" using assms(4,5) by simp
  have "terminal_read (es @ Key ENTER_PRESS # rest) 0 buf nbytes k
      = Some (r, k2\<lparr>mem := store_bytes (mem k2) pa (take (nat r - 1) l @ [0x0A])\<rparr>)"
    using d(2) c
    unfolding terminal_read_def g if_False reading_eq [OF assms(1)] w(8) terminal_read_end_def Let_def
      Option.bind.simps prod.case c2 r_def [symmetric] by blast
  moreover have "length l \<le> 127"
    using kbd_ok_tm [OF w(6), of ?c] c line_len [of "tm k2 ?c"] w(5) by (auto simp: kbd_term_ok_def)
  moreover have "r = min nbytes (int (length l) + 1)" using d(1) c by blast
  ultimately show ?thesis using w(1-7) by blast
qed

section \<open>Properties\<close>

text \<open>\<open>rtc_read\<close> in a time slice: if the timer does not switch to another program during the wait, as many
  clock interrupts as the divisor of the file are enough, among any number of key strokes.  The call returns 0,
  after at most that many ticks, at a multiple of the divisor, with the tick consumed, and
  leaves processes, open files and page tables alone.  (A program that is switched away can miss the
  multiple: the code gives no bound then.)\<close>

lemma rtc_read_returns:
  assumes "kbd_ok k" and "2 \<le> fd" and "fd \<le> 7" and "rtc_div k fd \<le> int (ticks evs)"
    and "0 \<le> rtc_counter_global k" and "rtc_counter_global k + int (ticks evs) < 2147483648"
  shows "\<exists>k'. rtc_read evs fd buf nbytes k = Some (0, k') \<and> rtc_exe_flag k' = 0
    \<and> rtc_counter_global k' mod rtc_div k fd = 0
    \<and> rtc_counter_global k \<le> rtc_counter_global k'
    \<and> rtc_counter_global k' \<le> rtc_counter_global k + rtc_div k fd
    \<and> sys k' = sys k"
proof -
  let ?d = "rtc_div k fd" and ?c = rtc_counter_global
  note d = rtc_div_pos [of k fd]
  obtain es1 es2 k1 where w: "evs = es1 @ es2" "run es1 k = Some k1" "ticks es1 \<le> 1"
    "spin (\<lambda>k. rtc_exe_flag k = 0) evs k = Some (es2, k1)"
    using wait_for_tick [OF assms(1) _ assms(5,6)] d assms(4) by auto
  have ok1: "kbd_ok k1" using run_total [OF assms(1), of es1] w(2) by auto
  have c1: "?c k1 = ?c k + int (ticks es1)" using run_clock [OF w(2)] assms(5,6) w(1) by simp
  obtain n where n: "n < nat ?d" "(?c k1 + int n) mod ?d = 0" using next_multiple [OF d, of "?c k1"] by (elim exE conjE)
  have nt: "ticks es1 + n \<le> nat ?d" "n \<le> ticks es2" using n(1) w(1,3) assms(4) d by simp_all
  obtain es3 es4 where e3: "es2 = es3 @ es4" "ticks es3 = n" using prefix_ticks [OF nt(2)] by blast
  obtain k3 where k3: "run es3 k1 = Some k3" using run_total [OF ok1] by blast
  have clk: "?c k' = ?c k1 + int (ticks es)" if "run es k1 = Some k'" "ticks es \<le> n" for es k'
    using run_clock [OF that(1)] that(2) c1 assms(5,6) w(1) e3 by simp
  define busy where "busy k' \<longleftrightarrow> ?c k' mod ?d \<noteq> 0" for k' :: kernel
  have "\<not> busy k3" using clk [OF k3] e3(2) n(2) by (simp add: busy_def)
  then obtain es5 es6 k2 where s: "es3 = es5 @ es6" "run es5 k1 = Some k2" "\<not> busy k2"
    "spin busy (es3 @ es4) k1 = Some (es6 @ es4, k2)"
    using spin_stops [OF ok1 k3, of busy es4] by blast
  have sys1: "sys k1 = sys k" and sys2: "sys k2 = sys k" using run_sys [OF w(2)] run_sys [OF s(2)] by simp_all
  have d1: "rtc_div k1 fd = ?d"
    using sys_fields(1,2) [OF sys1] by (simp add: rtc_div_def fd_entry_def)
  have g: "(fd < 2 \<or> fd > 7) = False" using assms(2,3) by simp
  have "rtc_read evs fd buf nbytes k = Some (0, k2\<lparr>rtc_exe_flag := 0\<rparr>)"
    using s(4) unfolding rtc_read_def g if_False w(4) Option.bind.simps prod.case Let_def d1 e3(1) busy_def
    by (simp only: Option.bind.simps prod.case)
  moreover have "?c k \<le> ?c k2 \<and> ?c k2 \<le> ?c k + ?d"
  proof -
    have "ticks es5 \<le> n" using s(1) e3(2) by simp
    then have "?c k2 = ?c k + int (ticks es1 + ticks es5)" "ticks es1 + ticks es5 \<le> nat ?d"
      using clk [OF s(2)] c1 nt(1) by simp_all
    then show ?thesis using d by linarith
  qed
  ultimately show ?thesis using s(3) sys2 by (simp add: busy_def)
qed

lemma rtc_read_returns_witness:
  "\<exists>k'. rtc_read [Key 0x1E, Tick] 2 0 4 demo_process = Some (0, k') \<and> rtc_counter_global k' \<le> 1"
proof -
  have "rtc_div demo_process 2 = 1" "rtc_counter_global demo_process = 0"
    by (simp_all add: rtc_div_def fd_entry_def demo_process_def demo_kernel_def start_kernel_def zero_pcb_def zero_entry_def)
  then show ?thesis using rtc_read_returns [OF demo_process_ok, of 2 "[Key 0x1E, Tick]" 0 4] by auto
qed

text \<open>\<open>terminal_write\<close> prints the bytes of the buffer in order, leaving out NULs, and
  returns the number asked for, for every buffer that is mapped and not on the screen.\<close>

lemma terminal_write_prints:
  assumes "console_ok k" and "buf \<noteq> 0" and "0 \<le> nbytes" and "linear k buf pa (nat nbytes)"
    and "\<And>i. i < nat nbytes \<Longrightarrow> pa + of_nat i \<notin> page (video_mem_local k)"
  shows "terminal_write 1 buf nbytes k
    = Some (nbytes, fold putc (filter (\<lambda>c. c \<noteq> 0) (bytes_at (mem k) pa (nat nbytes))) k)"
  using assms by (simp add: terminal_write_def write_chars_eq)

lemma terminal_write_prints_witness:
  "terminal_write 1 0x500000 1 demo_kernel = Some (1, putc 1 demo_kernel)"
proof -
  have l: "linear demo_kernel 0x500000 0x500000 1"
    by (simp add: linear_def demo_kernel_def start_kernel_def zero_paging_def translate_def)
  have o: "(0x500000 :: addr) + of_nat i \<notin> page (video_mem_local demo_kernel)" if "i < 1" for i
    using that by (simp add: page_def video_mem_local_def demo_kernel_def start_kernel_def VIDEO_MEM_def)
  have "bytes_at (mem demo_kernel) 0x500000 1 = [1]"
    by (simp add: bytes_at_def at_def demo_kernel_def start_kernel_def demo_mem_def)
  then show ?thesis
    using terminal_write_prints [OF demo_console_ok, of "0x500000" 1 "0x500000"] l o by simp
qed

text \<open>C27: reading a regular file: with the position inside the file and good blocks,
  \<open>file_read\<close> returns the number of bytes left, at most the number asked for (0 at the end of
  the file), the buffer starts with these bytes of the file, the position of the descriptor
  moves on by their number, and no other descriptor and no memory outside the buffer changes.\<close>

theorem file_read_correct:
  assumes "files_ok k" and "2 \<le> fd" and "fd \<le> 7" and "buf \<noteq> 0" and "0 \<le> nbytes" and "nbytes < 2147483648"
    and "ino = inode_idx (fd_entry k fd)" and "pos = file_position (fd_entry k fd)"
    and "ino < inode_num (filesys k)" and "unat pos + nat nbytes < 4294967296"
    and "unat pos \<le> unat (inode_length (filesys k) (mem k) ino)"
    and "\<And>i. unat pos \<le> i \<Longrightarrow> i < unat pos + nat nbytes \<Longrightarrow>
      i \<le> unat (inode_length (filesys k) (mem k) ino) \<Longrightarrow> block_ok (filesys k) (mem k) ino i"
    and "n = min (nat nbytes) (unat (inode_length (filesys k) (mem k) ino) - unat pos)"
    and "linear k buf pa (min (nat nbytes) (Suc n))"
  shows "\<exists>k'. file_read fd buf nbytes k = Some (int n, k')
    \<and> bytes_at (mem k') pa n = map (file_byte (filesys k) (mem k) ino) [unat pos..<unat pos + n]
    \<and> fd_entry k' fd = (fd_entry k fd)\<lparr>file_position := pos + of_nat n\<rparr>
    \<and> (\<forall>i. 0 \<le> i \<and> i \<noteq> fd \<longrightarrow> fd_entry k' i = fd_entry k i)
    \<and> (\<forall>a. (\<forall>i < min (nat nbytes) (Suc n). a \<noteq> pa + of_nat i) \<longrightarrow> mem k' a = mem k a)"
proof -
  define left where "left = unat (inode_length (filesys k) (mem k) ino) - unat pos"
  define m where "m = min (nat nbytes) (Suc left)"
  define bs where "bs = map (file_byte (filesys k) (mem k) ino) [unat pos..<unat pos + m]"
  have r: "read_data (filesys k) (mem k) ino pos True nbytes = (bs, int n)"
    using read_data_inside [OF assms(9,5,6,10,11,12)] assms(13) by (simp add: left_def m_def bs_def Let_def)
  have m: "m = min (nat nbytes) (Suc n)" "length bs = m"
    unfolding m_def left_def bs_def assms(13) by (simp_all add: min_def)
  have nm: "n \<le> m" using m assms(13) by auto
  have fa: "file_array k \<noteq> None" using assms(1) by (auto simp: files_ok_def)
  define k' where "k' = upd_fd fd (\<lambda>e. e\<lparr>file_position := file_position e + of_nat n\<rparr>) (k\<lparr>mem := store_bytes (mem k) pa bs\<rparr>)"
  have "file_read fd buf nbytes k = Some (int n, k')"
    using file_read_eq [OF fa assms(2-5)] r assms(7,8,14) m by (simp add: k'_def)
  moreover have "bytes_at (mem k') pa n = map (file_byte (filesys k) (mem k) ino) [unat pos..<unat pos + n]"
  proof -
    have "length bs \<le> 4294967296" using m assms(6) by simp
    then have "bytes_at (mem k') pa n = take n bs"
      using bytes_at_take [of n "length bs" "mem k'" pa] bytes_at_store [of bs "mem k" pa] nm m(2) by (simp add: k'_def)
    then show ?thesis using nm by (simp add: bs_def take_map take_upt)
  qed
  moreover have "files_ok (k\<lparr>mem := store_bytes (mem k) pa bs\<rparr>)" using assms(1) by (simp add: files_ok_def)
  then have "fd_entry k' i = (if i = fd then (fd_entry k fd)\<lparr>file_position := pos + of_nat n\<rparr> else fd_entry k i)" if "0 \<le> i" for i
    using assms(2,3,8) that by (simp add: k'_def fd_entry_upd)
  moreover have "mem k' a = mem k a" if "\<forall>i < min (nat nbytes) (Suc n). a \<noteq> pa + of_nat i" for a
    using that m store_bytes_out [of bs a pa "mem k"] by (simp add: k'_def)
  ultimately show ?thesis using assms(2) by auto
qed

theorem file_read_correct_witness:
  "\<exists>k'. file_read 2 0x600000 3 (demo_process\<lparr>filesys := demo_fs\<rparr>) = Some (3, k')
    \<and> bytes_at (mem k') 0x600000 3 = map (file_byte demo_fs demo_mem 0) [0..<3]"
proof -
  let ?k = "demo_process\<lparr>filesys := demo_fs\<rparr>"
  have e: "fd_entry ?k 2 = zero_entry" "files_ok ?k" "mem ?k = demo_mem"
    by (simp_all add: fd_entry_def files_ok_def demo_process_def demo_kernel_def start_kernel_def zero_pcb_def)
  have z: "inode_idx zero_entry = 0" "file_position zero_entry = 0" by (simp_all add: zero_entry_def)
  have l: "linear ?k 0x600000 0x600000 (min (nat 3) (Suc 3))"
    by (simp add: linear_def demo_process_def demo_kernel_def start_kernel_def zero_paging_def translate_def)
  have blk: "block_ok (filesys ?k) (mem ?k) 0 i" if "i < unat (0 :: u32) + nat 3" for i
    using that demo_file(3) [of i] e(3) by simp
  have len: "3 = min (nat 3) (unat (inode_length (filesys ?k) (mem ?k) 0) - unat (0 :: u32))"
    using e(3) demo_file(2) by simp
  show ?thesis
    using file_read_correct [of ?k 2 "0x600000" 3, OF e(2) _ _ _ _ _ _ _ _ _ _ blk len l] e z demo_file by simp blast
qed

text \<open>C29: \<open>rtc_write\<close> of a non-zero rate accepts the powers of two up to 512 Hz and refuses every other:
  it then returns -1 and changes nothing; an accepted rate sets the divisor of this
  descriptor only.  (Rate 0 is left out: it passes the check of the code and is divided by.)\<close>

theorem rtc_write_rates:
  assumes "buf \<noteq> 0" and "1 < nbytes" and "2 \<le> fd" and "fd \<le> 7" and "linear k buf pa 4"
    and "load32 (mem k) pa \<noteq> 0"
  shows "rtc_write fd buf nbytes k =
    (if unat (load32 (mem k) pa) \<in> rtc_rates
     then Some (0, upd_fd fd (\<lambda>e. e\<lparr>file_position := 512 div load32 (mem k) pa\<rparr>) k)
     else Some (-1, k))"
proof -
  have "load32 (of_bytes (bytes_at (mem k) pa 4) \<circ> unat) 0 = load32 (mem k) pa"
    by (simp add: load32_def of_bytes_def)
  then show ?thesis
    using assms power2_check [OF assms(6)]
    by (auto simp: rtc_write_def vread_bytes_linear Let_def MAX_RTC_FREQ_def not_le)
qed

theorem rtc_write_rates_witness:
  "rtc_write 2 0x500000 4 demo_process = Some (0, upd_fd 2 (\<lambda>e. e\<lparr>file_position := 512\<rparr>) demo_process)"
proof -
  have "linear demo_process 0x500000 0x500000 4"
    by (simp add: linear_def demo_process_def demo_kernel_def start_kernel_def zero_paging_def translate_def)
  moreover have "load32 (mem demo_process) 0x500000 = 1"
    by (simp add: demo_process_def demo_kernel_def start_kernel_def demo_mem_def load32_def)
  ultimately show ?thesis using rtc_write_rates [of "0x500000" 4 2 demo_process "0x500000"]
    by (simp add: rtc_rates_def)
qed

end
