(* ===== verification/Process.thy ===== *)
theory Process
  imports Devices
begin

text \<open>
  Process control blocks, \<open>process.c\<close>: allocation of a PCB, its file array, the link to the
  parent and the per-terminal stack of running programs, and the switch to user level.  An
  operation that may leave its caller's control flow returns an \<open>outcome\<close>.
\<close>

text \<open>
  \<^item> \<open>Returns r k\<close>: the call returned \<open>r\<close>.
  \<^item> \<open>Iret eip cs esp ss k\<close>: the processor runs a user program from \<open>eip\<close> on, with
    interrupts enabled.
  \<^item> \<open>Frame_Return ebp eax k\<close>: control continues as a return from the function whose frame is
    at \<open>ebp\<close>, with \<open>eax\<close> as its result (\<open>None\<close> for a function without one).
  \<^item> \<open>Hang k\<close>: \<open>while(1);\<close>.
  \<^item> \<open>Undefined\<close>: an access outside every object of the model (a NULL or wild pointer, an
    unmapped buffer, a string without end).
\<close>

datatype outcome =
    Returns int kernel
  | Iret u32 u32 u32 u32 kernel
  | Frame_Return u32 "u32 option" kernel
  | Hang kernel
  | Undefined

definition upd_pcb :: "int \<Rightarrow> (pcb \<Rightarrow> pcb) \<Rightarrow> kernel \<Rightarrow> kernel" where
  "upd_pcb p f k = k\<lparr>pcbs := (pcbs k)[nat p := f (pcbs k ! nat p)]\<rparr>"

text \<open>
  \<open>prog_pids[term_prog_num - 1]\<close>.  With no program running the index is -1, and the word before
  the array in \<open>terminal_t\<close> is \<open>cursor_y\<close>.
\<close>

definition top_pid :: "terminal \<Rightarrow> int" where
  "top_pid t = (if term_prog_counter t = 0 then cursor_y t else prog_pids t ! nat (term_prog_counter t - 1))"

definition cur_pid :: "kernel \<Rightarrow> int" where
  "cur_pid k = top_pid (tm k (cur_term_id k))"

abbreviation valid_pid :: "kernel \<Rightarrow> int \<Rightarrow> bool" where
  "valid_pid k p \<equiv> 0 \<le> p \<and> nat p < length (pcbs k)"

section \<open>Operations\<close>

definition init_prog :: "kernel \<Rightarrow> kernel" where
  "init_prog k =
     (let k = k\<lparr>prog_counter := 0\<rparr>; k = k\<lparr>program_exception_flag := 0\<rparr>
      in for_loop 0 6 (\<lambda>count. upd_pcb (int count) (\<lambda>b. b\<lparr>status := 0, video_mem_flag := 0\<rparr>)) k)"

definition get_active_pcb :: "kernel \<Rightarrow> nat option" where
  "get_active_pcb k =
     (if prog_counter k > MAX_PID then None else find (\<lambda>count. status (pcbs k ! count) = 0) [0..<6])"

definition std_files :: "file_abs_entry list \<Rightarrow> file_abs_entry list" where
  "std_files = for_loop 0 8 (\<lambda>i fs.
     fs[i := (if i < 2 then (fs ! i)\<lparr>flags := 1, op_ptr := terminal_op_table\<rparr> else (fs ! i)\<lparr>flags := 0\<rparr>)
               \<lparr>file_position := 0\<rparr>])"

definition create_pcb :: "kernel \<Rightarrow> int \<times> kernel" where
  "create_pcb k =
     (if prog_counter k > MAX_PID then (-1, k)
      else case get_active_pcb k of
        None \<Rightarrow> (-1, k)
      | Some p \<Rightarrow>
          let t = tm k (cur_term_id k);
              k = upd_pcb (int p) (\<lambda>b. b\<lparr>pid := int p\<rparr>) k;
              k = upd_pcb (int p) (\<lambda>b. b\<lparr>pcb_file_array := std_files (pcb_file_array b)\<rparr>) k;
              k = upd_pcb (int p) (\<lambda>b. b\<lparr>parent_pcb_pointer :=
                    (if term_prog_counter t = 0 then None else Some (nat (top_pid t)))\<rparr>) k;
              k = upd_pcb (int p) (\<lambda>b. b\<lparr>status := 1, term_idx := cur_term_id k\<rparr>) k;
              k = k\<lparr>prog_counter := prog_counter k + 1\<rparr>;
              k = k\<lparr>file_array := Some p\<rparr>;
              k = upd_tm (cur_term_id k) (\<lambda>t. t\<lparr>prog_pids := (prog_pids t)[nat (term_prog_counter t) := int p]\<rparr>) k;
              k = upd_tm (cur_term_id k) (\<lambda>t. t\<lparr>term_prog_counter := term_prog_counter t + 1\<rparr>) k
          in (int p, k))"

text \<open>\<open>tss.esp0\<close> and \<open>tss.ss0\<close> for the process on top of the current terminal.\<close>

definition set_tss :: "kernel \<Rightarrow> kernel" where
  "set_tss k = k\<lparr>tss_esp0 := PROG0_KSTACK_BOTTOM - KERNEL_STACK_SIZE * word_of_int (cur_pid k),
                 tss_ss0 := KERNEL_DS\<rparr>"

definition context_switch :: "u32 \<Rightarrow> u32 \<Rightarrow> u32 \<Rightarrow> u32 \<Rightarrow> kernel \<Rightarrow> outcome" where
  "context_switch eip cs esp ss k = Iret eip cs esp ss (set_tss k)"


section \<open>The process table\<close>

text \<open>
  The programs of a terminal form a stack, the running one on top.  \<open>procs\<close> lists the processes
  of all terminals.  \<open>proc_ok\<close>: the stacks are disjoint, their processes are exactly the PCBs in
  use, \<open>prog_counter\<close> counts them, and every PCB knows its number, its terminal and, as its
  parent, the process below it.
\<close>

definition stack :: "terminal \<Rightarrow> nat list" where
  "stack t = map nat (take (nat (term_prog_counter t)) (prog_pids t))"

definition procs :: "terminal list \<Rightarrow> nat list" where
  "procs ts = concat (map stack ts)"

definition term_proc_ok :: "terminal \<Rightarrow> bool" where
  "term_proc_ok t \<longleftrightarrow> length (prog_pids t) = 4 \<and> 0 \<le> term_prog_counter t \<and> term_prog_counter t \<le> 4
     \<and> (\<forall>x \<in> set (take (nat (term_prog_counter t)) (prog_pids t)). 0 \<le> x)"

definition linked :: "kernel \<Rightarrow> nat \<Rightarrow> bool" where
  "linked k i \<longleftrightarrow> (\<forall>j < length (stack (terminals k ! i)).
     let b = pcbs k ! (stack (terminals k ! i) ! j)
     in pid b = int (stack (terminals k ! i) ! j) \<and> term_idx b = int i
        \<and> parent_pcb_pointer b = (if j = 0 then None else Some (stack (terminals k ! i) ! (j - 1))))"

definition proc_ok :: "kernel \<Rightarrow> bool" where
  "proc_ok k \<longleftrightarrow> length (pcbs k) = 6 \<and> length (terminals k) = 3 \<and> 0 \<le> cur_term_id k \<and> cur_term_id k < 3
     \<and> (\<forall>b \<in> set (pcbs k). length (pcb_file_array b) = 8) \<and> (\<forall>t \<in> set (terminals k). term_proc_ok t)
     \<and> distinct (procs (terminals k)) \<and> set (procs (terminals k)) = {p. p < 6 \<and> status (pcbs k ! p) \<noteq> 0}
     \<and> prog_counter k = int (length (procs (terminals k))) \<and> (\<forall>i<3. linked k i)"

text \<open>The current terminal, as an index and as a record.\<close>

abbreviation cur_idx :: "kernel \<Rightarrow> nat" where
  "cur_idx k \<equiv> nat (cur_term_id k)"

lemma procs_split:
  "c < length ts \<Longrightarrow> procs ts = procs (take c ts) @ stack (ts ! c) @ procs (drop (Suc c) ts)"
  unfolding procs_def by (subst id_take_nth_drop [of c ts]) simp_all

lemma procs_update:
  "c < length ts \<Longrightarrow> procs (ts[c := t]) = procs (take c ts) @ stack t @ procs (drop (Suc c) ts)"
  unfolding procs_def by (simp add: upd_conv_take_nth_drop)

lemma proc_okD:
  assumes "proc_ok k"
  shows "length (pcbs k) = 6" and "length (terminals k) = 3" and "p < 6 \<Longrightarrow> length (pcb_file_array (pcbs k ! p)) = 8"
    and "i < 3 \<Longrightarrow> term_proc_ok (terminals k ! i)" and "distinct (procs (terminals k))"
    and "set (procs (terminals k)) = {p. p < 6 \<and> status (pcbs k ! p) \<noteq> 0}"
    and "prog_counter k = int (length (procs (terminals k)))" and "i < 3 \<Longrightarrow> linked k i"
  using assms by (simp_all add: proc_ok_def)

lemma linkedD:
  assumes "linked k i" and "j < length (stack (terminals k ! i))" and "p = stack (terminals k ! i) ! j"
  shows "pid (pcbs k ! p) = int p" and "term_idx (pcbs k ! p) = int i"
    and "parent_pcb_pointer (pcbs k ! p) = (if j = 0 then None else Some (stack (terminals k ! i) ! (j - 1)))"
  using assms by (auto simp: linked_def Let_def)

lemma stack_in_procs: "i < length ts \<Longrightarrow> set (stack (ts ! i)) \<subseteq> set (procs ts)"
  by (auto simp: procs_def intro!: bexI [of _ "ts ! i"])

lemma proc_ok_cur:
  assumes "proc_ok k"
  shows "cur_idx k < length (terminals k)" and "term_proc_ok (tm k (cur_term_id k))"
    and "0 \<le> cur_term_id k" and "cur_term_id k < 3" and "term_proc_ok (terminals k ! cur_idx k)"
  using assms by (auto simp: proc_ok_def tm_def)

lemma stack_length: "term_proc_ok t \<Longrightarrow> length (stack t) = nat (term_prog_counter t)"
  by (auto simp: stack_def term_proc_ok_def min_def)

lemma stack_empty: "term_proc_ok t \<Longrightarrow> stack t = [] \<longleftrightarrow> term_prog_counter t = 0"
  using stack_length [of t] by (auto simp: term_proc_ok_def)

lemma stack_nth: "term_proc_ok t \<Longrightarrow> j < length (stack t) \<Longrightarrow> prog_pids t ! j = int (stack t ! j)"
  using nth_mem [of j "take (nat (term_prog_counter t)) (prog_pids t)"] by (auto simp: stack_def term_proc_ok_def)

lemma top_pid_last: "term_proc_ok t \<Longrightarrow> stack t \<noteq> [] \<Longrightarrow> top_pid t = int (last (stack t))"
proof -
  assume t: "term_proc_ok t" and s: "stack t \<noteq> []"
  have l: "length (stack t) = nat (term_prog_counter t)" by (rule stack_length [OF t])
  then have c: "term_prog_counter t \<noteq> 0" "nat (term_prog_counter t - 1) = length (stack t) - 1"
    using s t by (auto simp: term_proc_ok_def)
  then show ?thesis using stack_nth [OF t, of "length (stack t) - 1"] s by (simp add: top_pid_def last_conv_nth)
qed

lemma stack_mem_lt: "proc_ok k \<Longrightarrow> i < 3 \<Longrightarrow> p \<in> set (stack (terminals k ! i)) \<Longrightarrow> p < 6"
proof -
  assume k: "proc_ok k" "i < 3" "p \<in> set (stack (terminals k ! i))"
  then have "p \<in> set (procs (terminals k))" using stack_in_procs [of i "terminals k"] proc_okD(2) [OF k(1)] by auto
  then show "p < 6" using k(1) by (simp add: proc_ok_def)
qed

text \<open>A push and a pop of the program stack.\<close>

definition push_pid :: "nat \<Rightarrow> terminal \<Rightarrow> terminal" where
  "push_pid p t = t\<lparr>prog_pids := (prog_pids t)[nat (term_prog_counter t) := int p],
     term_prog_counter := term_prog_counter t + 1\<rparr>"

lemma push_pid_ok:
  assumes "term_proc_ok t" and "term_prog_counter t < 4"
  shows "stack (push_pid p t) = stack t @ [p]" and "term_proc_ok (push_pid p t)"
proof -
  let ?n = "nat (term_prog_counter t)"
  have n: "?n < length (prog_pids t)" "nat (term_prog_counter t + 1) = Suc ?n" using assms by (auto simp: term_proc_ok_def)
  then have e: "take (Suc ?n) ((prog_pids t)[?n := int p]) = take ?n (prog_pids t) @ [int p]"
    by (simp add: take_Suc_conv_app_nth)
  then show "stack (push_pid p t) = stack t @ [p]" using n by (simp add: stack_def push_pid_def)
  show "term_proc_ok (push_pid p t)" using assms n e by (auto simp: term_proc_ok_def push_pid_def)
qed

lemma pop_pid_ok:
  assumes "term_proc_ok t" and "stack t \<noteq> []"
  shows "stack (t\<lparr>term_prog_counter := term_prog_counter t - 1\<rparr>) = butlast (stack t)"
    and "term_proc_ok (t\<lparr>term_prog_counter := term_prog_counter t - 1\<rparr>)"
proof -
  let ?n = "nat (term_prog_counter t)"
  have n: "0 < ?n" "?n \<le> length (prog_pids t)" "nat (term_prog_counter t - 1) = ?n - 1"
    using assms stack_empty [OF assms(1)] by (auto simp: term_proc_ok_def)
  then have b: "take (?n - 1) (prog_pids t) = butlast (take ?n (prog_pids t))" by (simp add: butlast_take)
  then show "stack (t\<lparr>term_prog_counter := term_prog_counter t - 1\<rparr>) = butlast (stack t)"
    using n by (simp add: stack_def map_butlast)
  show "term_proc_ok (t\<lparr>term_prog_counter := term_prog_counter t - 1\<rparr>)"
    using assms(1) n b by (auto simp: term_proc_ok_def dest: in_set_butlastD)
qed

section \<open>Allocation\<close>

text \<open>A free PCB exists unless all six are in use; the first one is taken.\<close>

lemma get_active_pcb_some:
  assumes "proc_ok k" and "prog_counter k < 6"
  obtains p where "get_active_pcb k = Some p" and "p < 6" and "status (pcbs k ! p) = 0"
    and "\<forall>q<p. status (pcbs k ! q) \<noteq> 0"
proof -
  have pc: "prog_counter k = int (length (procs (terminals k)))" and ds: "distinct (procs (terminals k))"
    and live: "set (procs (terminals k)) = {p. p < 6 \<and> status (pcbs k ! p) \<noteq> 0}"
    using assms(1) by (simp_all add: proc_ok_def)
  have "\<exists>p\<in>set [0..<6]. status (pcbs k ! p) = 0"
  proof (rule ccontr)
    assume "\<not> ?thesis"
    then have "{p. p < 6 \<and> status (pcbs k ! p) \<noteq> 0} = {..<6}" by auto
    then have "card (set (procs (terminals k))) = 6" unfolding live by simp
    then show False using distinct_card [OF ds] pc assms(2) by linarith
  qed
  then obtain p where f: "find (\<lambda>c. status (pcbs k ! c) = 0) [0..<6] = Some p"
    by (cases "find (\<lambda>c. status (pcbs k ! c) = 0) [0..<6]") (auto simp: find_None_iff)
  then have "p < 6" "status (pcbs k ! p) = 0" "\<forall>q<p. status (pcbs k ! q) \<noteq> 0"
    by (auto simp: find_Some_iff)
  then show thesis using f assms(2) that by (simp add: get_active_pcb_def MAX_PID_def)
qed

text \<open>The PCB a new process gets.\<close>

definition new_pcb :: "kernel \<Rightarrow> nat \<Rightarrow> pcb" where
  "new_pcb k p = (pcbs k ! p)\<lparr>pid := int p, pcb_file_array := std_files (pcb_file_array (pcbs k ! p)),
     parent_pcb_pointer := (if stack (tm k (cur_term_id k)) = [] then None else Some (last (stack (tm k (cur_term_id k))))),
     status := 1, term_idx := cur_term_id k\<rparr>"

lemma create_pcb_eq:
  assumes "proc_ok k" and "get_active_pcb k = Some p" and "prog_counter k < 6" and "p < 6"
  shows "create_pcb k = (int p, k\<lparr>pcbs := (pcbs k)[p := new_pcb k p], prog_counter := prog_counter k + 1,
    file_array := Some p, terminals := (terminals k)[cur_idx k := push_pid p (terminals k ! cur_idx k)]\<rparr>)"
proof -
  let ?t = "tm k (cur_term_id k)"
  note c = proc_ok_cur [OF assms(1)]
  have "(term_prog_counter ?t = 0) = (stack ?t = [])"
    using stack_empty [OF c(2)] by simp
  moreover have "stack ?t \<noteq> [] \<Longrightarrow> nat (top_pid ?t) = last (stack ?t)" using top_pid_last [OF c(2)] by simp
  ultimately have par: "(if term_prog_counter ?t = 0 then None else Some (nat (top_pid ?t)))
      = (if stack ?t = [] then None else Some (last (stack ?t)))" by auto
  have len: "p < length (pcbs k)" using assms(1,4) by (simp add: proc_ok_def)
  show ?thesis
    using assms(2,3) c len unfolding create_pcb_def Let_def par
    by (simp add: MAX_PID_def upd_pcb_def upd_tm_def tm_def new_pcb_def push_pid_def)
qed

section \<open>The invariant under changes\<close>

text \<open>What the invariant depends on.\<close>

definition pcb_view :: "pcb \<Rightarrow> int \<times> int \<times> nat option \<times> int \<times> nat" where
  "pcb_view b = (pid b, term_idx b, parent_pcb_pointer b, status b, length (pcb_file_array b))"

definition term_view :: "terminal \<Rightarrow> int list \<times> int" where
  "term_view t = (prog_pids t, term_prog_counter t)"

lemma pcb_view_fields:
  "pcb_view b = pcb_view b' \<Longrightarrow> pid b = pid b' \<and> term_idx b = term_idx b' \<and> parent_pcb_pointer b = parent_pcb_pointer b'
    \<and> status b = status b' \<and> length (pcb_file_array b) = length (pcb_file_array b')"
  by (simp add: pcb_view_def)

lemma term_view_stack: "term_view t = term_view t' \<Longrightarrow> stack t = stack t' \<and> term_proc_ok t = term_proc_ok t' \<and> term_prog_counter t = term_prog_counter t'"
  by (simp add: term_view_def stack_def term_proc_ok_def)

lemma proc_ok_frame:
  assumes "proc_ok k" and p: "map pcb_view (pcbs k') = map pcb_view (pcbs k)"
    and t: "map term_view (terminals k') = map term_view (terminals k)"
    and "prog_counter k' = prog_counter k" and "cur_term_id k' = cur_term_id k"
  shows "proc_ok k'"
proof -
  have lp: "length (pcbs k') = 6" and lt: "length (terminals k') = 3"
    using map_eq_imp_length_eq [OF p] map_eq_imp_length_eq [OF t] assms(1) by (simp_all add: proc_ok_def)
  have pv: "pcb_view (pcbs k' ! i) = pcb_view (pcbs k ! i)" if "i < 6" for i
    using arg_cong [OF p, of "\<lambda>xs. xs ! i"] that lp map_eq_imp_length_eq [OF p] by simp
  have tv: "term_view (terminals k' ! i) = term_view (terminals k ! i)" if "i < 3" for i
    using arg_cong [OF t, of "\<lambda>xs. xs ! i"] that lt map_eq_imp_length_eq [OF t] by simp
  note pf = pcb_view_fields [OF pv] and tf = term_view_stack [OF tv]
  have st: "map stack (terminals k') = map stack (terminals k)"
    using lt map_eq_imp_length_eq [OF t] tf by (intro nth_equalityI) simp_all
  then have pr: "procs (terminals k') = procs (terminals k)" by (simp add: procs_def)
  have "linked k' i" if "i < 3" for i
    using proc_okD(8) [OF assms(1) that] pf stack_mem_lt [OF assms(1) that] tf [OF that]
    by (auto simp: linked_def Let_def)
  moreover have "\<forall>b \<in> set (pcbs k'). length (pcb_file_array b) = 8"
    using proc_okD(3) [OF assms(1)] pf lp by (auto simp: in_set_conv_nth)
  moreover have "\<forall>t \<in> set (terminals k'). term_proc_ok t"
    using proc_okD(4) [OF assms(1)] tf lt by (auto simp: in_set_conv_nth)
  moreover have "{p. p < 6 \<and> status (pcbs k' ! p) \<noteq> 0} = {p. p < 6 \<and> status (pcbs k ! p) \<noteq> 0}" using pf by auto
  ultimately show ?thesis using assms(1,4,5) lp lt pr by (simp add: proc_ok_def)
qed

lemma linked_same:
  assumes "linked k i" and "stack (terminals k' ! i) = stack (terminals k ! i)"
    and "\<And>p. p \<in> set (stack (terminals k ! i)) \<Longrightarrow> pcbs k' ! p = pcbs k ! p"
  shows "linked k' i"
  using assms by (simp add: linked_def Let_def)

text \<open>A process appears in one stack only.\<close>

lemma stacks_disjoint:
  assumes "distinct (procs ts)" and "i < length ts" and "j < length ts" and "i \<noteq> j"
    and "p \<in> set (stack (ts ! i))"
  shows "p \<notin> set (stack (ts ! j))"
proof -
  have ds: "distinct (procs (take i ts) @ stack (ts ! i) @ procs (drop (Suc i) ts))"
    using assms(1) procs_split [OF assms(2)] by simp
  show ?thesis
  proof (cases "j < i")
    case True
    then have "set (stack (ts ! j)) \<subseteq> set (procs (take i ts))"
      using stack_in_procs [of j "take i ts"] assms(2) by simp
    then show ?thesis using ds assms(5) by auto
  next
    case False
    then have "set (stack (ts ! j)) \<subseteq> set (procs (drop (Suc i) ts))"
      using stack_in_procs [of "j - Suc i" "drop (Suc i) ts"] assms(3,4) by simp
    then show ?thesis using ds assms(5) by auto
  qed
qed

lemma proc_ok_push:
  assumes "proc_ok k" and "p < 6" and "status (pcbs k ! p) = 0" and "term_prog_counter (tm k (cur_term_id k)) < 4"
    and "pcbs k' = (pcbs k)[p := b]"
    and "terminals k' = (terminals k)[cur_idx k := push_pid p (terminals k ! cur_idx k)]"
    and "prog_counter k' = prog_counter k + 1" and "cur_term_id k' = cur_term_id k"
    and "pid b = int p" and "term_idx b = cur_term_id k" and "status b \<noteq> 0" and "length (pcb_file_array b) = 8"
    and "parent_pcb_pointer b = (if stack (tm k (cur_term_id k)) = [] then None else Some (last (stack (tm k (cur_term_id k)))))"
  shows "proc_ok k'" and "stack (terminals k' ! cur_idx k) = stack (terminals k ! cur_idx k) @ [p]"
proof -
  let ?c = "cur_idx k" and ?ts = "terminals k"
  note c = proc_ok_cur [OF assms(1)]
  have t: "tm k (cur_term_id k) = ?ts ! ?c" by (simp add: tm_def)
  have push: "stack (push_pid p (?ts ! ?c)) = stack (?ts ! ?c) @ [p]" "term_proc_ok (push_pid p (?ts ! ?c))"
    using push_pid_ok [OF c(5)] assms(4) t by simp_all
  have new: "p \<notin> set (procs ?ts)" using assms(1,3) by (simp add: proc_ok_def)
  show st: "stack (terminals k' ! ?c) = stack (?ts ! ?c) @ [p]" using assms(6) c push by simp
  have len: "length (pcbs k) = 6" "length ?ts = 3" using assms(1) by (simp_all add: proc_ok_def)
  have pr: "procs (terminals k') = procs (take ?c ?ts) @ (stack (?ts ! ?c) @ [p]) @ procs (drop (Suc ?c) ?ts)"
    using assms(6) procs_update [OF c(1)] push by simp
  note old = procs_split [OF c(1)]
  have mem: "set (stack (?ts ! i)) \<subseteq> set (procs ?ts)" if "i < 3" for i using that len stack_in_procs [of i ?ts] by simp
  have same: "pcbs k' ! q = pcbs k ! q" if "q \<in> set (stack (?ts ! i))" "i < 3" for i q
  proof -
    have "p \<noteq> q" using new mem [OF that(2)] that(1) by blast
    then show ?thesis using assms(5) by simp
  qed
  have lnk: "linked k i" if "i < 3" for i using assms(1) that by (simp add: proc_ok_def)
  have "linked k' i" if i: "i < 3" for i
  proof (cases "i = ?c")
    case False
    then have "stack (terminals k' ! i) = stack (?ts ! i)" using assms(6) by simp
    then show ?thesis using linked_same [OF lnk [OF i]] same [OF _ i] by blast
  next
    case True
    have "pcbs k' ! p = b" using assms(2,5) len by simp
    then show ?thesis
      using lnk [OF i] st same [OF _ i] True assms(9,10,13) t c(3)
      by (auto simp: linked_def Let_def nth_append less_Suc_eq last_conv_nth)
  qed
  moreover have "distinct (procs (terminals k'))" using pr old new assms(1) by (auto simp: proc_ok_def)
  moreover have "set (procs (terminals k')) = {q. q < 6 \<and> status (pcbs k' ! q) \<noteq> 0}"
  proof -
    have "set (procs (terminals k')) = insert p (set (procs ?ts))" unfolding pr old by auto
    also have "\<dots> = {q. q < 6 \<and> status (pcbs k' ! q) \<noteq> 0}"
      using assms(1,2,5,11) len by (auto simp: proc_ok_def nth_list_update)
    finally show ?thesis .
  qed
  moreover have "\<forall>b \<in> set (pcbs k'). length (pcb_file_array b) = 8"
    using assms(1,5,12) by (auto simp: proc_ok_def dest: set_update_subset_insert [THEN subsetD])
  moreover have "\<forall>t \<in> set (terminals k'). term_proc_ok t"
    using assms(1,6) push(2) by (auto simp: proc_ok_def dest: set_update_subset_insert [THEN subsetD])
  moreover have "length (procs (terminals k')) = Suc (length (procs ?ts))" unfolding pr old by simp
  ultimately show "proc_ok k'" using assms(1,5-8) len c by (simp add: proc_ok_def)
qed

lemma linked_pop:
  assumes "proc_ok k" and "stack (terminals k ! cur_idx k) = ps @ [p]"
    and "pcbs k' = (pcbs k)[p := b]" and "terminals k' = (terminals k)[cur_idx k := t']" and "stack t' = ps" and i: "i < 3"
  shows "linked k' i"
proof -
  let ?c = "cur_idx k" and ?ts = "terminals k"
  note c = proc_ok_cur [OF assms(1)]
  have len: "length (pcbs k) = 6" "length ?ts = 3" and ds: "distinct (procs ?ts)" using assms(1) by (simp_all add: proc_ok_def)
  have old: "procs ?ts = procs (take ?c ?ts) @ (ps @ [p]) @ procs (drop (Suc ?c) ?ts)"
    using procs_split [OF c(1)] assms(2) by simp
  have same: "pcbs k' ! q = pcbs k ! q" if "q \<noteq> p" for q using that assms(3) by auto
  have lnk: "linked k i" using assms(1) i by (simp add: proc_ok_def)
  show ?thesis
  proof (cases "i = ?c")
    case False
    then have "p \<notin> set (stack (?ts ! i))"
      using stacks_disjoint [OF ds, of ?c i p] i len c assms(2) by auto
    then have "pcbs k' ! q = pcbs k ! q" if "q \<in> set (stack (?ts ! i))" for q
      using that by (intro same) auto
    moreover have "stack (terminals k' ! i) = stack (?ts ! i)" using False assms(4) by simp
    ultimately show ?thesis using linked_same [OF lnk] by blast
  next
    case True
    have "p \<notin> set ps" using ds old by auto
    then have eq: "pcbs k' ! (ps ! j) = pcbs k ! (ps ! j)" if "j < length ps" for j
      using that nth_mem [of j ps] by (intro same) auto
    have st: "stack (terminals k' ! i) = ps" using True assms(4,5) c(1) by simp
    have nth: "stack (?ts ! i) ! j = ps ! j" if "j < length ps" for j using that True assms(2) by (simp add: nth_append)
    show ?thesis
      unfolding linked_def Let_def st
    proof (intro allI impI)
      fix j assume j: "j < length ps"
      then have "j < length (stack (?ts ! i))" using True assms(2) by simp
      note l = linkedD [OF lnk this refl]
      show "pid (pcbs k' ! (ps ! j)) = int (ps ! j) \<and> term_idx (pcbs k' ! (ps ! j)) = int i
          \<and> parent_pcb_pointer (pcbs k' ! (ps ! j)) = (if j = 0 then None else Some (ps ! (j - 1)))"
        using l j nth [of j] nth [of "j - 1"] eq [OF j] by simp
    qed
  qed
qed

lemma proc_ok_pop:
  assumes "proc_ok k" and "stack (terminals k ! cur_idx k) = ps @ [p]"
    and "pcbs k' = (pcbs k)[p := b]" and "terminals k' = (terminals k)[cur_idx k := t']"
    and "prog_counter k' = prog_counter k - 1" and "cur_term_id k' = cur_term_id k"
    and "status b = 0" and "length (pcb_file_array b) = 8" and "stack t' = ps" and "term_proc_ok t'"
  shows "proc_ok k'"
proof -
  let ?c = "cur_idx k" and ?ts = "terminals k"
  note c = proc_ok_cur [OF assms(1)]
  have len: "length (pcbs k) = 6" "length ?ts = 3" using assms(1) by (simp_all add: proc_ok_def)
  have old: "procs ?ts = procs (take ?c ?ts) @ (ps @ [p]) @ procs (drop (Suc ?c) ?ts)"
    using procs_split [OF c(1)] assms(2) by simp
  have pr: "procs (terminals k') = procs (take ?c ?ts) @ ps @ procs (drop (Suc ?c) ?ts)"
    using assms(4,9) procs_update [OF c(1)] by simp
  have ds: "distinct (procs ?ts)" using assms(1) by (simp add: proc_ok_def)
  have p6: "p < 6" using stack_mem_lt [OF assms(1), of ?c p] assms(2) c len by simp
  have "linked k' i" if "i < 3" for i by (rule linked_pop [OF assms(1-4,9) that])
  moreover have "distinct (procs (terminals k'))" using ds old pr by auto
  moreover have "set (procs (terminals k')) = {q. q < 6 \<and> status (pcbs k' ! q) \<noteq> 0}"
  proof -
    have "set (procs (terminals k')) = set (procs ?ts) - {p}" using ds unfolding pr old by auto
    also have "\<dots> = {q. q < 6 \<and> status (pcbs k' ! q) \<noteq> 0}"
      using assms(1,3,7) len p6 by (auto simp: proc_ok_def nth_list_update)
    finally show ?thesis .
  qed
  moreover have "\<forall>b \<in> set (pcbs k'). length (pcb_file_array b) = 8"
    using assms(1,3,8) by (auto simp: proc_ok_def dest: set_update_subset_insert [THEN subsetD])
  moreover have "\<forall>t \<in> set (terminals k'). term_proc_ok t"
    using assms(1,4,10) by (auto simp: proc_ok_def dest: set_update_subset_insert [THEN subsetD])
  moreover have "int (length (procs (terminals k'))) = int (length (procs ?ts)) - 1" unfolding pr old by simp
  ultimately show "proc_ok k'" using assms(1,3-6) len c by (simp add: proc_ok_def)
qed

section \<open>A new process\<close>

lemma std_files_correct:
  assumes "length fs = 8"
  shows "length (std_files fs) = 8 \<and> (\<forall>i<8. file_position (std_files fs ! i) = 0
    \<and> flags (std_files fs ! i) = (if i < 2 then 1 else 0) \<and> (i < 2 \<longrightarrow> op_ptr (std_files fs ! i) = terminal_op_table))"
proof -
  define P where "P n gs \<longleftrightarrow> length gs = 8 \<and> (\<forall>i<n. file_position (gs ! i) = 0 \<and> flags (gs ! i) = (if i < 2 then 1 else 0)
    \<and> (i < 2 \<longrightarrow> op_ptr (gs ! i) = terminal_op_table))" for n and gs :: "file_abs_entry list"
  have "P 8 (std_files fs)"
    unfolding std_files_def
  proof (rule for_loop_rule)
    show "P 0 fs" using assms by (simp add: P_def)
  next
    fix i :: nat and gs :: "file_abs_entry list"
    assume "i < 8" "P i gs"
    then show "P (Suc i) (gs[i := (if i < 2 then (gs ! i)\<lparr>flags := 1, op_ptr := terminal_op_table\<rparr>
        else (gs ! i)\<lparr>flags := 0\<rparr>)\<lparr>file_position := 0\<rparr>])"
      by (auto simp: P_def nth_list_update less_Suc_eq)
  qed simp
  then show ?thesis by (simp add: P_def)
qed

text \<open>All the facts the system calls need about a successful allocation.\<close>

lemma create_pcb_ok:
  assumes "proc_ok k" and "prog_counter k < 6" and "term_prog_counter (tm k (cur_term_id k)) < 4"
  obtains p k' where "create_pcb k = (int p, k')" and "p < 6" and "status (pcbs k ! p) = 0"
    and "\<forall>q<p. status (pcbs k ! q) \<noteq> 0"
    and "k' = k\<lparr>pcbs := (pcbs k)[p := new_pcb k p], prog_counter := prog_counter k + 1,
           file_array := Some p, terminals := (terminals k)[cur_idx k := push_pid p (terminals k ! cur_idx k)]\<rparr>"
    and "proc_ok k'" and "stack (terminals k' ! cur_idx k) = stack (terminals k ! cur_idx k) @ [p]"
proof -
  obtain p where p: "get_active_pcb k = Some p" "p < 6" "status (pcbs k ! p) = 0" "\<forall>q<p. status (pcbs k ! q) \<noteq> 0"
    using get_active_pcb_some [OF assms(1,2)] by blast
  define k' where "k' = k\<lparr>pcbs := (pcbs k)[p := new_pcb k p], prog_counter := prog_counter k + 1,
    file_array := Some p, terminals := (terminals k)[cur_idx k := push_pid p (terminals k ! cur_idx k)]\<rparr>"
  have "length (pcb_file_array (new_pcb k p)) = 8"
    using std_files_correct [OF proc_okD(3) [OF assms(1) p(2)]] by (simp add: new_pcb_def)
  note push = proc_ok_push [OF assms(1) p(2,3) assms(3), of k' "new_pcb k p", OF _ _ _ _ _ _ _ this]
  have "proc_ok k'" "stack (terminals k' ! cur_idx k) = stack (terminals k ! cur_idx k) @ [p]"
    by (rule push; simp add: k'_def new_pcb_def)+
  then show thesis using that [of p k'] create_pcb_eq [OF assms(1) p(1) assms(2) p(2)] p k'_def by simp
qed

section \<open>Properties\<close>


text \<open>A table without processes.\<close>

lemma no_procs_ok:
  assumes "length (terminals k) = 3" and "\<forall>t \<in> set (terminals k). term_prog_counter t = 0 \<and> length (prog_pids t) = 4"
    and "length (pcbs k) = 6" and "\<forall>b \<in> set (pcbs k). status b = 0 \<and> length (pcb_file_array b) = 8"
    and "prog_counter k = 0" and "cur_term_id k = 0"
  shows "proc_ok k"
proof -
  have s: "stack t = []" if "t \<in> set (terminals k)" for t using assms(2) that by (simp add: stack_def)
  then have "procs (terminals k) = []" by (simp add: procs_def)
  moreover have "linked k i" if "i < 3" for i using s [of "terminals k ! i"] assms(1) that by (simp add: linked_def)
  ultimately show ?thesis using assms by (auto simp: proc_ok_def term_proc_ok_def)
qed

lemma demo_proc_ok: "proc_ok demo_kernel"
  by (rule no_procs_ok) (simp_all add: demo_kernel_def start_kernel_def zero_pcb_def zero_terminal_def)


end
