(* ===== verification/System_Call.thy ===== *)
theory System_Call
  imports Process
begin

text \<open>
  The system calls, \<open>system_call.c\<close>, and their dispatch by number
  (\<open>system_call_linkage.S\<close>).  Pointers from user level are addresses; \<open>None\<close> as the result
  of a call is one that does not return (see \<open>Devices\<close>).  The call frame of \<open>execute\<close> is an
  argument: what its uninitialised locals hold and where it is.
\<close>

definition USER_CS :: u32 where "USER_CS = 0x23"
definition USER_DS :: u32 where "USER_DS = 0x2B"
definition PROGRAM_PAGE_VIRTUAL_ADDR :: addr where "PROGRAM_PAGE_VIRTUAL_ADDR = 0x08000000"
definition OFFSET :: u32 where "OFFSET = 0x400000"
definition EIP_OFFSET :: u32 where "EIP_OFFSET = 24"
definition PARAM_LENGTH :: nat where "PARAM_LENGTH = 128"
definition PROG_LIMIT_REACHED :: int where "PROG_LIMIT_REACHED = 1"
definition EXP_ERROR :: u32 where "EXP_ERROR = 256"
definition MB_128 :: addr where "MB_128 = 0x08000000"
definition MB_132 :: addr where "MB_132 = 0x08400000"

lemmas [const_defs] = USER_CS_def USER_DS_def PROGRAM_PAGE_VIRTUAL_ADDR_def OFFSET_def EIP_OFFSET_def
  PARAM_LENGTH_def PROG_LIMIT_REACHED_def EXP_ERROR_def MB_128_def MB_132_def

record call_frame =
  frame_ebp :: u32
  magic_stk :: "byte list"
  params_stk :: "byte list"
  dentry_stk :: dentry

definition cstring :: "string \<Rightarrow> ptr" where
  "cstring s = of_bytes (chars s @ [0])"

section \<open>Files\<close>

definition sys_read :: "event list \<Rightarrow> int \<Rightarrow> addr \<Rightarrow> int \<Rightarrow> kernel \<Rightarrow> (int \<times> kernel) option" where
  "sys_read evs fd buf nbytes k =
     (if fd < 0 \<or> fd \<ge> FILE_LIMIT \<or> buf = 0 \<or> nbytes < 0 \<or> file_array k = None then Some (-1, k)
      else if flags (fd_entry k fd) = 0 then Some (-1, k)
      else op_read (op_ptr (fd_entry k fd)) evs fd buf nbytes k)"

definition sys_write :: "int \<Rightarrow> addr \<Rightarrow> int \<Rightarrow> kernel \<Rightarrow> (int \<times> kernel) option" where
  "sys_write fd buf nbytes k =
     (if fd < 0 \<or> fd \<ge> FILE_LIMIT \<or> buf = 0 \<or> nbytes < 0 \<or> file_array k = None
         \<or> flags (fd_entry k fd) = 0 then Some (-1, k)
      else op_write (op_ptr (fd_entry k fd)) fd buf nbytes k)"

function free_fd :: "kernel \<Rightarrow> int \<Rightarrow> int" where
  "free_fd k fd = (if fd < FILE_LIMIT \<and> flags (fd_entry k fd) \<noteq> 0 then free_fd k (fd + 1) else fd)"
  by pat_completeness auto
termination by (relation "measure (\<lambda>(k, fd). nat (8 - fd))") (auto simp: FILE_LIMIT_def)

declare free_fd.simps [simp del]

definition sys_open :: "dentry \<Rightarrow> ptr option \<Rightarrow> kernel \<Rightarrow> (int \<times> kernel) option" where
  "sys_open dentry_local filename k =
     (if file_array k = None then None
      else let fd = free_fd k 2
           in if fd = FILE_LIMIT then Some (-1, k)
              else Option.bind (read_dentry_by_name (filesys k) (mem k) filename (Some dentry_local))
                (\<lambda>(r, dentry).
                  if r = -1 then Some (-1, k)
                  else let d = the dentry;
                           k = upd_fd fd (\<lambda>e. e\<lparr>inode_idx := d_inode_idx d\<rparr>) k;
                           k = upd_fd fd (\<lambda>e. e\<lparr>flags := 1\<rparr>) k;
                           go = (\<lambda>tbl. map_option (\<lambda>(r, k). (fd, k))
                                   (op_open tbl fd (upd_fd fd (\<lambda>e. e\<lparr>op_ptr := tbl\<rparr>) k)))
                       in if file_type d = 0 then go rtc_op_table
                          else if file_type d = 1 then go dirt_op_table
                          else if file_type d = 2 then go regular_file_op_table
                          else Some (-1, k)))"

definition sys_close :: "int \<Rightarrow> kernel \<Rightarrow> (int \<times> kernel) option" where
  "sys_close fd k =
     (if fd < 2 \<or> fd \<ge> FILE_LIMIT \<or> file_array k = None \<or> flags (fd_entry k fd) = 0 then Some (-1, k)
      else let tbl = op_ptr (fd_entry k fd); k = upd_fd fd (\<lambda>e. e\<lparr>flags := 0\<rparr>) k
           in op_close tbl fd k)"

section \<open>Execute and halt\<close>

text \<open>\<open>_execute\<close> from the allocation of the PCB on.\<close>

definition start_program :: "call_frame \<Rightarrow> byte list \<Rightarrow> dentry \<Rightarrow> kernel \<Rightarrow> outcome" where
  "start_program f args d k =
     (let (p, k) = create_pcb k
      in if p = -1 then Returns (-1) k
         else let k = k\<lparr>pg := setup_paging p (pg k)\<rparr>;
                  (bytes, ret) = program_loader (filesys k) (mem k) d
              in case vstore k PROGRAM_DIRECTORY_VIRTUAL_ADDR bytes of
                   None \<Rightarrow> Undefined
                 | Some k \<Rightarrow>
                     let params_buf = args @ drop (length args) (params_stk f);
                         k = upd_pcb p (\<lambda>b. b\<lparr>params := take PARAM_LENGTH params_buf\<rparr>) k
                     in case vread_bytes k (PROGRAM_DIRECTORY_VIRTUAL_ADDR + EIP_OFFSET) 4 of
                          None \<Rightarrow> Undefined
                        | Some bs \<Rightarrow>
                            let eip = load32 (of_bytes bs \<circ> unat) 0;
                                k = upd_pcb p (\<lambda>b. b\<lparr>ebp := frame_ebp f\<rparr>) k
                            in context_switch eip USER_CS (PROGRAM_PAGE_VIRTUAL_ADDR + OFFSET - 4) USER_DS k)"

definition limit_reached :: "string \<Rightarrow> kernel \<Rightarrow> outcome" where
  "limit_reached msg k =
     (case printf (cstring msg) (\<lambda>_. 0) k of None \<Rightarrow> Undefined | Some (n, k) \<Rightarrow> Returns PROG_LIMIT_REACHED k)"

definition execute :: "call_frame \<Rightarrow> ptr option \<Rightarrow> kernel \<Rightarrow> outcome" where
  "execute f command k =
     (case command of
        None \<Rightarrow> Returns (-1) k
      | Some c \<Rightarrow>
          if term_prog_counter (tm k (cur_term_id k)) \<ge> MAX_PROG_NUM_PER_TERM
          then limit_reached ''FAIL: cannot execute more than 4 tasks in a terminal!\<newline>'' k
          else if prog_counter k \<ge> MAX_PROGRAM_COUNT
          then limit_reached ''FAIL: cannot execute more than 6 tasks!\<newline>'' k
          else case parse_command c of
            None \<Rightarrow> Undefined
          | Some (filename, args) \<Rightarrow>
              if length args > PARAM_LENGTH then Undefined
              else case read_dentry_by_name (filesys k) (mem k) (Some (of_bytes filename)) (Some (dentry_stk f)) of
                None \<Rightarrow> Undefined
              | Some (r, dentry) \<Rightarrow>
                  if r = -1 then Returns (-1) k
                  else if check_validity (filesys k) (mem k) (magic_stk f) (the dentry) = -1 then Returns (-1) k
                  else start_program f args (the dentry) k)"

definition jump_to_exec_ret :: "u32 \<Rightarrow> u32 \<Rightarrow> kernel \<Rightarrow> outcome" where
  "jump_to_exec_ret frame ret_status k = Frame_Return frame (Some ret_status) (set_tss k)"

definition close_all :: "kernel \<Rightarrow> kernel option" where
  "close_all k = fold (\<lambda>fd r. Option.bind r (\<lambda>k.
     if flags (fd_entry k (int fd)) \<noteq> 0 then map_option snd (sys_close (int fd) k) else Some k)) [0..<8] (Some k)"

text \<open>
  Relaunching the base shell of a terminal does not come back; should \<open>execute\<close> return there,
  the code goes on with the NULL parent.
\<close>

definition halt :: "call_frame \<Rightarrow> byte \<Rightarrow> kernel \<Rightarrow> outcome" where
  "halt f ret_status k =
     (let child = cur_pid k
      in if \<not> valid_pid k child \<or> file_array k = None then Undefined
         else let parent = parent_pcb_pointer (pcbs k ! nat child);
                  k = upd_pcb child (\<lambda>b. b\<lparr>status := 0\<rparr>) k;
                  k = upd_pcb child (\<lambda>b. b\<lparr>parent_pcb_pointer := None\<rparr>) k
              in case close_all k of
                   None \<Rightarrow> Undefined
                 | Some k \<Rightarrow>
                     (case parent of
                        None \<Rightarrow>
                          let k = k\<lparr>prog_counter := prog_counter k - 1\<rparr>;
                              k = upd_tm (cur_term_id k) (\<lambda>t. t\<lparr>term_prog_counter := 0\<rparr>) k;
                              k = clear k
                          in (case execute f (Some (cstring ''shell'')) k of
                                Returns r k \<Rightarrow> Undefined
                              | out \<Rightarrow> out)
                      | Some q \<Rightarrow>
                          let k = k\<lparr>pg := disable_prog_vid_page (pg k)\<rparr>;
                              k = upd_pcb child (\<lambda>b. b\<lparr>video_mem_flag := 0\<rparr>) k;
                              k = k\<lparr>file_array := Some q\<rparr>;
                              k = k\<lparr>prog_counter := prog_counter k - 1\<rparr>;
                              k = upd_tm (cur_term_id k) (\<lambda>t. t\<lparr>term_prog_counter := term_prog_counter t - 1\<rparr>) k;
                              k = k\<lparr>pg := setup_paging (pid (pcbs k ! q)) (pg k)\<rparr>
                          in if program_exception_flag k \<noteq> 0
                             then jump_to_exec_ret (ebp (pcbs k ! nat child)) EXP_ERROR
                                    (k\<lparr>program_exception_flag := 0\<rparr>)
                             else jump_to_exec_ret (ebp (pcbs k ! nat child)) (ucast ret_status) k))"

section \<open>Arguments, video memory, signals\<close>

definition getargs :: "addr \<Rightarrow> int \<Rightarrow> kernel \<Rightarrow> (int \<times> kernel) option" where
  "getargs buf nbytes k =
     (let p = cur_pid k
      in if \<not> valid_pid k p \<or> 0 \<notin> set (params (pcbs k ! nat p)) then None
         else let args = of_bytes (params (pcbs k ! nat p))
              in Option.bind (strlen args) (\<lambda>len.
                 if (word_of_int nbytes :: u32) < of_nat len + 1 \<or> args 0 = 0 then Some (-1, k)
                 else Option.bind (strcpy args) (\<lambda>bs. map_option (\<lambda>k. (0, k)) (vstore k buf bs))))"

definition vidmap :: "addr \<Rightarrow> kernel \<Rightarrow> (int \<times> kernel) option" where
  "vidmap screen_start k =
     (if screen_start < MB_128 \<or> screen_start \<ge> MB_132 then Some (-1, k)
      else let k = k\<lparr>pg := enable_prog_vid_page (pg k)\<rparr>
           in Option.bind (vstore k screen_start (bytes_of_u32 MB_132)) (\<lambda>k.
              let p = cur_pid k
              in if \<not> valid_pid k p then None
                 else Some (0, upd_pcb p (\<lambda>b. b\<lparr>video_mem_flag := 1\<rparr>) k)))"

definition set_handler :: "int \<Rightarrow> addr \<Rightarrow> kernel \<Rightarrow> (int \<times> kernel) option" where
  "set_handler signum handler_address k = Some (-1, k)"

definition sigreturn :: "kernel \<Rightarrow> (int \<times> kernel) option" where
  "sigreturn k = Some (-1, k)"

section \<open>Dispatch\<close>

text \<open>
  \<open>dispatch_syscall\<close>: the call number is in \<open>eax\<close>, the arguments in \<open>ebx\<close>, \<open>ecx\<close> and
  \<open>edx\<close>.  A string argument is read through the page tables up to its end: a NUL, for a
  command also a newline.
\<close>

definition returned :: "(int \<times> kernel) option \<Rightarrow> outcome" where
  "returned r = (case r of None \<Rightarrow> Undefined | Some (v, k) \<Rightarrow> Returns v k)"

definition with_str :: "(byte \<Rightarrow> bool) \<Rightarrow> addr \<Rightarrow> (ptr option \<Rightarrow> kernel \<Rightarrow> outcome) \<Rightarrow> kernel \<Rightarrow> outcome" where
  "with_str stop a f k =
     (if a = 0 then f None k
      else case fetch_str stop k a [] of None \<Rightarrow> Undefined | Some bs \<Rightarrow> f (Some (of_bytes bs)) k)"

definition dispatch_syscall ::
  "call_frame \<Rightarrow> event list \<Rightarrow> u32 \<Rightarrow> u32 \<Rightarrow> u32 \<Rightarrow> u32 \<Rightarrow> kernel \<Rightarrow> outcome" where
  "dispatch_syscall f evs eax ebx ecx edx k =
     (if sint eax < 1 \<or> sint eax > 10 then Returns (-1) k
      else if eax = 1 then halt f (ucast ebx) k
      else if eax = 2 then with_str (\<lambda>b. b = 0 \<or> b = 0x0A) ebx (execute f) k
      else if eax = 3 then returned (sys_read evs (sint ebx) ecx (sint edx) k)
      else if eax = 4 then returned (sys_write (sint ebx) ecx (sint edx) k)
      else if eax = 5 then with_str (\<lambda>b. b = 0) ebx (\<lambda>s k. returned (sys_open (dentry_stk f) s k)) k
      else if eax = 6 then returned (sys_close (sint ebx) k)
      else if eax = 7 then returned (getargs ebx (sint ecx) k)
      else if eax = 8 then returned (vidmap ebx k)
      else if eax = 9 then returned (set_handler (sint ebx) ecx k)
      else returned (sigreturn k))"


section \<open>Descriptors: open and close\<close>

text \<open>The first free descriptor from 2 on, or 8.\<close>

lemma free_fd_spec:
  "fd \<le> 8 \<Longrightarrow> fd \<le> free_fd k fd \<and> free_fd k fd \<le> 8 \<and> (\<forall>i. fd \<le> i \<and> i < free_fd k fd \<longrightarrow> flags (fd_entry k i) \<noteq> 0)
    \<and> (free_fd k fd < 8 \<longrightarrow> flags (fd_entry k (free_fd k fd)) = 0)"
proof (induction k fd rule: free_fd.induct)
  case (1 k fd)
  show ?case
  proof (cases "fd < FILE_LIMIT \<and> flags (fd_entry k fd) \<noteq> 0")
    case True
    then have "free_fd k fd = free_fd k (fd + 1)" by (subst free_fd.simps) simp
    moreover have "fd + 1 \<le> 8" using True by (simp add: FILE_LIMIT_def)
    moreover have "fd \<le> i \<longleftrightarrow> i = fd \<or> fd + 1 \<le> i" for i by auto
    ultimately show ?thesis using "1.IH" [OF True] True by auto
  next
    case False
    then have "free_fd k fd = fd" by (subst free_fd.simps) auto
    then show ?thesis using False 1 by (auto simp: FILE_LIMIT_def)
  qed
qed

definition table_of :: "u32 \<Rightarrow> op_table" where
  "table_of ty = (if ty = 0 then rtc_op_table else if ty = 1 then dirt_op_table
     else if ty = 2 then regular_file_op_table else OP_NULL)"

lemma sys_open_eq:
  assumes "files_ok k" and "free_fd k 2 < 8"
    and "read_dentry_by_name (filesys k) (mem k) (Some name) (Some dl) = Some (0, Some d)"
    and "table_of (file_type d) \<noteq> OP_NULL"
  shows "\<exists>f. sys_open dl (Some name) k = Some (free_fd k 2, upd_fd (free_fd k 2) f k)
    \<and> (\<forall>e. flags (f e) = 1 \<and> op_ptr (f e) = table_of (file_type d))"
proof -
  let ?fd = "free_fd k 2" and ?t = "table_of (file_type d)"
  have fd: "2 \<le> ?fd" "?fd \<le> 7" using free_fd_spec [of 2 k] assms(2) by auto
  define g where "g = (\<lambda>e :: file_abs_entry. e\<lparr>inode_idx := d_inode_idx d, flags := 1, op_ptr := ?t\<rparr>)"
  have up: "upd_fd ?fd (\<lambda>e. e\<lparr>op_ptr := ?t\<rparr>) (upd_fd ?fd (\<lambda>e. e\<lparr>flags := 1\<rparr>)
      (upd_fd ?fd (\<lambda>e. e\<lparr>inode_idx := d_inode_idx d\<rparr>) k)) = upd_fd ?fd g k"
    using assms(1) fd by (simp add: upd_fd_twice g_def)
  obtain r f where f: "op_open ?t ?fd (upd_fd ?fd g k) = Some (r, upd_fd ?fd f k)"
    "\<forall>e. flags (f e) = 1 \<and> op_ptr (f e) = ?t"
    using op_opened [OF assms(1) fd, of g 1 ?t ?t] assms(4) by (auto simp: g_def)
  have fa: "file_array k \<noteq> None" using assms(1) by (auto simp: files_ok_def)
  have ty: "file_type d = 0 \<and> ?t = rtc_op_table \<or> file_type d = 1 \<and> ?t = dirt_op_table \<or> file_type d = 2 \<and> ?t = regular_file_op_table"
    using assms(4) by (auto simp: table_of_def split: if_splits)
  have "sys_open dl (Some name) k = map_option (\<lambda>(r, k). (?fd, k)) (op_open ?t ?fd (upd_fd ?fd (\<lambda>e. e\<lparr>op_ptr := ?t\<rparr>) (upd_fd ?fd (\<lambda>e. e\<lparr>flags := 1\<rparr>)
      (upd_fd ?fd (\<lambda>e. e\<lparr>inode_idx := d_inode_idx d\<rparr>) k))))"
    using ty fa assms(2,3) by (auto simp: sys_open_def Let_def FILE_LIMIT_def)
  then show ?thesis unfolding up f(1) using f(2) by auto
qed

text \<open>What \<open>open\<close> puts into the descriptor: all of its fields, from the directory entry alone.\<close>

definition opened :: "dentry \<Rightarrow> file_abs_entry" where
  "opened d = \<lparr>op_ptr = table_of (file_type d), inode_idx = (if file_type d = 2 then d_inode_idx d else 0),
     file_position = (if file_type d = 0 then 256 else 0), flags = 1\<rparr>"

lemma sys_open_entry:
  assumes "files_ok k" and "free_fd k 2 < 8"
    and "read_dentry_by_name (filesys k) (mem k) (Some name) (Some dl) = Some (0, Some d)"
    and "table_of (file_type d) \<noteq> OP_NULL"
  shows "sys_open dl (Some name) k = Some (free_fd k 2, upd_fd (free_fd k 2) (\<lambda>_. opened d) k)"
proof -
  let ?fd = "free_fd k 2" and ?t = "table_of (file_type d)"
  have fd: "2 \<le> ?fd" "?fd \<le> 7" using free_fd_spec [of 2 k] assms(2) by auto
  have fa: "file_array k \<noteq> None" using assms(1) by (auto simp: files_ok_def)
  have e: "e\<lparr>flags := v, op_ptr := t, inode_idx := i, file_position := q\<rparr> = \<lparr>op_ptr = t, inode_idx = i, file_position = q, flags = v\<rparr>"
    "e\<lparr>flags := v, op_ptr := t, file_position := q, inode_idx := i\<rparr> = \<lparr>op_ptr = t, inode_idx = i, file_position = q, flags = v\<rparr>"
    "e\<lparr>inode_idx := i, flags := v, op_ptr := t, file_position := q\<rparr> = \<lparr>op_ptr = t, inode_idx = i, file_position = q, flags = v\<rparr>"
    for e :: file_abs_entry and t i q v by (cases e; simp)+
  consider "file_type d = 0" "?t = rtc_op_table" | "file_type d = 1" "?t = dirt_op_table" | "file_type d = 2" "?t = regular_file_op_table"
    using assms(4) by (auto simp: table_of_def split: if_splits)
  then show ?thesis
    using fa assms fd
    by cases (simp_all add: sys_open_def Let_def FILE_LIMIT_def op_open_def rtc_open_def directory_open_def file_open_def upd_fd_twice
        opened_def MAX_RTC_FREQ_def e)
qed

lemma free_fd_unique:
  assumes "2 \<le> fd" and "fd < 8" and "flags (fd_entry k fd) = 0" and "\<forall>i. 2 \<le> i \<and> i < fd \<longrightarrow> flags (fd_entry k i) \<noteq> 0"
  shows "free_fd k 2 = fd"
proof -
  have sp: "2 \<le> free_fd k 2" "\<forall>i. 2 \<le> i \<and> i < free_fd k 2 \<longrightarrow> flags (fd_entry k i) \<noteq> 0" "free_fd k 2 < 8 \<longrightarrow> flags (fd_entry k (free_fd k 2)) = 0"
    using free_fd_spec [of 2 k] by auto
  have "\<not> fd < free_fd k 2" using sp(2) assms(1,3) by auto
  moreover have "\<not> free_fd k 2 < fd" using sp(1,3) assms(2,4) by auto
  ultimately show ?thesis by simp
qed

lemma sys_close_eq:
  assumes "files_ok k" and "2 \<le> fd" and "fd < 8" and "flags (fd_entry k fd) \<noteq> 0" and "op_ptr (fd_entry k fd) \<noteq> OP_NULL"
  shows "\<exists>f. sys_close fd k = Some (0, upd_fd fd f k) \<and> (\<forall>e. flags (f e) = 0)"
proof -
  have fa: "file_array k \<noteq> None" using assms(1) by (auto simp: files_ok_def)
  obtain f where "op_close (op_ptr (fd_entry k fd)) fd (upd_fd fd (\<lambda>e. e\<lparr>flags := 0\<rparr>) k) = Some (0, upd_fd fd f k)"
    "\<forall>e. flags (f e) = 0"
    using op_closed [OF assms(1,2) _ _ assms(5), of "\<lambda>e. e\<lparr>flags := 0\<rparr>" 0] assms(3) by auto
  then show ?thesis using assms(2-4) fa by (auto simp: sys_close_def Let_def FILE_LIMIT_def)
qed

text \<open>Whatever \<open>close\<close> does, it does to one descriptor.\<close>

lemma sys_close_frame:
  assumes "files_ok k" and "sys_close fd k = Some (r, k')"
  shows "\<exists>f. k' = upd_fd fd f k"
proof (cases "2 \<le> fd \<and> fd < 8 \<and> flags (fd_entry k fd) \<noteq> 0")
  case True
  have fa: "file_array k \<noteq> None" using assms(1) by (auto simp: files_ok_def)
  have "op_ptr (fd_entry k fd) \<noteq> OP_NULL"
    using True assms(2) fa by (auto simp: sys_close_def Let_def FILE_LIMIT_def op_close_def)
  then show ?thesis using sys_close_eq [OF assms(1)] True assms(2) by fastforce
next
  case False
  then have "k' = k" using assms(2) by (auto simp: sys_close_def FILE_LIMIT_def split: if_splits)
  then show ?thesis using fd_upd_same [of fd k] by metis
qed



text \<open>An unknown file type fails after the descriptor was marked: it stays in use.\<close>

lemma open_unknown_type_leaks:
  assumes "files_ok k" and "free_fd k 2 < 8"
    and "read_dentry_by_name (filesys k) (mem k) (Some name) (Some dl) = Some (0, Some d)"
    and "table_of (file_type d) = OP_NULL"
  shows "\<exists>k'. sys_open dl (Some name) k = Some (-1, k') \<and> flags (fd_entry k' (free_fd k 2)) = 1"
proof -
  let ?fd = "free_fd k 2"
  have fd: "2 \<le> ?fd" using free_fd_spec [of 2 k] by simp
  have fa: "file_array k \<noteq> None" using assms(1) by (auto simp: files_ok_def)
  have ty: "file_type d \<noteq> 0" "file_type d \<noteq> 1" "file_type d \<noteq> 2" using assms(4) by (auto simp: table_of_def split: if_splits)
  have "sys_open dl (Some name) k = Some (-1, upd_fd ?fd (\<lambda>e. e\<lparr>flags := 1\<rparr>) (upd_fd ?fd (\<lambda>e. e\<lparr>inode_idx := d_inode_idx d\<rparr>) k))"
    using ty fa assms(2,3) by (simp add: sys_open_def Let_def FILE_LIMIT_def)
  then show ?thesis using fd_entry_upd [of "upd_fd ?fd (\<lambda>e. e\<lparr>inode_idx := d_inode_idx d\<rparr>) k" ?fd ?fd "\<lambda>e. e\<lparr>flags := 1\<rparr>"] fd assms(1,2)
    by simp
qed

section \<open>Arguments and video memory\<close>

lemma getargs_eq:
  assumes "valid_pid k (cur_pid k)" and "params (pcbs k ! nat (cur_pid k)) = s @ [0] @ rest" and "0 \<notin> set s"
    and "length s < 4294967295" and "0 \<le> nbytes" and "nbytes < 4294967296" and "linear k buf pa (length s + 1)"
  shows "getargs buf nbytes k =
    (if s = [] \<or> nbytes < int (length s) + 1 then Some (-1, k)
     else Some (0, k\<lparr>mem := store_bytes (mem k) pa (s @ [0])\<rparr>))"
proof -
  let ?a = "of_bytes (params (pcbs k ! nat (cur_pid k)))"
  have c: "is_cstr ?a (length s)"
    using assms(2,3) by (auto simp: is_cstr_def of_bytes_def nth_append in_set_conv_nth)
  have len: "strlen ?a = Some (length s)" by (rule strlen_Some [OF c])
  have cpy: "strcpy ?a = Some (s @ [0])"
  proof -
    have "map ?a [0..<Suc (length s)] = s @ [0]"
      unfolding assms(2) by (rule nth_equalityI) (simp_all add: of_bytes_def nth_append less_Suc_eq)
    then show ?thesis using strcpy_Some [OF c] by simp
  qed
  have cmp: "(word_of_int nbytes :: u32) < of_nat (length s) + 1 \<longleftrightarrow> nbytes < int (length s) + 1"
  proof -
    have "unat (word_of_int nbytes :: u32) = nat nbytes" using assms(5,6) by (rule unat_of_int_u32)
    moreover have "unat (of_nat (length s) + 1 :: u32) = length s + 1"
      using unat_of_nat_u32 [of "length s + 1"] assms(4) by (simp add: add.commute)
    ultimately show ?thesis using assms(5) by (simp add: word_less_nat_alt nat_less_iff) linarith
  qed
  have head: "?a 0 = 0 \<longleftrightarrow> s = []" using assms(2,3) by (cases s) (auto simp: of_bytes_def)
  have z: "0 \<in> set (params (pcbs k ! nat (cur_pid k)))" using assms(2) by simp
  have st: "vstore k buf (s @ [0]) = Some (k\<lparr>mem := store_bytes (mem k) pa (s @ [0])\<rparr>)"
    by (rule vstore_linear) (use assms(7) in simp)
  have "getargs buf nbytes k = (if nbytes < int (length s) + 1 \<or> s = [] then Some (-1, k)
      else Some (0, k\<lparr>mem := store_bytes (mem k) pa (s @ [0])\<rparr>))"
    using assms(1) z unfolding getargs_def Let_def len Option.bind.simps cmp head cpy st by simp
  then show ?thesis by (simp only: disj_commute)
qed

text \<open>C30: \<open>getargs\<close> hands out the argument string of the current process: it fails, changing
  nothing, when there are no arguments or they do not fit with their NUL into the buffer,
  and otherwise copies exactly the string and its NUL.\<close>

theorem getargs_correct:
  assumes "valid_pid k (cur_pid k)" and "params (pcbs k ! nat (cur_pid k)) = s @ [0] @ rest" and "0 \<notin> set s"
    and "length s < 4294967295" and "0 \<le> nbytes" and "nbytes < 4294967296" and "linear k buf pa (length s + 1)"
  shows "getargs buf nbytes k =
    (if s = [] \<or> nbytes < int (length s) + 1 then Some (-1, k)
     else Some (0, k\<lparr>mem := store_bytes (mem k) pa (s @ [0])\<rparr>))"
  by (rule getargs_eq [OF assms])

theorem getargs_correct_witness:
  "\<exists>k'. getargs 0x600000 5 (demo_kernel\<lparr>terminals := replicate 3 (zero_terminal\<lparr>term_prog_counter := 1\<rparr>),
      pcbs := replicate 6 (zero_pcb\<lparr>params := [0x61, 0]\<rparr>)\<rparr>) = Some (0, k') \<and> mem k' 0x600000 = 0x61"
proof -
  let ?k = "demo_kernel\<lparr>terminals := replicate 3 (zero_terminal\<lparr>term_prog_counter := 1\<rparr>),
      pcbs := replicate 6 (zero_pcb\<lparr>params := [0x61, 0]\<rparr>)\<rparr>"
  have c: "cur_pid ?k = 0" by (simp add: cur_pid_def tm_def demo_kernel_def start_kernel_def top_pid_def zero_terminal_def)
  have v: "valid_pid ?k (cur_pid ?k)" and p: "params (pcbs ?k ! nat (cur_pid ?k)) = [0x61] @ [0] @ []"
    unfolding c by simp_all
  have l: "linear ?k 0x600000 0x600000 (length [0x61 :: byte] + 1)"
    by (simp add: linear_def demo_kernel_def start_kernel_def zero_paging_def translate_def)
  show ?thesis using getargs_correct [OF v p, of 5 "0x600000" "0x600000"] l by simp
qed

text \<open>\<open>vidmap\<close>: its result and its effect on the state.\<close>

lemma vidmap_eq:
  "(unat a div 4194304 \<noteq> 32 \<longrightarrow> vidmap a k = Some (-1, k))
   \<and> (unat a div 4194304 = 32 \<and> valid_pid k (cur_pid k) \<and> linear (k\<lparr>pg := enable_prog_vid_page (pg k)\<rparr>) a pa 4 \<longrightarrow>
       vidmap a k = Some (0, upd_pcb (cur_pid k) (\<lambda>b. b\<lparr>video_mem_flag := 1\<rparr>)
         (k\<lparr>pg := enable_prog_vid_page (pg k), mem := store_bytes (mem k) pa (bytes_of_u32 0x08400000)\<rparr>)))"
proof -
  have r: "(a < MB_128 \<or> a \<ge> MB_132) \<longleftrightarrow> unat a div 4194304 \<noteq> 32"
    by (auto simp: MB_128_def MB_132_def word_less_nat_alt word_le_nat_alt)
  have b4: "length (bytes_of_u32 v) = 4" for v by (simp add: bytes_of_u32_def)
  have "vidmap a k = Some (0, upd_pcb (cur_pid k) (\<lambda>b. b\<lparr>video_mem_flag := 1\<rparr>)
         (k\<lparr>pg := enable_prog_vid_page (pg k), mem := store_bytes (mem k) pa (bytes_of_u32 0x08400000)\<rparr>))"
    if "unat a div 4194304 = 32" "valid_pid k (cur_pid k)" and l: "linear (k\<lparr>pg := enable_prog_vid_page (pg k)\<rparr>) a pa 4"
  proof -
    have g: "(a < MB_128 \<or> a \<ge> MB_132) = False" using r that(1) by simp
    have v: "vstore (k\<lparr>pg := enable_prog_vid_page (pg k)\<rparr>) a (bytes_of_u32 MB_132)
        = Some (k\<lparr>pg := enable_prog_vid_page (pg k), mem := store_bytes (mem k) pa (bytes_of_u32 MB_132)\<rparr>)"
      using vstore_linear [of "k\<lparr>pg := enable_prog_vid_page (pg k)\<rparr>" a pa "bytes_of_u32 MB_132"] l b4 by simp
    have c: "cur_pid (k\<lparr>pg := q, mem := m\<rparr>) = cur_pid k" for q m by (simp add: cur_pid_def tm_def)
    show ?thesis using that(2) unfolding vidmap_def g if_False Let_def v Option.bind.simps c by (simp add: MB_132_def)
  qed
  moreover have "vidmap a k = Some (-1, k)" if "unat a div 4194304 \<noteq> 32" using r that by (simp add: vidmap_def)
  ultimately show ?thesis by blast
qed

end
