(* ===== verification/Scheduling.thy ===== *)
theory Scheduling
  imports System_Call
begin

text \<open>
  The scheduler, \<open>scheduling.c\<close>: terminal initialisation, the start of the first shell, the
  programming of the interval timer, its interrupt handler and the switch to the process of
  another terminal.  (\<open>switch_terminal\<close>, which only changes what is displayed, is with the
  keyboard that calls it.)  \<open>cpu_ebp\<close> is the frame the processor is in when it is saved.
\<close>

definition PIT_FREQ_SET :: byte where "PIT_FREQ_SET = 0x36"
definition PIT_CTR_PORT :: u16 where "PIT_CTR_PORT = 0x43"
definition PIT_FREQ :: u32 where "PIT_FREQ = 11931"
definition PIT_CHA0_PORT :: u16 where "PIT_CHA0_PORT = 0x40"
definition LOWER_8 :: u32 where "LOWER_8 = 0xFF"
definition UPPER_8 :: u32 where "UPPER_8 = 0xFF00"
definition TERM_NUM :: nat where "TERM_NUM = 3"

lemmas [const_defs] = PIT_FREQ_SET_def PIT_CTR_PORT_def PIT_FREQ_def PIT_CHA0_PORT_def LOWER_8_def
  UPPER_8_def TERM_NUM_def

section \<open>Operations\<close>

definition start_terminal0 :: "call_frame \<Rightarrow> kernel \<Rightarrow> outcome" where
  "start_terminal0 f k =
     (let k = k\<lparr>active_term_idx := 0\<rparr>;
          k = upd_tm 0 (\<lambda>t. t\<lparr>active := 1\<rparr>) k;
          k = k\<lparr>cur_term_id := 0\<rparr>
      in execute f (Some (cstring ''shell'')) k)"

definition restore_ebp :: "u32 \<Rightarrow> kernel \<Rightarrow> outcome" where
  "restore_ebp frame k = Frame_Return frame None k"

definition resume_process :: "int \<Rightarrow> kernel \<Rightarrow> outcome" where
  "resume_process term_id k =
     (let new_proc_pid = top_pid (tm k term_id)
      in if \<not> valid_pid k new_proc_pid then Undefined
         else let cur_pcb = pcbs k ! nat new_proc_pid;
                  k = k\<lparr>pg := setup_paging new_proc_pid (pg k)\<rparr>;
                  k = k\<lparr>tss_esp0 := PROG0_KSTACK_BOTTOM - KERNEL_STACK_SIZE * word_of_int new_proc_pid,
                        tss_ss0 := KERNEL_DS\<rparr>;
                  k = (if video_mem_flag cur_pcb \<noteq> 0
                       then k\<lparr>pg := change_prog_vid_mapping (active_term_idx k) term_id (enable_prog_vid_page (pg k))\<rparr>
                       else k);
                  k = k\<lparr>file_array := Some (nat new_proc_pid)\<rparr>
              in if term_ebp cur_pcb \<noteq> 0 then restore_ebp (term_ebp cur_pcb) k else Returns 0 k)"

definition switch_process :: "call_frame \<Rightarrow> int \<Rightarrow> int \<Rightarrow> kernel \<Rightarrow> outcome" where
  "switch_process f prev_id term_id k =
     (let k = k\<lparr>cur_term_id := term_id\<rparr>;
          prev_proc_pid = top_pid (tm k prev_id)
      in if \<not> valid_pid k prev_proc_pid then Undefined
         else let k = upd_pcb prev_proc_pid (\<lambda>b. b\<lparr>term_ebp := cpu_ebp k\<rparr>) k;
                  k = k\<lparr>video_mem := (if term_id = active_term_idx k then VIDEO_MEM else backup_page term_id)\<rparr>
              in if term_prog_counter (tm k term_id) = 0
                 then case execute f (Some (cstring ''shell'')) k of
                        Returns r k \<Rightarrow> Returns 0 k
                      | out \<Rightarrow> out
                 else resume_process term_id k)"

definition init_backup_page :: "nat \<Rightarrow> mem \<Rightarrow> mem" where
  "init_backup_page i = for_loop 0 2000 (\<lambda>j m.
     m(cell (VIDEO_MEM + push_bit 12 (of_nat i)) (int j) := (if int j mod NUM_COLS = 0 then 0x20 else 0),
       cell (VIDEO_MEM + push_bit 12 (of_nat i)) (int j) + 1 := ATTRIB))"

text \<open>
  \<open>memset(prog_pids, 0, MAX_PROG_NUM_PER_TERM)\<close> clears four bytes, the first of the four
  \<open>int\<close> elements.
\<close>

definition init_terminals :: "kernel \<Rightarrow> kernel" where
  "init_terminals k =
     (let k = for_loop 0 3 (\<lambda>i k.
            let k = upd_tm (int i) (\<lambda>t. t\<lparr>active := 0, buf_index := 0, cursor_x := 0, cursor_y := 0,
                      TERMINAL_READ_FLAG := 0, keyboard_buf := replicate 128 0,
                      prog_pids := (prog_pids t)[0 := 0]\<rparr>) k;
                k = k\<lparr>mem := for_loop 1 (Suc TERM_NUM) init_backup_page (mem k)\<rparr>
            in upd_tm (int i) (\<lambda>t. t\<lparr>term_prog_counter := 0\<rparr>) k) k
      in k\<lparr>cur_term_id := 0\<rparr>)"

definition pit_init :: "kernel \<Rightarrow> kernel" where
  "pit_init k =
     (let k = outb PIT_FREQ_SET PIT_CTR_PORT k;
          k = outb (ucast (PIT_FREQ AND LOWER_8)) PIT_CHA0_PORT k
      in outb (ucast (drop_bit 8 (PIT_FREQ AND UPPER_8))) PIT_CHA0_PORT k)"

definition pit_handler :: "call_frame \<Rightarrow> kernel \<Rightarrow> outcome" where
  "pit_handler f k =
     (if prog_counter k = 0 then Returns 0 (send_eoi 0 k)
      else let k = k\<lparr>prev_term_id := cur_term_id k\<rparr>;
               k = k\<lparr>cur_term_id := (cur_term_id k + 1) mod MAX_TERMINAL_NUM\<rparr>;
               k = send_eoi 0 k
           in switch_process f (prev_term_id k) (cur_term_id k) k)"

end
