(* ===== verification/Descriptors.thy ===== *)
theory Descriptors
  imports Prelude
begin

text \<open>
  The processor's descriptor tables.  The gates of the interrupt descriptor table (\<open>idt.c\<close>):
  the descriptor of \<open>x86_desc.h\<close>, the three functions that fill a gate and \<open>idt_init\<close>, which
  installs all vectors; the addresses of the handlers, fixed by the linker, are the argument
  \<open>h\<close>, by vector number.  The two segment descriptors that \<open>entry\<close> (\<open>kernel.c\<close>) builds for
  the LDT and the TSS.
\<close>

section \<open>Interrupt gates\<close>

record idt_desc =
  offset_15_00 :: u16
  seg_selector :: u16
  reserved4 :: byte
  reserved3 :: "1 word"
  reserved2 :: "1 word"
  reserved1 :: "1 word"
  gate_size :: "1 word"
  reserved0 :: "1 word"
  dpl :: "2 word"
  present :: "1 word"
  offset_31_16 :: u16

type_synonym idt = "idt_desc list"

definition NUM_VEC :: nat where "NUM_VEC = 256"
definition KERNEL_CS :: u16 where "KERNEL_CS = 0x10"
definition KERNEL_LEVEL :: "2 word" where "KERNEL_LEVEL = 0"
definition USER_LEVEL :: "2 word" where "USER_LEVEL = 3"

lemmas [const_defs] = NUM_VEC_def KERNEL_CS_def KERNEL_LEVEL_def USER_LEVEL_def

definition SET_IDT_ENTRY :: "u32 \<Rightarrow> idt_desc \<Rightarrow> idt_desc" where
  "SET_IDT_ENTRY handler str =
     str\<lparr>offset_31_16 := ucast (drop_bit 16 (handler AND 0xFFFF0000)),
         offset_15_00 := ucast (handler AND 0xFFFF)\<rparr>"

definition set_intr_gate :: "nat \<Rightarrow> u32 \<Rightarrow> idt \<Rightarrow> idt" where
  "set_intr_gate idx a t = t[idx := SET_IDT_ENTRY a ((t ! idx)
     \<lparr>seg_selector := KERNEL_CS, reserved4 := 0, reserved3 := 0, reserved2 := 1, reserved1 := 1,
      gate_size := 1, reserved0 := 0, dpl := KERNEL_LEVEL, present := 1\<rparr>)]"

definition set_system_gate :: "nat \<Rightarrow> u32 \<Rightarrow> idt \<Rightarrow> idt" where
  "set_system_gate idx a t = t[idx := SET_IDT_ENTRY a ((t ! idx)
     \<lparr>seg_selector := KERNEL_CS, reserved4 := 0, reserved3 := 1, reserved2 := 1, reserved1 := 1,
      gate_size := 1, reserved0 := 0, dpl := USER_LEVEL, present := 1\<rparr>)]"

definition set_system_intr_gate :: "nat \<Rightarrow> u32 \<Rightarrow> idt \<Rightarrow> idt" where
  "set_system_intr_gate idx a t = t[idx := SET_IDT_ENTRY a ((t ! idx)
     \<lparr>seg_selector := KERNEL_CS, reserved4 := 0, reserved3 := 0, reserved2 := 1, reserved1 := 1,
      gate_size := 1, reserved0 := 0, dpl := USER_LEVEL, present := 1\<rparr>)]"

definition idt_init :: "(nat \<Rightarrow> u32) \<Rightarrow> idt \<Rightarrow> idt" where
  "idt_init h t =
     (let t = set_intr_gate 0x00 (h 0x00) t; t = set_intr_gate 0x01 (h 0x01) t;
          t = set_intr_gate 0x02 (h 0x02) t; t = set_system_intr_gate 0x03 (h 0x03) t;
          t = set_system_gate 0x04 (h 0x04) t; t = set_system_gate 0x05 (h 0x05) t;
          t = set_intr_gate 0x06 (h 0x06) t; t = set_intr_gate 0x07 (h 0x07) t;
          t = set_intr_gate 0x08 (h 0x08) t; t = set_intr_gate 0x09 (h 0x09) t;
          t = set_intr_gate 0x0A (h 0x0A) t; t = set_intr_gate 0x0B (h 0x0B) t;
          t = set_intr_gate 0x0C (h 0x0C) t; t = set_intr_gate 0x0D (h 0x0D) t;
          t = set_intr_gate 0x0E (h 0x0E) t; t = set_intr_gate 0x0F (h 0x0F) t;
          t = set_intr_gate 0x10 (h 0x10) t; t = set_intr_gate 0x11 (h 0x11) t;
          t = set_intr_gate 0x12 (h 0x12) t; t = set_intr_gate 0x13 (h 0x13) t;
          t = set_intr_gate 0x14 (h 0x14) t; t = set_intr_gate 0x15 (h 0x15) t;
          t = set_intr_gate 0x16 (h 0x16) t; t = set_intr_gate 0x17 (h 0x17) t;
          t = set_intr_gate 0x18 (h 0x18) t; t = set_intr_gate 0x19 (h 0x19) t;
          t = set_intr_gate 0x1A (h 0x1A) t; t = set_intr_gate 0x1B (h 0x1B) t;
          t = set_intr_gate 0x1C (h 0x1C) t; t = set_intr_gate 0x1D (h 0x1D) t;
          t = set_intr_gate 0x1E (h 0x1E) t; t = set_intr_gate 0x1F (h 0x1F) t;
          t = set_intr_gate 0x20 (h 0x20) t; t = set_intr_gate 0x21 (h 0x21) t;
          t = set_intr_gate 0x28 (h 0x28) t
      in set_system_intr_gate 0x80 (h 0x80) t)"

section \<open>Segment descriptors\<close>

record seg_desc =
  seg_lim_15_00 :: u16
  base_15_00 :: u16
  base_23_16 :: byte
  sd_type :: "4 word"
  sd_sys :: "1 word"
  sd_dpl :: "2 word"
  sd_present :: "1 word"
  seg_lim_19_16 :: "4 word"
  sd_avail :: "1 word"
  sd_reserved :: "1 word"
  sd_opsize :: "1 word"
  sd_granularity :: "1 word"
  base_31_24 :: byte

definition KERNEL_TSS :: u16 where "KERNEL_TSS = 0x0030"
definition KERNEL_LDT :: u16 where "KERNEL_LDT = 0x0038"
definition TSS_SIZE :: u32 where "TSS_SIZE = 104"

lemmas [const_defs] = KERNEL_TSS_def KERNEL_LDT_def TSS_SIZE_def

definition SET_LDT_PARAMS :: "u32 \<Rightarrow> u32 \<Rightarrow> seg_desc \<Rightarrow> seg_desc" where
  "SET_LDT_PARAMS a lim str =
     str\<lparr>base_31_24 := ucast (drop_bit 24 (a AND 0xFF000000)),
         base_23_16 := ucast (drop_bit 16 (a AND 0x00FF0000)),
         base_15_00 := ucast (a AND 0x0000FFFF),
         seg_lim_19_16 := ucast (drop_bit 16 (lim AND 0x000F0000)),
         seg_lim_15_00 := ucast (lim AND 0x0000FFFF)\<rparr>"

definition SET_TSS_PARAMS :: "u32 \<Rightarrow> u32 \<Rightarrow> seg_desc \<Rightarrow> seg_desc" where
  "SET_TSS_PARAMS a lim str =
     str\<lparr>base_31_24 := ucast (drop_bit 24 (a AND 0xFF000000)),
         base_23_16 := ucast (drop_bit 16 (a AND 0x00FF0000)),
         base_15_00 := ucast (a AND 0x0000FFFF),
         seg_lim_19_16 := ucast (drop_bit 16 (lim AND 0x000F0000)),
         seg_lim_15_00 := ucast (lim AND 0x0000FFFF)\<rparr>"

text \<open>\<open>d\<close> is the uninitialised local variable.\<close>

definition the_ldt_desc :: "u32 \<Rightarrow> u32 \<Rightarrow> seg_desc \<Rightarrow> seg_desc" where
  "the_ldt_desc ldt_at ldt_size d = SET_LDT_PARAMS ldt_at ldt_size
     (d\<lparr>sd_granularity := 0, sd_opsize := 1, sd_reserved := 0, sd_avail := 0, sd_present := 1,
        sd_dpl := 0, sd_sys := 0, sd_type := 2\<rparr>)"

definition the_tss_desc :: "u32 \<Rightarrow> u32 \<Rightarrow> seg_desc \<Rightarrow> seg_desc" where
  "the_tss_desc tss_at tss_size d = SET_TSS_PARAMS tss_at tss_size
     (d\<lparr>sd_granularity := 0, sd_opsize := 0, sd_reserved := 0, sd_avail := 0,
        seg_lim_19_16 := ucast (TSS_SIZE AND 0x000F0000), sd_present := 1, sd_dpl := 0, sd_sys := 0,
        sd_type := 9, seg_lim_15_00 := ucast (TSS_SIZE AND 0x0000FFFF)\<rparr>)"

section \<open>Properties\<close>

text \<open>The 36 vectors \<open>idt_init\<close> installs, one step each.\<close>

definition vectors :: "nat list" where
  "vectors = [0x00, 0x01, 0x02, 0x03, 0x04, 0x05, 0x06, 0x07, 0x08, 0x09, 0x0A, 0x0B, 0x0C, 0x0D, 0x0E, 0x0F,
     0x10, 0x11, 0x12, 0x13, 0x14, 0x15, 0x16, 0x17, 0x18, 0x19, 0x1A, 0x1B, 0x1C, 0x1D, 0x1E, 0x1F, 0x20, 0x21, 0x28, 0x80]"

definition gate :: "(nat \<Rightarrow> u32) \<Rightarrow> nat \<Rightarrow> idt \<Rightarrow> idt" where
  "gate h v t = (if v = 0x03 \<or> v = 0x80 then set_system_intr_gate v (h v) t
     else if v = 0x04 \<or> v = 0x05 then set_system_gate v (h v) t else set_intr_gate v (h v) t)"

lemma idt_init_fold: "idt_init h t = fold (gate h) vectors t"
  by (simp add: idt_init_def vectors_def gate_def Let_def)

text \<open>What a reader of the descriptor sees: the processor puts the two offset halves together.\<close>

definition handler_of :: "idt_desc \<Rightarrow> u32" where
  "handler_of d = push_bit 16 (ucast (offset_31_16 d)) OR ucast (offset_15_00 d)"

definition gate_ok :: "nat \<Rightarrow> u32 \<Rightarrow> idt_desc \<Rightarrow> bool" where
  "gate_ok v a d \<longleftrightarrow> present d = 1 \<and> seg_selector d = KERNEL_CS \<and> handler_of d = a
     \<and> dpl d = (if v \<in> {0x03, 0x04, 0x05, 0x80} then USER_LEVEL else KERNEL_LEVEL)
     \<and> (gate_size d, reserved0 d, reserved1 d, reserved2 d) = (1, 0, 1, 1) \<and> reserved3 d = (if v \<in> {0x04, 0x05} then 1 else 0) \<and> reserved4 d = 0"

lemma join_halves: "push_bit 16 (ucast (ucast (drop_bit 16 (a AND 0xFFFF0000)) :: u16)) OR ucast (ucast (a AND 0xFFFF) :: u16) = (a :: u32)"
proof (rule bit_word_eqI)
  fix n
  assume n: "n < LENGTH(32)"
  have m: "(0xFFFF0000 :: u32) = NOT (mask 16)" "(0xFFFF :: u32) = mask 16" by (simp_all add: mask_eq_exp_minus_1)
  show "bit (push_bit 16 (ucast (ucast (drop_bit 16 (a AND 0xFFFF0000)) :: u16)) OR ucast (ucast (a AND 0xFFFF) :: u16) :: u32) n = bit a n"
    using n unfolding m by (cases "n < 16") (auto simp: bit_simps)
qed

lemma gate_step:
  assumes "v < length t"
  shows "length (gate h v t) = length t" and "gate_ok v (h v) (gate h v t ! v)" and "w \<noteq> v \<Longrightarrow> gate h v t ! w = t ! w"
  using assms join_halves [of "h v"]
  by (simp_all add: gate_def set_intr_gate_def set_system_gate_def set_system_intr_gate_def SET_IDT_ENTRY_def gate_ok_def handler_of_def)

lemma gates_fold:
  "distinct vs \<Longrightarrow> \<forall>v \<in> set vs. v < length t \<Longrightarrow> length (fold (gate h) vs t) = length t
    \<and> (\<forall>v \<in> set vs. gate_ok v (h v) (fold (gate h) vs t ! v)) \<and> (\<forall>w. w \<notin> set vs \<longrightarrow> fold (gate h) vs t ! w = t ! w)"
proof (induction vs arbitrary: t)
  case (Cons v vs)
  then have v: "v < length t" by simp
  have IH: "length (fold (gate h) vs (gate h v t)) = length (gate h v t)
    \<and> (\<forall>u \<in> set vs. gate_ok u (h u) (fold (gate h) vs (gate h v t) ! u))
    \<and> (\<forall>w. w \<notin> set vs \<longrightarrow> fold (gate h) vs (gate h v t) ! w = gate h v t ! w)"
    using Cons.IH [of "gate h v t"] Cons.prems gate_step(1) [OF v] by simp
  then show ?case using gate_step [OF v] Cons.prems(1) by auto
qed simp

text \<open>C39: \<open>idt_init\<close> makes every exception and interrupt of the kernel reachable and nothing more: each
  of its 36 vectors gets a present gate in the kernel code segment whose two offset halves are the
  address of its handler; only breakpoint, overflow, bound and the system call may be invoked from
  user level; only overflow and bound are trap gates; all other entries keep their contents.\<close>

theorem idt_init_gates:
  assumes "length t = NUM_VEC"
  shows "length (idt_init h t) = NUM_VEC
    \<and> (\<forall>v. v \<le> 0x21 \<or> v = 0x28 \<or> v = 0x80 \<longrightarrow> gate_ok v (h v) (idt_init h t ! v))
    \<and> (\<forall>v. 0x21 < v \<and> v \<noteq> 0x28 \<and> v \<noteq> 0x80 \<longrightarrow> idt_init h t ! v = t ! v)"
proof -
  have r: "(v \<le> 0x21 \<or> v = 0x28 \<or> v = 0x80) \<longleftrightarrow> v \<in> set vectors" for v
  proof -
    have "set vectors = {..0x21} \<union> {0x28, 0x80}" unfolding vectors_def by (auto simp: numeral_eq_Suc atMost_Suc)
    then show ?thesis by auto
  qed
  have "distinct vectors" "\<forall>v \<in> set vectors. v < length t" using assms by (simp_all add: vectors_def NUM_VEC_def)
  note g = gates_fold [OF this, of h, folded idt_init_fold]
  show ?thesis using g assms r by (auto simp flip: not_less)
qed

definition demo_gate :: idt_desc where
  "demo_gate = \<lparr>offset_15_00 = 0, seg_selector = 0, reserved4 = 0, reserved3 = 0, reserved2 = 0, reserved1 = 0, gate_size = 0,
     reserved0 = 0, dpl = 0, present = 0, offset_31_16 = 0\<rparr>"

theorem idt_init_gates_witness:
  "dpl (idt_init (\<lambda>v. 0x400000 + of_nat v) (replicate 256 demo_gate) ! 0x80) = 3 \<and> handler_of (idt_init (\<lambda>v. 0x400000 + of_nat v) (replicate 256 demo_gate) ! 0x21) = 0x400021"
proof -
  have "gate_ok v (0x400000 + of_nat v) (idt_init (\<lambda>v. 0x400000 + of_nat v) (replicate 256 demo_gate) ! v)" if "v = 0x80 \<or> v = 0x21" for v
    using idt_init_gates [of "replicate 256 demo_gate" "\<lambda>v. 0x400000 + of_nat v"] that by (auto simp: NUM_VEC_def)
  from this [of "0x80"] this [of "0x21"] show ?thesis by (simp add: gate_ok_def USER_LEVEL_def)
qed

text \<open>The base and limit a descriptor encodes.\<close>

definition base_of :: "seg_desc \<Rightarrow> u32" where
  "base_of d = push_bit 24 (ucast (base_31_24 d)) OR push_bit 16 (ucast (base_23_16 d)) OR ucast (base_15_00 d)"

definition limit_of :: "seg_desc \<Rightarrow> u32" where
  "limit_of d = push_bit 16 (ucast (seg_lim_19_16 d)) OR ucast (seg_lim_15_00 d)"

lemma and_masks:
  "(a :: u32) AND 0xFF000000 = a AND push_bit 24 (mask 8)" "a AND 0x00FF0000 = a AND push_bit 16 (mask 8)"
  "a AND 0x0000FFFF = a AND mask 16" "a AND 0x000F0000 = a AND push_bit 16 (mask 4)"
  by (simp_all add: mask_eq_exp_minus_1)

lemma join_base:
  "push_bit 24 (ucast (ucast (drop_bit 24 (a AND 0xFF000000)) :: byte)) OR push_bit 16 (ucast (ucast (drop_bit 16 (a AND 0x00FF0000)) :: byte))
     OR ucast (ucast (a AND 0x0000FFFF) :: u16) = (a :: u32)"
  unfolding and_masks
proof (rule bit_word_eqI)
  fix n
  assume n: "n < LENGTH(32)"
  consider "n < 16" | "16 \<le> n" "n < 24" | "24 \<le> n" by linarith
  then show "bit (push_bit 24 (ucast (ucast (drop_bit 24 (a AND push_bit 24 (mask 8))) :: byte))
      OR push_bit 16 (ucast (ucast (drop_bit 16 (a AND push_bit 16 (mask 8))) :: byte))
      OR ucast (ucast (a AND mask 16) :: u16) :: u32) n = bit a n"
    using n by cases (auto simp: bit_simps)
qed

lemma join_limit:
  "push_bit 16 (ucast (ucast (drop_bit 16 (l AND 0x000F0000)) :: 4 word)) OR ucast (ucast (l AND 0x0000FFFF) :: u16) = take_bit 20 (l :: u32)"
  unfolding and_masks
proof (rule bit_word_eqI)
  fix n
  assume n: "n < LENGTH(32)"
  consider "n < 16" | "16 \<le> n" "n < 20" | "20 \<le> n" by linarith
  then show "bit (push_bit 16 (ucast (ucast (drop_bit 16 (l AND push_bit 16 (mask 4))) :: 4 word)) OR ucast (ucast (l AND mask 16) :: u16) :: u32) n
      = bit (take_bit 20 l) n"
    using n by cases (auto simp: bit_simps)
qed

text \<open>The descriptors for LDT and TSS encode what they are given: the base address comes back
  exactly from its three pieces, the limit modulo 20 bits from its two (the \<open>TSS_SIZE\<close> limit set first
  is overwritten), and both are present, byte-granular system segments of level 0 with their own type,
  whatever the stack held where they were built.\<close>

lemma descriptor_roundtrip:
  "base_of (the_ldt_desc a l d) = a \<and> limit_of (the_ldt_desc a l d) = take_bit 20 l
   \<and> base_of (the_tss_desc a l d) = a \<and> limit_of (the_tss_desc a l d) = take_bit 20 l
   \<and> (sd_present (the_ldt_desc a l d), sd_granularity (the_ldt_desc a l d), sd_sys (the_ldt_desc a l d), sd_dpl (the_ldt_desc a l d), sd_type (the_ldt_desc a l d))
      = (1, 0, 0, 0, 2)
   \<and> (sd_present (the_tss_desc a l d), sd_granularity (the_tss_desc a l d), sd_sys (the_tss_desc a l d), sd_dpl (the_tss_desc a l d), sd_type (the_tss_desc a l d))
      = (1, 0, 0, 0, 9)"
  using join_base [of a] join_limit [of l]
  by (simp add: the_ldt_desc_def the_tss_desc_def SET_LDT_PARAMS_def SET_TSS_PARAMS_def base_of_def limit_of_def)

end
