(* ===== verification/Boot.thy ===== *)
theory Boot
  imports Scheduling Descriptors "HOL-Library.Monad_Syntax"
begin

text \<open>
  Exceptions (\<open>exceptions.c\<close>) and the C entry point of the kernel (\<open>kernel.c\<close>): the report on
  the multiboot structure, the descriptors, and the initialisation of every component in the
  order of the source, ending in the first shell.  The operation tables that
  \<open>terminal_op_init\<close>, \<open>rtc_op_init\<close> and \<open>file_op_init\<close> fill are the dispatch of
  \<open>Devices\<close>.  \<open>None\<close> is a format string or argument that runs out of its object.
\<close>

definition print :: "string \<Rightarrow> u32 list \<Rightarrow> kernel \<Rightarrow> kernel option" where
  "print fmt args k = map_option snd (printf (cstring fmt) (\<lambda>i. args ! i) k)"

section \<open>Exceptions\<close>

definition EXP_NUM :: nat where "EXP_NUM = 0x20"
definition PAGE_FAULT :: nat where "PAGE_FAULT = 14"

lemmas [const_defs] = EXP_NUM_def PAGE_FAULT_def

definition exp_msg :: "string list" where
  "exp_msg =
    [''Divide-by-zero Error'', ''Debug'', ''Non-maskable interrupt'', ''Breakpoint'', ''Overflow'',
     ''Bound Range Exceeded'', ''Invalid Opcode'', ''Device Not Available'', ''Double Fault'',
     ''Coprocessor Segment Overrun'', ''Invalid TSS'', ''Segment Not Present'', ''Stack Segment Fault'',
     ''General Protection Fault'', ''Page Fault'', ''Assertion Failure'', ''x87 Floating-Point Exception'',
     ''Alignment Check'', ''Machine Check'', ''SIMD Floating-Point Exception'',
     ''Virtualization Exception'', ''Reserved'', ''Reserved'', ''Reserved'', ''Reserved'', ''Reserved'',
     ''Reserved'', ''Reserved'', ''Reserved'', ''Reserved'', ''Security Exception'', ''Reserved'']"

text \<open>\<open>msg_at\<close>: where the linker put the strings of \<open>exp_msg\<close>; \<open>cr2\<close>: the faulting address.\<close>

definition exception_report :: "(nat \<Rightarrow> addr) \<Rightarrow> u32 \<Rightarrow> nat \<Rightarrow> kernel \<Rightarrow> kernel option" where
  "exception_report msg_at cr2 exp_id k =
     do { k \<leftarrow> print ''An exception has occurred:\<newline>'' [] (clear k);
          k \<leftarrow> print ''%s\<newline>'' [msg_at exp_id] k;
          k \<leftarrow> (if exp_id = PAGE_FAULT then print ''Page fault occur at %#x\<newline>'' [cr2] k else Some k);
          if exp_id = 0x0D
          then do { k \<leftarrow> print ''%x\<newline>'' [ucast (tss_ss0 k)] k; print ''%x\<newline>'' [tss_esp0 k] k }
          else Some k }"

definition exception_handler :: "call_frame \<Rightarrow> (nat \<Rightarrow> addr) \<Rightarrow> u32 \<Rightarrow> nat \<Rightarrow> kernel \<Rightarrow> outcome" where
  "exception_handler f msg_at cr2 exp_id k =
     (case exception_report msg_at cr2 exp_id k of
        None \<Rightarrow> Undefined
      | Some k \<Rightarrow>
          if prog_counter k \<noteq> 0 then halt f 0 (k\<lparr>program_exception_flag := 1\<rparr>) else Hang k)"

section \<open>The multiboot report\<close>

definition MULTIBOOT_BOOTLOADER_MAGIC :: u32 where "MULTIBOOT_BOOTLOADER_MAGIC = 0x2BADB002"

definition CHECK_FLAG :: "u32 \<Rightarrow> nat \<Rightarrow> bool" where
  "CHECK_FLAG fl b = (fl AND push_bit b 1 \<noteq> 0)"

text \<open>A field of a structure in memory, by its offset.\<close>

definition field :: "kernel \<Rightarrow> addr \<Rightarrow> u32 \<Rightarrow> u32" where
  "field k a off = load32 (mem k) (a + off)"

definition first_bytes :: "addr \<Rightarrow> kernel \<Rightarrow> kernel option" where
  "first_bytes start k =
     fold (\<lambda>i r. do { k \<leftarrow> r; print ''0x%x '' [scast (mem k (start + of_nat i))] k }) [0..<16] (Some k)"

partial_function (option) print_modules :: "addr \<Rightarrow> u32 \<Rightarrow> addr \<Rightarrow> kernel \<Rightarrow> kernel option" where
  "print_modules mbi mod_count md k =
     (if mod_count < field k mbi 20
      then do { k \<leftarrow> print ''Module %d loaded at address: 0x%#x\<newline>'' [mod_count, field k md 0] k;
                k \<leftarrow> print ''Module %d ends at address: 0x%#x\<newline>'' [mod_count, field k md 4] k;
                k \<leftarrow> print ''First few bytes of module:\<newline>'' [] k;
                k \<leftarrow> first_bytes (field k md 0) k;
                k \<leftarrow> print ''\<newline>'' [] k;
                print_modules mbi (mod_count + 1) (md + 16) k }
      else Some k)"

partial_function (option) print_mmap :: "addr \<Rightarrow> addr \<Rightarrow> kernel \<Rightarrow> kernel option" where
  "print_mmap mbi mmap k =
     (if mmap < field k mbi 48 + field k mbi 44
      then do { k \<leftarrow> print ''    size = 0x%x, base_addr = 0x%#x%#x\<newline>    type = 0x%x,  length    = 0x%#x%#x\<newline>''
                       [field k mmap 0, field k mmap 8, field k mmap 4, field k mmap 20, field k mmap 16,
                        field k mmap 12] k;
                print_mmap mbi (mmap + field k mmap 0 + 4) k }
      else Some k)"

text \<open>The report up to the modules, with the value \<open>FS_ADDR\<close> has after it.\<close>

definition report_modules :: "addr \<Rightarrow> kernel \<Rightarrow> (u32 \<times> kernel) option" where
  "report_modules mbi k =
     do { k \<leftarrow> print ''flags = 0x%#x\<newline>'' [field k mbi 0] k;
          k \<leftarrow> (if CHECK_FLAG (field k mbi 0) 0
                then print ''mem_lower = %uKB, mem_upper = %uKB\<newline>'' [field k mbi 4, field k mbi 8] k else Some k);
          k \<leftarrow> (if CHECK_FLAG (field k mbi 0) 1
                then print ''boot_device = 0x%#x\<newline>'' [field k mbi 12] k else Some k);
          k \<leftarrow> (if CHECK_FLAG (field k mbi 0) 2
                then print ''cmdline = %s\<newline>'' [field k mbi 16] k else Some k);
          if CHECK_FLAG (field k mbi 0) 3
          then map_option (Pair (field k (field k mbi 24) 0)) (print_modules mbi 0 (field k mbi 24) k)
          else Some (0, k) }"

definition report_sections :: "addr \<Rightarrow> kernel \<Rightarrow> kernel option" where
  "report_sections mbi k =
     do { k \<leftarrow> (if CHECK_FLAG (field k mbi 0) 5
                then print ''elf_sec: num = %u, size = 0x%#x, addr = 0x%#x, shndx = 0x%#x\<newline>''
                       [field k mbi 28, field k mbi 32, field k mbi 36, field k mbi 40] k
                else Some k);
          if CHECK_FLAG (field k mbi 0) 6
          then do { k \<leftarrow> print ''mmap_addr = 0x%#x, mmap_length = 0x%x\<newline>''
                           [field k mbi 48, field k mbi 44] k;
                    print_mmap mbi (field k mbi 48) k }
          else Some k }"

section \<open>Entry\<close>

text \<open>What the linker and the hardware provide.\<close>

record boot_env =
  ldt_at :: u32
  ldt_lim :: u32
  tss_at :: u32
  tss_lim :: u32
  stk_desc :: seg_desc
  in_rtc_b :: byte
  in_rtc_a :: byte
  in_cur1 :: byte
  in_cur2 :: byte
  frame0 :: call_frame

record gdt =
  ldt_desc_ptr :: seg_desc
  tss_desc_ptr :: seg_desc
  ldt_segment_selector :: u16
  ldtr :: u16
  task_reg :: u16

definition init_descriptors :: "boot_env \<Rightarrow> gdt \<Rightarrow> gdt" where
  "init_descriptors e g =
     g\<lparr>ldt_desc_ptr := the_ldt_desc (ldt_at e) (ldt_lim e) (stk_desc e), ldtr := KERNEL_LDT,
       tss_desc_ptr := the_tss_desc (tss_at e) (tss_lim e) (stk_desc e),
       ldt_segment_selector := KERNEL_LDT, task_reg := KERNEL_TSS\<rparr>"

definition init_file_system :: "u32 \<Rightarrow> kernel \<Rightarrow> kernel" where
  "init_file_system fs_addr k = k\<lparr>filesys := boot_block_fs (mem k) fs_addr, file_array := None\<rparr>"

definition init_kernel :: "boot_env \<Rightarrow> u32 \<Rightarrow> kernel \<Rightarrow> kernel option" where
  "init_kernel e fs_addr k =
     do { let k = k\<lparr>tss_ss0 := KERNEL_DS, tss_esp0 := 0x800000\<rparr>;
          let k = k\<lparr>pg := init_paging (pg k)\<rparr>;
          let k = k\<lparr>video_mem := 0xb8000\<rparr>;
          k \<leftarrow> print ''Enabling Paging\<newline>'' [] k;
          let k = i8259_init k;
          let k = enable_irq 1 k;
          let k = rtc_init (in_rtc_b e) (in_rtc_a e) k;
          let k = enable_irq 8 k;
          let k = enable_cursor (in_cur1 e) (in_cur2 e) k;
          let k = init_file_system fs_addr k;
          let k = init_prog k;
          let k = init_terminals k;
          let k = pit_init k;
          let k = enable_irq 0 k;
          Some (clear k) }"

definition launch :: "boot_env \<Rightarrow> u32 \<Rightarrow> kernel \<Rightarrow> outcome" where
  "launch e fs_addr k =
     (case init_kernel e fs_addr k of
        None \<Rightarrow> Undefined
      | Some k \<Rightarrow> (case start_terminal0 (frame0 e) k of Returns r k \<Rightarrow> Hang k | out \<Rightarrow> out))"

definition entry :: "boot_env \<Rightarrow> u32 \<Rightarrow> addr \<Rightarrow> gdt \<Rightarrow> kernel \<Rightarrow> gdt \<times> outcome" where
  "entry e magic mbi g k =
     (let k = clear k
      in if magic \<noteq> MULTIBOOT_BOOTLOADER_MAGIC
         then (g, case print ''Invalid magic number: 0x%#x\<newline>'' [magic] k of None \<Rightarrow> Undefined | Some k \<Rightarrow> Returns 0 k)
         else case report_modules mbi k of
           None \<Rightarrow> (g, Undefined)
         | Some (fs_addr, k) \<Rightarrow>
             if CHECK_FLAG (field k mbi 0) 4 \<and> CHECK_FLAG (field k mbi 0) 5
             then (g, case print ''Both bits 4 and 5 are set.\<newline>'' [] k of None \<Rightarrow> Undefined | Some k \<Rightarrow> Returns 0 k)
             else case report_sections mbi k of
               None \<Rightarrow> (g, Undefined)
             | Some k \<Rightarrow> (init_descriptors e g, launch e fs_addr k))"

end
