(* ===== verification/Kernel_Inv.thy ===== *)
theory Kernel_Inv
  imports Scheduling
begin

text \<open>
  The invariant of the whole kernel between two entries from user level, and that every
  interrupt, system call and timer switch keeps it: consoles, line buffers, page tables and
  process table are consistent, and the process on top of the current terminal is the one whose
  memory is mapped, whose descriptors are current and whose kernel stack the processor will use.
\<close>

section \<open>The invariant\<close>

definition window_of :: "paging \<Rightarrow> nat \<Rightarrow> bool" where
  "window_of p n \<longleftrightarrow> pd_present (page_directory p 32) = 1 \<and> pd_u_s (page_directory p 32) = 1
     \<and> pd_page_size (page_directory p 32) = 1 \<and> page_table_addr (page_directory p 32) = prog_frame (int n)"

text \<open>Process \<open>p\<close> is the one the processor and the kernel work for.\<close>

definition active_proc :: "kernel \<Rightarrow> nat \<Rightarrow> bool" where
  "active_proc k p \<longleftrightarrow> file_array k = Some p \<and> window_of (pg k) p
     \<and> tss_esp0 k = PROG0_KSTACK_BOTTOM - KERNEL_STACK_SIZE * of_nat p \<and> tss_ss0 k = KERNEL_DS"

definition base_ok :: "kernel \<Rightarrow> bool" where
  "base_ok k \<longleftrightarrow> kbd_ok k \<and> paging_inv (pg k) \<and> proc_ok k"

definition cur_stack :: "kernel \<Rightarrow> nat list" where
  "cur_stack k = stack (terminals k ! cur_idx k)"

definition kernel_ok :: "kernel \<Rightarrow> bool" where
  "kernel_ok k \<longleftrightarrow> base_ok k \<and> cur_stack k \<noteq> [] \<and> active_proc k (last (cur_stack k))"

lemma setup_window: "window_of (setup_paging (int n) p) n"
  by (simp add: window_of_def setup_paging_def flush_tlb_def enable_program_page_def Let_def prog_frame_eq
      PROGRAM_DIRECTORY_INDEX_def PROGRAM_DIRECTORY_VIRTUAL_ADDR_def)

lemma vid_window [simp]:
  "window_of (enable_prog_vid_page p) n = window_of p n" "window_of (disable_prog_vid_page p) n = window_of p n"
  "window_of (change_prog_vid_mapping a t p) n = window_of p n"
  by (simp_all add: window_of_def enable_prog_vid_page_def disable_prog_vid_page_def change_prog_vid_mapping_def
      flush_tlb_def Let_def PROG_VID_ENTRY_def)

text \<open>Consequence: a user access to the program window reaches the frame of the current process only.\<close>

lemma window_translate:
  assumes "paging_inv p" and "window_of p n" and "n < 6" and "unat a div 4194304 = 32"
  shows "\<exists>pa. translate p user a = Some pa \<and> unat pa = 0x800000 + 0x400000 * n + unat a mod 0x400000"
proof -
  have "\<exists>pa. translate p user a = Some pa \<and> unat pa = 4194304 * (2 + nat (int n)) + unat a mod 4194304"
    by (rule translate_4m [OF assms(1,4) refl]) (use assms(2,3) in \<open>simp_all add: window_of_def unat_prog_frame\<close>)
  then show ?thesis by simp
qed

text \<open>And nothing else but the text pages is reachable at user level.\<close>

lemma window_isolated:
  assumes "paging_inv p" and "window_of p n" and "n < 6" and "translate p True a = Some pa"
  shows "(0x800000 + 0x400000 * n \<le> unat pa \<and> unat pa < 0xC00000 + 0x400000 * n) \<or> (0xB8000 \<le> unat pa \<and> unat pa < 0xBC000)"
proof (cases "unat a div 4194304 = 32")
  case True
  then have "unat pa = 0x800000 + 0x400000 * n + unat a mod 0x400000"
    using window_translate [OF assms(1-3) True, of True] assms(4) by auto
  moreover have "unat a mod 0x400000 < 0x400000" by simp
  ultimately show ?thesis by linarith
next
  case False
  then show ?thesis using user_reach [OF assms(1,4)] by simp
qed

section \<open>Frames\<close>

lemma files_ok_kernel: "kernel_ok k \<Longrightarrow> files_ok k"
proof -
  assume k: "kernel_ok k"
  then have pr: "proc_ok k" and fa: "file_array k = Some (last (cur_stack k))" "cur_stack k \<noteq> []"
    by (simp_all add: kernel_ok_def base_ok_def active_proc_def)
  have "last (cur_stack k) < 6"
    using stack_mem_lt [OF pr, of "cur_idx k"] fa(2) proc_ok_cur(1) [OF pr] proc_okD(2) [OF pr] by (simp add: cur_stack_def)
  then show "files_ok k" using fa proc_okD(1,3) [OF pr] by (simp add: files_ok_def)
qed

lemma kernel_ok_frame:
  assumes "kernel_ok k" and "kbd_ok k'" and "map pcb_view (pcbs k') = map pcb_view (pcbs k)"
    and t: "map term_view (terminals k') = map term_view (terminals k)"
    and "prog_counter k' = prog_counter k" and "cur_term_id k' = cur_term_id k" and "file_array k' = file_array k"
    and "paging_inv (pg k')" and "\<And>n. window_of (pg k') n = window_of (pg k) n"
    and "tss_esp0 k' = tss_esp0 k" and "tss_ss0 k' = tss_ss0 k"
  shows "kernel_ok k'"
proof -
  have pr: "proc_ok k" using assms(1) by (simp add: kernel_ok_def base_ok_def)
  have "proc_ok k'" by (rule proc_ok_frame [OF pr assms(3,4,5,6)])
  moreover have "cur_stack k' = cur_stack k"
  proof -
    have "term_view (terminals k' ! cur_idx k) = term_view (terminals k ! cur_idx k)"
      using arg_cong [OF t, of "\<lambda>xs. xs ! cur_idx k"] map_eq_imp_length_eq [OF t] proc_ok_cur(1) [OF pr] by simp
    from term_view_stack [OF this] show ?thesis using assms(6) by (simp add: cur_stack_def)
  qed
  ultimately show ?thesis using assms by (simp add: kernel_ok_def base_ok_def active_proc_def)
qed

lemma term_view_idle: "term_view (term_idle t) = term_view t"
  by (simp add: term_view_def term_idle_def)

lemma kernel_ok_sys:
  assumes "kernel_ok k" and "kbd_ok k'" and "sys k' = sys k"
  shows "kernel_ok k'"
proof -
  note f = sys_fields [OF assms(3)]
  have "map (term_view \<circ> term_idle) (terminals k') = map (term_view \<circ> term_idle) (terminals k)"
    using arg_cong [OF f(10), of "map term_view"] by simp
  then have t: "map term_view (terminals k') = map term_view (terminals k)" by (simp add: comp_def term_view_idle)
  show ?thesis
    using assms(1,2) f t by (intro kernel_ok_frame [OF assms(1,2)]) (simp_all add: kernel_ok_def base_ok_def)
qed

lemma pcb_view_files:
  "length fs = length (pcb_file_array b) \<Longrightarrow> pcb_view (b\<lparr>pcb_file_array := fs\<rparr>) = pcb_view b"
  by (simp add: pcb_view_def)

lemma map_view_update:
  "pcb_view b = pcb_view (bs ! p) \<Longrightarrow> map pcb_view (bs[p := b]) = map pcb_view bs"
  by (cases "p < length bs") (simp_all add: map_update list_update_same_conv list_update_beyond)

lemma view_upd_fd: "map pcb_view (pcbs (upd_fd fd f k)) = map pcb_view (pcbs k)"
  by (simp add: upd_fd_def Let_def map_view_update pcb_view_def)

lemma upd_fd_more [simp]: "tss_esp0 (upd_fd fd f k) = tss_esp0 k" "tss_ss0 (upd_fd fd f k) = tss_ss0 k"
  by (simp_all add: upd_fd_def Let_def)

lemma kernel_ok_upd_fd: "kernel_ok k \<Longrightarrow> kernel_ok (upd_fd fd f k)"
proof (rule kernel_ok_frame)
  assume k: "kernel_ok k"
  then show "kbd_ok (upd_fd fd f k)"
    by (subst kbd_ok_frame [of _ k]) (simp_all add: kernel_ok_def base_ok_def)
qed (simp_all add: view_upd_fd kernel_ok_def base_ok_def)

lemma kernel_ok_mem: "kernel_ok k \<Longrightarrow> kernel_ok (k\<lparr>mem := m\<rparr>)"
  by (rule kernel_ok_sys) (simp_all add: kernel_ok_def base_ok_def kbd_ok_def console_ok_def)

lemma vstore_frame: "vstore k a bs = Some k' \<Longrightarrow> \<exists>m. k' = k\<lparr>mem := m\<rparr>"
proof (induction bs arbitrary: k a)
  case Nil
  then show ?case by (intro exI [of _ "mem k"]) simp
next
  case (Cons b bs)
  then obtain q where "vstore (k\<lparr>mem := (mem k)(q := b)\<rparr>) (a + 1) bs = Some k'" by (auto simp: bind_eq_Some_conv)
  from Cons.IH [OF this] show ?case by auto
qed

lemma kernel_ok_vstore: "kernel_ok k \<Longrightarrow> vstore k a bs = Some k' \<Longrightarrow> kernel_ok k'"
  using vstore_frame [of k a bs k'] kernel_ok_mem by blast

section \<open>Reading and writing\<close>

lemma interrupt_ok: "kbd_ok k \<Longrightarrow> interrupt e k = Some k' \<Longrightarrow> kbd_ok k'"
  using interrupt_lines [of k e] by (auto simp: lines_after_def)

lemma spin_ok: "kbd_ok k \<Longrightarrow> spin busy es k = Some (es', k') \<Longrightarrow> kbd_ok k' \<and> sys k' = sys k"
proof (induction es arbitrary: k)
  case (Cons e es)
  show ?case
  proof (cases "busy k")
    case True
    then obtain k1 where k1: "interrupt e k = Some k1" "spin busy es k1 = Some (es', k')"
      using Cons.prems(2) by (auto simp: bind_eq_Some_conv)
    then show ?thesis using Cons.IH [OF interrupt_ok [OF Cons.prems(1) k1(1)] k1(2)] interrupt_sys [OF k1(1)] by simp
  qed (use Cons.prems in auto)
qed (auto split: if_splits)

lemma kbd_ok_mem [simp]: "kbd_ok (k\<lparr>mem := m\<rparr>) = kbd_ok k"
  by (rule kbd_ok_frame) simp_all

lemma vstore_ok: "vstore k a bs = Some k' \<Longrightarrow> kbd_ok k \<Longrightarrow> kbd_ok k' \<and> sys k' = sys k"
  using vstore_frame [of k a bs k'] by auto

lemma terminal_read_ok:
  assumes "kbd_ok k" and "terminal_read evs fd buf n k = Some (r, k')"
  shows "kbd_ok k' \<and> sys k' = sys k"
proof (cases "buf = 0 \<or> n < 0 \<or> fd \<noteq> 0")
  case True
  then show ?thesis using assms by (simp add: terminal_read_def)
next
  case False
  let ?busy = "\<lambda>k. TERMINAL_READ_FLAG (tm k (cur_term_id k)) \<noteq> 0"
  have g: "(buf = 0 \<or> n < 0 \<or> fd \<noteq> 0) = False" using False by simp
  obtain es k1 k2 a bs b where s: "spin ?busy evs (reading k) = Some (es, k1)" "vstore k1 buf bs = Some k2" "vstore k2 a b = Some k'"
    using assms(2) unfolding terminal_read_def terminal_read_end_def g if_False Let_def reading_eq [OF assms(1)]
    by (auto simp: bind_eq_Some_conv simp del: vstore.simps)
  have "kbd_ok k1 \<and> sys k1 = sys (reading k)" by (rule spin_ok [OF reading_ok(1) [OF assms(1)] s(1)])
  then show ?thesis using vstore_ok [OF s(2)] vstore_ok [OF s(3)] reading_ok(3) [OF assms(1)] by simp
qed

lemma rtc_read_ok:
  assumes "kbd_ok k" and "rtc_read evs fd buf n k = Some (r, k')"
  shows "kbd_ok k' \<and> sys k' = sys k"
proof (cases "fd < 2 \<or> fd > 7")
  case True
  then show ?thesis using assms by (simp add: rtc_read_def)
next
  case False
  then obtain es k1 es2 k2 where s: "spin (\<lambda>k. rtc_exe_flag k = 0) evs k = Some (es, k1)"
    "spin (\<lambda>k. rtc_counter_global k mod rtc_div k1 fd \<noteq> 0) es k1 = Some (es2, k2)" "k' = k2\<lparr>rtc_exe_flag := 0\<rparr>"
    using assms(2) unfolding rtc_read_def Let_def by (auto simp: bind_eq_Some_conv)
  have 1: "kbd_ok k1 \<and> sys k1 = sys k" by (rule spin_ok [OF assms(1) s(1)])
  then have "kbd_ok k2 \<and> sys k2 = sys k1" using spin_ok [OF _ s(2)] by simp
  moreover have "kbd_ok (k2\<lparr>rtc_exe_flag := 0\<rparr>) = kbd_ok k2" by (rule kbd_ok_frame) simp_all
  ultimately show ?thesis using 1 s(3) by simp
qed

lemma file_read_ok:
  assumes "kernel_ok k" and "file_read fd buf n k = Some (r, k')"
  shows "kernel_ok k'"
proof (cases "file_array k = None \<or> fd < 2 \<or> fd > 7 \<or> buf = 0 \<or> n < 0")
  case True
  then show ?thesis using assms by (auto simp: file_read_def split: if_splits)
next
  case False
  obtain bs v where rd: "read_data (filesys k) (mem k) (inode_idx (fd_entry k fd)) (file_position (fd_entry k fd)) True n = (bs, v)"
    by (meson surj_pair)
  obtain k1 where k1: "vstore k buf bs = Some k1" and k': "k' = (if v \<noteq> 0
      then upd_fd fd (\<lambda>e. e\<lparr>file_position := file_position e + word_of_int v\<rparr>) k1 else k1)"
    using assms(2) False unfolding file_read_def Let_def rd by (auto simp: bind_eq_Some_conv)
  then show ?thesis using kernel_ok_vstore [OF assms(1) k1] kernel_ok_upd_fd by simp
qed

lemma directory_read_ok:
  assumes "kernel_ok k" and "directory_read fd buf n k = Some (r, k')"
  shows "kernel_ok k'"
proof (cases "file_position (fd_entry k fd) = dentry_num (filesys k) \<or> buf = 0")
  case True
  then show ?thesis using assms by (auto simp: directory_read_def)
next
  case False
  then obtain bs k1 where "vstore k buf bs = Some k1" "k' = upd_fd fd (\<lambda>e. e\<lparr>file_position := file_position e + 1\<rparr>) k1"
    using assms(2) unfolding directory_read_def Let_def by (auto simp: bind_eq_Some_conv)
  then show ?thesis using kernel_ok_vstore [OF assms(1)] kernel_ok_upd_fd by blast
qed

lemma sys_read_ok:
  assumes "kernel_ok k" and "sys_read evs fd buf n k = Some (r, k')"
  shows "kernel_ok k'"
proof (cases "op_read (op_ptr (fd_entry k fd)) evs fd buf n k = Some (r, k')")
  case True
  have kb: "kbd_ok k" using assms(1) by (simp add: kernel_ok_def base_ok_def)
  show ?thesis
  proof (cases "op_ptr (fd_entry k fd)")
    case rtc_op_table
    then show ?thesis using rtc_read_ok [OF kb] True kernel_ok_sys [OF assms(1)] by (auto simp: op_read_def)
  next
    case terminal_op_table
    then show ?thesis using terminal_read_ok [OF kb] True kernel_ok_sys [OF assms(1)] by (auto simp: op_read_def)
  qed (use True file_read_ok [OF assms(1)] directory_read_ok [OF assms(1)] in \<open>simp_all add: op_read_def\<close>)
next
  case False
  then have "k' = k" using assms(2) by (auto simp: sys_read_def split: if_splits)
  then show ?thesis using assms(1) by simp
qed

lemma kbd_ok_putc: "kbd_ok k \<Longrightarrow> kbd_ok (putc c k)"
  by (rule kbd_ok_core) (auto simp: putc_laws)

lemma write_chars_ok: "kbd_ok k \<Longrightarrow> write_chars n a k = Some k' \<Longrightarrow> kbd_ok k' \<and> sys k' = sys k"
proof (induction n arbitrary: a k)
  case (Suc n)
  then obtain c where c: "write_chars n (a + 1) (if c = 0 then k else putc c k) = Some k'" by (auto simp: bind_eq_Some_conv)
  then show ?case using Suc.IH [OF _ c] Suc.prems(1) kbd_ok_putc by (cases "c = 0") auto
qed simp

lemma sys_write_ok:
  assumes "kernel_ok k" and "sys_write fd buf n k = Some (r, k')"
  shows "kernel_ok k'"
proof (cases "op_write (op_ptr (fd_entry k fd)) fd buf n k = Some (r, k')")
  case True
  have kb: "kbd_ok k" using assms(1) by (simp add: kernel_ok_def base_ok_def)
  show ?thesis
  proof (cases "op_ptr (fd_entry k fd)")
    case rtc_op_table
    then have "rtc_write fd buf n k = Some (r, k')" using True by (simp add: op_write_def)
    then have "k' = k \<or> (\<exists>f. k' = upd_fd fd f k)"
      by (auto simp: rtc_write_def bind_eq_Some_conv Let_def split: if_splits)
    then show ?thesis using assms(1) kernel_ok_upd_fd by blast
  next
    case terminal_op_table
    then have "terminal_write fd buf n k = Some (r, k')" using True by (simp add: op_write_def)
    then have "k' = k \<or> (\<exists>m. write_chars m buf k = Some k')" by (auto simp: terminal_write_def split: if_splits)
    then show ?thesis using assms(1) write_chars_ok [OF kb] kernel_ok_sys [OF assms(1)] by blast
  qed (use True assms(1) in \<open>simp_all add: op_write_def file_write_def directory_write_def\<close>)
next
  case False
  then have "k' = k" using assms(2) by (auto simp: sys_write_def split: if_splits)
  then show ?thesis using assms(1) by simp
qed

section \<open>Opening, closing and the other calls\<close>

lemma open_go_frame:
  assumes "files_ok k" and "2 \<le> fd" and "fd \<le> 7" and "tbl \<noteq> OP_NULL"
    and "op_open tbl fd (upd_fd fd (\<lambda>e. e\<lparr>op_ptr := tbl\<rparr>) (upd_fd fd (\<lambda>e. e\<lparr>flags := 1\<rparr>) (upd_fd fd (\<lambda>e. e\<lparr>inode_idx := i\<rparr>) k))) = Some (r, k')"
  shows "\<exists>f. k' = upd_fd fd f k"
proof -
  define g where "g = (\<lambda>e :: file_abs_entry. e\<lparr>inode_idx := i, flags := 1, op_ptr := tbl\<rparr>)"
  have "upd_fd fd (\<lambda>e. e\<lparr>op_ptr := tbl\<rparr>) (upd_fd fd (\<lambda>e. e\<lparr>flags := 1\<rparr>) (upd_fd fd (\<lambda>e. e\<lparr>inode_idx := i\<rparr>) k)) = upd_fd fd g k"
    using assms(1-3) by (simp add: upd_fd_twice g_def)
  then show ?thesis using op_opened [OF assms(1-3) _ assms(4), of g 1 tbl] assms(5) by (auto simp: g_def)
qed

lemma sys_open_frame:
  assumes "files_ok k" and "sys_open dl name k = Some (r, k')"
  shows "k' = k \<or> (\<exists>fd f. k' = upd_fd fd f k)"
proof (cases "file_array k = None \<or> free_fd k 2 = FILE_LIMIT")
  case True
  then show ?thesis using assms(2) by (auto simp: sys_open_def Let_def split: if_splits)
next
  case False
  let ?fd = "free_fd k 2"
  have fd: "2 \<le> ?fd" "?fd \<le> 7" using free_fd_spec [of 2 k] False by (auto simp: FILE_LIMIT_def)
  obtain v dn where rd: "read_dentry_by_name (filesys k) (mem k) name (Some dl) = Some (v, dn)"
    using assms(2) False by (auto simp: sys_open_def Let_def bind_eq_Some_conv)
  let ?k1 = "upd_fd ?fd (\<lambda>e. e\<lparr>flags := 1\<rparr>) (upd_fd ?fd (\<lambda>e. e\<lparr>inode_idx := d_inode_idx (the dn)\<rparr>) k)"
  have leak: "?k1 = upd_fd ?fd (\<lambda>e. e\<lparr>inode_idx := d_inode_idx (the dn), flags := 1\<rparr>) k"
    using assms(1) fd by (simp add: upd_fd_twice)
  have "v = -1 \<and> k' = k \<or> k' = ?k1 \<or> (\<exists>tbl r. tbl \<noteq> OP_NULL \<and> op_open tbl ?fd (upd_fd ?fd (\<lambda>e. e\<lparr>op_ptr := tbl\<rparr>) ?k1) = Some (r, k'))"
    using assms(2) False rd by (auto simp: sys_open_def Let_def split: if_splits)
  then show ?thesis using open_go_frame [OF assms(1) fd] leak by metis
qed

lemma sys_open_ok: "kernel_ok k \<Longrightarrow> sys_open dl name k = Some (r, k') \<Longrightarrow> kernel_ok k'"
  using sys_open_frame [OF files_ok_kernel] kernel_ok_upd_fd by blast

lemma sys_close_ok: "kernel_ok k \<Longrightarrow> sys_close fd k = Some (r, k') \<Longrightarrow> kernel_ok k'"
  using sys_close_frame [OF files_ok_kernel] kernel_ok_upd_fd by blast

lemma getargs_ok: "kernel_ok k \<Longrightarrow> getargs buf n k = Some (r, k') \<Longrightarrow> kernel_ok k'"
  by (auto simp: getargs_def Let_def bind_eq_Some_conv split: if_splits dest: kernel_ok_vstore)

lemma upd_pcb_more [simp]:
  "terminals (upd_pcb p f k) = terminals k" "tm (upd_pcb p f k) i = tm k i" "cur_term_id (upd_pcb p f k) = cur_term_id k"
  "active_term_idx (upd_pcb p f k) = active_term_idx k" "prog_counter (upd_pcb p f k) = prog_counter k"
  "file_array (upd_pcb p f k) = file_array k" "pg (upd_pcb p f k) = pg k" "mem (upd_pcb p f k) = mem k"
  "filesys (upd_pcb p f k) = filesys k" "tss_esp0 (upd_pcb p f k) = tss_esp0 k" "tss_ss0 (upd_pcb p f k) = tss_ss0 k"
  "program_exception_flag (upd_pcb p f k) = program_exception_flag k" "cpu_ebp (upd_pcb p f k) = cpu_ebp k"
  "length (pcbs (upd_pcb p f k)) = length (pcbs k)"
  by (simp_all add: upd_pcb_def tm_def)

lemma view_upd_pcb: "(\<And>b. pcb_view (f b) = pcb_view b) \<Longrightarrow> map pcb_view (pcbs (upd_pcb p f k)) = map pcb_view (pcbs k)"
  by (simp add: upd_pcb_def map_view_update)

lemma kernel_ok_upd_pcb: "kernel_ok k \<Longrightarrow> (\<And>b. pcb_view (f b) = pcb_view b) \<Longrightarrow> kernel_ok (upd_pcb p f k)"
proof (rule kernel_ok_frame)
  assume k: "kernel_ok k" "\<And>b. pcb_view (f b) = pcb_view b"
  then show "kbd_ok (upd_pcb p f k)" by (subst kbd_ok_frame [of _ k]) (simp_all add: kernel_ok_def base_ok_def)
  show "map pcb_view (pcbs (upd_pcb p f k)) = map pcb_view (pcbs k)" using view_upd_pcb k(2) .
qed (simp_all add: kernel_ok_def base_ok_def)

lemma kernel_ok_pg:
  "kernel_ok k \<Longrightarrow> paging_inv q \<Longrightarrow> (\<And>n. window_of q n = window_of (pg k) n) \<Longrightarrow> kernel_ok (k\<lparr>pg := q\<rparr>)"
  by (rule kernel_ok_frame [of k]) (simp_all add: kernel_ok_def base_ok_def kbd_ok_def console_ok_def)

lemma vidmap_ok:
  assumes "kernel_ok k" and "vidmap a k = Some (r, k')"
  shows "kernel_ok k'"
proof (cases "a < MB_128 \<or> a \<ge> MB_132")
  case True
  then show ?thesis using assms by (simp add: vidmap_def)
next
  case False
  have "kernel_ok (k\<lparr>pg := enable_prog_vid_page (pg k)\<rparr>)"
    using assms(1) by (intro kernel_ok_pg) (simp_all add: kernel_ok_def base_ok_def vid_page_inv)
  moreover obtain k1 where "vstore (k\<lparr>pg := enable_prog_vid_page (pg k)\<rparr>) a (bytes_of_u32 MB_132) = Some k1"
    "k' = upd_pcb (cur_pid k1) (\<lambda>b. b\<lparr>video_mem_flag := 1\<rparr>) k1"
    using assms(2) False by (auto simp: vidmap_def Let_def bind_eq_Some_conv simp del: vstore.simps split: if_splits)
  ultimately show ?thesis using kernel_ok_vstore kernel_ok_upd_pcb [of k1 "\<lambda>b. b\<lparr>video_mem_flag := 1\<rparr>"] by (simp add: pcb_view_def)
qed

end
