(* ===== verification/Kernel_Exec.thy ===== *)
theory Kernel_Exec
  imports Kernel_Inv
begin

text \<open>
  \<open>execute\<close> and \<open>halt\<close> under the kernel invariant: a successful \<open>execute\<close> pushes a process on
  the current terminal and runs it, \<open>halt\<close> closes its descriptors and gives control back to the
  process below it, or starts the base shell again.
\<close>

section \<open>Starting a program\<close>

lemma printf_ok:
  assumes "kbd_ok k" and "printf fmt esp k = Some (r, k')"
  shows "kbd_ok k' \<and> sys k' = sys k"
proof -
  have c: "pc.confined k k'" using pc.printf_confined [of fmt esp 0 0 k r k'] assms(2) by (simp add: printf_def)
  have core: "core k' = core k" and ok: "console_ok k'" using c assms(1) by (auto simp: pc.confined_def)
  show ?thesis using kbd_ok_core [OF core assms(1) ok] sys_idle [OF idle_core [OF core]] by simp
qed

lemma printf_core: "printf fmt esp k = Some (r, k') \<Longrightarrow> core k' = core k"
  using pc.printf_confined [of fmt esp 0 0 k r k'] by (simp add: printf_def pc.confined_def)

text \<open>What the program of one terminal leaves alone: the other terminals, up to their cursors.\<close>

definition aside :: "kernel \<Rightarrow> kernel \<Rightarrow> bool" where
  "aside k k' \<longleftrightarrow> cur_term_id k' = cur_term_id k \<and> length (terminals k') = length (terminals k)
     \<and> (\<forall>i<length (terminals k). i \<noteq> cur_idx k \<longrightarrow> term_core (terminals k' ! i) = term_core (terminals k ! i))"

lemma aside_refl: "aside k k"
  by (simp add: aside_def)

lemma aside_trans: "aside k k' \<Longrightarrow> aside k' k'' \<Longrightarrow> aside k k''"
  by (simp add: aside_def)

lemma aside_core: "core k' = core k \<Longrightarrow> aside k k'"
proof -
  assume c: "core k' = core k"
  have m: "map term_core (terminals k') = map term_core (terminals k)" "cur_term_id k' = cur_term_id k"
    using arg_cong [OF c, of terminals] arg_cong [OF c, of cur_term_id] by (simp_all add: core_def)
  have "term_core (terminals k' ! i) = term_core (terminals k ! i)" if "i < length (terminals k)" for i
    using arg_cong [OF m(1), of "\<lambda>xs. xs ! i"] that map_eq_imp_length_eq [OF m(1)] by simp
  then show "aside k k'" using m(2) map_eq_imp_length_eq [OF m(1)] by (simp add: aside_def)
qed

lemma aside_upd: "terminals k' = (terminals k)[cur_idx k := t] \<Longrightarrow> cur_term_id k' = cur_term_id k \<Longrightarrow> aside k k'"
  by (simp add: aside_def)

lemma aside_same: "terminals k' = terminals k \<Longrightarrow> cur_term_id k' = cur_term_id k \<Longrightarrow> aside k k'"
  by (simp add: aside_def)

lemma set_tss_simps [simp]:
  "terminals (set_tss k) = terminals k" "pcbs (set_tss k) = pcbs k" "cur_term_id (set_tss k) = cur_term_id k"
  "prog_counter (set_tss k) = prog_counter k" "file_array (set_tss k) = file_array k" "pg (set_tss k) = pg k"
  "active_term_idx (set_tss k) = active_term_idx k" "mem (set_tss k) = mem k"
  "tss_esp0 (set_tss k) = PROG0_KSTACK_BOTTOM - KERNEL_STACK_SIZE * word_of_int (cur_pid k)" "tss_ss0 (set_tss k) = KERNEL_DS"
  by (simp_all add: set_tss_def)

lemma cur_pid_last: "proc_ok k \<Longrightarrow> cur_stack k \<noteq> [] \<Longrightarrow> cur_pid k = int (last (cur_stack k))"
  using top_pid_last [OF proc_ok_cur(2)] by (simp add: cur_pid_def cur_stack_def tm_def)

text \<open>Setting the TSS completes the switch to the process on top of the stack.\<close>

lemma kernel_ok_set_tss:
  assumes "base_ok k" and "cur_stack k \<noteq> []" and "file_array k = Some (last (cur_stack k))"
    and "window_of (pg k) (last (cur_stack k))"
  shows "kernel_ok (set_tss k)"
proof -
  have pr: "proc_ok k" using assms(1) by (simp add: base_ok_def)
  have "kbd_ok (set_tss k)" using assms(1) by (subst kbd_ok_frame [of _ k]) (simp_all add: base_ok_def)
  moreover have "proc_ok (set_tss k)" by (rule proc_ok_frame [OF pr]) simp_all
  moreover have "cur_stack (set_tss k) = cur_stack k" by (simp add: cur_stack_def)
  ultimately show ?thesis
    using assms cur_pid_last [OF pr assms(2)] by (simp add: kernel_ok_def base_ok_def active_proc_def)
qed

lemma base_ok_upd_pcb: "base_ok k \<Longrightarrow> (\<And>b. pcb_view (f b) = pcb_view b) \<Longrightarrow> base_ok (upd_pcb p f k)"
proof -
  assume k: "base_ok k" "\<And>b. pcb_view (f b) = pcb_view b"
  have "kbd_ok (upd_pcb p f k)" using k(1) by (subst kbd_ok_frame [of _ k]) (simp_all add: base_ok_def)
  moreover have "proc_ok (upd_pcb p f k)"
    using k view_upd_pcb [of f p k] by - (rule proc_ok_frame [of k]; simp add: base_ok_def)
  ultimately show ?thesis using k(1) by (simp add: base_ok_def)
qed

lemma base_ok_cong:
  assumes "base_ok k" and "pcbs k' = pcbs k" and "terminals k' = terminals k" and "prog_counter k' = prog_counter k"
    and "cur_term_id k' = cur_term_id k" and "active_term_idx k' = active_term_idx k" and "paging_inv (pg k')"
  shows "base_ok k'"
proof -
  have "kbd_ok k'" using assms by (subst kbd_ok_frame [of _ k]) (simp_all add: base_ok_def)
  moreover have "proc_ok k'" using assms by - (rule proc_ok_frame [of k]; simp add: base_ok_def)
  ultimately show ?thesis using assms(7) by (simp add: base_ok_def)
qed

text \<open>What \<open>execute\<close> and \<open>halt\<close> leave alone besides memory: files, ports, terminals and cursors.\<close>

definition scene :: "kernel \<Rightarrow> fs \<times> (u16 \<times> byte) list \<times> int \<times> int \<times> (int \<times> int) list" where
  "scene k = (filesys k, io k, cur_term_id k, active_term_idx k, map (\<lambda>t. (cursor_x t, cursor_y t)) (terminals k))"

definition std_open :: "kernel \<Rightarrow> bool" where
  "std_open k \<longleftrightarrow> (\<forall>i<8. flags (fd_entry k (int i)) = (if i < 2 then 1 else 0) \<and> (i < 2 \<longrightarrow> op_ptr (fd_entry k (int i)) = terminal_op_table))"

lemma map_cursor_upd:
  "f (cursor_x t') (cursor_y t') = f (cursor_x (ts ! i)) (cursor_y (ts ! i)) \<Longrightarrow>
    map (\<lambda>t. f (cursor_x t) (cursor_y t)) (ts[i := t']) = map (\<lambda>t. f (cursor_x t) (cursor_y t)) ts"
  by (cases "i < length ts") (auto simp: map_update intro: nth_equalityI simp: nth_list_update)

lemma create_base_ok:
  assumes "base_ok k" and "prog_counter k < 6" and "term_prog_counter (tm k (cur_term_id k)) < 4"
  obtains p k' where "create_pcb k = (int p, k')" and "p < 6" and "base_ok k'" and "cur_stack k' = cur_stack k @ [p]"
    and "file_array k' = Some p" and "cur_term_id k' = cur_term_id k" and "pg k' = pg k" and "mem k' = mem k"
    and "filesys k' = filesys k" and "active_term_idx k' = active_term_idx k"
    and "\<forall>r. r \<noteq> p \<longrightarrow> pcbs k' ! r = pcbs k ! r" and "\<forall>i<8. 2 \<le> i \<longrightarrow> flags (fd_entry k' (int i)) = 0"
    and "program_exception_flag k' = program_exception_flag k" and "prog_counter k' = prog_counter k + 1"
    and "scene k' = scene k" and "std_open k'" and "aside k k'"
proof -
  have pr: "proc_ok k" and kb: "kbd_ok k" using assms(1) by (simp_all add: base_ok_def)
  obtain p k' where r: "create_pcb k = (int p, k')" "p < 6" "status (pcbs k ! p) = 0"
    and k': "k' = k\<lparr>pcbs := (pcbs k)[p := new_pcb k p], prog_counter := prog_counter k + 1,
           file_array := Some p, terminals := (terminals k)[cur_idx k := push_pid p (terminals k ! cur_idx k)]\<rparr>"
    and ok: "proc_ok k'" "stack (terminals k' ! cur_idx k) = stack (terminals k ! cur_idx k) @ [p]"
    using create_pcb_ok [OF pr assms(2,3)] by blast
  note c = proc_ok_cur [OF pr]
  have "kbd_ok (upd_tm (cur_term_id k) (push_pid p) k)"
    using kbd_ok_tm [OF kb c(3,4)] c(3,4) kb by (intro kbd_ok_upd_tm) (simp_all add: push_pid_def kbd_term_ok_def)
  moreover have "kbd_ok k' = kbd_ok (upd_tm (cur_term_id k) (push_pid p) k)"
    by (rule kbd_ok_frame) (simp_all add: k' upd_tm_def tm_def)
  ultimately have "base_ok k'" using ok(1) assms(1) by (simp add: base_ok_def k')
  moreover have "cur_stack k' = cur_stack k @ [p]" using ok(2) by (simp add: cur_stack_def k')
  moreover have "pcbs k' ! r = pcbs k ! r" if "r \<noteq> p" for r using that by (simp add: k')
  moreover have std: "std_open k'"
    using std_files_correct [OF proc_okD(3) [OF pr r(2)]] r(2) proc_okD(1) [OF pr] by (simp add: std_open_def k' fd_entry_def new_pcb_def)
  moreover have "flags (fd_entry k' (int i)) = 0" if "2 \<le> i" "i < 8" for i using std that by (simp add: std_open_def)
  moreover have "scene k' = scene k"
    using map_cursor_upd [of Pair "push_pid p (terminals k ! cur_idx k)" "terminals k" "cur_idx k"] by (simp add: scene_def k' push_pid_def)
  moreover have "aside k k'" by (rule aside_upd) (simp_all add: k')
  ultimately show thesis using that [of p k'] r by (simp add: k')
qed

text \<open>The state in which a started process runs, from the one with its program loaded.\<close>

definition started :: "call_frame \<Rightarrow> byte list \<Rightarrow> nat \<Rightarrow> kernel \<Rightarrow> kernel" where
  "started f args p k = set_tss (upd_pcb (int p) (\<lambda>b. b\<lparr>ebp := frame_ebp f\<rparr>)
     (upd_pcb (int p) (\<lambda>b. b\<lparr>params := take PARAM_LENGTH (args @ drop (length args) (params_stk f))\<rparr>) k))"

lemma vread_bytes_upd_pcb [simp]: "vread_bytes (upd_pcb p f k) a n = vread_bytes k a n"
  by (induction n arbitrary: a) (simp_all add: vread_def)

definition load_and_run :: "call_frame \<Rightarrow> byte list \<Rightarrow> nat \<Rightarrow> byte list \<Rightarrow> kernel \<Rightarrow> outcome" where
  "load_and_run f args p bytes k =
     (case vstore k 0x08048000 bytes of None \<Rightarrow> Undefined
      | Some k' \<Rightarrow> (case vread_bytes k' 0x08048018 4 of None \<Rightarrow> Undefined
          | Some bs \<Rightarrow> Iret (load32 (of_bytes bs \<circ> unat) 0) USER_CS 0x083FFFFC USER_DS (started f args p k')))"

text \<open>What \<open>start_program\<close> does: load the file into the frame of a new process and run it.\<close>

lemma start_steps:
  assumes "base_ok k" and "prog_counter k < 6" and "term_prog_counter (tm k (cur_term_id k)) < 4"
  obtains p K where "p < 6" and "pg K = setup_paging (int p) (pg k)" and "mem K = mem k" and "length (pcbs K) = 6"
    and "\<forall>r. r \<noteq> p \<longrightarrow> pcbs K ! r = pcbs k ! r" and "\<forall>i<8. 2 \<le> i \<longrightarrow> flags (fd_entry K (int i)) = 0"
    and "program_exception_flag K = program_exception_flag k" and "prog_counter K = prog_counter k + 1"
    and "\<And>f args d. start_program f args d k = load_and_run f args p (fst (program_loader (filesys k) (mem k) d)) K"
    and "\<And>f args m. kernel_ok (started f args p (K\<lparr>mem := m\<rparr>)) \<and> cur_stack (started f args p (K\<lparr>mem := m\<rparr>)) = cur_stack k @ [p]
      \<and> cur_term_id (started f args p (K\<lparr>mem := m\<rparr>)) = cur_term_id k"
    and "scene K = scene k" and "std_open K" and "\<And>f args m. aside k (started f args p (K\<lparr>mem := m\<rparr>))"
proof -
  obtain p k1 where r: "create_pcb k = (int p, k1)" "p < 6" and b1: "base_ok k1" "cur_stack k1 = cur_stack k @ [p]"
    "file_array k1 = Some p" "cur_term_id k1 = cur_term_id k" "pg k1 = pg k" "mem k1 = mem k" "filesys k1 = filesys k"
    "active_term_idx k1 = active_term_idx k" "\<forall>r. r \<noteq> p \<longrightarrow> pcbs k1 ! r = pcbs k ! r" "\<forall>i<8. 2 \<le> i \<longrightarrow> flags (fd_entry k1 (int i)) = 0"
    "program_exception_flag k1 = program_exception_flag k" "prog_counter k1 = prog_counter k + 1" "scene k1 = scene k" "std_open k1" "aside k k1"
    by (rule create_base_ok [OF assms])
  define K where "K = k1\<lparr>pg := setup_paging (int p) (pg k1)\<rparr>"
  have bK: "base_ok K" using b1(1) r(2) unfolding K_def
    by - (rule base_ok_cong [of k1]; simp add: base_ok_def setup_paging_inv)
  have addr: "PROGRAM_DIRECTORY_VIRTUAL_ADDR = 0x08048000" "(0x08048000 :: addr) + EIP_OFFSET = 0x08048018"
    "PROGRAM_PAGE_VIRTUAL_ADDR + OFFSET - 4 = 0x083FFFFC" by (simp_all add: const_defs)
  have run: "start_program f args d k = load_and_run f args p (fst (program_loader (filesys k) (mem k) d)) K" for f args d
  proof -
    have fm: "filesys K = filesys k" "mem K = mem k" using b1(6,7) by (simp_all add: K_def)
    obtain bs ret where pl: "program_loader (filesys k) (mem k) d = (bs, ret)" by (meson surj_pair)
    have p: "(int p = - 1) = False" by simp
    show ?thesis
      unfolding start_program_def r(1) Let_def prod.case K_def [symmetric] fm pl addr context_switch_def p if_False fst_conv
        vread_bytes_upd_pcb started_def load_and_run_def ..
  qed
  have fin: "kernel_ok (started f args p (K\<lparr>mem := m\<rparr>)) \<and> cur_stack (started f args p (K\<lparr>mem := m\<rparr>)) = cur_stack k @ [p]
      \<and> cur_term_id (started f args p (K\<lparr>mem := m\<rparr>)) = cur_term_id k" for f args m
  proof -
    let ?k = "upd_pcb (int p) (\<lambda>b. b\<lparr>ebp := frame_ebp f\<rparr>)
      (upd_pcb (int p) (\<lambda>b. b\<lparr>params := take PARAM_LENGTH (args @ drop (length args) (params_stk f))\<rparr>) (K\<lparr>mem := m\<rparr>))"
    have "base_ok (K\<lparr>mem := m\<rparr>)" using bK by - (rule base_ok_cong [of K]; simp add: base_ok_def)
    then have b: "base_ok ?k" by (intro base_ok_upd_pcb) (simp_all add: pcb_view_def)
    have st: "cur_stack ?k = cur_stack k @ [p]" using b1(2) by (simp add: cur_stack_def K_def)
    have "kernel_ok (set_tss ?k)"
      using b st b1(3) setup_window [of p "pg k1"] by (intro kernel_ok_set_tss) (simp_all add: K_def)
    then show ?thesis using st b1(4) by (simp add: cur_stack_def started_def K_def)
  qed
  have "length (pcbs K) = 6" using bK by (simp add: base_ok_def proc_ok_def)
  moreover have "pg K = setup_paging (int p) (pg k)" "mem K = mem k" using b1(5,6) by (simp_all add: K_def)
  moreover have "pcbs K ! r = pcbs k ! r" if "r \<noteq> p" for r using b1(9) that by (simp add: K_def)
  moreover have "flags (fd_entry K (int i)) = 0" if "2 \<le> i" "i < 8" for i using b1(10) that by (simp add: K_def fd_entry_def)
  moreover have "program_exception_flag K = program_exception_flag k" using b1(11) by (simp add: K_def)
  moreover have "prog_counter K = prog_counter k + 1" using b1(12) by (simp add: K_def)
  moreover have "scene K = scene k" "std_open K" using b1(13,14) by (simp_all add: K_def scene_def std_open_def fd_entry_def)
  moreover have "aside k (started f args p (K\<lparr>mem := m\<rparr>))" for f args m
    by (rule aside_trans [OF b1(15) aside_same]) (simp_all add: started_def K_def)
  ultimately show thesis using that [OF r(2) _ _ _ _ _ _ _ run fin] by blast
qed

lemma start_program_ok:
  assumes "base_ok k" and "prog_counter k < 6" and "term_prog_counter (tm k (cur_term_id k)) < 4"
  shows "start_program f args d k = Undefined
    \<or> (\<exists>eip p k'. start_program f args d k = Iret eip USER_CS 0x083FFFFC USER_DS k' \<and> kernel_ok k'
        \<and> cur_stack k' = cur_stack k @ [p] \<and> cur_term_id k' = cur_term_id k
        \<and> program_exception_flag k' = program_exception_flag k \<and> aside k k')"
proof (rule start_steps [OF assms], goal_cases)
  case (1 p K)
  note run = 1(9) [of f args d] and ok = 1(10) [of f args] and fl = 1(7) and as = 1(13) [of f args]
  show ?case
  proof (cases "vstore K 0x08048000 (fst (program_loader (filesys k) (mem k) d))")
    case None
    then show ?thesis using run by (simp add: load_and_run_def)
  next
    case (Some k3)
    then obtain m where m: "k3 = K\<lparr>mem := m\<rparr>" using vstore_frame by blast
    have "program_exception_flag (started f args p k3) = program_exception_flag k" using fl by (simp add: m started_def set_tss_def)
    then show ?thesis using run Some ok [of m] as [of m] m by (cases "vread_bytes k3 0x08048018 4") (auto simp: load_and_run_def)
  qed
qed

lemma execute_ok:
  assumes "base_ok k"
  shows "execute f c k = Undefined
    \<or> (\<exists>r k'. execute f c k = Returns r k' \<and> kbd_ok k' \<and> sys k' = sys k \<and> core k' = core k)
    \<or> (\<exists>eip p k'. execute f c k = Iret eip USER_CS 0x083FFFFC USER_DS k' \<and> kernel_ok k'
        \<and> cur_stack k' = cur_stack k @ [p] \<and> cur_term_id k' = cur_term_id k
        \<and> program_exception_flag k' = program_exception_flag k \<and> aside k k')"
proof -
  have kb: "kbd_ok k" using assms by (simp add: base_ok_def)
  have lim: "limit_reached msg k = Undefined \<or> (\<exists>r k'. limit_reached msg k = Returns r k' \<and> kbd_ok k' \<and> sys k' = sys k \<and> core k' = core k)" for msg
    using printf_ok [OF kb] printf_core by (cases "printf (cstring msg) (\<lambda>_. 0) k") (auto simp: limit_reached_def)
  show ?thesis
  proof (cases "term_prog_counter (tm k (cur_term_id k)) < 4 \<and> prog_counter k < 6")
    case True
    have "execute f c k = Undefined \<or> execute f c k = Returns (-1) k \<or> (\<exists>args d. execute f c k = start_program f args d k)"
      using True unfolding execute_def MAX_PROG_NUM_PER_TERM_def MAX_PROGRAM_COUNT_def
      by (auto split: option.split prod.split)
    then show ?thesis using start_program_ok [OF assms, of f] True kb by metis
  next
    case False
    then have "c = None \<and> execute f c k = Returns (-1) k \<or> (\<exists>msg. execute f c k = limit_reached msg k)"
      unfolding execute_def MAX_PROG_NUM_PER_TERM_def MAX_PROGRAM_COUNT_def by (cases c) auto
    then show ?thesis using lim kb by metis
  qed
qed

section \<open>Closing everything\<close>

definition refile :: "file_abs_entry list \<Rightarrow> kernel \<Rightarrow> kernel" where
  "refile fs k = k\<lparr>pcbs := (pcbs k)[the (file_array k) := (pcbs k ! the (file_array k))\<lparr>pcb_file_array := fs\<rparr>]\<rparr>"

definition closes :: "kernel \<Rightarrow> kernel \<Rightarrow> bool" where
  "closes k k' \<longleftrightarrow> (\<exists>fs. k' = refile fs k \<and> length fs = 8
     \<and> (\<forall>i<8. flags (fs ! i) = 0 \<or> fs ! i = fd_entry k (int i)))"

text \<open>Every descriptor in use has a table.\<close>

definition closable :: "kernel \<Rightarrow> bool" where
  "closable k \<longleftrightarrow> (\<forall>i<8. 2 \<le> i \<and> flags (fd_entry k (int i)) \<noteq> 0 \<longrightarrow> op_ptr (fd_entry k (int i)) \<noteq> OP_NULL)"

lemma fd_entry_refile: "files_ok k \<Longrightarrow> fd_entry (refile fs k) (int i) = fs ! i"
  by (auto simp: files_ok_def refile_def fd_entry_def)

lemma files_ok_refile: "files_ok k \<Longrightarrow> length fs = 8 \<Longrightarrow> files_ok (refile fs k)"
  by (auto simp: files_ok_def refile_def)

lemma closes_refl: "files_ok k \<Longrightarrow> closes k k"
  unfolding closes_def
  by (intro exI [of _ "pcb_file_array (pcbs k ! the (file_array k))"]) (auto simp: files_ok_def refile_def fd_entry_def)

lemma closes_files_ok: "files_ok k \<Longrightarrow> closes k k' \<Longrightarrow> files_ok k'"
  unfolding closes_def using files_ok_refile by blast

lemma closes_trans:
  assumes "files_ok k" and "closes k k1" and "closes k1 k2"
  shows "closes k k2"
proof -
  obtain fs1 fs2 where f: "k1 = refile fs1 k" "k2 = refile fs2 k1" "length fs2 = 8"
    "\<forall>i<8. flags (fs1 ! i) = 0 \<or> fs1 ! i = fd_entry k (int i)"
    "\<forall>i<8. flags (fs2 ! i) = 0 \<or> fs2 ! i = fd_entry k1 (int i)"
    using assms(2,3) by (auto simp: closes_def)
  have "k2 = refile fs2 k" using f(1,2) assms(1) by (auto simp: refile_def files_ok_def)
  moreover have "fd_entry k1 (int i) = fs1 ! i" for i using fd_entry_refile [OF assms(1)] f(1) by simp
  ultimately show ?thesis using f(3-5) unfolding closes_def by metis
qed

lemma closes_upd:
  assumes "files_ok k" and "0 \<le> fd" and "fd < 8" and "\<And>e. flags (g e) = 0"
  shows "closes k (upd_fd fd g k)"
  unfolding closes_def
  using assms by (intro exI [of _ "(pcb_file_array (pcbs k ! the (file_array k)))[nat fd := g (fd_entry k fd)]"])
    (auto simp: refile_def upd_fd_def Let_def files_ok_def fd_entry_def nth_list_update)

lemma close_step:
  assumes "files_ok k" and "i < 8"
    and "(if flags (fd_entry k (int i)) \<noteq> 0 then map_option snd (sys_close (int i) k) else Some k) = Some k'"
  shows "closes k k' \<and> (2 \<le> i \<longrightarrow> flags (fd_entry k' (int i)) = 0)"
proof (cases "2 \<le> i \<and> flags (fd_entry k (int i)) \<noteq> 0")
  case True
  then obtain r where s: "sys_close (int i) k = Some (r, k')" using assms(3) by (auto split: if_splits)
  have fa: "file_array k \<noteq> None" using assms(1) by (auto simp: files_ok_def)
  have "op_ptr (fd_entry k (int i)) \<noteq> OP_NULL"
    using True s fa assms(2) by (auto simp: sys_close_def Let_def FILE_LIMIT_def op_close_def)
  then obtain g where g: "k' = upd_fd (int i) g k" "\<And>e. flags (g e) = 0"
    using sys_close_eq [OF assms(1), of "int i"] True assms(2) s by auto
  then show ?thesis using closes_upd [OF assms(1), of "int i" g] fd_entry_upd [OF assms(1), of "int i" "int i" g] assms(2) by simp
next
  case False
  then have "k' = k" using assms(3) by (auto simp: sys_close_def split: if_splits)
  then show ?thesis using False closes_refl [OF assms(1)] by auto
qed

text \<open>The loop of \<open>halt\<close>.\<close>

definition close_fds :: "nat list \<Rightarrow> kernel option \<Rightarrow> kernel option" where
  "close_fds = fold (\<lambda>fd r. Option.bind r (\<lambda>k.
     if flags (fd_entry k (int fd)) \<noteq> 0 then map_option snd (sys_close (int fd) k) else Some k))"

lemma close_fds_simps:
  "close_fds [] r = r"
  "close_fds (i # is) (Some k) = close_fds is (if flags (fd_entry k (int i)) \<noteq> 0 then map_option snd (sys_close (int i) k) else Some k)"
  "close_fds is None = None"
proof -
  show "close_fds is None = None" by (induction "is") (simp_all add: close_fds_def)
qed (simp_all add: close_fds_def)

lemma closes_flags:
  assumes "files_ok k" and "closes k k'" and "i < 8" and "flags (fd_entry k (int i)) = 0"
  shows "flags (fd_entry k' (int i)) = 0"
  using assms fd_entry_refile [OF assms(1)] by (auto simp: closes_def)

lemma close_fds_closes:
  "files_ok k \<Longrightarrow> set is \<subseteq> {..<8} \<Longrightarrow> close_fds is (Some k) = Some k' \<Longrightarrow>
    closes k k' \<and> (\<forall>i \<in> set is. 2 \<le> i \<longrightarrow> flags (fd_entry k' (int i)) = 0)"
proof (induction "is" arbitrary: k)
  case Nil
  then show ?case by (simp add: close_fds_simps closes_refl)
next
  case (Cons i js)
  let ?r = "if flags (fd_entry k (int i)) \<noteq> 0 then map_option snd (sys_close (int i) k) else Some k"
  obtain k1 where k1: "?r = Some k1" "close_fds js (Some k1) = Some k'"
    using Cons.prems(3) close_fds_simps(3) [of js] by (cases ?r) (auto simp: close_fds_simps)
  have s: "closes k k1 \<and> (2 \<le> i \<longrightarrow> flags (fd_entry k1 (int i)) = 0)" using close_step [OF Cons.prems(1) _ k1(1)] Cons.prems(2) by simp
  then have f1: "files_ok k1" using closes_files_ok [OF Cons.prems(1)] by simp
  have IH: "closes k1 k' \<and> (\<forall>i \<in> set js. 2 \<le> i \<longrightarrow> flags (fd_entry k' (int i)) = 0)"
    using Cons.IH [OF f1 _ k1(2)] Cons.prems(2) by simp
  then show ?case using s closes_trans [OF Cons.prems(1)] closes_flags [OF f1] Cons.prems(2) by auto
qed

lemma closable_closes: "files_ok k \<Longrightarrow> closable k \<Longrightarrow> closes k k' \<Longrightarrow> closable k'"
  using fd_entry_refile by (auto simp: closable_def closes_def)

lemma close_fds_total:
  "files_ok k \<Longrightarrow> closable k \<Longrightarrow> set is \<subseteq> {..<8} \<Longrightarrow> \<exists>k'. close_fds is (Some k) = Some k'"
proof (induction "is" arbitrary: k)
  case (Cons i js)
  let ?r = "if flags (fd_entry k (int i)) \<noteq> 0 then map_option snd (sys_close (int i) k) else Some k"
  have i: "i < 8" using Cons.prems(3) by simp
  have "\<exists>k1. ?r = Some k1"
  proof (cases "2 \<le> i \<and> flags (fd_entry k (int i)) \<noteq> 0")
    case True
    then show ?thesis using sys_close_eq [OF Cons.prems(1), of "int i"] Cons.prems(2) i by (auto simp: closable_def)
  next
    case False
    then show ?thesis by (auto simp: sys_close_def)
  qed
  then obtain k1 where k1: "?r = Some k1" by blast
  have s: "closes k k1" using close_step [OF Cons.prems(1) i k1] by simp
  have "\<exists>k'. close_fds js (Some k1) = Some k'"
    using Cons.IH [of k1] closes_files_ok [OF Cons.prems(1) s] closable_closes [OF Cons.prems(1,2) s] Cons.prems(3) by simp
  then show ?case unfolding close_fds_simps k1 .
qed (simp add: close_fds_simps)

lemma close_all_fds: "close_all k = close_fds [0..<8] (Some k)"
  by (simp add: close_all_def close_fds_def)

section \<open>Halting\<close>

lemma sys_views:
  assumes "sys k' = sys k"
  shows "map term_view (terminals k') = map term_view (terminals k)"
proof -
  have "map (term_view \<circ> term_idle) (terminals k') = map (term_view \<circ> term_idle) (terminals k)"
    using arg_cong [OF sys_fields(10) [OF assms], of "map term_view"] by simp
  then show ?thesis by (simp add: comp_def term_view_idle)
qed

lemma base_ok_sys:
  assumes "base_ok k" and "kbd_ok k'" and "sys k' = sys k"
  shows "base_ok k'" and "cur_stack k' = cur_stack k"
proof -
  note f = sys_fields [OF assms(3)] and t = sys_views [OF assms(3)]
  have pr: "proc_ok k" using assms(1) by (simp add: base_ok_def)
  have "proc_ok k'" by (rule proc_ok_frame [OF pr _ t]) (simp_all add: f)
  then show "base_ok k'" using assms(1,2) f(6) by (simp add: base_ok_def)
  have "term_view (terminals k' ! cur_idx k) = term_view (terminals k ! cur_idx k)"
    using arg_cong [OF t, of "\<lambda>xs. xs ! cur_idx k"] map_eq_imp_length_eq [OF t] proc_ok_cur(1) [OF pr] by simp
  from term_view_stack [OF this] show "cur_stack k' = cur_stack k" using f(7) by (simp add: cur_stack_def)
qed

lemma pop_base_ok:
  assumes "base_ok k" and "cur_stack k = ps @ [p]" and "pcbs k' = (pcbs k)[p := b]" and "status b = 0"
    and "length (pcb_file_array b) = 8" and "terminals k' = (terminals k)[cur_idx k := (terminals k ! cur_idx k)\<lparr>term_prog_counter := v\<rparr>]"
    and "stack ((terminals k ! cur_idx k)\<lparr>term_prog_counter := v\<rparr>) = ps" and "term_proc_ok ((terminals k ! cur_idx k)\<lparr>term_prog_counter := v\<rparr>)"
    and "prog_counter k' = prog_counter k - 1" and "cur_term_id k' = cur_term_id k" and "active_term_idx k' = active_term_idx k"
    and "paging_inv (pg k')"
  shows "base_ok k'" and "cur_stack k' = ps"
proof -
  have pr: "proc_ok k" and kb: "kbd_ok k" using assms(1) by (simp_all add: base_ok_def)
  note c = proc_ok_cur [OF pr]
  have "proc_ok k'"
    using assms(2) by (intro proc_ok_pop [OF pr _ assms(3,6,9,10,4,5,7,8)]) (simp add: cur_stack_def)
  moreover have "kbd_ok (upd_tm (cur_term_id k) (\<lambda>t. t\<lparr>term_prog_counter := v\<rparr>) k)"
    using kbd_ok_tm [OF kb c(3,4)] c(3,4) kb by (intro kbd_ok_upd_tm) (simp_all add: kbd_term_ok_def)
  moreover have "kbd_ok k' = kbd_ok (upd_tm (cur_term_id k) (\<lambda>t. t\<lparr>term_prog_counter := v\<rparr>) k)"
    by (rule kbd_ok_frame) (simp_all add: assms(6,10,11) upd_tm_def tm_def)
  ultimately show "base_ok k'" using assms(12) by (simp add: base_ok_def)
  show "cur_stack k' = ps" using assms(6,7,10) c(1) by (simp add: cur_stack_def)
qed

text \<open>The state of \<open>halt\<close> after the descriptors are closed: the PCB of the process is free.\<close>

definition dying :: "nat \<Rightarrow> kernel \<Rightarrow> kernel" where
  "dying p k = upd_pcb (int p) (\<lambda>b. b\<lparr>parent_pcb_pointer := None\<rparr>) (upd_pcb (int p) (\<lambda>b. b\<lparr>status := 0\<rparr>) k)"

lemma dying_eq: "p < length (pcbs k) \<Longrightarrow> dying p k = k\<lparr>pcbs := (pcbs k)[p := (pcbs k ! p)\<lparr>status := 0, parent_pcb_pointer := None\<rparr>]\<rparr>"
  by (simp add: dying_def upd_pcb_def)

lemma current_proc:
  assumes "kernel_ok k" and "cur_stack k = ps @ [p]"
  shows "p < 6" and "cur_pid k = int p" and "file_array k = Some p" and "length (pcbs k) = 6"
    and "length (pcb_file_array (pcbs k ! p)) = 8" and "parent_pcb_pointer (pcbs k ! p) = (if ps = [] then None else Some (last ps))"
proof -
  have pr: "proc_ok k" using assms(1) by (simp add: kernel_ok_def base_ok_def)
  have c: "cur_idx k < 3" using proc_ok_cur(1) [OF pr] proc_okD(2) [OF pr] by simp
  show p: "p < 6" using stack_mem_lt [OF pr c] assms(2) by (simp add: cur_stack_def)
  show "cur_pid k = int p" using cur_pid_last [OF pr] assms(2) by simp
  show "file_array k = Some p" using assms by (simp add: kernel_ok_def active_proc_def)
  show "length (pcbs k) = 6" "length (pcb_file_array (pcbs k ! p)) = 8" using proc_okD(1,3) [OF pr] p by simp_all
  show "parent_pcb_pointer (pcbs k ! p) = (if ps = [] then None else Some (last ps))"
  proof -
    have st: "stack (terminals k ! cur_idx k) = ps @ [p]" using assms(2) by (simp add: cur_stack_def)
    show ?thesis using linkedD(3) [OF proc_okD(8) [OF pr c], of "length ps" p] unfolding st
      by (cases "ps = []") (simp_all add: nth_append last_conv_nth)
  qed
qed

lemma dying_closed:
  assumes "kernel_ok k" and "cur_stack k = ps @ [p]" and "close_all (dying p k) = Some kc"
  obtains fs where "length fs = 8" and "\<forall>i<8. 2 \<le> i \<longrightarrow> flags (fs ! i) = 0"
    and "kc = k\<lparr>pcbs := (pcbs k)[p := (pcbs k ! p)\<lparr>status := 0, parent_pcb_pointer := None, pcb_file_array := fs\<rparr>]\<rparr>"
proof -
  note c = current_proc [OF assms(1,2)]
  have d: "dying p k = k\<lparr>pcbs := (pcbs k)[p := (pcbs k ! p)\<lparr>status := 0, parent_pcb_pointer := None\<rparr>]\<rparr>"
    using c(1,4) by (simp add: dying_eq)
  have f: "files_ok (dying p k)" using c by (simp add: files_ok_def d)
  have cl: "closes (dying p k) kc \<and> (\<forall>i \<in> set [0..<8]. 2 \<le> i \<longrightarrow> flags (fd_entry kc (int i)) = 0)"
    using close_fds_closes [OF f, of "[0..<8]" kc] assms(3) by (simp add: close_all_fds subset_eq)
  then obtain fs where fs: "kc = refile fs (dying p k)" "length fs = 8" by (auto simp: closes_def)
  have "flags (fs ! i) = 0" if "i < 8" "2 \<le> i" for i using cl that fd_entry_refile [OF f, of fs i] fs(1) by auto
  then show thesis using that [of fs] fs c by (simp add: refile_def d)
qed

lemma halt_unfold:
  assumes "kernel_ok k" and "cur_stack k = ps @ [p]"
  shows "halt f s k = (case close_all (dying p k) of None \<Rightarrow> Undefined | Some k \<Rightarrow>
    (if ps = []
     then (case execute f (Some (cstring ''shell''))
             (clear (upd_tm (cur_term_id k) (\<lambda>t. t\<lparr>term_prog_counter := 0\<rparr>) (k\<lparr>prog_counter := prog_counter k - 1\<rparr>))) of
             Returns r k \<Rightarrow> Undefined | out \<Rightarrow> out)
     else let q = last ps;
              k = upd_pcb (int p) (\<lambda>b. b\<lparr>video_mem_flag := 0\<rparr>) (k\<lparr>pg := disable_prog_vid_page (pg k)\<rparr>);
              k = k\<lparr>file_array := Some q, prog_counter := prog_counter k - 1\<rparr>;
              k = upd_tm (cur_term_id k) (\<lambda>t. t\<lparr>term_prog_counter := term_prog_counter t - 1\<rparr>) k;
              k = k\<lparr>pg := setup_paging (pid (pcbs k ! q)) (pg k)\<rparr>
          in if program_exception_flag k \<noteq> 0
             then jump_to_exec_ret (ebp (pcbs k ! p)) EXP_ERROR (k\<lparr>program_exception_flag := 0\<rparr>)
             else jump_to_exec_ret (ebp (pcbs k ! p)) (ucast s) k))"
proof -
  note c = current_proc [OF assms]
  show ?thesis
    using c(1,3,4) unfolding halt_def c(2) Let_def nat_int c(6) dying_def [symmetric]
    by (cases "close_all (dying p k)"; cases "ps = []"; simp)
qed


lemma set_tss_flag [simp]: "program_exception_flag (set_tss k) = program_exception_flag k"
  by (simp add: set_tss_def)

lemma base_ok_flag: "base_ok k \<Longrightarrow> base_ok (k\<lparr>program_exception_flag := n\<rparr>)"
  by (rule base_ok_cong [of k]) (simp_all add: base_ok_def)

lemma parent_proc:
  assumes "kernel_ok k" and "cur_stack k = (ps @ [q]) @ [p]"
  shows "q \<noteq> p" and "q < 6" and "pid (pcbs k ! q) = int q"
proof -
  have pr: "proc_ok k" using assms(1) by (simp add: kernel_ok_def base_ok_def)
  note cu = proc_ok_cur [OF pr]
  have st: "stack (terminals k ! cur_idx k) = (ps @ [q]) @ [p]" using assms(2) by (simp add: cur_stack_def)
  have c3: "cur_idx k < 3" using cu(1) proc_okD(2) [OF pr] by simp
  show "q \<noteq> p" using proc_okD(5) [OF pr] procs_split [OF cu(1)] st by auto
  show "q < 6" using stack_mem_lt [OF pr c3, of q] st by simp
  show "pid (pcbs k ! q) = int q" using linkedD(1) [OF proc_okD(8) [OF pr c3], of "length ps" q] unfolding st by (simp add: nth_append)
qed

text \<open>The state in which \<open>halt\<close> leaves to the parent, up to the TSS and the exception flag.\<close>

lemma halt_parent_run:
  assumes "kernel_ok k" and "cur_stack k = (ps @ [q]) @ [p]" and "close_all (dying p k) = Some kc"
    and kc: "kc = k\<lparr>pcbs := (pcbs k)[p := (pcbs k ! p)\<lparr>status := 0, parent_pcb_pointer := None, pcb_file_array := fs\<rparr>]\<rparr>"
    and b_def: "b = (pcbs k ! p)\<lparr>status := 0, parent_pcb_pointer := None, pcb_file_array := fs, video_mem_flag := 0\<rparr>"
    and t_def: "t = (terminals k ! cur_idx k)\<lparr>term_prog_counter := term_prog_counter (terminals k ! cur_idx k) - 1\<rparr>"
    and K_def: "K = k\<lparr>pcbs := (pcbs k)[p := b], file_array := Some q, prog_counter := prog_counter k - 1,
      terminals := (terminals k)[cur_idx k := t], pg := setup_paging (int q) (disable_prog_vid_page (pg k))\<rparr>"
  shows "halt f s k = (if program_exception_flag K \<noteq> 0
      then jump_to_exec_ret (ebp (pcbs K ! p)) EXP_ERROR (K\<lparr>program_exception_flag := 0\<rparr>) else jump_to_exec_ret (ebp (pcbs K ! p)) (ucast s) K)"
proof -
  note c = current_proc [OF assms(1,2)] and q = parent_proc [OF assms(1,2)]
  have e: "(ps @ [q] = []) = False" "last (ps @ [q]) = q" by simp_all
  have k2: "upd_pcb (int p) (\<lambda>b. b\<lparr>video_mem_flag := 0\<rparr>) (kc\<lparr>pg := disable_prog_vid_page (pg kc)\<rparr>)
      = k\<lparr>pcbs := (pcbs k)[p := b], pg := disable_prog_vid_page (pg k)\<rparr>"
    using c(1,4) by (simp add: kc upd_pcb_def b_def)
  have k3: "upd_tm (cur_term_id k) (\<lambda>t. t\<lparr>term_prog_counter := term_prog_counter t - 1\<rparr>)
      (k\<lparr>pcbs := (pcbs k)[p := b], pg := disable_prog_vid_page (pg k), file_array := Some q, prog_counter := prog_counter k - 1\<rparr>)
    = k\<lparr>pcbs := (pcbs k)[p := b], pg := disable_prog_vid_page (pg k), file_array := Some q, prog_counter := prog_counter k - 1,
        terminals := (terminals k)[cur_idx k := t]\<rparr>"
    by (simp add: upd_tm_def tm_def t_def)
  have "pid ((pcbs k)[p := b] ! q) = int q" using q(1,3) by simp
  then show ?thesis
    unfolding halt_unfold [OF assms(1,2)] assms(3) option.case e if_False Let_def k2 by (simp add: k3 K_def)
qed

text \<open>A process with a parent returns to it.\<close>

lemma halt_to_parent:
  assumes "kernel_ok k" and "cur_stack k = (ps @ [q]) @ [p]" and "close_all (dying p k) = Some kc"
  shows "\<exists>k'. halt f s k = Frame_Return (ebp (pcbs k ! p)) (Some (if program_exception_flag k \<noteq> 0 then EXP_ERROR else ucast s)) k'
    \<and> kernel_ok k' \<and> cur_stack k' = ps @ [q] \<and> cur_term_id k' = cur_term_id k \<and> program_exception_flag k' = 0
    \<and> status (pcbs k' ! p) = 0 \<and> (\<forall>r. r \<noteq> p \<longrightarrow> pcbs k' ! r = pcbs k ! r)
    \<and> (\<forall>i<8. 2 \<le> i \<longrightarrow> flags (pcb_file_array (pcbs k' ! p) ! i) = 0) \<and> prog_counter k' = prog_counter k - 1
    \<and> (\<forall>i<3. int i \<noteq> cur_term_id k \<longrightarrow> stack (terminals k' ! i) = stack (terminals k ! i)) \<and> scene k' = scene k \<and> mem k' = mem k \<and> aside k k'"
proof -
  note c = current_proc [OF assms(1,2)]
  have bk: "base_ok k" and pr: "proc_ok k" and pg: "paging_inv (pg k)" using assms(1) by (simp_all add: kernel_ok_def base_ok_def)
  note cu = proc_ok_cur [OF pr]
  obtain fs where fs: "length fs = 8" "\<forall>i<8. 2 \<le> i \<longrightarrow> flags (fs ! i) = 0" and kc: "kc = k\<lparr>pcbs := (pcbs k)[p := (pcbs k ! p)\<lparr>status := 0, parent_pcb_pointer := None, pcb_file_array := fs\<rparr>]\<rparr>"
    using dying_closed [OF assms] by blast
  have st: "stack (terminals k ! cur_idx k) = (ps @ [q]) @ [p]" using assms(2) by (simp add: cur_stack_def)
  note q = parent_proc [OF assms(1,2)]
  define b where "b = (pcbs k ! p)\<lparr>status := 0, parent_pcb_pointer := None, pcb_file_array := fs, video_mem_flag := 0\<rparr>"
  define t where "t = (terminals k ! cur_idx k)\<lparr>term_prog_counter := term_prog_counter (terminals k ! cur_idx k) - 1\<rparr>"
  define K where "K = k\<lparr>pcbs := (pcbs k)[p := b], file_array := Some q, prog_counter := prog_counter k - 1,
    terminals := (terminals k)[cur_idx k := t], pg := setup_paging (int q) (disable_prog_vid_page (pg k))\<rparr>"
  note run = halt_parent_run [OF assms kc b_def t_def K_def, of f s]
  have "base_ok K" "cur_stack K = ps @ [q]"
  proof -
    have "stack t = ps @ [q]" "term_proc_ok t" using pop_pid_ok [OF cu(5)] st by (simp_all add: t_def butlast_append)
    then show "base_ok K" "cur_stack K = ps @ [q]"
      using pop_base_ok [OF bk assms(2), of K b "term_prog_counter (terminals k ! cur_idx k) - 1"] fs pg q(2)
      by (simp_all add: K_def b_def t_def setup_paging_inv vid_page_inv)
  qed
  then have fin: "kernel_ok (set_tss K)" "kernel_ok (set_tss (K\<lparr>program_exception_flag := 0\<rparr>))"
    "cur_stack (set_tss (K\<lparr>program_exception_flag := n\<rparr>)) = ps @ [q]" "cur_stack (set_tss K) = ps @ [q]" for n
    using setup_window [of q "disable_prog_vid_page (pg k)"] base_ok_flag [of K 0]
    by (auto intro!: kernel_ok_set_tss simp: cur_stack_def K_def)
  have oth: "stack ((terminals k)[cur_idx k := t] ! i) = stack (terminals k ! i)" if "int i \<noteq> cur_term_id k" for i
  proof -
    have "cur_idx k \<noteq> i" using that cu(3) by auto
    then show ?thesis by simp
  qed
  have sc: "scene (set_tss K) = scene k" "scene (set_tss (K\<lparr>program_exception_flag := 0\<rparr>)) = scene k"
    using map_cursor_upd [of Pair t "terminals k" "cur_idx k"] by (simp_all add: scene_def K_def t_def set_tss_def)
  have pp: "pcbs K ! p = b" using c(1,4) by (simp add: K_def)
  have "aside k (set_tss K)" "aside k (set_tss (K\<lparr>program_exception_flag := 0\<rparr>))" by (rule aside_upd; simp add: K_def)+
  then show ?thesis using run fin oth fs(2) sc pp
    by (cases "program_exception_flag k = 0") (simp_all add: jump_to_exec_ret_def K_def b_def)
qed

text \<open>The base shell of a terminal is started again.\<close>

lemma halt_base_shell:
  assumes "kernel_ok k" and "cur_stack k = [p]"
  shows "halt f s k = Undefined \<or> (\<exists>eip p' k'. halt f s k = Iret eip USER_CS 0x083FFFFC USER_DS k' \<and> kernel_ok k'
    \<and> cur_stack k' = [p'] \<and> cur_term_id k' = cur_term_id k \<and> program_exception_flag k' = program_exception_flag k \<and> aside k k')"
proof (cases "close_all (dying p k)")
  case None
  then show ?thesis using halt_unfold [of k "[]" p f s] assms by simp
next
  case (Some kc)
  have st: "cur_stack k = [] @ [p]" using assms(2) by simp
  note c = current_proc [OF assms(1) st]
  have bk: "base_ok k" and pr: "proc_ok k" and pg: "paging_inv (pg k)" using assms(1) by (simp_all add: kernel_ok_def base_ok_def)
  obtain fs where fs: "length fs = 8" and kc: "kc = k\<lparr>pcbs := (pcbs k)[p := (pcbs k ! p)\<lparr>status := 0, parent_pcb_pointer := None, pcb_file_array := fs\<rparr>]\<rparr>"
    using dying_closed [OF assms(1) st Some] by blast
  define K where "K = upd_tm (cur_term_id kc) (\<lambda>t. t\<lparr>term_prog_counter := 0\<rparr>) (kc\<lparr>prog_counter := prog_counter kc - 1\<rparr>)"
  have t0: "stack ((terminals k ! cur_idx k)\<lparr>term_prog_counter := 0\<rparr>) = []" "term_proc_ok ((terminals k ! cur_idx k)\<lparr>term_prog_counter := 0\<rparr>)"
    using proc_ok_cur(5) [OF pr] by (simp_all add: stack_def term_proc_ok_def)
  have K: "base_ok K" "cur_stack K = []"
    using pop_base_ok [OF bk st _ _ _ _ t0, of K "(pcbs k ! p)\<lparr>status := 0, parent_pcb_pointer := None, pcb_file_array := fs\<rparr>"] fs pg
    by (simp_all add: K_def kc upd_tm_def tm_def)
  then have "kbd_ok (clear K)" by (simp add: base_ok_def kbd_ok_clear)
  then have C: "base_ok (clear K)" "cur_stack (clear K) = []" using base_ok_sys [OF K(1)] K(2) by simp_all
  have ct: "cur_term_id (clear K) = cur_term_id k" "program_exception_flag (clear K) = program_exception_flag k"
    using sys_fields(4,7) [of "clear K" K] by (simp_all add: K_def kc upd_tm_def)
  have "halt f s k = (case execute f (Some (cstring ''shell'')) (clear K) of Returns r k \<Rightarrow> Undefined | out \<Rightarrow> out)"
    using halt_unfold [OF assms(1) st, of f s] Some by (simp add: K_def)
  moreover have "aside k (clear K)"
    by (rule aside_trans [OF aside_upd aside_core]) (simp_all add: K_def kc upd_tm_def)
  ultimately show ?thesis using execute_ok [OF C(1), of f "Some (cstring ''shell'')"] C(2) ct aside_trans [of k "clear K"] by auto
qed

section \<open>Example states\<close>

text \<open>A booted kernel with paging on and the demonstration file image, without and with one process.\<close>

definition demo_paged :: kernel where
  "demo_paged = demo_kernel\<lparr>pg := init_paging (zero_paging 0x410000 0x411000 0x412000), filesys := demo_fs\<rparr>"

definition demo_running :: kernel where
  "demo_running = set_tss ((snd (create_pcb demo_paged))\<lparr>pg := setup_paging 0 (pg demo_paged)\<rparr>)"

lemma demo_paged_fields:
  "terminals demo_paged = replicate 3 zero_terminal" "pcbs demo_paged = replicate 6 zero_pcb" "prog_counter demo_paged = 0"
  "cur_term_id demo_paged = 0" "active_term_idx demo_paged = 0" "mem demo_paged = demo_mem" "filesys demo_paged = demo_fs"
  by (simp_all add: demo_paged_def demo_kernel_def start_kernel_def)

lemma demo_paged_inv: "paging_inv (pg demo_paged)"
  using init_paging_inv [of "zero_paging 0x410000 0x411000 0x412000"]
  by (simp add: demo_paged_def tables_placed_def zero_paging_def)

lemma demo_paged_ok: "base_ok demo_paged"
proof -
  have "kbd_ok demo_paged" using demo_kbd_ok by (subst kbd_ok_frame [of _ demo_kernel]) (simp_all add: demo_paged_def)
  moreover have "proc_ok demo_paged"
    by (rule no_procs_ok) (simp_all add: demo_paged_fields zero_pcb_def zero_terminal_def)
  ultimately show ?thesis using demo_paged_inv by (simp add: base_ok_def)
qed

lemma demo_room: "prog_counter demo_paged < 6" "term_prog_counter (tm demo_paged (cur_term_id demo_paged)) < 4"
  by (simp_all add: demo_paged_fields tm_def zero_terminal_def)

lemma demo_running_ok:
  "kernel_ok demo_running" "cur_stack demo_running = [0]" "cur_term_id demo_running = 0" "mem demo_running = demo_mem"
  "filesys demo_running = demo_fs" "prog_counter demo_running = 1" "program_exception_flag demo_running = 0"
proof -
  have pr: "proc_ok demo_paged" using demo_paged_ok by (simp add: base_ok_def)
  obtain p k' where c: "create_pcb demo_paged = (int p, k')" "status (pcbs demo_paged ! p) = 0"
    "\<forall>q<p. status (pcbs demo_paged ! q) \<noteq> 0"
    using create_pcb_ok [OF pr demo_room] by blast
  have "p = 0" using c(3) by (cases p) (auto simp: demo_paged_fields zero_pcb_def)
  obtain p' k'' where d: "create_pcb demo_paged = (int p', k'')" "p' < 6" "base_ok k''" "cur_stack k'' = cur_stack demo_paged @ [p']"
    "file_array k'' = Some p'" "cur_term_id k'' = cur_term_id demo_paged" "pg k'' = pg demo_paged" "mem k'' = mem demo_paged"
    "filesys k'' = filesys demo_paged" "active_term_idx k'' = active_term_idx demo_paged"
    "\<forall>r. r \<noteq> p' \<longrightarrow> pcbs k'' ! r = pcbs demo_paged ! r" "\<forall>i<8. 2 \<le> i \<longrightarrow> flags (fd_entry k'' (int i)) = 0"
    "program_exception_flag k'' = program_exception_flag demo_paged" "prog_counter k'' = prog_counter demo_paged + 1"
    "scene k'' = scene demo_paged" "std_open k''"
    by (rule create_base_ok [OF demo_paged_ok demo_room])
  have p0: "p' = 0" using c(1) d(1) \<open>p = 0\<close> by simp
  have s0: "cur_stack demo_paged = []" by (simp add: cur_stack_def demo_paged_fields zero_terminal_def stack_def)
  define K where "K = k''\<lparr>pg := setup_paging 0 (pg demo_paged)\<rparr>"
  have r: "demo_running = set_tss K" by (simp add: demo_running_def d(1) K_def)
  have "base_ok K" unfolding K_def using d(3) demo_paged_inv
    by - (rule base_ok_cong [of k'']; simp add: setup_paging_inv)
  moreover have st: "cur_stack K = [0]" using d(4) p0 s0 by (simp add: K_def cur_stack_def)
  ultimately show "kernel_ok demo_running" unfolding r
    using setup_window [of 0 "pg demo_paged"] d(5) p0 by (intro kernel_ok_set_tss) (simp_all add: K_def)
  show "cur_stack demo_running = [0]" "cur_term_id demo_running = 0" "mem demo_running = demo_mem"
    "filesys demo_running = demo_fs" "prog_counter demo_running = 1" "program_exception_flag demo_running = 0"
    using st d(6,8,9,13,14) by (simp_all add: r cur_stack_def K_def demo_paged_fields) (simp_all add: set_tss_def demo_paged_def demo_kernel_def start_kernel_def)
qed

lemma demo_running_room: "prog_counter demo_running < 6" "term_prog_counter (tm demo_running (cur_term_id demo_running)) < 4"
proof -
  have "proc_ok demo_running" using demo_running_ok(1) by (simp add: kernel_ok_def base_ok_def)
  from stack_length [OF proc_ok_cur(2) [OF this]] have "nat (term_prog_counter (tm demo_running (cur_term_id demo_running))) = 1"
    using demo_running_ok(2) by (simp add: cur_stack_def tm_def)
  then show "prog_counter demo_running < 6" "term_prog_counter (tm demo_running (cur_term_id demo_running)) < 4"
    using demo_running_ok(6) by simp_all
qed

section \<open>Running a program\<close>

lemma load32_bytes_at: "load32 (of_bytes (bytes_at m a 4) \<circ> unat) 0 = load32 m a"
proof -
  have "of_bytes (bytes_at m a 4) i = m (a + of_nat i)" if "i < 4" for i
    using that by (simp add: of_bytes_def bytes_at_def at_def)
  then show ?thesis by (simp add: load32_def)
qed

text \<open>Where the image of process \<open>p\<close> is in physical memory.\<close>

definition image_at :: "nat \<Rightarrow> addr" where
  "image_at p = of_nat (0x848000 + 0x400000 * p)"

lemma image_addr:
  assumes "off < 0x3B8000"
  shows "unat (0x08048000 + of_nat off :: addr) div 4194304 = 32" and "unat (0x08048000 + of_nat off :: addr) mod 4194304 = 0x48000 + off"
proof -
  have u: "unat (0x08048000 + of_nat off :: addr) = 0x08048000 + off" using assms unat_plus_of_nat [of "0x08048000" off] by simp
  have "0x48000 + off < 4194304" using assms by linarith
  moreover have "0x08048000 + off = 32 * 4194304 + (0x48000 + off)" by simp
  ultimately have "(0x08048000 + off) div 4194304 = 32 \<and> (0x08048000 + off) mod 4194304 = 0x48000 + off"
    by (simp only: div_mult_self3 mod_mult_self3 div_less mod_less) simp
  then show "unat (0x08048000 + of_nat off :: addr) div 4194304 = 32" "unat (0x08048000 + of_nat off :: addr) mod 4194304 = 0x48000 + off"
    unfolding u by simp_all
qed

lemma image_linear:
  assumes "paging_inv q" and "pg K = setup_paging (int p) q" and "p < 6" and "off + n \<le> 0x3B8000" and "0 < n"
  shows "linear K (0x08048000 + of_nat off) (image_at p + of_nat off) n"
proof -
  have e: "unat (0x08048000 + of_nat off :: addr) div 4194304 = 32" "unat (0x08048000 + of_nat off :: addr) mod 4194304 = 0x48000 + off"
    by (rule image_addr, use assms in simp)+
  have "linear K (0x08048000 + of_nat off) (of_nat (0x800000 + 0x400000 * nat (int p) + unat (0x08048000 + of_nat off :: addr) mod 0x400000)) n"
    using assms e(2) by (intro window_linear [OF assms(1,2) _ _ e(1)]) simp_all
  then show ?thesis unfolding e(2) by (simp add: image_at_def algebra_simps)
qed

text \<open>The page walk of the running process itself.\<close>

lemma image_translate:
  assumes "paging_inv q" and "window_of q p" and "p < 6" and "i < 0x3B8000"
  shows "translate q user (0x08048000 + of_nat i) = Some (image_at p + of_nat i)"
proof -
  note e = image_addr [OF assms(4)]
  obtain pa where pa: "translate q user (0x08048000 + of_nat i) = Some pa"
    "unat pa = 0x800000 + 0x400000 * p + unat (0x08048000 + of_nat i :: addr) mod 0x400000"
    using window_translate [OF assms(1-3) e(1)] by blast
  have "unat (image_at p + of_nat i) = 0x848000 + 0x400000 * p + i"
    using unat_of_nat_u32 [of "0x848000 + 0x400000 * p + i"] assms(3,4) by (simp add: image_at_def)
  then have "pa = image_at p + of_nat i" using pa(2) unfolding e(2) by (simp add: word_unat_eq_iff)
  then show ?thesis using pa(1) by simp
qed

lemma load_and_run_image:
  assumes "paging_inv q" and "pg K = setup_paging (int p) q" and "p < 6" and "length bs \<le> 0x3B8000"
    and "m = store_bytes (mem K) (image_at p) bs" and "0 < length bs"
  shows "load_and_run f args p bs K = Iret (load32 m (image_at p + 24)) USER_CS 0x083FFFFC USER_DS (started f args p (K\<lparr>mem := m\<rparr>))"
proof -
  have "vstore K 0x08048000 bs = Some (K\<lparr>mem := m\<rparr>)"
    using vstore_linear [of K "0x08048000" "image_at p" bs] image_linear [OF assms(1-3), of 0 "length bs"] assms(4-6) by simp
  moreover have "vread_bytes (K\<lparr>mem := m\<rparr>) 0x08048018 4 = Some (bytes_at m (image_at p + 24) 4)"
    using vread_bytes_linear [of "K\<lparr>mem := m\<rparr>" "0x08048018" "image_at p + 24" 4]
      image_linear [OF assms(1) _ assms(3), of "K\<lparr>mem := m\<rparr>" 24 4] assms(2) by simp
  ultimately show ?thesis by (simp add: load_and_run_def load32_bytes_at)
qed

lemma printf_literal:
  assumes "0 \<notin> set (chars s)" and "0x25 \<notin> set (chars s)"
  shows "printf (cstring s) esp k = Some (int (length s), fold putc (chars s) k)"
proof -
  let ?its = "map Lit (chars s)"
  have c: "concat (map item_fmt ?its) = chars s" "concat (map item_out ?its) = chars s" "concat (map item_args ?its) = []"
    by (simp_all add: comp_def)
  have "list_all item_ok ?its" using assms by (auto simp: list_all_iff)
  moreover have "found (cstring s) 0 (chars s @ [0])" by (simp add: found_def cstring_def of_bytes_def)
  ultimately show ?thesis using pc.printf_items [of ?its "cstring s" 0 esp 0 k] unfolding c by (simp add: printf_def chars_def)
qed

lemma execute_found:
  assumes "prog_counter k < 6" and "term_prog_counter (tm k (cur_term_id k)) < 4"
    and "parse_command c = Some (name, args)" and "length args \<le> 128"
    and "read_dentry_by_name (filesys k) (mem k) (Some (of_bytes name)) (Some (dentry_stk f)) = Some (r, d)"
  shows "execute f (Some c) k = (if r = -1 \<or> check_validity (filesys k) (mem k) (magic_stk f) (the d) = -1 then Returns (-1) k
    else start_program f args (the d) k)"
  using assms by (simp add: execute_def MAX_PROG_NUM_PER_TERM_def MAX_PROGRAM_COUNT_def PARAM_LENGTH_def)

text \<open>The files on disk: \<open>file_good k d n\<close> is a file of \<open>n\<close> bytes, at least four, with good blocks that fits into a program page;
  \<open>executable\<close> is a regular file that starts with the ELF magic.\<close>

definition file_good :: "kernel \<Rightarrow> dentry \<Rightarrow> nat \<Rightarrow> bool" where
  "file_good k d n \<longleftrightarrow> d_inode_idx d < inode_num (filesys k) \<and> n = unat (inode_length (filesys k) (mem k) (d_inode_idx d))
     \<and> 4 \<le> n \<and> n \<le> 0x3B8000 \<and> (\<forall>i<n. block_ok (filesys k) (mem k) (d_inode_idx d) i)"

definition executable :: "kernel \<Rightarrow> dentry \<Rightarrow> bool" where
  "executable k d \<longleftrightarrow> file_type d = 2 \<and> map (file_byte (filesys k) (mem k) (d_inode_idx d)) [0..<4] = EXEC_HEAD"

lemma file_good_valid:
  "file_good k d n \<Longrightarrow> check_validity (filesys k) (mem k) junk d = (if executable k d then 0 else -1)"
  using check_validity_correct [of d "filesys k" "mem k" junk] by (auto simp: file_good_def executable_def)

lemma file_good_loads:
  assumes "file_good k d n"
  shows "program_loader (filesys k) (mem k) d = (map (file_byte (filesys k) (mem k) (d_inode_idx d)) [0..<n], -1)"
proof -
  let ?L = "inode_length (filesys k) (mem k) (d_inode_idx d)"
  have g: "d_inode_idx d < inode_num (filesys k)" "n = unat ?L" "4 \<le> n" "n \<le> 0x3B8000"
    "\<And>i. i < n \<Longrightarrow> block_ok (filesys k) (mem k) (d_inode_idx d) i" using assms by (auto simp: file_good_def)
  have "?L \<noteq> 0" "unat ?L < 2147483648" using g(2-4) by auto
  then show ?thesis using program_loader_result [of d "filesys k" "mem k"] g by simp
qed

lemma fd_entry_upd_pcb:
  "(\<And>b. pcb_file_array (g b) = pcb_file_array b) \<Longrightarrow> fd_entry (upd_pcb p g k) fd = fd_entry k fd"
  by (simp add: fd_entry_def upd_pcb_def nth_list_update split: if_splits)
    (metis list_update_beyond not_le_imp_less nth_list_update_eq nth_list_update_neq)

lemma started_fields:
  "fd_entry (started f args p k) fd = fd_entry k fd" "program_exception_flag (started f args p k) = program_exception_flag k"
  "prog_counter (started f args p k) = prog_counter k" "mem (started f args p k) = mem k"
proof -
  have "fd_entry (set_tss k) fd = fd_entry k fd" for k by (simp add: fd_entry_def)
  then show "fd_entry (started f args p k) fd = fd_entry k fd" by (simp add: started_def fd_entry_upd_pcb)
qed (simp_all add: started_def)

lemma execute_loads:
  assumes "base_ok k" and "prog_counter k < 6" and "term_prog_counter (tm k (cur_term_id k)) < 4"
    and "parse_command c = Some (name, args)" and "length args \<le> 128"
    and "read_dentry_by_name (filesys k) (mem k) (Some (of_bytes name)) (Some (dentry_stk f)) = Some (0, Some d)"
    and "file_good k d n" and "executable k d"
    and "bs = map (file_byte (filesys k) (mem k) (d_inode_idx d)) [0..<n]"
  shows "\<exists>p k'. execute f (Some c) k = Iret (load32 (mem k') (image_at p + 24)) USER_CS 0x083FFFFC USER_DS k' \<and> p < 6
    \<and> kernel_ok k' \<and> cur_stack k' = cur_stack k @ [p] \<and> cur_term_id k' = cur_term_id k \<and> mem k' = store_bytes (mem k) (image_at p) bs
    \<and> take (length args) (params (pcbs k' ! p)) = args \<and> ebp (pcbs k' ! p) = frame_ebp f
    \<and> closable k' \<and> (\<forall>r. r \<noteq> p \<longrightarrow> pcbs k' ! r = pcbs k ! r) \<and> prog_counter k' = prog_counter k + 1
    \<and> program_exception_flag k' = program_exception_flag k \<and> scene k' = scene k \<and> std_open k'"
proof (rule start_steps [OF assms(1-3)], goal_cases)
  case (1 p K)
  let ?m = "store_bytes (mem K) (image_at p) bs"
  let ?k = "started f args p (K\<lparr>mem := ?m\<rparr>)"
  have pg: "paging_inv (pg k)" using assms(1) by (simp add: base_ok_def)
  have "execute f (Some c) k = start_program f args d k"
    using execute_found [OF assms(2-6)] file_good_valid [OF assms(7)] assms(8) by simp
  also have "\<dots> = load_and_run f args p bs K" using 1(9) file_good_loads [OF assms(7)] assms(9) by simp
  also have "\<dots> = Iret (load32 ?m (image_at p + 24)) USER_CS 0x083FFFFC USER_DS ?k"
    using assms(7,9) by (intro load_and_run_image [OF pg 1(2,1)]) (simp_all add: file_good_def)
  finally have run: "execute f (Some c) k = Iret (load32 (mem ?k) (image_at p + 24)) USER_CS 0x083FFFFC USER_DS ?k"
    by (simp add: started_def)
  have "take (length args) (params (pcbs ?k ! p)) = args" "ebp (pcbs ?k ! p) = frame_ebp f" "mem ?k = store_bytes (mem k) (image_at p) bs"
    using 1(1,3,4) assms(5) by (simp_all add: started_def upd_pcb_def PARAM_LENGTH_def min_def)
  moreover have "closable ?k" using 1(6) by (auto simp: closable_def started_fields)
  moreover have "pcbs ?k ! r = pcbs k ! r" if "r \<noteq> p" for r using 1(5) that by (simp add: started_def upd_pcb_def)
  moreover have "scene ?k = scene k" "std_open ?k"
    using 1(11,12) by (simp_all add: scene_def std_open_def started_fields) (simp_all add: started_def set_tss_def upd_pcb_def)
  ultimately show ?case using run 1(1) 1(10) [of f args ?m] 1(7,8)
    by (intro exI [of _ p] exI [of _ ?k]) (simp add: started_fields)
qed

section \<open>Properties\<close>

text \<open>C3: \<open>execute\<close> runs the program: with a process slot free and room on the terminal, a command
  that names an executable in the file system starts it at user level as a new process on top of the
  current terminal; at its virtual addresses from 128 MB + 0x48000 on it finds exactly the bytes of the
  file, the entry point is the one in the ELF header, its arguments and the frame to return to are
  recorded in its PCB, no memory outside its image has changed, and the kernel invariant holds.\<close>

theorem execute_runs_program:
  assumes "base_ok k" and "prog_counter k < 6" and "term_prog_counter (tm k (cur_term_id k)) < 4"
    and "parse_command c = Some (name, args)" and "length args \<le> 128"
    and "read_dentry_by_name (filesys k) (mem k) (Some (of_bytes name)) (Some (dentry_stk f)) = Some (0, Some d)"
    and "file_good k d n" and "executable k d"
  shows "\<exists>eip p k'. execute f (Some c) k = Iret eip USER_CS 0x083FFFFC USER_DS k' \<and> p < 6 \<and> kernel_ok k' \<and> cur_stack k' = cur_stack k @ [p]
    \<and> (\<forall>i<n. map_option (mem k') (translate (pg k') True (0x08048000 + of_nat i)) = Some (file_byte (filesys k) (mem k) (d_inode_idx d) i))
    \<and> (28 \<le> n \<longrightarrow> eip = load32 (\<lambda>a. file_byte (filesys k) (mem k) (d_inode_idx d) (unat a)) 24)
    \<and> (\<forall>a. (\<forall>i<n. a \<noteq> image_at p + of_nat i) \<longrightarrow> mem k' a = mem k a)
    \<and> take (length args) (params (pcbs k' ! p)) = args \<and> ebp (pcbs k' ! p) = frame_ebp f"
proof -
  let ?fb = "file_byte (filesys k) (mem k) (d_inode_idx d)"
  let ?bs = "map ?fb [0..<n]"
  have n: "n \<le> 0x3B8000" using assms(7) by (simp add: file_good_def)
  from execute_loads [OF assms refl] obtain p k' where
    r: "execute f (Some c) k = Iret (load32 (mem k') (image_at p + 24)) USER_CS 0x083FFFFC USER_DS k'" "p < 6" "kernel_ok k'"
    "cur_stack k' = cur_stack k @ [p]" and m: "mem k' = store_bytes (mem k) (image_at p) ?bs"
    and b: "take (length args) (params (pcbs k' ! p)) = args" "ebp (pcbs k' ! p) = frame_ebp f"
    by (elim exE conjE)
  have at: "mem k' (image_at p + of_nat i) = ?fb i" if "i < n" for i
    using store_bytes_in [of i ?bs "mem k" "image_at p"] n that by (simp add: m)
  have tr: "translate (pg k') True (0x08048000 + of_nat i) = Some (image_at p + of_nat i)" if "i < n" for i
    using image_translate [of "pg k'" p i True] r(2-4) n that by (simp add: kernel_ok_def base_ok_def active_proc_def)
  have eip: "load32 (mem k') (image_at p + 24) = load32 (\<lambda>a. ?fb (unat a)) 24" if "28 \<le> n"
    using at [of 24] at [of 25] at [of 26] at [of 27] that by (simp add: load32_def add.assoc)
  have "mem k' a = mem k a" if "\<forall>i<n. a \<noteq> image_at p + of_nat i" for a
    using store_bytes_out [of ?bs a "image_at p" "mem k"] that by (simp add: m)
  then show ?thesis using r b at tr eip
    by (intro exI [of _ "load32 (mem k') (image_at p + 24)"] exI [of _ p] exI [of _ k']) simp
qed

definition demo_frame :: call_frame where
  "demo_frame = \<lparr>frame_ebp = 0x7FFF00, magic_stk = [], params_stk = replicate 128 0, dentry_stk = load_dentry demo_mem 0\<rparr>"

abbreviation demo_dent :: dentry where
  "demo_dent \<equiv> load_dentry demo_mem (dentry_addr demo_fs 0)"

lemma demo_command: "parse_command (of_bytes [0x61, 0]) = Some ([0x61, 0], [0])"
  using parse_word [of "[0x61]"] by (simp add: name_char_def)

lemma demo_program:
  "file_good demo_paged demo_dent 5" "executable demo_paged demo_dent"
  "read_dentry_by_name (filesys demo_paged) (mem demo_paged) (Some (of_bytes [0x61, 0])) (Some (dentry_stk demo_frame)) = Some (0, Some demo_dent)"
proof -
  have "(\<forall>i<5. block_ok demo_fs demo_mem 0 i)" using demo_file(3) by simp
  then show "file_good demo_paged demo_dent 5" by (simp add: file_good_def demo_paged_fields demo_dentry demo_file)
  show "executable demo_paged demo_dent"
  proof -
    have "map (file_byte demo_fs demo_mem 0) [0..<4] = EXEC_HEAD"
      by (simp add: upt_rec file_byte_def data_addr_def inode_block_def inode_addr_def demo_fs_def
          demo_mem_def load32_def Let_def EXEC_HEAD_def)
    then show ?thesis by (simp add: executable_def demo_paged_fields demo_dentry)
  qed
  show "read_dentry_by_name (filesys demo_paged) (mem demo_paged) (Some (of_bytes [0x61, 0])) (Some (dentry_stk demo_frame)) = Some (0, Some demo_dent)"
    unfolding demo_paged_fields by (rule demo_lookup)
qed

theorem execute_runs_program_witness:
  "\<exists>eip p k'. execute demo_frame (Some (of_bytes [0x61, 0])) demo_paged = Iret eip USER_CS 0x083FFFFC USER_DS k' \<and> kernel_ok k'
    \<and> cur_stack k' = cur_stack demo_paged @ [p]"
proof -
  have "length [0 :: byte] \<le> 128" by simp
  from execute_runs_program [OF demo_paged_ok demo_room demo_command this demo_program(3,1,2)]
  show ?thesis by (elim exE conjE) (intro exI conjI)
qed

text \<open>The limits: with four programs on the terminal or six in the system the call prints a message and returns 1.\<close>

lemma execute_limit:
  "4 \<le> term_prog_counter (tm k (cur_term_id k)) \<Longrightarrow>
     execute f (Some c) k = Returns 1 (fold putc (chars ''FAIL: cannot execute more than 4 tasks in a terminal!\<newline>'') k)"
  "term_prog_counter (tm k (cur_term_id k)) < 4 \<Longrightarrow> 6 \<le> prog_counter k \<Longrightarrow>
     execute f (Some c) k = Returns 1 (fold putc (chars ''FAIL: cannot execute more than 6 tasks!\<newline>'') k)"
  using printf_literal [of "''FAIL: cannot execute more than 4 tasks in a terminal!\<newline>''" "\<lambda>_. 0" k]
    printf_literal [of "''FAIL: cannot execute more than 6 tasks!\<newline>''" "\<lambda>_. 0" k]
  by (simp_all add: execute_def limit_reached_def MAX_PROG_NUM_PER_TERM_def MAX_PROGRAM_COUNT_def PROG_LIMIT_REACHED_def chars_def)

text \<open>The entry of the directory that a name selects: the first one whose name field agrees with it.\<close>

abbreviation entry_at :: "kernel \<Rightarrow> nat \<Rightarrow> dentry" where
  "entry_at k i \<equiv> load_dentry (mem k) (dentry_addr (filesys k) (of_nat i))"

definition selects :: "kernel \<Rightarrow> byte list \<Rightarrow> nat \<Rightarrow> bool" where
  "selects k name i \<longleftrightarrow> i < unat (dentry_num (filesys k)) \<and> dentry_matches (filesys k) (mem k) (of_bytes name) i
     \<and> (\<forall>j<i. \<not> dentry_matches (filesys k) (mem k) (of_bytes name) j)"

lemma selects_unique: "selects k name i \<Longrightarrow> selects k name j \<Longrightarrow> i = j"
  by (metis linorder_neqE_nat selects_def)



lemma closable_dying: "closable k \<Longrightarrow> closable (dying p k)"
  by (simp add: closable_def dying_def fd_entry_upd_pcb)

lemma dying_closes:
  assumes "kernel_ok k" and "cur_stack k = ps @ [p]" and "closable k"
  obtains kc where "close_all (dying p k) = Some kc"
proof -
  note c = current_proc [OF assms(1,2)]
  have "files_ok (dying p k)" using c by (simp add: files_ok_def dying_eq)
  then show thesis using close_fds_total [of "dying p k" "[0..<8]"] closable_dying [OF assms(3)] that
    by (auto simp: close_all_fds subset_eq)
qed

text \<open>C8: \<open>halt\<close> of a process that has a parent ends it: its PCB is free and all its files are closed,
  the parent is the current process again with its memory, descriptors and kernel stack (the kernel
  invariant), the frame that is resumed is the one in which the parent called \<open>execute\<close>, and
  \<open>execute\<close> returns there the byte given to \<open>halt\<close>, or 256 when an exception ended the process;
  no other PCB and no other terminal's programs have changed.\<close>

theorem halt_returns_to_parent:
  assumes "kernel_ok k" and "cur_stack k = ps @ [q, p]" and "closable k"
  shows "\<exists>k'. halt f s k = Frame_Return (ebp (pcbs k ! p)) (Some (if program_exception_flag k \<noteq> 0 then 256 else ucast s)) k'
    \<and> kernel_ok k' \<and> cur_stack k' = ps @ [q] \<and> program_exception_flag k' = 0
    \<and> status (pcbs k' ! p) = 0 \<and> (\<forall>i<8. 2 \<le> i \<longrightarrow> flags (pcb_file_array (pcbs k' ! p) ! i) = 0)
    \<and> (\<forall>r. r \<noteq> p \<longrightarrow> pcbs k' ! r = pcbs k ! r)
    \<and> (\<forall>i<3. int i \<noteq> cur_term_id k \<longrightarrow> stack (terminals k' ! i) = stack (terminals k ! i))"
proof -
  have st: "cur_stack k = (ps @ [q]) @ [p]" using assms(2) by simp
  obtain kc where kc: "close_all (dying p k) = Some kc" by (rule dying_closes [OF assms(1) st assms(3)])
  have e: "EXP_ERROR = 256" by (simp add: EXP_ERROR_def)
  from halt_to_parent [OF assms(1) st kc, of f s, unfolded e] show ?thesis by (elim exE conjE) (intro exI conjI)
qed

text \<open>C4: \<open>execute\<close> and \<open>halt\<close> fit together: a program started from a running process and halting with
  status \<open>s\<close> makes the \<open>execute\<close> of the caller return \<open>s\<close> in the caller's own frame, with the same
  programs on the terminal, the same number of processes and every other PCB as before the call.\<close>

theorem execute_halt_roundtrip:
  assumes "kernel_ok k" and "prog_counter k < 6" and "term_prog_counter (tm k (cur_term_id k)) < 4"
    and "parse_command c = Some (name, args)" and "length args \<le> 128"
    and "read_dentry_by_name (filesys k) (mem k) (Some (of_bytes name)) (Some (dentry_stk f)) = Some (0, Some d)"
    and "file_good k d n" and "executable k d" and "program_exception_flag k = 0"
  shows "\<exists>eip p k' k''. execute f (Some c) k = Iret eip USER_CS 0x083FFFFC USER_DS k'
    \<and> halt g s k' = Frame_Return (frame_ebp f) (Some (ucast s)) k'' \<and> kernel_ok k'' \<and> cur_stack k'' = cur_stack k
    \<and> prog_counter k'' = prog_counter k \<and> status (pcbs k'' ! p) = 0 \<and> (\<forall>r. r \<noteq> p \<longrightarrow> pcbs k'' ! r = pcbs k ! r)"
proof -
  have b: "base_ok k" "cur_stack k \<noteq> []" using assms(1) by (simp_all add: kernel_ok_def)
  then obtain ps q where st: "cur_stack k = ps @ [q]" using rev_exhaust by blast
  from execute_loads [OF b(1) assms(2-8) refl] obtain p k' where
    e: "execute f (Some c) k = Iret (load32 (mem k') (image_at p + 24)) USER_CS 0x083FFFFC USER_DS k'" "kernel_ok k'"
      "cur_stack k' = cur_stack k @ [p]" "ebp (pcbs k' ! p) = frame_ebp f" "closable k'"
      "\<forall>r. r \<noteq> p \<longrightarrow> pcbs k' ! r = pcbs k ! r" "prog_counter k' = prog_counter k + 1" "program_exception_flag k' = program_exception_flag k"
    by (elim exE conjE)
  have st': "cur_stack k' = (ps @ [q]) @ [p]" using e(3) st by simp
  obtain kc where kc: "close_all (dying p k') = Some kc" by (rule dying_closes [OF e(2) st' e(5)])
  from halt_to_parent [OF e(2) st' kc, of g s] obtain k'' where
    h: "halt g s k' = Frame_Return (ebp (pcbs k' ! p)) (Some (if program_exception_flag k' \<noteq> 0 then EXP_ERROR else ucast s)) k''"
      "kernel_ok k''" "cur_stack k'' = ps @ [q]" "status (pcbs k'' ! p) = 0" "\<forall>r. r \<noteq> p \<longrightarrow> pcbs k'' ! r = pcbs k' ! r"
      "prog_counter k'' = prog_counter k' - 1"
    by (elim exE conjE)
  have "halt g s k' = Frame_Return (frame_ebp f) (Some (ucast s)) k''" using h(1) e(4,8) assms(9) by simp
  moreover have "\<forall>r. r \<noteq> p \<longrightarrow> pcbs k'' ! r = pcbs k ! r" using h(5) e(6) by simp
  moreover have "prog_counter k'' = prog_counter k" using h(6) e(7) by simp
  ultimately show ?thesis using e(1) h(2-4) st by (intro exI conjI) simp_all
qed

lemma demo_running_program:
  "file_good demo_running demo_dent 5" "executable demo_running demo_dent"
  "read_dentry_by_name (filesys demo_running) (mem demo_running) (Some (of_bytes [0x61, 0])) (Some (dentry_stk demo_frame)) = Some (0, Some demo_dent)"
  using demo_program unfolding demo_paged_fields file_good_def executable_def demo_running_ok(4,5) by simp_all

theorem execute_halt_roundtrip_witness:
  "\<exists>eip k' k''. execute demo_frame (Some (of_bytes [0x61, 0])) demo_running = Iret eip USER_CS 0x083FFFFC USER_DS k'
    \<and> halt demo_frame 7 k' = Frame_Return 0x7FFF00 (Some 7) k'' \<and> cur_stack k'' = [0]"
proof -
  have l: "length [0 :: byte] \<le> 128" by simp
  have v: "frame_ebp demo_frame = 0x7FFF00" "ucast (7 :: byte) = (7 :: u32)" by (simp_all add: demo_frame_def)
  from execute_halt_roundtrip [OF demo_running_ok(1) demo_running_room demo_command l demo_running_program(3,1,2) demo_running_ok(7), of demo_frame 7]
  show ?thesis unfolding v demo_running_ok(2) by (elim exE conjE) (intro exI conjI)
qed

text \<open>A process on top of the demonstration process.\<close>

lemma demo_child:
  obtains p k where "kernel_ok k" and "cur_stack k = [] @ [0, p]" and "closable k" and "program_exception_flag k = 0"
proof -
  have l: "length [0 :: byte] \<le> 128" by simp
  have b: "base_ok demo_running" using demo_running_ok(1) by (simp add: kernel_ok_def)
  from execute_loads [OF b demo_running_room demo_command l demo_running_program(3,1,2) refl] obtain p k where
    "kernel_ok k" "cur_stack k = cur_stack demo_running @ [p]" "closable k" "program_exception_flag k = program_exception_flag demo_running"
    by (elim exE conjE)
  then show thesis using that [of k p] demo_running_ok(2,7) by simp
qed

theorem halt_returns_to_parent_witness:
  "\<exists>k fr k'. kernel_ok k \<and> halt demo_frame 7 k = Frame_Return fr (Some 7) k' \<and> cur_stack k' = [0]"
proof -
  obtain p k where c: "kernel_ok k" "cur_stack k = [] @ [0, p]" "closable k" "program_exception_flag k = 0" by (rule demo_child)
  from halt_returns_to_parent [OF c(1-3), of demo_frame 7] obtain k' where
    "halt demo_frame 7 k = Frame_Return (ebp (pcbs k ! p)) (Some (if program_exception_flag k \<noteq> 0 then 256 else ucast (7 :: byte))) k'"
    "cur_stack k' = [] @ [0]" by (elim exE conjE)
  then show ?thesis using c(1,4) by (intro exI conjI) simp_all
qed

end
