(* ===== verification/Kernel_Steps.thy ===== *)
theory Kernel_Steps
  imports Kernel_Exec
begin

text \<open>
  The scheduler under the kernel invariant: what every system call and every timer interrupt may
  lead to, and the round robin.
\<close>

section \<open>The scheduler\<close>

lemma base_ok_cur:
  assumes "base_ok k" and "0 \<le> c" and "c < 3" and "pcbs k' = pcbs k" and "terminals k' = terminals k"
    and "prog_counter k' = prog_counter k" and "cur_term_id k' = c" and "active_term_idx k' = active_term_idx k" and "pg k' = pg k"
  shows "base_ok k'"
proof -
  have "linked k' i = linked k i" for i using assms(4,5) by (simp only: linked_def)
  then show ?thesis using assms by (simp add: base_ok_def kbd_ok_def console_ok_def proc_ok_def)
qed

lemma resume_ok:
  assumes "base_ok k" and "cur_stack k \<noteq> []" and "p = last (cur_stack k)"
  shows "\<exists>k'. resume_process (cur_term_id k) k = (if term_ebp (pcbs k ! p) \<noteq> 0 then Frame_Return (term_ebp (pcbs k ! p)) None k' else Returns 0 k')
    \<and> kernel_ok k' \<and> cur_term_id k' = cur_term_id k \<and> terminals k' = terminals k \<and> pcbs k' = pcbs k"
proof -
  have pr: "proc_ok k" and pg: "paging_inv (pg k)" using assms(1) by (simp_all add: base_ok_def)
  note cu = proc_ok_cur [OF pr]
  have top: "top_pid (tm k (cur_term_id k)) = int p" using cur_pid_last [OF pr assms(2)] assms(3) by (simp add: cur_pid_def)
  have p: "p < 6" using stack_mem_lt [OF pr, of "cur_idx k" p] assms(2,3) cu(1) proc_okD(2) [OF pr] by (simp add: cur_stack_def)
  define q where "q = (if video_mem_flag (pcbs k ! p) \<noteq> 0
    then change_prog_vid_mapping (active_term_idx k) (cur_term_id k) (enable_prog_vid_page (setup_paging (int p) (pg k)))
    else setup_paging (int p) (pg k))"
  have q: "paging_inv q" "window_of q p"
    using pg p cu(3,4) setup_window [of p] by (simp_all add: q_def change_vid_inv vid_page_inv setup_paging_inv)
  define k' where "k' = k\<lparr>pg := q, tss_esp0 := PROG0_KSTACK_BOTTOM - KERNEL_STACK_SIZE * of_nat p, tss_ss0 := KERNEL_DS, file_array := Some p\<rparr>"
  have "base_ok k'" using assms(1) q(1) by - (rule base_ok_cong [of k]; simp add: k'_def)
  then have "kernel_ok k'" using assms(2,3) q(2) by (simp add: kernel_ok_def active_proc_def k'_def cur_stack_def)
  moreover have "resume_process (cur_term_id k) k = (if term_ebp (pcbs k ! p) \<noteq> 0 then Frame_Return (term_ebp (pcbs k ! p)) None k' else Returns 0 k')"
    using p proc_okD(1) [OF pr] unfolding resume_process_def top Let_def
    by (cases "video_mem_flag (pcbs k ! p) = 0") (simp_all add: k'_def q_def restore_ebp_def)
  ultimately show ?thesis by (auto simp: k'_def)
qed

text \<open>The state in which \<open>switch_process\<close> looks at the next terminal.\<close>

definition switching :: "int \<Rightarrow> nat \<Rightarrow> kernel \<Rightarrow> kernel" where
  "switching c p k = (upd_pcb (int p) (\<lambda>b. b\<lparr>term_ebp := cpu_ebp k\<rparr>) (k\<lparr>cur_term_id := c\<rparr>))
     \<lparr>video_mem := (if c = active_term_idx k then VIDEO_MEM else backup_page c)\<rparr>"

lemma switching_ok:
  assumes "base_ok k" and "0 \<le> c" and "c < 3"
  shows "base_ok (switching c p k)" and "cur_stack (switching c p k) = stack (terminals k ! nat c)"
    and "cur_term_id (switching c p k) = c" and "terminals (switching c p k) = terminals k"
proof -
  have "base_ok (k\<lparr>cur_term_id := c\<rparr>)" using assms by - (rule base_ok_cur [of k c]; simp)
  then have "base_ok (upd_pcb (int p) (\<lambda>b. b\<lparr>term_ebp := cpu_ebp k\<rparr>) (k\<lparr>cur_term_id := c\<rparr>))"
    by (rule base_ok_upd_pcb) (simp add: pcb_view_def)
  then show "base_ok (switching c p k)" unfolding switching_def by - (rule base_ok_cong, assumption, simp_all add: base_ok_def)
  show "cur_stack (switching c p k) = stack (terminals k ! nat c)" "cur_term_id (switching c p k) = c"
    "terminals (switching c p k) = terminals k"
    by (simp_all add: switching_def cur_stack_def)
qed

lemma switch_process_eq:
  assumes "kernel_ok k" and "cur_stack k = ps @ [p]" and "0 \<le> c" and "c < 3"
  shows "switch_process f (cur_term_id k) c k =
    (if stack (terminals k ! nat c) = []
     then case execute f (Some (cstring ''shell'')) (switching c p k) of Returns r k \<Rightarrow> Returns 0 k | out \<Rightarrow> out
     else resume_process c (switching c p k))"
proof -
  have pr: "proc_ok k" using assms(1) by (simp add: kernel_ok_def base_ok_def)
  have t: "tm (k\<lparr>cur_term_id := c\<rparr>) i = tm k i" for i by (simp add: tm_def)
  have top: "top_pid (tm (k\<lparr>cur_term_id := c\<rparr>) (cur_term_id k)) = int p"
    using current_proc(2) [OF assms(1,2)] unfolding t by (simp add: cur_pid_def)
  have e: "term_prog_counter (tm (switching c p k) c) = 0 \<longleftrightarrow> stack (terminals k ! nat c) = []"
    using stack_empty [OF proc_okD(4) [OF pr, of "nat c"]] assms(3,4) by (simp add: switching_def tm_def)
  have "switch_process f (cur_term_id k) c k = (if term_prog_counter (tm (switching c p k) c) = 0
     then case execute f (Some (cstring ''shell'')) (switching c p k) of Returns r k \<Rightarrow> Returns 0 k | out \<Rightarrow> out
     else resume_process c (switching c p k))"
    using current_proc(1,4) [OF assms(1,2)] unfolding switch_process_def Let_def top
    by (simp add: switching_def)
  then show ?thesis unfolding e .
qed

lemma switch_ok:
  assumes "kernel_ok k" and "0 \<le> c" and "c < 3" and "stack (terminals k ! nat c) \<noteq> []" and "cur_stack k = ps @ [p]"
  shows "\<exists>k'. switch_process f (cur_term_id k) c k =
      (let e = term_ebp (pcbs (switching c p k) ! last (stack (terminals k ! nat c)))
       in if e \<noteq> 0 then Frame_Return e None k' else Returns 0 k')
    \<and> kernel_ok k' \<and> cur_term_id k' = c \<and> terminals k' = terminals k \<and> pcbs k' = pcbs (switching c p k)"
proof -
  have b: "base_ok k" using assms(1) by (simp add: kernel_ok_def)
  note s = switching_ok [OF b assms(2,3), of p]
  obtain k' where "resume_process c (switching c p k) = (if term_ebp (pcbs (switching c p k) ! last (stack (terminals k ! nat c))) \<noteq> 0
      then Frame_Return (term_ebp (pcbs (switching c p k) ! last (stack (terminals k ! nat c)))) None k' else Returns 0 k')"
    "kernel_ok k'" "cur_term_id k' = c" "terminals k' = terminals k" "pcbs k' = pcbs (switching c p k)"
    using resume_ok [OF s(1) _ refl] assms(4) unfolding s by auto
  then show ?thesis using switch_process_eq [OF assms(1,5,2,3), of f] assms(4) by (auto simp: Let_def)
qed

lemma kernel_ok_running: "kernel_ok k \<Longrightarrow> prog_counter k \<noteq> 0"
proof -
  assume k: "kernel_ok k"
  then have pr: "proc_ok k" and s: "cur_stack k \<noteq> []" by (simp_all add: kernel_ok_def base_ok_def)
  have "set (cur_stack k) \<subseteq> set (procs (terminals k))" unfolding cur_stack_def by (rule stack_in_procs [OF proc_ok_cur(1) [OF pr]])
  then have "procs (terminals k) \<noteq> []" using s by auto
  then show ?thesis using proc_okD(7) [OF pr] by simp
qed

definition next_term :: "kernel \<Rightarrow> int" where
  "next_term k = (cur_term_id k + 1) mod MAX_TERMINAL_NUM"

lemma pit_handler_eq:
  assumes "kernel_ok k"
  obtains k1 where "pit_handler f k = switch_process f (cur_term_id k1) (next_term k) k1" and "kernel_ok k1"
    and "cur_term_id k1 = cur_term_id k" and "terminals k1 = terminals k" and "pcbs k1 = pcbs k" and "cpu_ebp k1 = cpu_ebp k"
    and "prog_counter k1 = prog_counter k"
proof -
  define k1 where "k1 = send_eoi 0 (k\<lparr>prev_term_id := cur_term_id k\<rparr>)"
  define k2 where "k2 = send_eoi 0 (k\<lparr>prev_term_id := cur_term_id k, cur_term_id := next_term k\<rparr>)"
  have io: "send_eoi 0 kk = kk\<lparr>io := (MASTER_8259_PORT, EOI OR 0) # io kk\<rparr>" for kk
    by (simp add: send_eoi_def outb_def)
  have f: "cur_term_id k2 = next_term k" "prev_term_id k2 = cur_term_id k" unfolding k2_def io by simp_all
  have f1: "cur_term_id k1 = cur_term_id k" "terminals k1 = terminals k" "pcbs k1 = pcbs k" "cpu_ebp k1 = cpu_ebp k" "prog_counter k1 = prog_counter k"
    unfolding k1_def io by simp_all
  have eq: "k2 = k1\<lparr>cur_term_id := next_term k\<rparr>" unfolding k1_def k2_def io by simp
  have "pit_handler f k = switch_process f (prev_term_id k2) (cur_term_id k2) k2"
    using kernel_ok_running [OF assms] by (simp add: pit_handler_def Let_def k2_def next_term_def)
  also have "\<dots> = switch_process f (cur_term_id k) (next_term k) k1"
  proof -
    have "switch_process f a c (k1\<lparr>cur_term_id := c\<rparr>) = switch_process f a c k1" for a c
      by (simp add: switch_process_def)
    from this [of "cur_term_id k" "next_term k"] show ?thesis unfolding f by (simp only: eq)
  qed
  finally have run: "pit_handler f k = switch_process f (cur_term_id k1) (next_term k) k1" using f1 by simp
  have "kernel_ok k1"
    using assms unfolding k1_def io
    by (intro kernel_ok_frame [OF assms]) (simp_all add: kernel_ok_def base_ok_def kbd_ok_def console_ok_def)
  then show thesis using that [of k1] run f1 by simp
qed

lemma next_term_range: "0 \<le> next_term k" "next_term k < 3"
  by (simp_all add: next_term_def MAX_TERMINAL_NUM_def)

section \<open>All entries into the kernel\<close>

text \<open>The state in which the machine goes on after an entry, if it does.\<close>

fun state_after :: "outcome \<Rightarrow> kernel option" where
  "state_after (Returns v k) = Some k"
| "state_after (Iret eip cs esp ss k) = Some k"
| "state_after (Frame_Return fr v k) = Some k"
| "state_after (Hang k) = None"
| "state_after Undefined = None"

text \<open>What an entry from the program of the current terminal may lead to.\<close>

definition outcome_ok :: "kernel \<Rightarrow> outcome \<Rightarrow> bool" where
  "outcome_ok k out \<longleftrightarrow> (\<forall>k'. state_after out = Some k' \<longrightarrow> kernel_ok k' \<and> aside k k')"

lemma outcome_ok_simps [simp]:
  "outcome_ok k (Returns v k') \<longleftrightarrow> kernel_ok k' \<and> aside k k'" "outcome_ok k (Iret eip cs esp ss k') \<longleftrightarrow> kernel_ok k' \<and> aside k k'"
  "outcome_ok k (Frame_Return fr r k') \<longleftrightarrow> kernel_ok k' \<and> aside k k'" "outcome_ok k (Hang k')" "outcome_ok k Undefined"
  by (simp_all add: outcome_ok_def)

lemma execute_outcome:
  assumes "kernel_ok k"
  shows "outcome_ok k (execute f c k)"
proof -
  have "base_ok k" using assms by (simp add: kernel_ok_def)
  then show ?thesis using execute_ok [of k f c] kernel_ok_sys [OF assms] aside_core [of _ k] by auto
qed

lemma halt_outcome:
  assumes "kernel_ok k"
  shows "outcome_ok k (halt f s k)"
proof -
  have "cur_stack k \<noteq> []" using assms by (simp add: kernel_ok_def)
  then obtain ps p where st: "cur_stack k = ps @ [p]" using rev_exhaust by blast
  show ?thesis
  proof (cases "ps = []")
    case True
    then show ?thesis using halt_base_shell [OF assms, of p f s] st by auto
  next
    case False
    then obtain qs q where qs: "ps = qs @ [q]" using rev_exhaust by blast
    show ?thesis
    proof (cases "close_all (dying p k)")
      case None
      then show ?thesis using halt_unfold [OF assms st] by simp
    next
      case (Some kc)
      then show ?thesis using halt_to_parent [OF assms, of qs q p kc f s] st qs by auto
    qed
  qed
qed

text \<open>The calls that return to their caller, without an interrupt in between.\<close>

lemma aside_upd_fd: "aside k (upd_fd fd f k)"
  by (rule aside_same) (simp_all add: upd_fd_def Let_def)

lemma aside_vstore: "vstore k a bs = Some k' \<Longrightarrow> aside k k'"
  using vstore_frame [of k a bs k'] by (auto intro: aside_same)

lemma aside_write_chars: "write_chars n a k = Some k' \<Longrightarrow> aside k k'"
proof (induction n arbitrary: a k)
  case (Suc n)
  then obtain c where c: "write_chars n (a + 1) (if c = 0 then k else putc c k) = Some k'" by (auto simp: bind_eq_Some_conv)
  have "aside k (if c = 0 then k else putc c k)" by (auto intro: aside_core)
  then show ?case using aside_trans Suc.IH [OF c] by blast
qed (simp add: aside_refl)

lemma terminal_read_blocks: "kbd_ok k \<Longrightarrow> terminal_read [] fd buf n k = Some (r, k') \<Longrightarrow> k' = k"
  using reading_ok(2) [of k] sys_fields(7) [OF reading_ok(3), of k] by (auto simp: terminal_read_def reading_eq line_def split: if_splits)

lemma read_aside:
  assumes "kernel_ok k" and "sys_read [] fd buf n k = Some (r, k')"
  shows "aside k k'"
proof (cases "op_read (op_ptr (fd_entry k fd)) [] fd buf n k = Some (r, k')")
  case True
  have kb: "kbd_ok k" using assms(1) by (simp add: kernel_ok_def base_ok_def)
  show ?thesis
  proof (cases "op_ptr (fd_entry k fd)")
    case rtc_op_table
    then have "k' = k \<or> k' = k\<lparr>rtc_exe_flag := 0\<rparr>" using True by (auto simp: op_read_def rtc_read_def Let_def split: if_splits)
    then show ?thesis by (auto intro: aside_same)
  next
    case dirt_op_table
    then show ?thesis using True
      by (auto simp: op_read_def directory_read_def Let_def bind_eq_Some_conv intro: aside_refl aside_trans [OF aside_vstore aside_upd_fd] split: if_splits)
  next
    case regular_file_op_table
    then show ?thesis using True
      by (auto simp: op_read_def file_read_def Let_def bind_eq_Some_conv intro: aside_refl aside_vstore aside_trans [OF aside_vstore aside_upd_fd]
          split: if_splits prod.splits)
  next
    case terminal_op_table
    then have "terminal_read [] fd buf n k = Some (r, k') \<or> k' = k" using True by (auto simp: op_read_def split: if_splits)
    then have "k' = k" using terminal_read_blocks [OF kb] by blast
    then show ?thesis by (simp add: aside_refl)
  qed (use True in \<open>simp add: op_read_def\<close>)
next
  case False
  then show ?thesis using assms(2) by (auto simp: sys_read_def aside_refl split: if_splits)
qed

lemma write_aside:
  assumes "sys_write fd buf n k = Some (r, k')"
  shows "aside k k'"
proof (cases "op_write (op_ptr (fd_entry k fd)) fd buf n k = Some (r, k')")
  case True
  then show ?thesis
    by (cases "op_ptr (fd_entry k fd)")
      (auto simp: op_write_def rtc_write_def terminal_write_def file_write_def directory_write_def Let_def bind_eq_Some_conv
        intro: aside_refl aside_upd_fd aside_write_chars split: if_splits)
next
  case False
  then show ?thesis using assms by (auto simp: sys_write_def aside_refl split: if_splits)
qed

lemma open_close_aside:
  "kernel_ok k \<Longrightarrow> sys_open dl name k = Some (r, k') \<Longrightarrow> aside k k'" "kernel_ok k \<Longrightarrow> sys_close fd k = Some (r, k') \<Longrightarrow> aside k k'"
  using sys_open_frame [OF files_ok_kernel] sys_close_frame [OF files_ok_kernel] aside_refl aside_upd_fd by blast+

lemma getargs_aside: "getargs buf n k = Some (r, k') \<Longrightarrow> aside k k'"
  by (auto simp: getargs_def Let_def bind_eq_Some_conv intro: aside_refl aside_vstore split: if_splits)

lemma vidmap_aside: "vidmap a k = Some (r, k') \<Longrightarrow> aside k k'"
proof (cases "a < MB_128 \<or> a \<ge> MB_132")
  case False
  assume "vidmap a k = Some (r, k')"
  then obtain k1 where k1: "vstore (k\<lparr>pg := enable_prog_vid_page (pg k)\<rparr>) a (bytes_of_u32 MB_132) = Some k1"
    "k' = upd_pcb (cur_pid k1) (\<lambda>b. b\<lparr>video_mem_flag := 1\<rparr>) k1"
    using False by (auto simp: vidmap_def Let_def bind_eq_Some_conv simp del: vstore.simps split: if_splits)
  obtain m where "k1 = k\<lparr>pg := enable_prog_vid_page (pg k), mem := m\<rparr>" using vstore_frame [OF k1(1)] by blast
  then show ?thesis using k1(2) by (auto intro: aside_same)
qed (simp add: vidmap_def aside_refl)

lemma returned_outcome: "(\<And>v k'. r = Some (v, k') \<Longrightarrow> kernel_ok k' \<and> aside k k') \<Longrightarrow> outcome_ok k (returned r)"
  by (cases r) (auto simp: returned_def)

lemma with_str_outcome: "(\<And>s. outcome_ok k (g s k)) \<Longrightarrow> outcome_ok k (with_str stop a g k)"
  by (cases "fetch_str stop k a []") (auto simp: with_str_def)

lemma dispatch_outcome:
  assumes "kernel_ok k"
  shows "outcome_ok k (dispatch_syscall f [] eax ebx ecx edx k)"
proof -
  have ret: "outcome_ok k (Returns v k)" for v using assms aside_refl by simp
  have sh: "outcome_ok k (returned (set_handler n a k))" "outcome_ok k (returned (sigreturn k))" for n a
    using ret by (simp_all add: set_handler_def sigreturn_def returned_def)
  have "outcome_ok k (returned (sys_open dl s k))" for dl s using sys_open_ok [OF assms] open_close_aside(1) [OF assms] by (intro returned_outcome) blast
  then have op: "outcome_ok k (with_str stop a (\<lambda>s k. returned (sys_open dl s k)) k)" for stop a dl by (intro with_str_outcome)
  have rd: "outcome_ok k (returned (sys_read [] fd buf n k))" for fd buf n
    using sys_read_ok [OF assms] read_aside [OF assms] by (intro returned_outcome) blast
  have wr: "outcome_ok k (returned (sys_write fd buf n k))" for fd buf n
    using sys_write_ok [OF assms] write_aside by (intro returned_outcome) blast
  have cl: "outcome_ok k (returned (sys_close fd k))" for fd
    using sys_close_ok [OF assms] open_close_aside(2) [OF assms] by (intro returned_outcome) blast
  have ga: "outcome_ok k (returned (getargs buf n k))" for buf n
    using getargs_ok [OF assms] getargs_aside by (intro returned_outcome) blast
  have vm: "outcome_ok k (returned (vidmap a k))" for a
    using vidmap_ok [OF assms] vidmap_aside by (intro returned_outcome) blast
  show ?thesis
    unfolding dispatch_syscall_def
    using ret sh op rd wr cl ga vm halt_outcome [OF assms] with_str_outcome [of k "execute f", OF execute_outcome [OF assms]] by simp
qed

section \<open>All outcomes of a timer interrupt\<close>

lemma kernel_ok_ebp: "kernel_ok k \<Longrightarrow> kernel_ok (k\<lparr>cpu_ebp := e\<rparr>)"
  by (rule kernel_ok_frame [of k]) (simp_all add: kernel_ok_def base_ok_def kbd_ok_def console_ok_def)

text \<open>The next terminal has a program: it runs, in its saved frame if it has one.\<close>

lemma pit_resumes:
  assumes "kernel_ok k" and "stack (terminals k ! nat (next_term k)) \<noteq> []"
  shows "\<exists>k'. ((\<exists>e. pit_handler f k = Frame_Return e None k') \<or> pit_handler f k = Returns 0 k') \<and> kernel_ok k'
    \<and> cur_term_id k' = next_term k \<and> terminals k' = terminals k"
proof -
  obtain k1 where k1: "pit_handler f k = switch_process f (cur_term_id k1) (next_term k) k1" "kernel_ok k1" "terminals k1 = terminals k"
    using pit_handler_eq [OF assms(1), of f] by metis
  obtain ps p where st: "cur_stack k1 = ps @ [p]" using k1(2) rev_exhaust [of "cur_stack k1"] by (auto simp: kernel_ok_def)
  show ?thesis using switch_ok [OF k1(2) next_term_range _ st, of k f] k1(1,3) assms(2) by (auto simp: Let_def)
qed

text \<open>The next terminal is empty: a shell is started there, or \<open>execute\<close> refuses and the handler returns
  to the interrupted program with the empty terminal as the current one.\<close>

lemma pit_launches:
  assumes "kernel_ok k" and "stack (terminals k ! nat (next_term k)) = []"
  shows "pit_handler f k = Undefined
    \<or> (\<exists>k'. pit_handler f k = Returns 0 k' \<and> cur_stack k' = [])
    \<or> (\<exists>eip p k'. pit_handler f k = Iret eip USER_CS 0x083FFFFC USER_DS k' \<and> kernel_ok k' \<and> cur_stack k' = [p] \<and> cur_term_id k' = next_term k
        \<and> length (terminals k') = 3 \<and> (\<forall>i<3. i \<noteq> nat (next_term k) \<longrightarrow> term_core (terminals k' ! i) = term_core (terminals k ! i)))"
proof -
  note r = next_term_range [of k]
  obtain k1 where k1: "pit_handler f k = switch_process f (cur_term_id k1) (next_term k) k1" "kernel_ok k1" "terminals k1 = terminals k"
    using pit_handler_eq [OF assms(1), of f] by metis
  have b1: "base_ok k1" and len: "length (terminals k) = 3" using k1(2,3) by (simp_all add: kernel_ok_def base_ok_def proc_ok_def)
  obtain ps p where st: "cur_stack k1 = ps @ [p]" using k1(2) rev_exhaust [of "cur_stack k1"] by (auto simp: kernel_ok_def)
  define K where "K = switching (next_term k) p k1"
  note sw = switching_ok [OF b1 r, of p, folded K_def]
  have K: "base_ok K" "cur_stack K = []" "cur_term_id K = next_term k" "terminals K = terminals k" using sw k1(3) assms(2) by simp_all
  have eq: "pit_handler f k = (case execute f (Some (cstring ''shell'')) K of Returns r k \<Rightarrow> Returns 0 k | out \<Rightarrow> out)"
    using switch_process_eq [OF k1(2) st r, of f] k1(1,3) assms(2) by (simp add: K_def)
  have "cur_stack k' = []" if "kbd_ok k'" "sys k' = sys K" for k' using base_ok_sys(2) [OF K(1) that] K(2) by simp
  moreover have "length (terminals k') = 3 \<and> (\<forall>i<3. i \<noteq> nat (next_term k) \<longrightarrow> term_core (terminals k' ! i) = term_core (terminals k ! i))"
    if "aside K k'" for k' using that K(3,4) len by (simp add: aside_def)
  ultimately show ?thesis using execute_ok [OF K(1), of f "Some (cstring ''shell'')"] K(2,3) eq by auto
qed

text \<open>With six programs running, the launch is refused, and the invariant is lost: no program is current.\<close>

lemma refused_launch_breaks:
  assumes "kernel_ok k" and "stack (terminals k ! nat (next_term k)) = []" and "prog_counter k = 6"
  shows "\<exists>k'. pit_handler f k = Returns 0 k' \<and> cur_stack k' = [] \<and> \<not> kernel_ok k'"
proof -
  obtain k1 where k1: "pit_handler f k = switch_process f (cur_term_id k1) (next_term k) k1" "kernel_ok k1" "terminals k1 = terminals k"
    and io: "prog_counter k1 = prog_counter k" using pit_handler_eq [OF assms(1), of f] by metis
  obtain ps p where st: "cur_stack k1 = ps @ [p]" using k1(2) rev_exhaust [of "cur_stack k1"] by (auto simp: kernel_ok_def)
  let ?K = "switching (next_term k) p k1"
  have b1: "base_ok k1" using k1(2) by (simp add: kernel_ok_def)
  note sw = switching_ok [OF b1 next_term_range, of k p]
  have "term_prog_counter (tm ?K (cur_term_id ?K)) = 0"
    using stack_empty [OF proc_ok_cur(2), of ?K] sw(1-3) k1(3) assms(2) by (simp add: base_ok_def cur_stack_def tm_def)
  moreover have "prog_counter ?K = 6" using io assms(3) by (simp add: switching_def)
  ultimately obtain k' where "execute f (Some (cstring ''shell'')) ?K = Returns 1 k'" using execute_limit(2) [of ?K f] by simp
  then have "pit_handler f k = Returns 0 k'"
    using switch_process_eq [OF k1(2) st next_term_range [of k], of f] k1(1,3) assms(2) by simp
  then show ?thesis using pit_launches [OF assms(1,2), of f] by (auto simp: kernel_ok_def)
qed

section \<open>One timer interrupt\<close>

lemma stacks_apart:
  assumes "proc_ok k" and "i < 3" and "j < 3" and "i \<noteq> j" and "p \<in> set (stack (terminals k ! i))"
  shows "p \<notin> set (stack (terminals k ! j))"
  using stacks_disjoint [of "terminals k" i j p] assms proc_okD(2,5) [OF assms(1)] by simp

text \<open>A terminal with a waiting process: control passes to the frame that process was left in.\<close>

lemma tick:
  assumes "kernel_ok k" and "cur_stack k = ps @ [p]" and "stack (terminals k ! nat (next_term k)) = qs @ [q]"
    and "term_ebp (pcbs k ! q) \<noteq> 0"
  shows "\<exists>k'. pit_handler f k = Frame_Return (term_ebp (pcbs k ! q)) None k' \<and> kernel_ok k' \<and> cur_term_id k' = next_term k
    \<and> terminals k' = terminals k \<and> pcbs k' = (pcbs k)[p := (pcbs k ! p)\<lparr>term_ebp := cpu_ebp k\<rparr>]"
proof -
  obtain k1 where k1: "pit_handler f k = switch_process f (cur_term_id k1) (next_term k) k1" "kernel_ok k1"
    "cur_term_id k1 = cur_term_id k" "terminals k1 = terminals k" "pcbs k1 = pcbs k" "cpu_ebp k1 = cpu_ebp k"
    by (rule pit_handler_eq [OF assms(1)])
  have pr: "proc_ok k" using assms(1) by (simp add: kernel_ok_def base_ok_def)
  note r = next_term_range [of k] and c = proc_ok_cur [OF pr]
  have st1: "cur_stack k1 = ps @ [p]" using assms(2) k1(3,4) by (simp add: cur_stack_def)
  have ne: "stack (terminals k1 ! nat (next_term k)) \<noteq> []" using assms(3) k1(4) by simp
  have sw: "pcbs (switching (next_term k) p k1) = (pcbs k)[p := (pcbs k ! p)\<lparr>term_ebp := cpu_ebp k\<rparr>]"
    using k1(5,6) by (simp add: switching_def upd_pcb_def)
  have "cur_term_id k = 0 \<or> cur_term_id k = 1 \<or> cur_term_id k = 2" using c(3,4) by arith
  then have "next_term k \<noteq> cur_term_id k" by (auto simp: next_term_def MAX_TERMINAL_NUM_def)
  then have "nat (next_term k) \<noteq> cur_idx k" using r c(3) by auto
  moreover have "cur_idx k < 3" "nat (next_term k) < 3" using r c(3,4) by linarith+
  ultimately have "q \<noteq> p"
    using stacks_apart [OF pr, of "cur_idx k" "nat (next_term k)" p] assms(2,3) by (auto simp: cur_stack_def)
  then have e: "term_ebp ((pcbs k)[p := (pcbs k ! p)\<lparr>term_ebp := cpu_ebp k\<rparr>] ! last (stack (terminals k ! nat (next_term k)))) = term_ebp (pcbs k ! q)"
    using assms(3) by simp
  from switch_ok [OF k1(2) r ne st1, of f] show ?thesis
    unfolding k1(1) [symmetric] Let_def k1(4) sw e using assms(4) by simp
qed

section \<open>Properties\<close>

text \<open>C7: the scheduler is a round robin over the three terminals: when each has a program whose frame
  was saved, a timer interrupt continues the top program of the next terminal in its saved frame, and
  the third interrupt is back at the first program, in exactly the frame in which the first interrupt
  found it, whatever frames the other two are in when they are interrupted.\<close>

theorem timer_round_robin:
  assumes "kernel_ok k" and "cur_term_id k = 0" and "stack (terminals k ! 0) = ps @ [p]" and "stack (terminals k ! 1) = qs @ [q]"
    and "stack (terminals k ! 2) = rs @ [r]" and "term_ebp (pcbs k ! q) \<noteq> 0" and "term_ebp (pcbs k ! r) \<noteq> 0" and "cpu_ebp k \<noteq> 0"
  shows "\<exists>k1. pit_handler f k = Frame_Return (term_ebp (pcbs k ! q)) None k1 \<and> kernel_ok k1 \<and> cur_stack k1 = qs @ [q]
    \<and> (\<forall>e1. \<exists>k2. pit_handler f (k1\<lparr>cpu_ebp := e1\<rparr>) = Frame_Return (term_ebp (pcbs k ! r)) None k2 \<and> kernel_ok k2 \<and> cur_stack k2 = rs @ [r]
    \<and> (\<forall>e2. \<exists>k3. pit_handler f (k2\<lparr>cpu_ebp := e2\<rparr>) = Frame_Return (cpu_ebp k) None k3 \<and> kernel_ok k3 \<and> cur_stack k3 = ps @ [p]
        \<and> terminals k3 = terminals k \<and> cur_term_id k3 = 0))"
proof -
  have pr: "proc_ok k" using assms(1) by (simp add: kernel_ok_def base_ok_def)
  have d: "p \<noteq> q" "p \<noteq> r" "q \<noteq> r"
    using stacks_apart [OF pr, of 0 1 p] stacks_apart [OF pr, of 0 2 p] stacks_apart [OF pr, of 1 2 q] assms(3-5) by auto
  have p6: "p < 6" "length (pcbs k) = 6" using current_proc [OF assms(1), of ps p] assms(2,3) by (simp_all add: cur_stack_def)
  obtain k1 where k1: "pit_handler f k = Frame_Return (term_ebp (pcbs k ! q)) None k1" "kernel_ok k1" "cur_term_id k1 = 1"
    "terminals k1 = terminals k" "pcbs k1 = (pcbs k)[p := (pcbs k ! p)\<lparr>term_ebp := cpu_ebp k\<rparr>]"
    using tick [OF assms(1), of ps p qs q f] assms(2-6) by (auto simp: cur_stack_def next_term_def MAX_TERMINAL_NUM_def)
  have "\<exists>k2. pit_handler f (k1\<lparr>cpu_ebp := e1\<rparr>) = Frame_Return (term_ebp (pcbs k ! r)) None k2 \<and> kernel_ok k2 \<and> cur_stack k2 = rs @ [r]
    \<and> (\<forall>e2. \<exists>k3. pit_handler f (k2\<lparr>cpu_ebp := e2\<rparr>) = Frame_Return (cpu_ebp k) None k3 \<and> kernel_ok k3 \<and> cur_stack k3 = ps @ [p]
        \<and> terminals k3 = terminals k \<and> cur_term_id k3 = 0)" for e1
  proof -
    obtain k2 where k2: "pit_handler f (k1\<lparr>cpu_ebp := e1\<rparr>) = Frame_Return (term_ebp (pcbs k ! r)) None k2" "kernel_ok k2" "cur_term_id k2 = 2"
      "terminals k2 = terminals k" "pcbs k2 = (pcbs k1)[q := (pcbs k1 ! q)\<lparr>term_ebp := e1\<rparr>]"
      using tick [OF kernel_ok_ebp [OF k1(2)], of e1 qs q rs r f] k1(3-5) assms(4,5,7) d
      by (auto simp: cur_stack_def next_term_def MAX_TERMINAL_NUM_def)
    have pb: "term_ebp (pcbs k2 ! p) = cpu_ebp k" using k2(5) k1(5) d p6 by simp
    have "\<exists>k3. pit_handler f (k2\<lparr>cpu_ebp := e2\<rparr>) = Frame_Return (cpu_ebp k) None k3 \<and> kernel_ok k3 \<and> cur_stack k3 = ps @ [p]
        \<and> terminals k3 = terminals k \<and> cur_term_id k3 = 0" for e2
    proof -
      from tick [OF kernel_ok_ebp [OF k2(2)], of e2 rs r ps p f] obtain k3 where
        "pit_handler f (k2\<lparr>cpu_ebp := e2\<rparr>) = Frame_Return (cpu_ebp k) None k3" "kernel_ok k3" "cur_term_id k3 = 0" "terminals k3 = terminals k"
        using pb k2(3,4) assms(3,5,8) by (auto simp: cur_stack_def next_term_def MAX_TERMINAL_NUM_def)
      then show ?thesis using assms(3) by (intro exI [of _ k3]) (simp add: cur_stack_def)
    qed
    then show ?thesis using k2 assms(5) by (intro exI [of _ k2]) (simp add: cur_stack_def)
  qed
  then show ?thesis using k1 assms(4) by (intro exI [of _ k1]) (simp add: cur_stack_def)
qed

text \<open>Three terminals with one program each.\<close>

definition demo_three :: kernel where
  "demo_three = demo_paged\<lparr>
     terminals := [zero_terminal\<lparr>prog_pids := [0, 0, 0, 0], term_prog_counter := 1\<rparr>,
       zero_terminal\<lparr>prog_pids := [1, 0, 0, 0], term_prog_counter := 1\<rparr>, zero_terminal\<lparr>prog_pids := [2, 0, 0, 0], term_prog_counter := 1\<rparr>],
     pcbs := [zero_pcb\<lparr>pid := 0, term_idx := 0, status := 1\<rparr>, zero_pcb\<lparr>pid := 1, term_idx := 1, status := 1, term_ebp := 0x7FDF00\<rparr>,
       zero_pcb\<lparr>pid := 2, term_idx := 2, status := 1, term_ebp := 0x7FBF00\<rparr>, zero_pcb, zero_pcb, zero_pcb],
     prog_counter := 3, file_array := Some 0, pg := setup_paging 0 (pg demo_paged),
     tss_esp0 := 0x800000, tss_ss0 := KERNEL_DS, cpu_ebp := 0x7FFF00\<rparr>"

lemma demo_three_stacks:
  "stack (terminals demo_three ! 0) = [0]" "stack (terminals demo_three ! 1) = [1]" "stack (terminals demo_three ! 2) = [2]"
  by (simp_all add: demo_three_def stack_def)

lemma demo_three_ok: "kernel_ok demo_three"
proof -
  have i3: "i < 3 \<longleftrightarrow> i = 0 \<or> i = 1 \<or> i = (2 :: nat)" for i by auto
  have "linked demo_three 0" "linked demo_three 1" "linked demo_three 2"
    unfolding linked_def demo_three_stacks by (simp_all add: demo_three_def zero_pcb_def)
  then have "\<forall>i<3. linked demo_three i" using i3 by auto
  moreover have pr: "procs (terminals demo_three) = [0, 1, 2]" by (simp add: demo_three_def procs_def stack_def)
  moreover have "{p. p < 6 \<and> status (pcbs demo_three ! p) \<noteq> 0} = {0, 1, 2}"
  proof -
    have "status (pcbs demo_three ! p) \<noteq> 0 \<longleftrightarrow> p \<in> {0, 1, 2}" if "p < 6" for p
    proof -
      have "p = 0 \<or> p = 1 \<or> p = 2 \<or> p = 3 \<or> p = 4 \<or> p = 5" using that by arith
      then show ?thesis by (elim disjE) (simp_all add: demo_three_def zero_pcb_def)
    qed
    then have "p < 6 \<and> status (pcbs demo_three ! p) \<noteq> 0 \<longleftrightarrow> p < 6 \<and> p \<in> {0, 1, 2}" for p by (rule conj_cong [OF refl])
    then have "{p. p < 6 \<and> status (pcbs demo_three ! p) \<noteq> 0} = {p. p < 6 \<and> p \<in> {0, 1, 2}}" by (simp only:)
    also have "\<dots> = {0, 1, 2}" by auto
    finally show ?thesis .
  qed
  moreover have "length (pcbs demo_three) = 6" "length (terminals demo_three) = 3" "cur_term_id demo_three = 0" "prog_counter demo_three = 3"
    "\<forall>b \<in> set (pcbs demo_three). length (pcb_file_array b) = 8" "\<forall>t \<in> set (terminals demo_three). term_proc_ok t"
    by (simp_all add: demo_three_def demo_paged_fields zero_pcb_def zero_terminal_def term_proc_ok_def)
  ultimately have "proc_ok demo_three" unfolding proc_ok_def pr by simp
  moreover have "kbd_ok demo_three"
    using demo_kbd_ok by (simp add: kbd_ok_def console_ok_def demo_three_def demo_paged_def demo_kernel_def start_kernel_def zero_terminal_def
        kbd_term_ok_def cursor_ok_def)
  moreover have "paging_inv (pg demo_three)" using demo_paged_inv by (simp add: demo_three_def setup_paging_inv)
  moreover have "cur_stack demo_three = [0]" using demo_three_stacks(1) by (simp add: cur_stack_def demo_three_def demo_paged_fields)
  moreover have "active_proc demo_three 0"
    using setup_window [of 0] by (simp add: active_proc_def demo_three_def PROG0_KSTACK_BOTTOM_def)
  ultimately show ?thesis by (simp add: kernel_ok_def base_ok_def)
qed

theorem timer_round_robin_witness:
  "\<exists>k1. pit_handler demo_frame demo_three = Frame_Return 0x7FDF00 None k1
    \<and> (\<exists>k2. pit_handler demo_frame k1 = Frame_Return 0x7FBF00 None k2 \<and> (\<exists>k3. pit_handler demo_frame k2 = Frame_Return 0x7FFF00 None k3))"
proof -
  have f: "cur_term_id demo_three = 0" "term_ebp (pcbs demo_three ! 1) = 0x7FDF00" "term_ebp (pcbs demo_three ! 2) = 0x7FBF00" "cpu_ebp demo_three = 0x7FFF00"
    by (simp_all add: demo_three_def demo_paged_fields)
  have same: "kk\<lparr>cpu_ebp := cpu_ebp kk\<rparr> = kk" for kk :: kernel by simp
  from timer_round_robin [OF demo_three_ok f(1), of "[]" 0 "[]" 1 "[]" 2 demo_frame] demo_three_stacks f(2-4) obtain k1 where
    k1: "pit_handler demo_frame demo_three = Frame_Return 0x7FDF00 None k1"
    "\<forall>e1. \<exists>k2. pit_handler demo_frame (k1\<lparr>cpu_ebp := e1\<rparr>) = Frame_Return 0x7FBF00 None k2
      \<and> (\<forall>e2. \<exists>k3. pit_handler demo_frame (k2\<lparr>cpu_ebp := e2\<rparr>) = Frame_Return 0x7FFF00 None k3)" by fastforce
  from k1(2) [rule_format, of "cpu_ebp k1"] obtain k2 where k2: "pit_handler demo_frame k1 = Frame_Return 0x7FBF00 None k2"
    "\<forall>e2. \<exists>k3. pit_handler demo_frame (k2\<lparr>cpu_ebp := e2\<rparr>) = Frame_Return 0x7FFF00 None k3" unfolding same by (elim exE conjE)
  from k2(2) [rule_format, of "cpu_ebp k2"] show ?thesis unfolding same using k1(1) k2(1) by (elim exE) (intro exI conjI)
qed

end
