(* ===== verification/Kernel_Boot.thy ===== *)
theory Kernel_Boot
  imports Boot Kernel_Steps
begin

text \<open>
  From the first instruction of the C code to the kernel invariant: the multiboot report only
  writes the screen, the initialisation sequence builds a consistent kernel without processes, and
  the first shell starts under the invariant.  Then exceptions: they end the faulting program.
\<close>

section \<open>Printing\<close>

text \<open>What printing may change: the screen and its backup pages, ports and cursors, the latter
  within the page.\<close>

definition screen :: "addr set" where
  "screen = {a. 0xB8000 \<le> unat a \<and> unat a < 0xBC000}"

definition quiet :: "kernel \<Rightarrow> kernel \<Rightarrow> bool" where
  "quiet k k' \<longleftrightarrow> core k' = core k \<and> (console_ok k \<longrightarrow> console_ok k' \<and> (\<forall>a. a \<notin> screen \<longrightarrow> mem k' a = mem k a))"

lemma page_screen:
  "page VIDEO_MEM \<subseteq> screen" "0 \<le> i \<Longrightarrow> i < 3 \<Longrightarrow> page (backup_page i) \<subseteq> screen"
proof -
  show "page VIDEO_MEM \<subseteq> screen" by (auto simp: page_def screen_def VIDEO_MEM_def)
  assume "0 \<le> i" "i < 3"
  then have "i = 0 \<or> i = 1 \<or> i = 2" by arith
  then show "page (backup_page i) \<subseteq> screen" by (auto simp: page_def screen_def VIDEO_MEM_def backup_page_def)
qed

lemma local_screen: "console_ok k \<Longrightarrow> page (video_mem_local k) \<subseteq> screen"
  using page_screen(1) page_screen(2) [of "cur_term_id k"] by (simp add: video_mem_local_def console_ok_def)

lemma quiet_refl [simp]: "quiet k k"
  by (simp add: quiet_def)

lemma quiet_trans: "quiet k k' \<Longrightarrow> quiet k' k'' \<Longrightarrow> quiet k k''"
  by (simp add: quiet_def)

text \<open>A loop that fills the cells of a page.\<close>

lemma fill_out:
  fixes m :: mem
  assumes "low_page base" and "a \<notin> page base"
  shows "for_loop 0 2000 (\<lambda>i m. m(cell base (int i) := f i, cell base (int i) + 1 := g i)) m a = m a"
proof (rule for_loop_invariant [where P = "\<lambda>n. n a = m a"])
  fix i :: nat and n :: mem
  assume i: "i < 2000" and n: "n a = m a"
  have "cell base (int i) \<in> page base" "cell base (int i) + 1 \<in> page base"
    using cell_in_page [OF assms(1), of "int i"] i by simp_all
  then show "(n(cell base (int i) := f i, cell base (int i) + 1 := g i)) a = m a" using assms(2) n by auto
qed simp

lemma clear_mem: "mem (clear k) = clear_cells VIDEO_MEM (mem k)"
  by (simp add: clear_def Let_def update_cursor_def upd_tm_def outb_def)

lemma quiet_clear [simp]: "quiet k (clear k)"
proof -
  have "mem (clear k) a = mem k a" if "a \<notin> screen" for a
    unfolding clear_mem clear_cells_def by (rule fill_out) (use that page_screen(1) in auto)
  then show ?thesis by (simp add: quiet_def console_ok_clear)
qed

lemma print_quiet:
  assumes "print fmt args k = Some k'"
  shows "quiet k k'"
proof -
  have "pc.confined k k'" using assms unfolding print_def printf_def by (auto dest: pc.printf_confined)
  then show ?thesis using local_screen [of k] by (auto simp: quiet_def pc.confined_def)
qed

lemma print_items:
  assumes "list_all item_ok its" and "chars s = concat (map item_fmt its)" and "args = concat (map item_args its)"
  shows "print s args k = Some (fold putc (concat (map item_out its)) k)"
proof -
  have "found (cstring s) 0 (concat (map item_fmt its) @ [0])" by (simp add: found_def cstring_def of_bytes_def flip: assms(2))
  moreover have "found (\<lambda>i. args ! i) 0 (concat (map item_args its))" by (simp add: found_def assms(3))
  ultimately show ?thesis using pc.printf_items [OF assms(1), of "cstring s" 0 "\<lambda>i. args ! i" 0 k] by (simp add: print_def printf_def)
qed

lemma first_bytes_quiet:
  assumes "first_bytes a k = Some k'"
  shows "quiet k k'"
proof -
  let ?f = "\<lambda>i r. Option.bind r (\<lambda>k. print ''0x%x '' [scast (mem k (a + of_nat i))] k)"
  have n: "fold ?f is None = None" for "is" by (induction "is") simp_all
  have "fold ?f is (Some k) = Some k' \<Longrightarrow> quiet k k'" for "is" k k'
  proof (induction "is" arbitrary: k)
    case (Cons i js)
    then obtain k1 where k1: "print ''0x%x '' [scast (mem k (a + of_nat i))] k = Some k1" "fold ?f js (Some k1) = Some k'"
      using n [of js] by (cases "print ''0x%x '' [scast (mem k (a + of_nat i))] k") auto
    show ?case using quiet_trans [OF print_quiet [OF k1(1)] Cons.IH [OF k1(2)]] .
  qed simp
  then show ?thesis using assms by (simp add: first_bytes_def)
qed

lemma print_modules_quiet:
  assumes "print_modules mbi n md k = Some k'"
  shows "quiet k k'"
  by (rule print_modules.raw_induct [where P = "\<lambda>mbi n md k k'. quiet k k'", OF _ assms])
    (auto simp: bind_eq_Some_conv quiet_def split: if_splits dest!: print_quiet first_bytes_quiet)

lemma print_mmap_quiet:
  assumes "print_mmap mbi a k = Some k'"
  shows "quiet k k'"
  by (rule print_mmap.raw_induct [where P = "\<lambda>mbi a k k'. quiet k k'", OF _ assms])
    (auto simp: bind_eq_Some_conv quiet_def split: if_splits dest!: print_quiet)

lemma print_if_quiet: "(if b then print fmt args k else Some k) = Some k' \<Longrightarrow> quiet k k'"
  by (auto split: if_splits dest: print_quiet)

lemma report_modules_quiet:
  assumes "report_modules mbi k = Some (a, k')"
  shows "quiet k k'"
proof -
  obtain k1 k2 k3 k4 where k: "quiet k k1" "quiet k1 k2" "quiet k2 k3" "quiet k3 k4"
    and l: "(if CHECK_FLAG (field k4 mbi 0) 3
          then map_option (Pair (field k4 (field k4 mbi 24) 0)) (print_modules mbi 0 (field k4 mbi 24) k4)
          else Some (0, k4)) = Some (a, k')"
    using assms unfolding report_modules_def by (auto simp only: bind_eq_Some_conv dest!: print_quiet print_if_quiet)
  have "quiet k4 k'" using l by (auto split: if_splits dest: print_modules_quiet)
  then show ?thesis using k by (simp add: quiet_def)
qed

lemma report_sections_quiet:
  assumes "report_sections mbi k = Some k'"
  shows "quiet k k'"
proof -
  obtain k1 where k: "quiet k k1"
    and l: "(if CHECK_FLAG (field k1 mbi 0) 6
          then Option.bind (print ''mmap_addr = 0x%#x, mmap_length = 0x%x\<newline>'' [field k1 mbi 48, field k1 mbi 44] k1)
            (\<lambda>k. print_mmap mbi (field k mbi 48) k)
          else Some k1) = Some k'"
    using assms unfolding report_sections_def by (auto simp only: bind_eq_Some_conv dest!: print_if_quiet)
  have "quiet k1 k'"
    using l by (auto simp: bind_eq_Some_conv split: if_splits dest!: print_quiet print_mmap_quiet intro: quiet_trans)
  then show ?thesis using k by (rule quiet_trans [rotated])
qed

section \<open>Initialisation\<close>

text \<open>
  The globals when \<open>entry\<close> runs: as the C program starts, but for memory, ports and cursors, and
  with arbitrary contents of the process control blocks, which lie outside the initialised data.
\<close>

definition boot_globals :: "kernel \<Rightarrow> bool" where
  "boot_globals k \<longleftrightarrow> console_ok k \<and> tables_placed (pg k) \<and> length (pcbs k) = 6
     \<and> (\<forall>b \<in> set (pcbs k). length (pcb_file_array b) = 8) \<and> map term_core (terminals k) = replicate 3 zero_terminal
     \<and> master_mask k = 0xFF \<and> slave_mask k = 0xFF"

lemma boot_globals_quiet:
  assumes "boot_globals k" and "quiet k k'"
  shows "boot_globals k'"
proof -
  have c: "core k' = core k" "console_ok k'" using assms by (simp_all add: boot_globals_def quiet_def)
  note f = core_fields [OF c(1)]
  have "master_mask k' = master_mask k" "slave_mask k' = slave_mask k"
    using arg_cong [OF c(1), of master_mask] arg_cong [OF c(1), of slave_mask] by (simp_all add: core_def)
  then show ?thesis using assms(1) c(2) unfolding boot_globals_def f(1,6,11) by simp
qed

text \<open>Everything the later proofs need of a state; the hardware set-up does not touch it.\<close>

definition soft :: "kernel \<Rightarrow> pcb list \<times> terminal list \<times> int \<times> int \<times> paging \<times> mem \<times> int" where
  "soft k = (pcbs k, terminals k, active_term_idx k, prog_counter k, pg k, mem k, program_exception_flag k)"

lemma soft_simps [simp]:
  "soft (outb d p k) = soft k" "soft (enable_irq n k) = soft k" "soft (i8259_init k) = soft k"
  "soft (rtc_init b a k) = soft k" "soft (enable_cursor b a k) = soft k" "soft (pit_init k) = soft k"
  "soft (k\<lparr>cur_term_id := c\<rparr>) = soft k" "soft (init_file_system fsa k) = soft k"
  by (simp_all add: soft_def outb_def enable_irq_def i8259_init_def rtc_init_def set_rtc_freq_def enable_cursor_def pit_init_def
      init_file_system_def Let_def)

lemma init_prog_soft:
  assumes "length (pcbs k) = 6" and "\<forall>b \<in> set (pcbs k). length (pcb_file_array b) = 8"
  shows "length (pcbs (init_prog k)) = 6 \<and> (\<forall>b \<in> set (pcbs (init_prog k)). status b = 0 \<and> length (pcb_file_array b) = 8)
    \<and> terminals (init_prog k) = terminals k \<and> active_term_idx (init_prog k) = active_term_idx k \<and> pg (init_prog k) = pg k
    \<and> prog_counter (init_prog k) = 0 \<and> program_exception_flag (init_prog k) = 0 \<and> filesys (init_prog k) = filesys k \<and> mem (init_prog k) = mem k
    \<and> master_mask (init_prog k) = master_mask k \<and> slave_mask (init_prog k) = slave_mask k"
proof -
  define P where "P n kk \<longleftrightarrow> length (pcbs kk) = 6 \<and> (\<forall>i<n. status (pcbs kk ! i) = 0) \<and> (\<forall>i<6. length (pcb_file_array (pcbs kk ! i)) = 8)
    \<and> terminals kk = terminals k \<and> active_term_idx kk = active_term_idx k \<and> pg kk = pg k
    \<and> prog_counter kk = 0 \<and> program_exception_flag kk = 0 \<and> filesys kk = filesys k \<and> mem kk = mem k
    \<and> master_mask kk = master_mask k \<and> slave_mask kk = slave_mask k" for n and kk :: kernel
  have "P 6 (init_prog k)"
    unfolding init_prog_def Let_def
  proof (rule for_loop_rule)
    show "P 0 (k\<lparr>prog_counter := 0, program_exception_flag := 0\<rparr>)" using assms by (simp add: P_def)
  next
    fix i :: nat and kk
    assume "0 \<le> i" "i < 6" "P i kk"
    then show "P (Suc i) (upd_pcb (int i) (\<lambda>b. b\<lparr>status := 0, video_mem_flag := 0\<rparr>) kk)"
      by (auto simp: P_def upd_pcb_def nth_list_update less_Suc_eq)
  qed simp
  then show ?thesis by (auto simp: P_def in_set_conv_nth)
qed

lemma term_core_reset:
  "term_core t = zero_terminal \<Longrightarrow> t\<lparr>active := 0, buf_index := 0, cursor_x := 0, cursor_y := 0, TERMINAL_READ_FLAG := 0,
    keyboard_buf := replicate 128 0, prog_pids := (prog_pids t)[0 := 0], term_prog_counter := 0\<rparr> = zero_terminal"
  using term_core_fields(3) [of t zero_terminal] by (simp add: term_core_def zero_terminal_def list_update_same_conv)

lemma init_backup_out:
  assumes "1 \<le> i" and "i < 4" and "a \<notin> screen"
  shows "init_backup_page i m a = m a"
proof -
  have "i = 1 \<or> i = 2 \<or> i = 3" using assms(1,2) by arith
  then have "VIDEO_MEM + push_bit 12 (of_nat i) = backup_page (int i - 1)" by (auto simp: backup_page_def push_bit_eq_mult)
  moreover have "page (backup_page (int i - 1)) \<subseteq> screen" using page_screen(2) [of "int i - 1"] assms(1,2) by simp
  ultimately show ?thesis unfolding init_backup_page_def using assms by (simp only:) (rule fill_out, auto)
qed

lemma init_terminals_soft:
  assumes "map term_core (terminals k) = replicate 3 zero_terminal"
  shows "terminals (init_terminals k) = replicate 3 zero_terminal \<and> cur_term_id (init_terminals k) = 0
    \<and> pcbs (init_terminals k) = pcbs k \<and> active_term_idx (init_terminals k) = active_term_idx k \<and> pg (init_terminals k) = pg k
    \<and> prog_counter (init_terminals k) = prog_counter k \<and> program_exception_flag (init_terminals k) = program_exception_flag k
    \<and> filesys (init_terminals k) = filesys k \<and> (\<forall>a. a \<notin> screen \<longrightarrow> mem (init_terminals k) a = mem k a)
    \<and> master_mask (init_terminals k) = master_mask k \<and> slave_mask (init_terminals k) = slave_mask k"
proof -
  have l: "length (terminals k) = 3" using arg_cong [OF assms, of length] by simp
  have tc: "term_core (terminals k ! i) = zero_terminal" if "i < 3" for i
    using arg_cong [OF assms, of "\<lambda>xs. xs ! i"] that l by simp
  define P where "P n kk \<longleftrightarrow> length (terminals kk) = 3 \<and> (\<forall>i<n. terminals kk ! i = zero_terminal)
    \<and> (\<forall>i. n \<le> i \<and> i < 3 \<longrightarrow> terminals kk ! i = terminals k ! i)
    \<and> pcbs kk = pcbs k \<and> active_term_idx kk = active_term_idx k \<and> pg kk = pg k
    \<and> prog_counter kk = prog_counter k \<and> program_exception_flag kk = program_exception_flag k \<and> filesys kk = filesys k
    \<and> (\<forall>a. a \<notin> screen \<longrightarrow> mem kk a = mem k a)
    \<and> master_mask kk = master_mask k \<and> slave_mask kk = slave_mask k" for n and kk :: kernel
  define body where "body = (\<lambda>i k. let k = upd_tm (int i) (\<lambda>t. t\<lparr>active := 0, buf_index := 0, cursor_x := 0, cursor_y := 0,
                      TERMINAL_READ_FLAG := 0, keyboard_buf := replicate 128 0, prog_pids := (prog_pids t)[0 := 0]\<rparr>) k;
                k = k\<lparr>mem := for_loop 1 (Suc TERM_NUM) init_backup_page (mem k)\<rparr>
            in upd_tm (int i) (\<lambda>t. t\<lparr>term_prog_counter := 0\<rparr>) k)"
  have step: "P (Suc i) (body i kk)" if "i < 3" "P i kk" for i kk
  proof -
    have t: "terminals (body i kk) = (terminals kk)[i := zero_terminal]"
      using that tc [of i] term_core_reset [of "terminals k ! i"] by (simp add: body_def Let_def upd_tm_def tm_def P_def)
    have "mem (body i kk) a = mem kk a" if "a \<notin> screen" for a
    proof -
      have "for_loop 1 (Suc TERM_NUM) init_backup_page (mem kk) a = mem kk a"
        by (rule for_loop_invariant [where P = "\<lambda>n. n a = mem kk a"]) (use that in \<open>auto simp: init_backup_out TERM_NUM_def\<close>)
      then show ?thesis by (simp add: body_def Let_def upd_tm_def)
    qed
    then show ?thesis using that unfolding P_def t
      by (auto simp: nth_list_update less_Suc_eq) (simp_all add: body_def Let_def upd_tm_def)
  qed
  have "P 3 (for_loop 0 3 body k)"
    by (rule for_loop_rule) (use step l in \<open>auto simp: P_def\<close>)
  moreover from this have "terminals (for_loop 0 3 body k) = replicate 3 zero_terminal"
    by (intro nth_equalityI) (auto simp: P_def)
  moreover have "init_terminals k = (for_loop 0 3 body k)\<lparr>cur_term_id := 0\<rparr>"
    unfolding init_terminals_def body_def Let_def ..
  ultimately show ?thesis by (simp add: P_def)
qed

lemma hardware_masks [simp]:
  "master_mask (i8259_init k) = master_mask k" "slave_mask (i8259_init k) = slave_mask k"
  "master_mask (rtc_init b a k) = master_mask k" "slave_mask (rtc_init b a k) = slave_mask k"
  "master_mask (enable_cursor b a k) = master_mask k" "slave_mask (enable_cursor b a k) = slave_mask k"
  "master_mask (pit_init k) = master_mask k" "slave_mask (pit_init k) = slave_mask k"
  "master_mask (init_file_system fsa k) = master_mask k" "slave_mask (init_file_system fsa k) = slave_mask k"
  "master_mask (clear k) = master_mask k" "slave_mask (clear k) = slave_mask k"
  by (simp_all add: i8259_init_def rtc_init_def set_rtc_freq_def enable_cursor_def pit_init_def init_file_system_def clear_def
      update_cursor_def upd_tm_def Let_def)

lemma enable_masks:
  "master_mask (enable_irq 1 k) = master_mask k AND - 3" "slave_mask (enable_irq 1 k) = slave_mask k"
  "master_mask (enable_irq 8 k) = master_mask k AND - 5" "slave_mask (enable_irq 8 k) = slave_mask k AND - 2"
  "master_mask (enable_irq 0 k) = master_mask k AND - 2" "slave_mask (enable_irq 0 k) = slave_mask k"
  by (simp_all add: enable_irq_def Let_def)

lemma hardware_more [simp]:
  "cur_term_id (enable_irq n k) = cur_term_id k" "cur_term_id (pit_init k) = cur_term_id k" "filesys (enable_irq n k) = filesys k"
  "filesys (pit_init k) = filesys k"
  by (simp_all add: enable_irq_def pit_init_def outb_def Let_def)

lemma softD:
  assumes "soft k' = soft k"
  shows "pcbs k' = pcbs k" "terminals k' = terminals k" "active_term_idx k' = active_term_idx k" "prog_counter k' = prog_counter k"
    "pg k' = pg k" "mem k' = mem k" "program_exception_flag k' = program_exception_flag k"
  using assms by (simp_all add: soft_def)

lemma init_kernel_ok:
  assumes "boot_globals k"
  shows "\<exists>k1 m. init_kernel e fs_addr k = Some k1 \<and> base_ok k1 \<and> cur_term_id k1 = 0 \<and> cur_stack k1 = [] \<and> prog_counter k1 = 0
    \<and> program_exception_flag k1 = 0 \<and> filesys k1 = boot_block_fs m fs_addr \<and> (\<forall>a. a \<notin> screen \<longrightarrow> m a = mem k a \<and> mem k1 a = mem k a)
    \<and> master_mask k1 = 0xF8 \<and> slave_mask k1 = 0xFE"
proof -
  define k0 where "k0 = k\<lparr>tss_ss0 := KERNEL_DS, tss_esp0 := 0x800000, pg := init_paging (pg k), video_mem := 0xb8000\<rparr>"
  obtain K where K: "print ''Enabling Paging\<newline>'' [] k0 = Some K"
    using printf_literal [of "''Enabling Paging\<newline>''" "\<lambda>i. [] ! i" k0] by (simp add: print_def chars_def)
  have q: "quiet k0 K" by (rule print_quiet [OF K])
  have b: "console_ok k" "tables_placed (pg k)" "length (pcbs k) = 6" "\<forall>b \<in> set (pcbs k). length (pcb_file_array b) = 8"
    "map term_core (terminals k) = replicate 3 zero_terminal" "master_mask k = 0xFF" "slave_mask k = 0xFF"
    using assms by (simp_all add: boot_globals_def)
  have c: "console_ok K" "\<And>a. a \<notin> screen \<Longrightarrow> mem K a = mem k a" and cr: "core K = core k0"
    using q b(1) by (auto simp: quiet_def k0_def console_ok_def)
  note f = core_fields [OF cr]
  have m: "master_mask K = 0xFF" "slave_mask K = 0xFF"
    using arg_cong [OF cr, of master_mask] arg_cong [OF cr, of slave_mask] b(6,7) by (simp_all add: core_def k0_def)
  define K2 where "K2 = init_file_system fs_addr (enable_cursor (in_cur1 e) (in_cur2 e) (enable_irq 8 (rtc_init (in_rtc_b e) (in_rtc_a e) (enable_irq 1 (i8259_init K)))))"
  have s2: "soft K2 = soft K" by (simp add: K2_def)
  have fs2: "filesys K2 = boot_block_fs (mem K) fs_addr"
    using softD(6) [of "enable_cursor (in_cur1 e) (in_cur2 e) (enable_irq 8 (rtc_init (in_rtc_b e) (in_rtc_a e) (enable_irq 1 (i8259_init K))))" K]
    by (simp add: K2_def init_file_system_def)
  have m2: "master_mask K2 = 0xF9" "slave_mask K2 = 0xFE" by (simp_all add: K2_def m enable_masks)
  have i3: "length (pcbs K2) = 6" "\<forall>b \<in> set (pcbs K2). length (pcb_file_array b) = 8"
    using softD(1) [OF s2] f(1) b(3,4) by (simp_all add: k0_def)
  define K3 where "K3 = init_terminals (init_prog K2)"
  note p3 = init_prog_soft [OF i3]
  have "map term_core (terminals (init_prog K2)) = replicate 3 zero_terminal"
    using p3 softD(2) [OF s2] f(11) b(5) by (simp add: k0_def)
  note t3 = init_terminals_soft [OF this, folded K3_def]
  define K4 where "K4 = enable_irq 0 (pit_init K3)"
  have s4: "soft K4 = soft K3" "cur_term_id K4 = 0" "filesys K4 = filesys K2" by (simp_all add: K4_def t3 p3)
  note f4 = softD [OF s4(1)]
  have T: "terminals K4 = replicate 3 zero_terminal" "active_term_idx K4 = active_term_idx k" "pg K4 = init_paging (pg k)" "prog_counter K4 = 0"
    "program_exception_flag K4 = 0" using f4 t3 p3 softD [OF s2] f(6,8) by (simp_all add: k0_def)
  have "proc_ok K4" by (rule no_procs_ok) (use T s4 f4 t3 p3 in \<open>auto simp: zero_terminal_def\<close>)
  moreover have "kbd_ok K4"
    using T b(1) s4(2) by (simp add: kbd_ok_def console_ok_def zero_terminal_def kbd_term_ok_def cursor_ok_def const_defs)
  ultimately have b4: "base_ok K4" using T(3) init_paging_inv [OF b(2)] by (simp add: base_ok_def)
  then have kc: "kbd_ok (clear K4)" by (simp add: base_ok_def kbd_ok_clear)
  have "cur_stack K4 = []" using T(1) s4(2) by (simp add: cur_stack_def zero_terminal_def stack_def)
  note base = base_ok_sys [OF b4 kc] and g = core_fields [OF core_clear [of K4]]
  have run: "init_kernel e fs_addr k = Some (clear K4)"
    using K unfolding init_kernel_def Let_def by (simp add: K4_def K3_def K2_def k0_def)
  have mm: "mem (clear K4) a = mem k a" if "a \<notin> screen" for a
    using quiet_clear [of K4] b4 that c(2) f4(6) t3 p3 softD(6) [OF s2]
    by (simp add: quiet_def base_ok_def kbd_ok_def)
  have "master_mask (clear K4) = 0xF8" "slave_mask (clear K4) = 0xFE" using m2 t3 p3 by (simp_all add: K4_def enable_masks)
  then show ?thesis
    using run base \<open>cur_stack K4 = []\<close> g s4(2,3) T(4,5) fs2 c(2) mm
    by (intro exI [of _ "clear K4"] exI [of _ "mem K"]) simp
qed

section \<open>The first shell\<close>

lemma shell_command: "parse_command (cstring ''shell'') = Some (chars ''shell'' @ [0], [0])"
  unfolding cstring_def by (rule parse_word) (simp_all add: chars_def name_char_def)

text \<open>\<open>start_terminal0\<close> before the \<open>execute\<close>.\<close>

definition terminal0_active :: "kernel \<Rightarrow> kernel" where
  "terminal0_active k = (upd_tm 0 (\<lambda>t. t\<lparr>active := 1\<rparr>) (k\<lparr>active_term_idx := 0\<rparr>))\<lparr>cur_term_id := 0\<rparr>"

lemma terminal0_active_ok:
  assumes "base_ok k" and "cur_term_id k = 0"
  shows "base_ok (terminal0_active k)" and "cur_stack (terminal0_active k) = cur_stack k"
    and "mem (terminal0_active k) = mem k" and "filesys (terminal0_active k) = filesys k"
    and "prog_counter (terminal0_active k) = prog_counter k"
proof -
  let ?k0 = "k\<lparr>active_term_idx := 0\<rparr>"
  have kb: "kbd_ok k" and pr: "proc_ok k" and pg: "paging_inv (pg k)" using assms(1) by (simp_all add: base_ok_def)
  have k0: "kbd_ok ?k0" using kb by (simp add: kbd_ok_def console_ok_def)
  have "kbd_ok (upd_tm 0 (\<lambda>t. t\<lparr>active := 1\<rparr>) ?k0)"
    using kbd_ok_tm [OF k0, of 0] k0 by (intro kbd_ok_upd_tm) (simp_all add: kbd_term_ok_def)
  then have kb': "kbd_ok (terminal0_active k)"
    using assms(2) by (subst kbd_ok_frame [of _ "upd_tm 0 (\<lambda>t. t\<lparr>active := 1\<rparr>) ?k0"]) (simp_all add: terminal0_active_def)
  have t: "terminals (terminal0_active k) = (terminals k)[0 := (terminals k ! 0)\<lparr>active := 1\<rparr>]"
    by (simp add: terminal0_active_def upd_tm_def tm_def)
  have v: "map term_view (terminals (terminal0_active k)) = map term_view (terminals k)"
    unfolding t using proc_okD(2) [OF pr] by (simp add: map_update term_view_def list_update_same_conv)
  have "proc_ok (terminal0_active k)"
    by (rule proc_ok_frame [OF pr _ v]) (simp_all add: terminal0_active_def upd_tm_def assms(2))
  moreover have "paging_inv (pg (terminal0_active k))" using pg by (simp add: terminal0_active_def upd_tm_def)
  ultimately show "base_ok (terminal0_active k)" using kb' by (simp add: base_ok_def)
  show "cur_stack (terminal0_active k) = cur_stack k"
    using proc_okD(2) [OF pr] assms(2) unfolding cur_stack_def t by (simp add: terminal0_active_def stack_def)
qed (simp_all add: terminal0_active_def upd_tm_def)

lemma launch_eq:
  assumes "init_kernel e fs_addr k = Some k1"
  shows "launch e fs_addr k = (case execute (frame0 e) (Some (cstring ''shell'')) (terminal0_active k1) of Returns r k \<Rightarrow> Hang k | out \<Rightarrow> out)"
  using assms by (simp add: launch_def start_terminal0_def terminal0_active_def Let_def)

lemma launch_outcome:
  assumes "boot_globals k" and "launch e fs_addr k = Iret eip cs esp ss k'"
  shows "kernel_ok k' \<and> (\<exists>p. cur_stack k' = [p]) \<and> cur_term_id k' = 0"
proof -
  obtain k1 where k1: "init_kernel e fs_addr k = Some k1" "base_ok k1" "cur_term_id k1 = 0" "cur_stack k1 = []"
    using init_kernel_ok [OF assms(1), of e fs_addr] by blast
  note t = terminal0_active_ok [OF k1(2,3)]
  have "cur_term_id (terminal0_active k1) = 0" by (simp add: terminal0_active_def)
  then show ?thesis
    using execute_ok [OF t(1), of "frame0 e" "Some (cstring ''shell'')"] assms(2) launch_eq [OF k1(1)] t(2) k1(4) by auto
qed

lemma launch_runs:
  assumes "init_kernel e fs_addr k = Some k1" and "base_ok k1" and "cur_term_id k1 = 0" and "cur_stack k1 = []" and "prog_counter k1 = 0"
    and "read_dentry_by_name (filesys k1) (mem k1) (Some (of_bytes (chars ''shell'' @ [0]))) (Some (dentry_stk (frame0 e))) = Some (0, Some d)"
    and "file_good k1 d n" and "executable k1 d"
  shows "\<exists>eip p k'. launch e fs_addr k = Iret eip USER_CS 0x083FFFFC USER_DS k' \<and> kernel_ok k' \<and> cur_stack k' = [p]"
proof -
  let ?k = "terminal0_active k1"
  note t = terminal0_active_ok [OF assms(2,3)]
  have pr: "proc_ok ?k" using t(1) by (simp add: base_ok_def)
  have "length (stack (tm ?k (cur_term_id ?k))) = 0" using t(2) assms(4) by (simp add: cur_stack_def tm_def)
  then have "term_prog_counter (tm ?k (cur_term_id ?k)) = 0" using stack_empty [OF proc_ok_cur(2) [OF pr]] by simp
  then have room: "prog_counter ?k < 6" "term_prog_counter (tm ?k (cur_term_id ?k)) < 4" using t(5) assms(5) by simp_all
  have g: "file_good ?k d n" "executable ?k d" using assms(7,8) t(3,4) by (simp_all add: file_good_def executable_def)
  have l: "length [0 :: byte] \<le> 128" by simp
  have rd: "read_dentry_by_name (filesys ?k) (mem ?k) (Some (of_bytes (chars ''shell'' @ [0]))) (Some (dentry_stk (frame0 e))) = Some (0, Some d)"
    using assms(6) t(3,4) by simp
  from execute_loads [OF t(1) room shell_command l rd g refl] obtain p k' where
    "execute (frame0 e) (Some (cstring ''shell'')) ?k = Iret (load32 (mem k') (image_at p + 24)) USER_CS 0x083FFFFC USER_DS k'"
    "kernel_ok k'" "cur_stack k' = cur_stack ?k @ [p]" by (elim exE conjE)
  then show ?thesis using launch_eq [OF assms(1)] t(2) assms(4) by (intro exI conjI) simp_all
qed

section \<open>Properties\<close>

text \<open>C18: booting: from the globals the C program starts with (and any contents of the process control
  blocks), the initialisation always completes; it leaves a consistent kernel without processes, the
  interrupt lines of timer, keyboard and clock (and the cascade) open and all others closed, memory
  outside the screen and its backup pages unchanged, and the file system parameters read from the boot
  block; and if the image holds an executable \<open>shell\<close>, the shell then runs at user level as the only
  process, under the kernel invariant.\<close>

theorem boot_starts_shell:
  assumes "boot_globals k"
  shows "\<exists>k1 m. init_kernel e fs_addr k = Some k1 \<and> base_ok k1 \<and> cur_stack k1 = [] \<and> prog_counter k1 = 0
    \<and> (\<forall>n<16. irq_enabled k1 n \<longleftrightarrow> n \<in> {0, 1, 2, 8}) \<and> filesys k1 = boot_block_fs m fs_addr
    \<and> (\<forall>a. a \<notin> screen \<longrightarrow> m a = mem k a \<and> mem k1 a = mem k a)
    \<and> (\<forall>d n. read_dentry_by_name (filesys k1) (mem k1) (Some (of_bytes (chars ''shell'' @ [0]))) (Some (dentry_stk (frame0 e))) = Some (0, Some d)
        \<and> file_good k1 d n \<and> executable k1 d \<longrightarrow>
        (\<exists>eip p k'. launch e fs_addr k = Iret eip USER_CS 0x083FFFFC USER_DS k' \<and> kernel_ok k' \<and> cur_stack k' = [p]))"
proof -
  from init_kernel_ok [OF assms, of e fs_addr] obtain k1 m where
    k1: "init_kernel e fs_addr k = Some k1" "base_ok k1" "cur_term_id k1 = 0" "cur_stack k1 = []" "prog_counter k1 = 0"
    and fs: "filesys k1 = boot_block_fs m fs_addr" "\<forall>a. a \<notin> screen \<longrightarrow> m a = mem k a \<and> mem k1 a = mem k a"
    and mk: "master_mask k1 = 0xF8" "slave_mask k1 = 0xFE"
    by (elim exE conjE)
  have irq: "list_all (\<lambda>n. irq_enabled k1 n \<longleftrightarrow> n \<in> {0, 1, 2, 8}) [0..<16]"
    by (simp add: upt_rec irq_enabled_def mk bit_numeral_rec)
  have shell: "\<forall>d n. read_dentry_by_name (filesys k1) (mem k1) (Some (of_bytes (chars ''shell'' @ [0]))) (Some (dentry_stk (frame0 e))) = Some (0, Some d)
        \<and> file_good k1 d n \<and> executable k1 d \<longrightarrow>
        (\<exists>eip p k'. launch e fs_addr k = Iret eip USER_CS 0x083FFFFC USER_DS k' \<and> kernel_ok k' \<and> cur_stack k' = [p])"
    by (intro allI impI) (elim conjE, rule launch_runs [OF k1])
  have "\<forall>n<16. irq_enabled k1 n \<longleftrightarrow> n \<in> {0, 1, 2, 8}" using irq unfolding list_all_iff by simp
  then show ?thesis using k1(1,2,4,5) fs shell by (intro exI [of _ k1] exI [of _ m] conjI)
qed

definition demo_env :: boot_env where
  "demo_env = \<lparr>ldt_at = 0x420000, ldt_lim = 16, tss_at = 0x421000, tss_lim = 104,
     stk_desc = \<lparr>seg_lim_15_00 = 0, base_15_00 = 0, base_23_16 = 0, sd_type = 0, sd_sys = 0, sd_dpl = 0, sd_present = 0,
       seg_lim_19_16 = 0, sd_avail = 0, sd_reserved = 0, sd_opsize = 0, sd_granularity = 0, base_31_24 = 0\<rparr>,
     in_rtc_b = 2, in_rtc_a = 0x26, in_cur1 = 0, in_cur2 = 0, frame0 = demo_frame\<rparr>"

section \<open>A bootable image\<close>

text \<open>Memory with a file system at address 0 whose only file is an executable \<open>shell\<close>; the multiboot
  structure at \<open>0x9000\<close> is all zeros, so \<open>entry\<close> uses 0 as the address of the image.\<close>

definition shell_mem :: mem where
  "shell_mem a =
     (if a = 0 \<or> a = 4 \<or> a = 8 then 1
      else if a = 64 then 0x73 else if a = 65 then 0x68 else if a = 66 then 0x65 else if a = 67 then 0x6c else if a = 68 then 0x6c
      else if a = 96 then 2 else if a = 4096 then 5
      else if a = 8192 then 0x7f else if a = 8193 then 0x45 else if a = 8194 then 0x4c else if a = 8195 then 0x46 else 0)"

definition shell_fs :: fs where
  "shell_fs = \<lparr>file_system_addr = 0, dentry_num = 1, inode_num = 1, block_num = 1\<rparr>"

text \<open>The image survives everything that only writes the screen.\<close>

definition has_shell :: "mem \<Rightarrow> bool" where
  "has_shell m \<longleftrightarrow> (\<forall>a. unat a < 0xB8000 \<longrightarrow> m a = shell_mem a)"

lemma has_shellD: "has_shell m \<Longrightarrow> unat a < 0xB8000 \<Longrightarrow> m a = shell_mem a"
  by (simp add: has_shell_def)

lemma has_shell_frame: "has_shell m \<Longrightarrow> \<forall>a. a \<notin> screen \<longrightarrow> m' a = m a \<Longrightarrow> has_shell m'"
  by (auto simp: has_shell_def screen_def)

lemma shell_words:
  assumes "has_shell m"
  shows "load32 m 0 = 1" "load32 m 4 = 1" "load32 m 8 = 1" "load32 m 96 = 2" "load32 m 100 = 0" "load32 m 4096 = 5" "load32 m 4100 = 0"
  by (simp_all add: load32_def has_shellD [OF assms]) (simp_all add: shell_mem_def)

lemma shell_boot_block: "has_shell m \<Longrightarrow> boot_block_fs m 0 = shell_fs"
  by (simp add: boot_block_fs_def shell_fs_def shell_words)

lemma shell_dentry:
  assumes "has_shell m"
  shows "file_type (load_dentry m 64) = 2" "d_inode_idx (load_dentry m 64) = 0"
  using shell_words [OF assms] by (simp_all add: load_dentry_def)

lemma shell_found:
  assumes "has_shell m"
  shows "read_dentry_by_name shell_fs m (Some (of_bytes (chars ''shell'' @ [0]))) (Some d) = Some (0, Some (load_dentry m 64))"
proof -
  let ?n = "of_bytes (chars ''shell'' @ [0])"
  have c: "is_cstr ?n 5"
  proof -
    have "0 \<notin> set (chars ''shell'')" "length (chars ''shell'') = 5" by (simp_all add: chars_def)
    then show ?thesis using is_cstr_of_bytes [of "chars ''shell''"] by metis
  qed
  have z: "?n 5 = 0" using c by (simp add: is_cstr_def)
  have e: "?n i = at m 64 i" if "i \<le> 5" for i
  proof -
    have "i = 0 \<or> i = 1 \<or> i = 2 \<or> i = 3 \<or> i = 4 \<or> i = 5" using that by arith
    then show ?thesis
      by (elim disjE) (simp_all add: at_def has_shellD [OF assms], simp_all add: shell_mem_def of_bytes_def chars_def)
  qed
  have "?n i = at m 64 i" if "\<forall>k<i. ?n k \<noteq> 0" for i
  proof -
    have "\<not> 5 < i" using that z by blast
    then show ?thesis using e by simp
  qed
  moreover have "dentry_addr shell_fs (of_nat 0) = 64" by (simp add: dentry_addr_def shell_fs_def)
  ultimately have "dentry_matches shell_fs m ?n 0" unfolding dentry_matches_def cstr_eq_def by presburger
  then have "find_dentry shell_fs m ?n (Some d) 0 = (0, Some (load_dentry m 64))"
    using find_dentry_first [of shell_fs m ?n 0 0 "Some d"] by (simp add: shell_fs_def dentry_addr_def)
  then show ?thesis using strlen_Some [OF c] by (simp add: read_dentry_by_name_def)
qed

lemma shell_program:
  assumes "has_shell (mem k)" and "filesys k = shell_fs"
  shows "file_good k (load_dentry (mem k) 64) 5" and "executable k (load_dentry (mem k) 64)"
proof -
  note w = shell_words [OF assms(1)] and d = shell_dentry [OF assms(1)]
  have l: "inode_length shell_fs (mem k) 0 = 5" using w by (simp add: inode_length_def inode_addr_def shell_fs_def)
  have ib: "inode_block shell_fs (mem k) 0 0 = 0" using w by (simp add: inode_block_def inode_addr_def shell_fs_def)
  have "block_ok shell_fs (mem k) 0 i" if "i < 5" for i using that ib by (simp add: block_ok_def shell_fs_def)
  then show "file_good k (load_dentry (mem k) 64) 5" by (simp add: file_good_def d l assms(2)) (simp add: shell_fs_def)
  have fb: "file_byte shell_fs (mem k) 0 i = mem k (8192 + of_nat i)" if "i < 5" for i
    using that ib by (simp add: file_byte_def data_addr_def shell_fs_def)
  have "map (file_byte shell_fs (mem k) 0) [0..<4] = map (\<lambda>i. mem k (8192 + of_nat i)) [0..<4]" using fb by simp
  also have "\<dots> = EXEC_HEAD" by (simp add: upt_rec has_shellD [OF assms(1)] EXEC_HEAD_def) (simp add: shell_mem_def)
  finally show "executable k (load_dentry (mem k) 64)" by (simp add: executable_def d assms(2))
qed

definition shell_start :: kernel where
  "shell_start = start_kernel shell_mem (zero_paging 0x410000 0x411000 0x412000)"

lemma shell_start_ok: "boot_globals shell_start" "has_shell (mem shell_start)"
proof -
  have "console_ok shell_start" by (simp add: console_ok_def shell_start_def start_kernel_def cursor_ok_def zero_terminal_def const_defs)
  then show "boot_globals shell_start"
    by (simp add: boot_globals_def shell_start_def start_kernel_def zero_paging_def tables_placed_def zero_pcb_def zero_terminal_def term_core_def)
  show "has_shell (mem shell_start)" by (simp add: has_shell_def shell_start_def start_kernel_def)
qed

lemma shell_flags: "has_shell (mem k) \<Longrightarrow> field k 0x9000 0 = 0"
  by (simp add: field_def load32_def has_shellD) (simp add: shell_mem_def)

lemma quiet_shell: "boot_globals k \<Longrightarrow> has_shell (mem k) \<Longrightarrow> quiet k k' \<Longrightarrow> boot_globals k' \<and> has_shell (mem k')"
  using boot_globals_quiet [of k k'] has_shell_frame [of "mem k" "mem k'"] by (auto simp: quiet_def boot_globals_def)

lemma no_flags [simp]: "\<not> CHECK_FLAG 0 b"
  by (simp add: CHECK_FLAG_def)

lemma shell_report:
  assumes "boot_globals k" and "has_shell (mem k)"
  obtains k1 where "report_modules 0x9000 k = Some (0, k1)" and "report_sections 0x9000 k1 = Some k1"
    and "field k1 0x9000 0 = 0" and "boot_globals k1" and "has_shell (mem k1)"
proof -
  let ?s = "''flags = 0x%#x\<newline>''"
  obtain k1 where k1: "print ?s [0] k = Some k1"
    using print_items [of "map Lit (chars ''flags = 0x'') @ [Hex8 0, Lit 10]" ?s "[0]" k] by (auto simp: chars_def)
  have b: "boot_globals k1" "has_shell (mem k1)" using quiet_shell [OF assms print_quiet [OF k1]] by simp_all
  note f = shell_flags [OF assms(2)] and f1 = shell_flags [OF b(2)]
  have "report_modules 0x9000 k = Some (0, k1)" by (simp add: report_modules_def f k1 f1)
  moreover have "report_sections 0x9000 k1 = Some k1" by (simp add: report_sections_def f1)
  ultimately show thesis using that f1 b by blast
qed

text \<open>With this image the shell runs.\<close>

lemma shell_runs:
  assumes "boot_globals k" and "has_shell (mem k)"
  shows "\<exists>eip p k'. launch demo_env 0 k = Iret eip USER_CS 0x083FFFFC USER_DS k' \<and> kernel_ok k' \<and> cur_stack k' = [p]"
proof -
  from init_kernel_ok [OF assms(1), of demo_env 0] obtain k1 m where
    k1: "init_kernel demo_env 0 k = Some k1" "base_ok k1" "cur_term_id k1 = 0" "cur_stack k1 = []" "prog_counter k1 = 0"
    and fs: "filesys k1 = boot_block_fs m 0" "\<forall>a. a \<notin> screen \<longrightarrow> m a = mem k a \<and> mem k1 a = mem k a"
    by (elim exE conjE)
  have h: "has_shell m" "has_shell (mem k1)" using has_shell_frame [OF assms(2), of m] has_shell_frame [OF assms(2), of "mem k1"] fs(2) by simp_all
  have sf: "filesys k1 = shell_fs" using fs(1) shell_boot_block [OF h(1)] by simp
  note pg = shell_program [OF h(2) sf] and fd = shell_found [OF h(2), of "dentry_stk (frame0 demo_env)"]
  let ?k = "terminal0_active k1"
  note t = terminal0_active_ok [OF k1(2,3)]
  show ?thesis
  proof (rule launch_runs [OF k1])
    show "read_dentry_by_name (filesys k1) (mem k1) (Some (of_bytes (chars ''shell'' @ [0]))) (Some (dentry_stk (frame0 demo_env)))
      = Some (0, Some (load_dentry (mem k1) 64))" unfolding sf by (rule fd)
  qed (rule pg)+
qed

lemma shell_entry:
  "\<exists>eip k'. entry demo_env MULTIBOOT_BOOTLOADER_MAGIC 0x9000 g shell_start = (init_descriptors demo_env g, Iret eip USER_CS 0x083FFFFC USER_DS k')"
proof -
  have c: "boot_globals (clear shell_start) \<and> has_shell (mem (clear shell_start))" by (rule quiet_shell [OF shell_start_ok quiet_clear])
  obtain k1 where k1: "report_modules 0x9000 (clear shell_start) = Some (0, k1)" "report_sections 0x9000 k1 = Some k1"
    "field k1 0x9000 0 = 0" "boot_globals k1" "has_shell (mem k1)" using c by (elim conjE) (rule shell_report)
  from shell_runs [OF k1(4,5)] obtain eip k' where "launch demo_env 0 k1 = Iret eip USER_CS 0x083FFFFC USER_DS k'" by (elim exE conjE)
  then show ?thesis using k1 by (simp add: entry_def Let_def)
qed

theorem boot_starts_shell_witness:
  "\<exists>k1 eip p k'. init_kernel demo_env 0 shell_start = Some k1 \<and> irq_enabled k1 1 \<and> \<not> irq_enabled k1 3
    \<and> launch demo_env 0 shell_start = Iret eip USER_CS 0x083FFFFC USER_DS k' \<and> cur_stack k' = [p]"
proof -
  from boot_starts_shell [OF shell_start_ok(1), of demo_env 0] obtain k1 m where
    k: "init_kernel demo_env 0 shell_start = Some k1" "\<forall>n<16. irq_enabled k1 n \<longleftrightarrow> n \<in> {0, 1, 2, 8}"
    and fs: "filesys k1 = boot_block_fs m 0" "\<forall>a. a \<notin> screen \<longrightarrow> m a = mem shell_start a \<and> mem k1 a = mem shell_start a"
    and run: "\<forall>d n. read_dentry_by_name (filesys k1) (mem k1) (Some (of_bytes (chars ''shell'' @ [0]))) (Some (dentry_stk (frame0 demo_env))) = Some (0, Some d)
        \<and> file_good k1 d n \<and> executable k1 d \<longrightarrow>
        (\<exists>eip p k'. launch demo_env 0 shell_start = Iret eip USER_CS 0x083FFFFC USER_DS k' \<and> kernel_ok k' \<and> cur_stack k' = [p])"
    by (elim exE conjE)
  have h: "has_shell m" "has_shell (mem k1)"
    using has_shell_frame [OF shell_start_ok(2), of m] has_shell_frame [OF shell_start_ok(2), of "mem k1"] fs(2) by simp_all
  have sf: "filesys k1 = shell_fs" using fs(1) shell_boot_block [OF h(1)] by simp
  from run [rule_format, OF conjI [OF shell_found [OF h(2), folded sf] conjI [OF shell_program [OF h(2) sf]]]] obtain eip p k' where
    "launch demo_env 0 shell_start = Iret eip USER_CS 0x083FFFFC USER_DS k'" "cur_stack k' = [p]" by (elim exE conjE)
  moreover have "irq_enabled k1 1" "\<not> irq_enabled k1 3" using k(2) [rule_format, of 1] k(2) [rule_format, of 3] by simp_all
  ultimately show ?thesis using k(1) by (intro exI conjI)
qed

section \<open>Exceptions\<close>

lemma print_hex: "\<exists>k'. print ''%x\<newline>'' [v] k = Some k'"
  using print_items [of "[Hex v, Lit 10]" "''%x\<newline>''" "[v]" k] by (simp add: chars_def)

lemma print_fault: "\<exists>k'. print ''Page fault occur at %#x\<newline>'' [v] k = Some k'"
  using print_items [of "map Lit (chars ''Page fault occur at '') @ [Hex8 v, Lit 10]" "''Page fault occur at %#x\<newline>''" "[v]" k]
  by (simp add: chars_def)

lemma print_message:
  assumes "is_cstr (at (mem k) a) n"
  shows "print ''%s\<newline>'' [a] k = Some (putc 0x0A (fold putc (map (at (mem k) a) [0..<n]) k))"
proof -
  have c: "cstring ''%s\<newline>'' 0 = 0x25" "cstring ''%s\<newline>'' 1 = 0x73" "cstring ''%s\<newline>'' 2 = 0x0A" "cstring ''%s\<newline>'' 3 = 0"
    by (simp_all add: cstring_def chars_def of_bytes_def)
  have "format_char putc (cstring ''%s\<newline>'') (\<lambda>i. [a] ! i) False (Suc 0) 0 k = Some (1, 1, fold putc (map (at (mem k) a) [0..<n]) k)"
    using c(2) pc.puts_all [OF assms, of k] by (subst format_char.simps) simp
  moreover have "printf_with putc (cstring ''%s\<newline>'') e 3 1 kk = Some (3, kk)" for e kk
    using c(4) by (subst printf_with.simps) simp
  then have "printf_with putc (cstring ''%s\<newline>'') e 2 1 kk = Some (3, putc 0x0A kk)" for e kk
    using c(3) by (subst printf_with.simps) simp
  then have "printf_with putc (cstring ''%s\<newline>'') e (Suc 1) 1 kk = Some (3, putc 0x0A kk)" for e kk
    by (simp only: one_add_one [symmetric] Suc_eq_plus1)
  ultimately show ?thesis using c(1) by (simp add: print_def printf_def printf_with.simps [of _ _ _ 0])
qed

lemma cstr_quiet:
  assumes "console_ok k" and "quiet k k'" and "is_cstr (at (mem k) a) n" and "\<forall>i\<le>n. a + of_nat i \<notin> screen"
  shows "is_cstr (at (mem k') a) n"
proof -
  have "at (mem k') a i = at (mem k) a i" if "i \<le> n" for i using assms(1,2,4) that by (simp add: quiet_def at_def)
  then show ?thesis using assms(3) by (simp add: is_cstr_def)
qed

lemma exception_report_quiet: "exception_report msg_at cr2 x k = Some k' \<Longrightarrow> quiet k k'"
proof -
  assume "exception_report msg_at cr2 x k = Some k'"
  then obtain k1 k2 k3 where q: "quiet (clear k) k1" "quiet k1 k2" "quiet k2 k3"
    and l: "(if x = 0x0D then Option.bind (print ''%x\<newline>'' [ucast (tss_ss0 k3)] k3) (\<lambda>k. print ''%x\<newline>'' [tss_esp0 k] k) else Some k3) = Some k'"
    unfolding exception_report_def by (auto simp only: bind_eq_Some_conv dest!: print_quiet print_if_quiet)
  have "quiet k3 k'" using l by (auto simp: bind_eq_Some_conv split: if_splits dest!: print_quiet intro: quiet_trans)
  then show "quiet k k'" using quiet_trans [OF quiet_clear q(1)] q by (meson quiet_trans)
qed

lemma exception_report_returns:
  assumes "console_ok k" and "is_cstr (at (mem k) (msg_at x)) n" and "\<forall>i\<le>n. msg_at x + of_nat i \<notin> screen"
  shows "\<exists>k'. exception_report msg_at cr2 x k = Some k'"
proof -
  let ?s = "''An exception has occurred:\<newline>''"
  obtain k1 where k1: "print ?s [] (clear k) = Some k1"
    using printf_literal [of ?s "\<lambda>i. [] ! i" "clear k"] by (simp add: print_def chars_def)
  have q: "quiet k k1" using quiet_trans [OF quiet_clear print_quiet [OF k1]] .
  obtain k2 where k2: "print ''%s\<newline>'' [msg_at x] k1 = Some k2"
    using print_message [OF cstr_quiet [OF assms(1) q assms(2,3)]] by simp
  obtain k3 where k3: "(if x = PAGE_FAULT then print ''Page fault occur at %#x\<newline>'' [cr2] k2 else Some k2) = Some k3"
    using print_fault [of cr2 k2] by (cases "x = PAGE_FAULT") auto
  obtain k4 where k4: "print ''%x\<newline>'' [ucast (tss_ss0 k3)] k3 = Some k4" using print_hex by blast
  obtain k5 where k5: "print ''%x\<newline>'' [tss_esp0 k4] k4 = Some k5" using print_hex by blast
  show ?thesis unfolding exception_report_def k1 Option.bind.simps k2 k3 k4 k5 by simp
qed

text \<open>The linker has put the message of exception \<open>x\<close> at \<open>a\<close>, off the screen.\<close>

definition message_at :: "addr \<Rightarrow> nat \<Rightarrow> mem \<Rightarrow> bool" where
  "message_at a x m \<longleftrightarrow> (\<forall>i\<le>length (exp_msg ! x). a + of_nat i \<notin> screen) \<and> bytes_at m a (Suc (length (exp_msg ! x))) = chars (exp_msg ! x) @ [0]"

lemma exp_msg_chars: "x < 32 \<Longrightarrow> 0 \<notin> set (chars (exp_msg ! x))"
proof -
  assume "x < 32"
  then have "exp_msg ! x \<in> set exp_msg" by (intro nth_mem) (simp add: exp_msg_def)
  then show "0 \<notin> set (chars (exp_msg ! x))" by (auto simp: exp_msg_def chars_def)
qed

lemma print_table_message:
  assumes "x < 32" and "console_ok k" and "message_at a x (mem k)" and "quiet k k1"
  shows "print ''%s\<newline>'' [a] k1 = Some (fold putc (chars (exp_msg ! x) @ [0x0A]) k1)"
proof -
  let ?n = "length (exp_msg ! x)"
  have same: "at (mem k1) a i = (chars (exp_msg ! x) @ [0]) ! i" if "i \<le> ?n" for i
  proof -
    have "mem k1 (a + of_nat i) = mem k (a + of_nat i)" using assms(2-4) that by (simp add: quiet_def message_at_def)
    moreover have "bytes_at (mem k) a (Suc ?n) ! i = mem k (a + of_nat i)" using that by (simp add: less_Suc_eq_le)
    ultimately show ?thesis using assms(3) by (simp add: message_at_def at_def)
  qed
  then have "is_cstr (at (mem k1) a) ?n"
    using exp_msg_chars [OF assms(1)] nth_mem [of _ "chars (exp_msg ! x)"] by (fastforce simp: is_cstr_def nth_append chars_def)
  from print_message [OF this] show ?thesis
  proof (rule trans)
    have "map (at (mem k1) a) [0..<?n] = chars (exp_msg ! x)" using same by (intro nth_equalityI) (simp_all add: nth_append chars_def)
    then show "Some (putc 0x0A (fold putc (map (at (mem k1) a) [0..<?n]) k1)) = Some (fold putc (chars (exp_msg ! x) @ [0x0A]) k1)" by simp
  qed
qed

lemma fold_putc_core: "core (fold putc cs k) = core k"
  by (induction cs arbitrary: k) simp_all

text \<open>The state in which the handler calls \<open>halt\<close>.\<close>

lemma exception_handler_halt:
  assumes "kernel_ok k" and "exception_report msg_at cr2 x k = Some k1"
  shows "\<exists>k0. exception_handler f msg_at cr2 x k = halt f 0 k0 \<and> kernel_ok k0 \<and> cur_stack k0 = cur_stack k \<and> program_exception_flag k0 = 1
    \<and> pcbs k0 = pcbs k \<and> file_array k0 = file_array k \<and> cur_term_id k0 = cur_term_id k
    \<and> map term_view (terminals k0) = map term_view (terminals k) \<and> aside k k0"
proof -
  have kb: "kbd_ok k" and co: "console_ok k" using assms(1) by (simp_all add: kernel_ok_def base_ok_def kbd_ok_def)
  have q: "core k1 = core k" "console_ok k1" using exception_report_quiet [OF assms(2)] co by (simp_all add: quiet_def)
  have kb1: "kbd_ok k1" by (rule kbd_ok_core [OF q(1) kb q(2)])
  have s1: "sys k1 = sys k" by (rule sys_idle [OF idle_core [OF q(1)]])
  have ok1: "kernel_ok k1" by (rule kernel_ok_sys [OF assms(1) kb1 s1])
  note f = sys_fields [OF s1] and v = sys_views [OF s1]
  have b: "base_ok k" using assms(1) by (simp add: kernel_ok_def)
  have st: "cur_stack k1 = cur_stack k" by (rule base_ok_sys(2) [OF b kb1 s1])
  define k0 where "k0 = k1\<lparr>program_exception_flag := 1\<rparr>"
  have "kernel_ok k0" unfolding k0_def
    using ok1 kb1 by - (rule kernel_ok_frame [OF ok1]; simp add: kernel_ok_def base_ok_def kbd_ok_def console_ok_def)
  moreover have "exception_handler f msg_at cr2 x k = halt f 0 k0"
    using assms(2) kernel_ok_running [OF ok1] by (simp add: exception_handler_def k0_def)
  moreover have "cur_stack k0 = cur_stack k" using st by (simp add: k0_def cur_stack_def)
  moreover have "aside k k0" by (rule aside_trans [OF aside_core [OF q(1)] aside_same]) (simp_all add: k0_def)
  ultimately show ?thesis using f v by (intro exI [of _ k0]) (simp add: k0_def)
qed

lemma exception_handler_halts:
  assumes "kernel_ok k" and "is_cstr (at (mem k) (msg_at x)) n" and "\<forall>i\<le>n. msg_at x + of_nat i \<notin> screen"
  shows "\<exists>k0. exception_handler f msg_at cr2 x k = halt f 0 k0 \<and> kernel_ok k0 \<and> cur_stack k0 = cur_stack k \<and> program_exception_flag k0 = 1
    \<and> pcbs k0 = pcbs k \<and> file_array k0 = file_array k \<and> cur_term_id k0 = cur_term_id k
    \<and> map term_view (terminals k0) = map term_view (terminals k) \<and> aside k k0"
proof -
  have "console_ok k" using assms(1) by (simp add: kernel_ok_def base_ok_def kbd_ok_def)
  then obtain k1 where "exception_report msg_at cr2 x k = Some k1"
    using exception_report_returns [where msg_at = msg_at and x = x, OF _ assms(2,3)] by blast
  then show ?thesis by (rule exception_handler_halt [OF assms(1)])
qed

lemma exception_outcome:
  assumes "kernel_ok k"
  shows "outcome_ok k (exception_handler f msg_at cr2 x k)"
proof (cases "exception_report msg_at cr2 x k")
  case None
  then show ?thesis by (simp add: exception_handler_def)
next
  case (Some k1)
  obtain k0 where "exception_handler f msg_at cr2 x k = halt f 0 k0" "kernel_ok k0" "aside k k0"
    using exception_handler_halt [OF assms Some, of f] by (elim exE conjE)
  then show ?thesis using halt_outcome [of k0 f 0] aside_trans [of k k0] by (simp add: outcome_ok_def)
qed

lemma closable_cong: "pcbs k0 = pcbs k \<Longrightarrow> file_array k0 = file_array k \<Longrightarrow> closable k0 = closable k"
  by (simp add: closable_def fd_entry_def)

text \<open>C19: an exception in a user program ends that program and nothing else: the handler reports on the
  screen and forces a \<open>halt\<close>, so that the \<open>execute\<close> of the parent returns 256, which no program can
  return itself; the parent continues under the kernel invariant and the exception flag is clear again.\<close>

theorem exception_ends_program:
  assumes "kernel_ok k" and "cur_stack k = ps @ [q, p]" and "closable k"
    and "is_cstr (at (mem k) (msg_at x)) n" and "\<forall>i\<le>n. msg_at x + of_nat i \<notin> screen"
  shows "\<exists>k'. exception_handler f msg_at cr2 x k = Frame_Return (ebp (pcbs k ! p)) (Some 256) k' \<and> kernel_ok k' \<and> cur_stack k' = ps @ [q]
    \<and> program_exception_flag k' = 0 \<and> status (pcbs k' ! p) = 0 \<and> (\<forall>r. r \<noteq> p \<longrightarrow> pcbs k' ! r = pcbs k ! r)"
proof -
  have st: "cur_stack k = (ps @ [q]) @ [p]" using assms(2) by simp
  from exception_handler_halts [where msg_at = msg_at and x = x, OF assms(1) assms(4,5), of f cr2] obtain k0 where
    k0: "exception_handler f msg_at cr2 x k = halt f 0 k0" "kernel_ok k0" "cur_stack k0 = cur_stack k" "program_exception_flag k0 = 1"
    "pcbs k0 = pcbs k" "file_array k0 = file_array k" by (elim exE conjE)
  have st0: "cur_stack k0 = (ps @ [q]) @ [p]" using k0(3) st by simp
  have cl: "closable k0" using closable_cong [OF k0(5,6)] assms(3) by simp
  obtain kc where kc: "close_all (dying p k0) = Some kc" by (rule dying_closes [OF k0(2) st0 cl])
  from halt_to_parent [OF k0(2) st0 kc, of f 0] obtain k' where
    "halt f 0 k0 = Frame_Return (ebp (pcbs k0 ! p)) (Some (if program_exception_flag k0 \<noteq> 0 then EXP_ERROR else ucast (0 :: byte))) k'"
    "kernel_ok k'" "cur_stack k' = ps @ [q]" "program_exception_flag k' = 0" "status (pcbs k' ! p) = 0"
    "\<forall>r. r \<noteq> p \<longrightarrow> pcbs k' ! r = pcbs k0 ! r" by (elim exE conjE)
  then show ?thesis using k0 by (intro exI [of _ k']) (simp add: EXP_ERROR_def)
qed

theorem exception_ends_program_witness:
  "\<exists>k fr k'. kernel_ok k \<and> exception_handler demo_frame (\<lambda>_. 0x600000) 0 14 k = Frame_Return fr (Some 256) k' \<and> cur_stack k' = [0]"
proof -
  obtain p k where c: "kernel_ok k" "cur_stack k = [] @ [0, p]" "closable k" "program_exception_flag k = 0" by (rule demo_child)
  define k2 where "k2 = k\<lparr>mem := \<lambda>_. 0\<rparr>"
  have k2: "kernel_ok k2" "cur_stack k2 = [] @ [0, p]" "closable k2"
    using kernel_ok_mem [OF c(1)] c(2,3) closable_cong [of k2 k] by (simp_all add: k2_def cur_stack_def)
  have "is_cstr (at (mem k2) 0x600000) 0" "\<forall>i\<le>0. (0x600000 :: addr) + of_nat i \<notin> screen"
    by (simp_all add: k2_def is_cstr_def at_def screen_def)
  from exception_ends_program [where x = 14 and msg_at = "\<lambda>_. 0x600000", OF k2 this, of demo_frame 0] obtain k' where
    "exception_handler demo_frame (\<lambda>_. 0x600000) 0 14 k2 = Frame_Return (ebp (pcbs k2 ! p)) (Some 256) k'" "cur_stack k' = [] @ [0]"
    by (elim exE conjE)
  then show ?thesis using k2(1) by (intro exI conjI) simp_all
qed

text \<open>In the base shell of a terminal the flag is not cleared: the shell that replaces it runs with the
  flag set, and the next program to halt returns 256 whatever its status.\<close>

lemma exception_flag_survives:
  assumes "kernel_ok k" and "cur_stack k = [p]" and "is_cstr (at (mem k) (msg_at x)) n" and "\<forall>i\<le>n. msg_at x + of_nat i \<notin> screen"
    and "exception_handler f msg_at cr2 x k = Iret eip cs esp ss k'"
  shows "kernel_ok k' \<and> program_exception_flag k' = 1"
proof -
  have st: "cur_stack k = [] @ [p]" using assms(2) by simp
  from exception_handler_halts [where msg_at = msg_at and x = x, OF assms(1) assms(3,4), of f cr2] obtain k0 where
    k0: "exception_handler f msg_at cr2 x k = halt f 0 k0" "kernel_ok k0" "cur_stack k0 = cur_stack k" "program_exception_flag k0 = 1"
    by (elim exE conjE)
  show ?thesis using halt_base_shell [OF k0(2), of p f 0] k0 assms(2,5) by auto
qed

text \<open>C28: the report of an exception says which it was: for each of the 32 exceptions, with its message of the table
  in memory, \<open>exception_report\<close> ends and has cleared the screen and printed the headline, the message, the faulting address in eight hexadecimal digits after a
  page fault, and the kernel stack of the TSS after a general protection fault, and nothing else.\<close>

theorem exception_report_names:
  assumes "console_ok k" and "x < 32" and "message_at (msg_at x) x (mem k)"
  shows "exception_report msg_at cr2 x k = Some (fold putc (chars ''An exception has occurred:\<newline>'' @ chars (exp_msg ! x) @ [0x0A]
    @ (if x = 14 then chars ''Page fault occur at '' @ hex8_str cr2 @ [0x0A] else [])
    @ (if x = 13 then num_str 16 (ucast (tss_ss0 k)) @ [0x0A] @ num_str 16 (tss_esp0 k) @ [0x0A] else [])) (clear k))"
proof -
  let ?h = "''An exception has occurred:\<newline>''"
  define k1 where "k1 = fold putc (chars ?h) (clear k)"
  define k2 where "k2 = fold putc (chars (exp_msg ! x) @ [0x0A]) k1"
  have p1: "print ?h [] (clear k) = Some k1" using printf_literal [of ?h "\<lambda>i. [] ! i" "clear k"] by (simp add: print_def chars_def k1_def)
  have p2: "print ''%s\<newline>'' [msg_at x] k1 = Some k2"
    unfolding k2_def by (rule print_table_message [OF assms(2,1,3) quiet_trans [OF quiet_clear print_quiet [OF p1]]])
  have pf: "print ''Page fault occur at %#x\<newline>'' [cr2] k2 = Some (fold putc (chars ''Page fault occur at '' @ hex8_str cr2 @ [0x0A]) k2)"
    using print_items [of "map Lit (chars ''Page fault occur at '') @ [Hex8 cr2, Lit 10]" "''Page fault occur at %#x\<newline>''" "[cr2]" k2] by (simp add: chars_def)
  have px: "print ''%x\<newline>'' [v] kk = Some (fold putc (num_str 16 v @ [0x0A]) kk)" for v kk
    using print_items [of "[Hex v, Lit 10]" "''%x\<newline>''" "[v]" kk] by (simp add: chars_def)
  have c: "tss_ss0 a = tss_ss0 b \<and> tss_esp0 a = tss_esp0 b" if "core a = core b" for a b
    using arg_cong [OF that, of tss_ss0] arg_cong [OF that, of tss_esp0] by (simp add: core_def)
  have t: "tss_ss0 (putc v kk) = tss_ss0 kk \<and> tss_esp0 (putc v kk) = tss_esp0 kk" "tss_ss0 (clear kk) = tss_ss0 kk \<and> tss_esp0 (clear kk) = tss_esp0 kk"
    "tss_ss0 (fold putc cs kk) = tss_ss0 kk \<and> tss_esp0 (fold putc cs kk) = tss_esp0 kk" for v cs kk
    by (rule c, simp)+ (rule c [OF fold_putc_core])
  show ?thesis
    unfolding exception_report_def p1 Option.bind.simps p2
    by (simp add: PAGE_FAULT_def pf px) (simp add: k2_def k1_def t)
qed

theorem exception_report_names_witness:
  "exception_report (\<lambda>_. 0x600000) 0x08C00004 14 (demo_kernel\<lparr>mem := store_bytes (\<lambda>_. 0) 0x600000 (chars ''Page Fault'')\<rparr>)
   = Some (fold putc (chars ''An exception has occurred:\<newline>Page Fault\<newline>Page fault occur at 08C00004\<newline>'')
       (clear (demo_kernel\<lparr>mem := store_bytes (\<lambda>_. 0) 0x600000 (chars ''Page Fault'')\<rparr>)))"
proof -
  let ?k = "demo_kernel\<lparr>mem := store_bytes (\<lambda>_. 0) 0x600000 (chars ''Page Fault'')\<rparr>"
  have c: "console_ok ?k" using demo_console_ok by (simp add: console_ok_def)
  have e: "exp_msg ! 14 = ''Page Fault''" by (simp add: exp_msg_def)
  have "unat (0x600000 + of_nat i :: addr) = 0x600000 + i" if "i \<le> 10" for i using unat_plus_of_nat [of "0x600000 :: addr" i] that by simp
  then have m: "message_at 0x600000 14 (mem ?k)" by (simp add: message_at_def e chars_def bytes_at_Suc screen_def)
  have h: "hex8_str 0x08C00004 = chars ''08C00004''"
    by (simp add: hex8_str_def num_str_def digits_of_def lsd.simps itoa_lookup_def chars_def)
  show ?thesis using exception_report_names [OF c, of 14 "\<lambda>_. 0x600000" "0x08C00004"] m e h by (simp add: chars_def)
qed

section \<open>From power-on\<close>

lemma entry_outcome:
  assumes "boot_globals k" and "entry e magic mbi g k = (g', Iret eip cs esp ss k0)"
  shows "kernel_ok k0 \<and> magic = MULTIBOOT_BOOTLOADER_MAGIC \<and> g' = init_descriptors e g"
proof (cases "magic = MULTIBOOT_BOOTLOADER_MAGIC")
  case False
  then show ?thesis using assms(2) by (simp add: entry_def Let_def split: option.splits)
next
  case True
  have b0: "boot_globals (clear k)" by (rule boot_globals_quiet [OF assms(1) quiet_clear])
  obtain a k1 where k1: "report_modules mbi (clear k) = Some (a, k1)"
    using assms(2) True by (cases "report_modules mbi (clear k)") (auto simp: entry_def Let_def)
  have b1: "boot_globals k1" by (rule boot_globals_quiet [OF b0 report_modules_quiet [OF k1]])
  have nf: "\<not> (CHECK_FLAG (field k1 mbi 0) 4 \<and> CHECK_FLAG (field k1 mbi 0) 5)"
    using assms(2) True k1 by (auto simp: entry_def Let_def split: option.splits if_splits)
  then obtain k2 where k2: "report_sections mbi k1 = Some k2"
    using assms(2) True k1 by (cases "report_sections mbi k1") (auto simp: entry_def Let_def)
  have b2: "boot_globals k2" by (rule boot_globals_quiet [OF b1 report_sections_quiet [OF k2]])
  have "g' = init_descriptors e g" "launch e a k2 = Iret eip cs esp ss k0"
    using assms(2) True k1 k2 nf by (auto simp: entry_def Let_def)
  then show ?thesis using launch_outcome [OF b2] True by blast
qed

section \<open>The module report ends\<close>

lemma print_byte: "\<exists>k'. print ''0x%x '' [v] k = Some k'"
  using print_items [of "[Lit 0x30, Lit 0x78, Hex v, Lit 0x20]" "''0x%x ''" "[v]" k] by (simp add: chars_def)

lemma print_module_line:
  "\<exists>k'. print ''Module %d loaded at address: 0x%#x\<newline>'' [n, v] k = Some k'" "\<exists>k'. print ''Module %d ends at address: 0x%#x\<newline>'' [n, v] k = Some k'"
  using print_items [of "map Lit (chars ''Module '') @ [Dec n] @ map Lit (chars '' loaded at address: 0x'') @ [Hex8 v, Lit 10]"
      "''Module %d loaded at address: 0x%#x\<newline>''" "[n, v]" k]
    print_items [of "map Lit (chars ''Module '') @ [Dec n] @ map Lit (chars '' ends at address: 0x'') @ [Hex8 v, Lit 10]"
      "''Module %d ends at address: 0x%#x\<newline>''" "[n, v]" k]
  by (simp_all add: chars_def)

lemma print_plain:
  "\<exists>k'. print ''First few bytes of module:\<newline>'' [] k = Some k'" "\<exists>k'. print ''\<newline>'' [] k = Some k'"
  using printf_literal [of "''First few bytes of module:\<newline>''" "\<lambda>i. [] ! i" k] printf_literal [of "''\<newline>''" "\<lambda>i. [] ! i" k]
  by (simp_all add: print_def chars_def)

lemma first_bytes_returns: "\<exists>k'. first_bytes a k = Some k'"
proof -
  have "\<exists>k'. fold (\<lambda>i r. Option.bind r (\<lambda>k. print ''0x%x '' [scast (mem k (a + of_nat i))] k)) is (Some k) = Some k'" for "is" k
  proof (induction "is" arbitrary: k)
    case (Cons i js)
    obtain k1 where "print ''0x%x '' [scast (mem k (a + of_nat i))] k = Some k1" using print_byte by blast
    then show ?case using Cons.IH [of k1] by simp
  qed simp
  then show ?thesis by (simp add: first_bytes_def)
qed

lemma module_entry:
  obtains k' where "quiet k k'" and "n < field k mbi 20 \<Longrightarrow> print_modules mbi n md k = print_modules mbi (n + 1) (md + 16) k'"
proof -
  obtain k1 where k1: "print ''Module %d loaded at address: 0x%#x\<newline>'' [n, field k md 0] k = Some k1" using print_module_line(1) by blast
  obtain k2 where k2: "print ''Module %d ends at address: 0x%#x\<newline>'' [n, field k1 md 4] k1 = Some k2" using print_module_line(2) by blast
  obtain k3 where k3: "print ''First few bytes of module:\<newline>'' [] k2 = Some k3" using print_plain(1) by blast
  obtain k4 where k4: "first_bytes (field k3 md 0) k3 = Some k4" using first_bytes_returns by blast
  obtain k5 where k5: "print ''\<newline>'' [] k4 = Some k5" using print_plain(2) by blast
  have "quiet k k5"
    using print_quiet [OF k1] print_quiet [OF k2] print_quiet [OF k3] first_bytes_quiet [OF k4] print_quiet [OF k5] by (simp add: quiet_def)
  moreover have "print_modules mbi n md k = print_modules mbi (n + 1) (md + 16) k5" if "n < field k mbi 20"
    using that by (subst print_modules.simps) (simp add: k1 k2 k3 k4 k5)
  ultimately show thesis using that by blast
qed

text \<open>C40: the loop of \<open>entry\<close> over the boot modules ends for every module count the boot loader can
  report, as long as the count itself is not in video memory, and it changes nothing but the screen.\<close>

theorem module_report_terminates:
  assumes "console_ok k" and "\<forall>i<4. mbi + 20 + of_nat i \<notin> screen"
  shows "\<exists>k'. print_modules mbi n md k = Some k' \<and> console_ok k' \<and> core k' = core k \<and> (\<forall>a. a \<notin> screen \<longrightarrow> mem k' a = mem k a)"
  using assms(1)
proof (induction "unat (field k mbi 20) - unat n" arbitrary: n md k rule: less_induct)
  case less
  show ?case
  proof (cases "n < field k mbi 20")
    case False
    then show ?thesis using less.prems by (subst print_modules.simps) simp
  next
    case True
    obtain k1 where k1: "quiet k k1" "print_modules mbi n md k = print_modules mbi (n + 1) (md + 16) k1"
      using module_entry [of k n mbi md] True by blast
    have c1: "console_ok k1" "\<forall>a. a \<notin> screen \<longrightarrow> mem k1 a = mem k a" "core k1 = core k" using k1(1) less.prems by (simp_all add: quiet_def)
    have "mem k1 (mbi + 20 + of_nat i) = mem k (mbi + 20 + of_nat i)" if "i < 4" for i using c1(2) assms(2) that by blast
    from this [of 0] this [of 1] this [of 2] this [of 3] have f: "field k1 mbi 20 = field k mbi 20" by (simp add: field_def load32_def)
    have "unat n + 1 < 4294967296" using True u32_lt [of "field k mbi 20"] by (simp add: word_less_nat_alt)
    then have "unat (n + 1) = unat n + 1" using unat_plus_of_nat [of n 1] by simp
    then have "unat (field k1 mbi 20) - unat (n + 1) < unat (field k mbi 20) - unat n" using True f by (simp add: word_less_nat_alt)
    from less.hyps [OF this c1(1)] show ?thesis using k1(2) c1(2,3) by auto
  qed
qed

theorem module_report_terminates_witness: "\<exists>k'. print_modules 0x9000 0 0x9100 demo_kernel = Some k'"
proof -
  have "\<forall>i<4. (0x9000 + 20 + of_nat i :: addr) \<notin> screen"
  proof (intro allI impI)
    fix i :: nat
    assume "i < 4"
    then have "i = 0 \<or> i = 1 \<or> i = 2 \<or> i = 3" by arith
    then show "(0x9000 + 20 + of_nat i :: addr) \<notin> screen" by (auto simp: screen_def)
  qed
  then show ?thesis using module_report_terminates [OF demo_console_ok, of "0x9000" 0 "0x9100"] by blast
qed

end
