(* ===== verification/User_Lib.thy ===== *)
theory User_Lib
  imports Kernel_Boot
begin

text \<open>
  The user level: the support library \<open>ece391support.c\<close> and the system call wrappers of
  \<open>ece391syscall.S\<close>.  User code reads and writes memory through the page tables at user level;
  \<open>None\<close> is a run that does not return: a fault, an endless loop, a system call that does not come
  back.  \<open>lit\<close> is where the linker put the string literals of a program, \<open>ker\<close> what the kernel's
  stack holds at a system call.
\<close>

section \<open>Memory\<close>

definition uread :: "kernel \<Rightarrow> addr \<Rightarrow> byte option" where
  "uread k a = map_option (mem k) (translate (pg k) True a)"

definition uwrite :: "addr \<Rightarrow> byte \<Rightarrow> kernel \<Rightarrow> kernel option" where
  "uwrite a b k = map_option (\<lambda>p. k\<lparr>mem := (mem k)(p := b)\<rparr>) (translate (pg k) True a)"

record user_env =
  ker :: call_frame
  lit :: "string \<Rightarrow> addr"

section \<open>System calls\<close>

definition DO_CALL :: "user_env \<Rightarrow> event list \<Rightarrow> u32 \<Rightarrow> u32 \<Rightarrow> u32 \<Rightarrow> u32 \<Rightarrow> kernel \<Rightarrow> (int \<times> kernel) option" where
  "DO_CALL e evs number ebx ecx edx k =
     (case dispatch_syscall (ker e) evs number ebx ecx edx k of Returns v k \<Rightarrow> Some (v, k) | _ \<Rightarrow> None)"

definition ece391_read :: "user_env \<Rightarrow> event list \<Rightarrow> int \<Rightarrow> addr \<Rightarrow> int \<Rightarrow> kernel \<Rightarrow> (int \<times> kernel) option" where
  "ece391_read e evs fd buf nbytes = DO_CALL e evs 3 (word_of_int fd) buf (word_of_int nbytes)"

definition ece391_write :: "user_env \<Rightarrow> int \<Rightarrow> addr \<Rightarrow> int \<Rightarrow> kernel \<Rightarrow> (int \<times> kernel) option" where
  "ece391_write e fd buf nbytes = DO_CALL e [] 4 (word_of_int fd) buf (word_of_int nbytes)"

definition ece391_open :: "user_env \<Rightarrow> addr \<Rightarrow> kernel \<Rightarrow> (int \<times> kernel) option" where
  "ece391_open e filename = DO_CALL e [] 5 filename 0 0"

definition ece391_close :: "user_env \<Rightarrow> int \<Rightarrow> kernel \<Rightarrow> (int \<times> kernel) option" where
  "ece391_close e fd = DO_CALL e [] 6 (word_of_int fd) 0 0"

definition ece391_getargs :: "user_env \<Rightarrow> addr \<Rightarrow> int \<Rightarrow> kernel \<Rightarrow> (int \<times> kernel) option" where
  "ece391_getargs e buf nbytes = DO_CALL e [] 7 buf (word_of_int nbytes) 0"

text \<open>\<open>child\<close>: the run of the new program from its entry point to the return of \<open>execute\<close>.\<close>

definition ece391_execute ::
  "user_env \<Rightarrow> (u32 \<Rightarrow> kernel \<Rightarrow> (int \<times> kernel) option) \<Rightarrow> addr \<Rightarrow> kernel \<Rightarrow> (int \<times> kernel) option" where
  "ece391_execute e child command k =
     (case dispatch_syscall (ker e) [] 2 command 0 0 k of
        Returns v k \<Rightarrow> Some (v, k)
      | Iret eip cs esp ss k \<Rightarrow> child eip k
      | _ \<Rightarrow> None)"

text \<open>\<open>_start\<close>: \<open>main\<close>, then \<open>halt\<close> with its result.\<close>

definition user_start :: "user_env \<Rightarrow> (kernel \<Rightarrow> (int \<times> kernel) option) \<Rightarrow> kernel \<Rightarrow> outcome" where
  "user_start e main k =
     (case main k of None \<Rightarrow> Undefined | Some (v, k) \<Rightarrow> dispatch_syscall (ker e) [] 1 (word_of_int v) 0 0 k)"

section \<open>Strings\<close>

partial_function (option) ece391_strlen_from :: "kernel \<Rightarrow> addr \<Rightarrow> u32 \<Rightarrow> u32 option" where
  "ece391_strlen_from k s len =
     Option.bind (uread k s) (\<lambda>c. if c \<noteq> 0 then ece391_strlen_from k (s + 1) (len + 1) else Some len)"

definition ece391_strlen :: "kernel \<Rightarrow> addr \<Rightarrow> u32 option" where
  "ece391_strlen k s = ece391_strlen_from k s 0"

partial_function (option) ece391_strcpy :: "addr \<Rightarrow> addr \<Rightarrow> kernel \<Rightarrow> kernel option" where
  "ece391_strcpy dst src k =
     Option.bind (uread k src) (\<lambda>c.
     Option.bind (uwrite dst c k) (\<lambda>k. if c \<noteq> 0 then ece391_strcpy (dst + 1) (src + 1) k else Some k))"

definition ece391_fdputs :: "user_env \<Rightarrow> int \<Rightarrow> addr \<Rightarrow> kernel \<Rightarrow> kernel option" where
  "ece391_fdputs e fd s k =
     Option.bind (ece391_strlen k s) (\<lambda>n. map_option snd (ece391_write e fd s (uint n) k))"

partial_function (option) ece391_strcmp :: "kernel \<Rightarrow> addr \<Rightarrow> addr \<Rightarrow> int option" where
  "ece391_strcmp k s1 s2 =
     Option.bind (uread k s1) (\<lambda>c1. Option.bind (uread k s2) (\<lambda>c2.
     if c1 = c2 then if c1 = 0 then Some 0 else ece391_strcmp k (s1 + 1) (s2 + 1)
     else Some (uint c1 - uint c2)))"

partial_function (option) ece391_strncmp_loop :: "kernel \<Rightarrow> addr \<Rightarrow> addr \<Rightarrow> u32 \<Rightarrow> int option" where
  "ece391_strncmp_loop k s1 s2 n =
     Option.bind (uread k s1) (\<lambda>c1. Option.bind (uread k s2) (\<lambda>c2.
     if c1 = c2 then if c1 = 0 \<or> n - 1 = 0 then Some 0 else ece391_strncmp_loop k (s1 + 1) (s2 + 1) (n - 1)
     else Some (uint c1 - uint c2)))"

definition ece391_strncmp :: "kernel \<Rightarrow> addr \<Rightarrow> addr \<Rightarrow> u32 \<Rightarrow> int option" where
  "ece391_strncmp k s1 s2 n = (if n = 0 then Some 0 else ece391_strncmp_loop k s1 s2 n)"

partial_function (option) ece391_strrev_loop :: "addr \<Rightarrow> int \<Rightarrow> int \<Rightarrow> kernel \<Rightarrow> kernel option" where
  "ece391_strrev_loop s beg fin k =
     (if beg < fin
      then Option.bind (uread k (s + word_of_int fin)) (\<lambda>tmp.
           Option.bind (uread k (s + word_of_int beg)) (\<lambda>c.
           Option.bind (uwrite (s + word_of_int fin) c k) (\<lambda>k.
           Option.bind (uwrite (s + word_of_int beg) tmp k) (\<lambda>k.
           ece391_strrev_loop s (beg + 1) (fin - 1) k))))
      else Some k)"

definition ece391_strrev :: "addr \<Rightarrow> kernel \<Rightarrow> kernel option" where
  "ece391_strrev s k =
     Option.bind (ece391_strlen k s) (\<lambda>n.
     let fin = sint (n - 1) in if fin \<le> 0 then Some k else ece391_strrev_loop s 0 fin k)"

definition ece391_lookup :: "byte list" where
  "ece391_lookup = chars ''0123456789ABCDEFGHIJKLMNOPQRSTUVWXYZ'' @ [0]"

partial_function (option) ece391_itoa_loop :: "u32 \<Rightarrow> u32 \<Rightarrow> addr \<Rightarrow> kernel \<Rightarrow> (addr \<times> kernel) option" where
  "ece391_itoa_loop newval radix newbuf k =
     (if newval > 0
      then if radix = 0 \<or> length ece391_lookup \<le> unat (newval mod radix) then None
           else Option.bind (uwrite newbuf (ece391_lookup ! unat (newval mod radix)) k) (\<lambda>k.
                ece391_itoa_loop (newval div radix) radix (newbuf + 1) k)
      else Some (newbuf, k))"

definition ece391_itoa :: "u32 \<Rightarrow> addr \<Rightarrow> u32 \<Rightarrow> kernel \<Rightarrow> kernel option" where
  "ece391_itoa val buf radix k =
     (if val = 0 then Option.bind (uwrite buf 0x30 k) (uwrite (buf + 1) 0)
      else Option.bind (ece391_itoa_loop val radix buf k) (\<lambda>(newbuf, k).
           Option.bind (uwrite newbuf 0 k) (ece391_strrev buf)))"


section \<open>What is displayed\<close>

text \<open>The screen with its backup pages, the cursors and the ports written.\<close>

definition display :: "kernel \<Rightarrow> mem \<times> (int \<times> int) list \<times> (u16 \<times> byte) list \<times> int \<times> int" where
  "display k = (\<lambda>a. if a \<in> screen then mem k a else 0, map (\<lambda>t. (cursor_x t, cursor_y t)) (terminals k), io k,
     cur_term_id k, active_term_idx k)"

definition agree :: "addr set \<Rightarrow> mem \<Rightarrow> mem \<Rightarrow> bool" where
  "agree S m m' \<longleftrightarrow> (\<forall>a\<in>S. m a = m' a)"

lemma agree_upd: "agree S m m' \<Longrightarrow> v = v' \<Longrightarrow> agree S (m(a := v)) (m'(a := v'))"
  by (simp add: agree_def)

lemma display_iff:
  "display k = display k' \<longleftrightarrow> agree screen (mem k) (mem k')
     \<and> map (\<lambda>t. (cursor_x t, cursor_y t)) (terminals k) = map (\<lambda>t. (cursor_x t, cursor_y t)) (terminals k')
     \<and> io k = io k' \<and> cur_term_id k = cur_term_id k' \<and> active_term_idx k = active_term_idx k'"
  by (auto simp: display_def agree_def fun_eq_iff)

lemma for_loop_rel:
  assumes "R s s'" and "\<And>i s s'. a \<le> i \<Longrightarrow> i < b \<Longrightarrow> R s s' \<Longrightarrow> R (f i s) (g i s')"
  shows "R (for_loop a b f s) (for_loop a b g s')"
  using assms(2)
proof (induction b)
  case (Suc b)
  then show ?case by (cases "a \<le> b") (simp_all add: assms(1))
qed (simp add: assms(1))

lemma agree_newline_fill: "agree S m m' \<Longrightarrow> agree S (newline_fill base y x m) (newline_fill base y x m')"
proof (induction base y x m arbitrary: m' rule: newline_fill.induct)
  case (1 base y x m)
  have step: "newline_fill base y x n = (if x < NUM_COLS then newline_fill base y (x + 1) (n(cell base (NUM_COLS * y + (x + 1)) := 0)) else n)" for n
    by (rule newline_fill.simps)
  show ?case unfolding step [of m] step [of m'] using "1.IH" [OF _ agree_upd [OF "1.prems" refl]] "1.prems" by (simp del: fun_upd_apply)
qed

lemma agree_scroll:
  assumes "low_page base" and "page base \<subseteq> S" and "agree S m m'"
  shows "agree S (scroll_cells base m) (scroll_cells base m')"
  unfolding scroll_cells_def Let_def
proof (intro for_loop_rel [where R = "agree S"])
  fix i j :: nat and m m' :: mem
  assume ij: "i < 24" "j < 80" and m: "agree S m m'"
  have "cell base (int (i * 80 + j) + NUM_COLS) \<in> page base"
    using ij by (intro cell_in_page [OF assms(1)]) (simp_all add: NUM_COLS_def)
  then have "m (cell base (int (i * 80 + j) + NUM_COLS)) = m' (cell base (int (i * 80 + j) + NUM_COLS))"
    using m assms(2) by (auto simp: agree_def)
  then show "agree S (m(cell base (int (i * 80 + j)) := m (cell base (int (i * 80 + j) + NUM_COLS)), cell base (int (i * 80 + j)) + 1 := ATTRIB))
     (m'(cell base (int (i * 80 + j)) := m' (cell base (int (i * 80 + j) + NUM_COLS)), cell base (int (i * 80 + j)) + 1 := ATTRIB))"
    by (intro agree_upd m) simp_all
qed (intro agree_upd assms(3) refl | assumption)+

lemma agree_put_cells:
  "low_page base \<Longrightarrow> page base \<subseteq> S \<Longrightarrow> agree S m m' \<Longrightarrow> agree S (put_cells c base x y m) (put_cells c base x y m')"
  unfolding put_cells_def Let_def by (auto intro!: agree_scroll agree_newline_fill agree_upd)

lemma display_putc:
  assumes "console_ok k" and "console_ok k'" and "display k = display k'"
  shows "display (putc c k) = display (putc c k')"
proof -
  let ?t = "cur_term_id k"
  note d = assms(3) [unfolded display_iff]
  have i: "nat ?t < length (terminals k)" "nat ?t < length (terminals k')" using assms(1,2) d by (auto simp: console_ok_def)
  have "(cursor_x (tm k ?t), cursor_y (tm k ?t)) = (cursor_x (tm k' ?t), cursor_y (tm k' ?t))"
    using i arg_cong [of _ _ "\<lambda>xs. xs ! nat ?t", OF conjunct1 [OF conjunct2 [OF d]]] unfolding tm_def by simp
  then have c: "cursor_x (tm k' (cur_term_id k')) = cursor_x (tm k ?t)" "cursor_y (tm k' (cur_term_id k')) = cursor_y (tm k ?t)"
    using d by simp_all
  have v: "video_mem_local k = video_mem_local k'" using d by (simp add: video_mem_local_def)
  have t: "?t = cur_term_id k'" "active_term_idx k = active_term_idx k'" using d by simp_all
  have "agree screen (put_cells c (video_mem_local k') x y (mem k)) (put_cells c (video_mem_local k') x y (mem k'))" for x y
    using d low_page_local [OF assms(2)] local_screen [OF assms(2)] by (intro agree_put_cells) simp_all
  moreover have "map (\<lambda>t. (cursor_x t, cursor_y t)) ((terminals k)[nat i := set_cursor p (tm k i)])
      = map (\<lambda>t. (cursor_x t, cursor_y t)) ((terminals k')[nat i := set_cursor p (tm k' i)])" for p i
    using d by (simp add: map_update)
  ultimately show ?thesis
    unfolding putc_eq [OF assms(1) c] putc_eq [OF assms(2) refl refl] v t Let_def using d
    by (simp add: display_iff update_cursor_def Let_def outb_def upd_tm_def tm_def)
qed

section \<open>The file system image\<close>

text \<open>The boot loader puts the image into the kernel's page, next to the kernel.\<close>

definition kernel_page_addrs :: "addr set" where
  "kernel_page_addrs = {a. 0x400000 \<le> unat a \<and> unat a < 0x800000}"

definition image_ok :: "fs \<Rightarrow> bool" where
  "image_ok fs \<longleftrightarrow> 0x400000 \<le> unat (file_system_addr fs) \<and> unat (dentry_num fs) \<le> 63
     \<and> unat (file_system_addr fs) + 4096 * (1 + unat (inode_num fs) + unat (block_num fs)) \<le> 0x800000"

lemma fs_image_addr:
  assumes "image_ok fs" and "x < 4096 * (1 + unat (inode_num fs) + unat (block_num fs))"
  shows "file_system_addr fs + of_nat x \<in> kernel_page_addrs"
proof -
  have "unat (file_system_addr fs) + x < 0x800000" using assms by (simp add: image_ok_def)
  moreover from this have "unat (file_system_addr fs + of_nat x) = unat (file_system_addr fs) + x"
    by (intro unat_plus_of_nat) simp
  ultimately show ?thesis using assms(1) by (simp add: kernel_page_addrs_def image_ok_def)
qed

lemma agree_load32:
  assumes "image_ok fs" and "agree kernel_page_addrs m m'"
    and "x + 3 < 4096 * (1 + unat (inode_num fs) + unat (block_num fs))" and "a = file_system_addr fs + of_nat x"
  shows "load32 m' a = load32 m a"
proof -
  have "m' (a + of_nat i) = m (a + of_nat i)" if "i \<le> 3" for i
    using fs_image_addr [OF assms(1), of "x + i"] assms(2-4) that by (simp add: agree_def add.assoc)
  from this [of 0] this [of 1] this [of 2] this [of 3] show ?thesis by (simp add: load32_def)
qed

lemma inode_at:
  assumes "inode < inode_num fs"
  shows "inode_addr fs inode = file_system_addr fs + of_nat (4096 * (unat inode + 1))"
    and "4096 * (unat inode + 1) + 4096 \<le> 4096 * (1 + unat (inode_num fs) + unat (block_num fs))"
  using assms by (simp_all add: inode_addr_def word_less_nat_alt algebra_simps)

lemma agree_inode:
  assumes "image_ok fs" and "agree kernel_page_addrs m m'" and "inode < inode_num fs"
  shows "inode_length fs m' inode = inode_length fs m inode"
    and "j < 1023 \<Longrightarrow> inode_block fs m' inode (of_nat j) = inode_block fs m inode (of_nat j)"
proof -
  note a = inode_at [OF assms(3)]
  show "inode_length fs m' inode = inode_length fs m inode"
    unfolding inode_length_def by (rule agree_load32 [OF assms(1,2) _ a(1)]) (use a(2) in linarith)
  show "inode_block fs m' inode (of_nat j) = inode_block fs m inode (of_nat j)" if "j < 1023"
    unfolding inode_block_def
  proof (rule agree_load32 [OF assms(1,2)])
    show "4096 * (unat inode + 1) + 4 + 4 * j + 3 < 4096 * (1 + unat (inode_num fs) + unat (block_num fs))"
      using a(2) that by linarith
  qed (simp add: a(1))
qed

lemma agree_file:
  assumes "image_ok fs" and "agree kernel_page_addrs m m'" and "inode < inode_num fs" and "i < 1023 * 4096"
  shows "block_ok fs m' inode i = block_ok fs m inode i"
    and "block_ok fs m inode i \<Longrightarrow> file_byte fs m' inode i = file_byte fs m inode i"
proof -
  have j: "i div 4096 < 1023" using assms(4) by (simp add: less_mult_imp_div_less)
  note b = agree_inode(2) [OF assms(1-3) j]
  show "block_ok fs m' inode i = block_ok fs m inode i" by (simp add: block_ok_def b)
  let ?b = "inode_block fs m inode (of_nat (i div 4096))"
  assume "block_ok fs m inode i"
  then have "unat ?b < unat (block_num fs)" by (simp add: block_ok_def word_less_nat_alt)
  then have "4096 * (1 + unat (inode_num fs) + unat ?b) + i mod 4096 < 4096 * (1 + unat (inode_num fs) + unat (block_num fs))"
    by (simp add: algebra_simps)
  from fs_image_addr [OF assms(1) this]
  have "data_addr fs ?b + of_nat (i mod 4096) \<in> kernel_page_addrs" by (simp add: data_addr_def algebra_simps)
  then show "file_byte fs m' inode i = file_byte fs m inode i" using assms(2) by (simp add: file_byte_def b agree_def)
qed

lemma strncmp_from_cong: "(\<And>i. i < n \<Longrightarrow> s2 i = s2' i) \<Longrightarrow> strncmp_from s1 s2 n i = strncmp_from s1 s2' n i"
  by (induction s1 s2 n i rule: strncmp_from.induct) (subst (1 2) strncmp_from.simps, simp)

lemma agree_dentry:
  assumes "image_ok fs" and "agree kernel_page_addrs m m'" and "i < dentry_num fs"
  shows "j < 64 \<Longrightarrow> m' (dentry_addr fs i + of_nat j) = m (dentry_addr fs i + of_nat j)"
    and "load_dentry m' (dentry_addr fs i) = load_dentry m (dentry_addr fs i)"
proof -
  have i: "unat i < 63" using assms(1,3) by (simp add: image_ok_def word_less_nat_alt)
  have a: "dentry_addr fs i + of_nat j = file_system_addr fs + of_nat (64 * (unat i + 1) + j)" for j
    by (simp add: dentry_addr_def algebra_simps)
  have at: "m' (dentry_addr fs i + of_nat j) = m (dentry_addr fs i + of_nat j)" if "j < 64" for j
  proof -
    have "64 * (unat i + 1) + j < 4096 * (1 + unat (inode_num fs) + unat (block_num fs))" using that i by (simp add: algebra_simps)
    from fs_image_addr [OF assms(1) this] show ?thesis using assms(2) by (simp only: a agree_def)
  qed
  then show "j < 64 \<Longrightarrow> m' (dentry_addr fs i + of_nat j) = m (dentry_addr fs i + of_nat j)" .
  have "bytes_at m' (dentry_addr fs i + of_nat off) n = bytes_at m (dentry_addr fs i + of_nat off) n" if "off + n \<le> 64" for off n
    by (rule bytes_at_cong) (use that at in \<open>simp add: add.assoc flip: of_nat_add\<close>)
  from this [of 0 32] this [of 40 24]
  have "bytes_at m' (dentry_addr fs i) 32 = bytes_at m (dentry_addr fs i) 32"
    "bytes_at m' (dentry_addr fs i + 40) 24 = bytes_at m (dentry_addr fs i + 40) 24" by simp_all
  moreover have "load32 m' (dentry_addr fs i + of_nat off) = load32 m (dentry_addr fs i + of_nat off)" if "off + 3 < 64" for off
    using that i by (intro agree_load32 [OF assms(1,2) _ a]) simp
  from this [of 32] this [of 36] have "load32 m' (dentry_addr fs i + 32) = load32 m (dentry_addr fs i + 32)"
    "load32 m' (dentry_addr fs i + 36) = load32 m (dentry_addr fs i + 36)" by simp_all
  ultimately show "load_dentry m' (dentry_addr fs i) = load_dentry m (dentry_addr fs i)"
    by (simp add: load_dentry_def NAME_LENGTH_MAX_def RESERVE_LENGTH_def)
qed

lemma agree_lookup:
  assumes "image_ok fs" and "agree kernel_page_addrs m m'"
  shows "read_dentry_by_name fs m' f d = read_dentry_by_name fs m f d"
proof -
  have "find_dentry fs m' g d i = find_dentry fs m g d i" for g d i
    using assms
  proof (induction fs m g d i rule: find_dentry.induct)
    case (1 fs m g d i)
    show ?case
    proof (cases "i < dentry_num fs")
      case True
      have "strncmp g (at m' (dentry_addr fs i)) (of_nat NAME_LENGTH_MAX) = strncmp g (at m (dentry_addr fs i)) (of_nat NAME_LENGTH_MAX)"
        unfolding strncmp_def
        by (rule strncmp_from_cong) (use agree_dentry(1) [OF "1.prems" True] in \<open>simp add: at_def NAME_LENGTH_MAX_def\<close>)
      then show ?thesis
        using "1.IH" [OF True _ "1.prems"] agree_dentry(2) [OF "1.prems" True] True
        by (subst (1 2) find_dentry.simps) simp
    qed (subst (1 2) find_dentry.simps, simp)
  qed
  then have "find_dentry fs m' = find_dentry fs m" by (intro ext)
  then show ?thesis unfolding read_dentry_by_name_def by (simp only:)
qed

section \<open>The memory of the running program\<close>

definition in_window :: "addr \<Rightarrow> nat \<Rightarrow> bool" where
  "in_window a n \<longleftrightarrow> unat a div 4194304 = 32 \<and> unat a mod 4194304 + n \<le> 4194304"

definition phys :: "kernel \<Rightarrow> addr \<Rightarrow> addr" where
  "phys k a = of_nat (0x800000 + 0x400000 * last (cur_stack k) + unat a mod 0x400000)"

lemma current_pid:
  assumes "kernel_ok k"
  shows "last (cur_stack k) < 6" and "valid_pid k (cur_pid k)" and "nat (cur_pid k) = last (cur_stack k)"
proof -
  have pr: "proc_ok k" and st: "cur_stack k \<noteq> []" using assms by (simp_all add: kernel_ok_def base_ok_def)
  show lt: "last (cur_stack k) < 6"
    using stack_mem_lt [OF pr, of "cur_idx k"] st proc_ok_cur(1) [OF pr] proc_okD(2) [OF pr] by (simp add: cur_stack_def)
  have "cur_pid k = int (last (cur_stack k))" by (rule cur_pid_last [OF pr st])
  then show "valid_pid k (cur_pid k)" "nat (cur_pid k) = last (cur_stack k)"
    using lt proc_okD(1) [OF pr] by simp_all
qed

lemma window_at:
  assumes "kernel_ok k" and "in_window a n" and "i < n"
  shows "translate (pg k) user (a + of_nat i) = Some (phys k a + of_nat i)"
    and "unat (phys k a + of_nat i) = 0x800000 + 0x400000 * last (cur_stack k) + unat a mod 0x400000 + i"
    and "in_window (a + of_nat i) (n - i)" and "phys k (a + of_nat i) = phys k a + of_nat i"
proof -
  let ?p = "last (cur_stack k)"
  have p: "paging_inv (pg k)" "window_of (pg k) ?p" using assms(1) by (simp_all add: kernel_ok_def base_ok_def active_proc_def)
  note lt = current_pid(1) [OF assms(1)]
  have w: "unat a div 4194304 = 32" "unat a mod 4194304 + i < 4194304" using assms(2,3) by (auto simp: in_window_def)
  have d: "unat a = 32 * 4194304 + unat a mod 4194304" using w(1) div_mult_mod_eq [of "unat a" 4194304] by simp
  then have "unat a + i < 4294967296" using w(2) by linarith
  then have u: "unat (a + of_nat i) = 32 * 4194304 + (unat a mod 4194304 + i)" using d unat_plus_of_nat [of a i] by simp
  then have q: "unat (a + of_nat i) div 4194304 = 32" "unat (a + of_nat i) mod 4194304 = unat a mod 4194304 + i"
    using w(2) by (simp_all only: div_mult_self3 mod_mult_self3 div_less mod_less)
  have b: "0x800000 + 0x400000 * ?p + unat a mod 0x400000 + i < 4294967296" using lt w(2) by linarith
  have ph: "phys k a + of_nat i = of_nat (0x800000 + 0x400000 * ?p + unat a mod 0x400000 + i)" by (simp add: phys_def)
  show up: "unat (phys k a + of_nat i) = 0x800000 + 0x400000 * ?p + unat a mod 0x400000 + i"
    unfolding ph by (rule unat_of_nat_u32 [OF b])
  from window_translate [OF p lt q(1), of user] obtain pa where
    pa: "translate (pg k) user (a + of_nat i) = Some pa" "unat pa = 0x800000 + 0x400000 * ?p + unat (a + of_nat i) mod 0x400000"
    by blast
  have "unat pa = unat (phys k a + of_nat i)" using pa(2) up q(2) by simp
  then have "pa = phys k a + of_nat i" by (simp only: word_unat_eq_iff)
  then show "translate (pg k) user (a + of_nat i) = Some (phys k a + of_nat i)" using pa(1) by simp
  show "in_window (a + of_nat i) (n - i)" using q assms(2,3) by (simp add: in_window_def)
  show "phys k (a + of_nat i) = phys k a + of_nat i" by (simp add: phys_def q)
qed

lemma window_lin: "kernel_ok k \<Longrightarrow> in_window a n \<Longrightarrow> linear k a (phys k a) n"
  by (simp add: linear_def window_at(1))

lemma window_out:
  assumes "kernel_ok k" and "in_window a n" and "i < n"
  shows "phys k a + of_nat i \<notin> screen" and "phys k a + of_nat i \<notin> kernel_page_addrs"
  using window_at(2) [OF assms] by (simp_all add: screen_def kernel_page_addrs_def)

lemma in_window_mono: "in_window a n \<Longrightarrow> m \<le> n \<Longrightarrow> in_window a m"
  by (simp add: in_window_def)

lemma in_window_nonzero: "in_window a n \<Longrightarrow> a \<noteq> 0"
  by (auto simp: in_window_def)

section \<open>What a program does between two system calls\<close>

text \<open>
  A step of a user program keeps the invariant, its process, the file system, the kernel's page, the
  other processes, the arguments and the frame its process returns to;
  \<open>same_files fd\<close> further keeps the descriptors, except perhaps \<open>fd\<close>.
\<close>

definition user_step :: "kernel \<Rightarrow> kernel \<Rightarrow> bool" where
  "user_step k k' \<longleftrightarrow> kernel_ok k' \<and> cur_stack k' = cur_stack k \<and> filesys k' = filesys k
     \<and> agree kernel_page_addrs (mem k) (mem k') \<and> params (pcbs k' ! last (cur_stack k)) = params (pcbs k ! last (cur_stack k))
     \<and> ebp (pcbs k' ! last (cur_stack k)) = ebp (pcbs k ! last (cur_stack k)) \<and> (\<forall>r. r \<noteq> last (cur_stack k) \<longrightarrow> pcbs k' ! r = pcbs k ! r)
     \<and> prog_counter k' = prog_counter k \<and> program_exception_flag k' = program_exception_flag k"

definition same_files :: "int \<Rightarrow> kernel \<Rightarrow> kernel \<Rightarrow> bool" where
  "same_files fd k k' \<longleftrightarrow> (\<forall>i. 0 \<le> i \<and> i \<noteq> fd \<longrightarrow> fd_entry k' i = fd_entry k i)"

lemma user_step_trans: "user_step k k' \<Longrightarrow> user_step k' k'' \<Longrightarrow> user_step k k''"
  by (auto simp: user_step_def agree_def)

lemma user_step_phys: "user_step k k' \<Longrightarrow> phys k' a = phys k a"
  by (simp add: user_step_def phys_def)

lemma same_files_trans: "same_files fd k k' \<Longrightarrow> same_files fd k' k'' \<Longrightarrow> same_files fd k k''"
  by (simp add: same_files_def)

lemma same_files_entry: "same_files fd k k' \<Longrightarrow> 0 \<le> i \<Longrightarrow> i \<noteq> fd \<Longrightarrow> fd_entry k' i = fd_entry k i"
  by (simp add: same_files_def)

text \<open>Printing.\<close>

definition prints :: "byte list \<Rightarrow> kernel \<Rightarrow> kernel" where
  "prints cs k = fold putc (filter (\<lambda>c. c \<noteq> 0) cs) k"

lemma prints_simps [simp]: "prints [] k = k" "prints (cs @ ds) k = prints ds (prints cs k)"
  by (simp_all add: prints_def)

lemma fold_putc_frame:
  "core (fold putc cs k) = core k" "sys (fold putc cs k) = sys k"
  "kbd_ok k \<Longrightarrow> kbd_ok (fold putc cs k)"
  "console_ok k \<Longrightarrow> console_ok (fold putc cs k) \<and> (\<forall>a. a \<notin> screen \<longrightarrow> mem (fold putc cs k) a = mem k a)"
proof -
  show "core (fold putc cs k) = core k" "sys (fold putc cs k) = sys k" by (induction cs arbitrary: k) simp_all
  show "kbd_ok k \<Longrightarrow> kbd_ok (fold putc cs k)" by (induction cs arbitrary: k) (simp_all add: kbd_ok_putc)
  show "console_ok k \<Longrightarrow> console_ok (fold putc cs k) \<and> (\<forall>a. a \<notin> screen \<longrightarrow> mem (fold putc cs k) a = mem k a)"
  proof (induction cs arbitrary: k)
    case (Cons c cs)
    have "console_ok (putc c k)" "\<And>a. a \<notin> screen \<Longrightarrow> mem (putc c k) a = mem k a"
      using putc_laws(1,3) [OF Cons.prems] local_screen [OF Cons.prems] by blast+
    then show ?case using Cons.IH [of "putc c k"] by simp
  qed simp
qed

lemma kernel_console: "kernel_ok k \<Longrightarrow> console_ok k"
  by (simp add: kernel_ok_def base_ok_def kbd_ok_console)

lemma sys_step:
  assumes "kernel_ok k" and "kbd_ok k'" and "sys k' = sys k" and "agree kernel_page_addrs (mem k) (mem k')"
  shows "user_step k k'" and "same_files fd k k'"
proof -
  note f = sys_fields [OF assms(3)]
  have t: "length (terminals k') = length (terminals k)" using map_eq_imp_length_eq [OF f(10)] .
  have c: "cur_idx k < length (terminals k)" using assms(1) proc_ok_cur(1) by (simp add: kernel_ok_def base_ok_def)
  have "term_idle (terminals k' ! cur_idx k) = term_idle (terminals k ! cur_idx k)"
    using arg_cong [OF f(10), of "\<lambda>xs. xs ! cur_idx k"] c t by simp
  then have "term_view (terminals k' ! cur_idx k) = term_view (terminals k ! cur_idx k)" by (metis term_view_idle)
  from term_view_stack [OF this] have "cur_stack k' = cur_stack k" using f(7) by (simp add: cur_stack_def)
  then show "user_step k k'" using kernel_ok_sys [OF assms(1-3)] assms(4) f by (simp add: user_step_def)
  show "same_files fd k k'" using f by (simp add: same_files_def fd_entry_def)
qed

lemma prints_step:
  assumes "kernel_ok k"
  shows "user_step k (prints cs k)" and "same_files fd k (prints cs k)" and "a \<notin> screen \<Longrightarrow> mem (prints cs k) a = mem k a"
proof -
  have "kbd_ok k" using assms by (simp add: kernel_ok_def base_ok_def)
  then have kb: "kbd_ok (prints cs k)" unfolding prints_def by (rule fold_putc_frame(3))
  have s: "sys (prints cs k) = sys k" by (simp add: prints_def fold_putc_frame(2))
  have m: "mem (prints cs k) a = mem k a" if "a \<notin> screen" for a
    using fold_putc_frame(4) [OF kernel_console [OF assms]] that by (simp add: prints_def)
  have "a \<notin> screen" if "a \<in> kernel_page_addrs" for a using that by (simp add: kernel_page_addrs_def screen_def)
  then have "agree kernel_page_addrs (mem k) (mem (prints cs k))" by (simp add: agree_def m)
  then show "user_step k (prints cs k)" "same_files fd k (prints cs k)" using sys_step [OF assms kb s] by simp_all
  show "a \<notin> screen \<Longrightarrow> mem (prints cs k) a = mem k a" by (rule m)
qed

lemma display_prints:
  assumes "console_ok k" and "console_ok k'" and "display k = display k'"
  shows "display (prints cs k) = display (prints cs k')"
proof -
  have "display (fold putc ds k) = display (fold putc ds k')" for ds
    using assms
  proof (induction ds arbitrary: k k')
    case (Cons c ds)
    have "console_ok (putc c k)" "console_ok (putc c k')" using Cons.prems by (simp_all add: putc_laws)
    from Cons.IH [OF this display_putc [OF Cons.prems]] show ?case by simp
  qed simp
  then show ?thesis by (simp add: prints_def)
qed

text \<open>Storing into the program's own memory.\<close>

lemma store_step:
  assumes "kernel_ok k" and "in_window a n" and "length bs \<le> n"
  shows "user_step k (k\<lparr>mem := store_bytes (mem k) (phys k a) bs\<rparr>)"
    and "same_files fd k (k\<lparr>mem := store_bytes (mem k) (phys k a) bs\<rparr>)"
    and "display (k\<lparr>mem := store_bytes (mem k) (phys k a) bs\<rparr>) = display k"
proof -
  let ?m = "store_bytes (mem k) (phys k a) bs"
  have o: "?m x = mem k x" if "x \<in> screen \<union> kernel_page_addrs" for x
  proof (rule store_bytes_out)
    fix i
    assume "i < length bs"
    then have "i < n" using assms(3) by simp
    then show "x \<noteq> phys k a + of_nat i" using that window_out [OF assms(1,2)] by blast
  qed
  have "kbd_ok (k\<lparr>mem := ?m\<rparr>)" using assms(1) by (simp add: kernel_ok_def base_ok_def)
  then show "user_step k (k\<lparr>mem := ?m\<rparr>)" "same_files fd k (k\<lparr>mem := ?m\<rparr>)"
    using o sys_step [OF assms(1), of "k\<lparr>mem := ?m\<rparr>"] by (simp_all add: agree_def)
  show "display (k\<lparr>mem := ?m\<rparr>) = display k" using o by (simp add: display_iff agree_def)
qed

section \<open>System calls of a running program\<close>

lemma sint_of_int_u32: "- 2147483648 \<le> n \<Longrightarrow> n < 2147483648 \<Longrightarrow> sint (word_of_int n :: u32) = n"
  by (simp add: signed_of_int signed_take_bit_int_eq_self)

lemma sint_of_nat_u32: "n < 2147483648 \<Longrightarrow> sint (of_nat n :: u32) = int n"
  using sint_of_int_u32 [of "int n"] by simp

lemma fd_step:
  assumes "kernel_ok k"
  shows "user_step k (upd_fd fd f k)" and "0 \<le> fd \<Longrightarrow> fd < 8 \<Longrightarrow> same_files fd k (upd_fd fd f k)"
    and "display (upd_fd fd f k) = display k"
proof -
  have io: "io (upd_fd fd f k) = io k" by (simp add: upd_fd_def Let_def)
  have fa: "file_array k = Some (last (cur_stack k))" using assms by (simp add: kernel_ok_def active_proc_def)
  have "params (pcbs (upd_fd fd f k) ! p) = params (pcbs k ! p) \<and> ebp (pcbs (upd_fd fd f k) ! p) = ebp (pcbs k ! p)" if "p < length (pcbs k)" for p
    using that by (cases "the (file_array k) = p") (simp_all add: upd_fd_def Let_def)
  moreover have "pcbs (upd_fd fd f k) ! r = pcbs k ! r" if "r \<noteq> last (cur_stack k)" for r
    using that fa by (simp add: upd_fd_def Let_def)
  ultimately show "user_step k (upd_fd fd f k)"
    using kernel_ok_upd_fd [OF assms] current_pid(2,3) [OF assms] by (simp add: user_step_def cur_stack_def agree_def)
  show "same_files fd k (upd_fd fd f k)" if "0 \<le> fd" "fd < 8"
    using fd_entry_upd [OF files_ok_kernel [OF assms] that] by (simp add: same_files_def)
  show "display (upd_fd fd f k) = display k" by (simp add: display_iff agree_def io)
qed

definition stdout_ok :: "kernel \<Rightarrow> bool" where
  "stdout_ok k \<longleftrightarrow> flags (fd_entry k 1) \<noteq> 0 \<and> op_ptr (fd_entry k 1) = terminal_op_table"

lemma write_stdout:
  assumes "kernel_ok k" and "stdout_ok k" and "in_window buf n" and "n < 2147483648"
  shows "ece391_write e 1 buf (int n) k = Some (int n, prints (bytes_at (mem k) (phys k buf) n) k)"
proof -
  have fa: "file_array k \<noteq> None" using files_ok_kernel [OF assms(1)] by (auto simp: files_ok_def)
  have o: "phys k buf + of_nat i \<notin> page (video_mem_local k)" if "i < n" for i
    using window_out(1) [OF assms(1,3) that] local_screen [OF kernel_console [OF assms(1)]] by blast
  have "write_chars n buf k = Some (prints (bytes_at (mem k) (phys k buf) n) k)"
    unfolding prints_def by (rule write_chars_eq [OF window_lin [OF assms(1,3)] kernel_console [OF assms(1)] o])
  then have "sys_write 1 buf (int n) k = Some (int n, prints (bytes_at (mem k) (phys k buf) n) k)"
    using assms(2) fa in_window_nonzero [OF assms(3)]
    by (simp add: sys_write_def FILE_LIMIT_def op_write_def terminal_write_def stdout_ok_def)
  then show ?thesis
    using assms(4) by (simp add: ece391_write_def DO_CALL_def dispatch_syscall_def sint_of_int_u32 sint_of_nat_u32 returned_def)
qed

lemma read_regular_frame:
  assumes "kernel_ok k" and "2 \<le> fd" and "fd \<le> 7" and "fd_entry k fd = \<lparr>op_ptr = regular_file_op_table, inode_idx = ino, file_position = of_nat pos, flags = fl\<rparr>"
    and "fl \<noteq> 0" and "in_window buf n" and "n < 2147483648" and "ino < inode_num (filesys k)"
    and "L = unat (inode_length (filesys k) (mem k) ino)" and "pos \<le> L" and "L + n < 4294967296"
    and "\<And>i. i \<le> L \<Longrightarrow> block_ok (filesys k) (mem k) ino i" and "m = min n (L - pos)"
  shows "\<exists>k'. ece391_read e evs fd buf (int n) k = Some (int m, k') \<and> user_step k k' \<and> same_files fd k k'
    \<and> fd_entry k' fd = (fd_entry k fd)\<lparr>file_position := of_nat (pos + m)\<rparr> \<and> display k' = display k
    \<and> bytes_at (mem k') (phys k buf) m = map (file_byte (filesys k) (mem k) ino) [pos..<pos + m]
    \<and> (\<forall>x. (\<forall>i<n. x \<noteq> phys k buf + of_nat i) \<longrightarrow> mem k' x = mem k x)"
proof -
  let ?fb = "file_byte (filesys k) (mem k) ino"
  define m' where "m' = min n (Suc (L - pos))"
  define bs where "bs = map ?fb [pos..<pos + m']"
  have lp: "unat (of_nat pos :: u32) = pos" using assms(10,11) by (intro unat_of_nat_u32) simp
  have mm: "m \<le> m'" "length bs = m'" "m' \<le> n" by (simp_all add: assms(13) m'_def bs_def)
  note fok = files_ok_kernel [OF assms(1)]
  have fa: "file_array k \<noteq> None" using fok by (auto simp: files_ok_def)
  have "read_data (filesys k) (mem k) ino (of_nat pos) True (int n) = (bs, int m)"
    using read_data_inside [OF assms(8), of "int n" "of_nat pos" "mem k"] assms(7,9-13) lp
    by (simp add: Let_def bs_def m'_def)
  moreover have lin: "linear k buf (phys k buf) (length bs)"
    using window_lin [OF assms(1) in_window_mono [OF assms(6)]] mm by simp
  define k1 where "k1 = k\<lparr>mem := store_bytes (mem k) (phys k buf) bs\<rparr>"
  define k' where "k' = upd_fd fd (\<lambda>e. e\<lparr>file_position := file_position e + of_nat m\<rparr>) k1"
  note st = store_step [OF assms(1,6), of bs, folded k1_def]
  have k1: "user_step k k1" "same_files fd k k1" "display k1 = display k" using st mm by simp_all
  then have ok1: "kernel_ok k1" by (simp add: user_step_def)
  have "file_read fd buf (int n) k = Some (int m, k')"
    unfolding k'_def k1_def using calculation lin assms(2-4) fa in_window_nonzero [OF assms(6)] by (intro file_read_eq) simp_all
  then have "sys_read evs fd buf (int n) k = Some (int m, k')"
    using assms(2-5) fa in_window_nonzero [OF assms(6)] by (simp add: sys_read_def FILE_LIMIT_def op_read_def)
  then have "ece391_read e evs fd buf (int n) k = Some (int m, k')"
    using assms(2,3,7) by (simp add: ece391_read_def DO_CALL_def dispatch_syscall_def sint_of_int_u32 sint_of_nat_u32 returned_def)
  moreover have "user_step k k'" "same_files fd k k'" "display k' = display k"
    using fd_step [OF ok1, of fd] k1 assms(2,3) user_step_trans same_files_trans unfolding k'_def by (blast, fastforce, simp)
  moreover have "fd_entry k' fd = (fd_entry k fd)\<lparr>file_position := of_nat (pos + m)\<rparr>"
    using fd_entry_upd [OF files_ok_kernel [OF ok1], of fd fd] assms(2-4) by (simp add: k'_def k1_def)
  moreover have "bytes_at (mem k') (phys k buf) m = map ?fb [pos..<pos + m]"
  proof -
    have "length bs \<le> 4294967296" using mm assms(7) by simp
    then have "bytes_at (mem k') (phys k buf) m = take m bs"
      using bytes_at_take [of m "length bs" "mem k'" "phys k buf"] bytes_at_store [of bs "mem k" "phys k buf"] mm by (simp add: k'_def k1_def)
    then show ?thesis using mm by (simp add: bs_def take_map take_upt)
  qed
  moreover have "mem k' x = mem k x" if "\<forall>i<n. x \<noteq> phys k buf + of_nat i" for x
    using that mm store_bytes_out [of bs x "phys k buf" "mem k"] by (simp add: k'_def k1_def)
  ultimately show ?thesis by blast
qed

lemma read_regular:
  assumes "kernel_ok k" and "2 \<le> fd" and "fd \<le> 7" and "fd_entry k fd = \<lparr>op_ptr = regular_file_op_table, inode_idx = ino, file_position = of_nat pos, flags = fl\<rparr>"
    and "fl \<noteq> 0" and "in_window buf n" and "n < 2147483648" and "ino < inode_num (filesys k)"
    and "L = unat (inode_length (filesys k) (mem k) ino)" and "pos \<le> L" and "L + n < 4294967296"
    and "\<And>i. i \<le> L \<Longrightarrow> block_ok (filesys k) (mem k) ino i" and "m = min n (L - pos)"
  shows "\<exists>k'. ece391_read e evs fd buf (int n) k = Some (int m, k') \<and> user_step k k' \<and> same_files fd k k'
    \<and> fd_entry k' fd = (fd_entry k fd)\<lparr>file_position := of_nat (pos + m)\<rparr> \<and> display k' = display k
    \<and> bytes_at (mem k') (phys k buf) m = map (file_byte (filesys k) (mem k) ino) [pos..<pos + m]"
  using read_regular_frame [OF assms] by blast

lemma fetch_window:
  assumes "kernel_ok k" and "\<And>b. b \<in> set s \<Longrightarrow> \<not> stop b" and "stop z"
  shows "in_window a (length s + 1) \<Longrightarrow> bytes_at (mem k) (phys k a) (length s + 1) = s @ [z] \<Longrightarrow> fetch_str stop k a acc = Some (acc @ s @ [z])"
  using assms(2)
proof (induction s arbitrary: a acc)
  case Nil
  have "vread k a = Some z" using window_at(1) [OF assms(1) Nil.prems(1), of 0 False] Nil.prems(2) by (simp add: vread_def bytes_at_def at_def)
  then show ?case using assms(3) by (subst fetch_str.simps) simp
next
  case (Cons c s)
  have w: "in_window a (length s + 2)" using Cons.prems(1) by simp
  note w1 = window_at [OF assms(1) w, of 1]
  have b: "mem k (phys k a) = c" "bytes_at (mem k) (phys k a + 1) (length s + 1) = s @ [z]"
    using Cons.prems(2) bytes_at_Suc [of "mem k" "phys k a" "length s + 1"] by simp_all
  have "vread k a = Some c" using window_at(1) [OF assms(1) w, of 0 False] b(1) by (simp add: vread_def)
  moreover have "fetch_str stop k (a + 1) (acc @ [c]) = Some ((acc @ [c]) @ s @ [z])"
    using w1(3,4) b(2) Cons.prems(3) by (intro Cons.IH) simp_all
  ultimately show ?case using Cons.prems(3) [of c] by (subst fetch_str.simps) simp
qed

lemma free_fd_mem: "free_fd (k\<lparr>mem := m\<rparr>) fd = free_fd k fd"
  by (induction k fd rule: free_fd.induct) (subst (1 2) free_fd.simps, simp)

lemma call_getargs:
  assumes "kernel_ok k" and "params (pcbs k ! last (cur_stack k)) = s @ [0] @ rest" and "0 \<notin> set s"
    and "length s < n" and "n < 2147483648" and "s \<noteq> []" and "in_window buf n"
    and "k' = k\<lparr>mem := store_bytes (mem k) (phys k buf) (s @ [0])\<rparr>"
  shows "ece391_getargs e buf (int n) k = Some (0, k')"
    and "bytes_at (mem k') (phys k buf) (length s + 1) = s @ [0]"
proof -
  note c = current_pid [OF assms(1)]
  have lin: "linear k buf (phys k buf) (length s + 1)" using assms(4) by (intro window_lin [OF assms(1) in_window_mono [OF assms(7)]]) simp
  have "getargs buf (int n) k = Some (0, k')"
    using getargs_eq [OF c(2) _ assms(3) _ _ _ lin, of rest "int n"] assms(2,4-6,8) c(3) by simp
  then show "ece391_getargs e buf (int n) k = Some (0, k')"
    using assms(5) by (simp add: ece391_getargs_def DO_CALL_def dispatch_syscall_def sint_of_nat_u32 returned_def)
  show "bytes_at (mem k') (phys k buf) (length s + 1) = s @ [0]"
    using bytes_at_store [of "s @ [0]" "mem k" "phys k buf"] assms(4,5,8) by simp
qed

lemma call_open:
  assumes "kernel_ok k" and "free_fd k 2 < 8" and "file_type d = 1 \<or> file_type d = 2"
    and "in_window a (length s + 1)" and "bytes_at (mem k) (phys k a) (length s + 1) = s @ [0]" and "0 \<notin> set s"
    and "read_dentry_by_name (filesys k) (mem k) (Some (of_bytes (s @ [0]))) (Some (dentry_stk (ker e))) = Some (0, Some d)"
  shows "\<exists>k'. ece391_open e a k = Some (free_fd k 2, k') \<and> user_step k k' \<and> same_files (free_fd k 2) k k'
    \<and> fd_entry k' (free_fd k 2) = opened d \<and> display k' = display k \<and> mem k' = mem k"
proof -
  let ?fd = "free_fd k 2"
  have fd: "0 \<le> ?fd" "?fd < 8" using free_fd_spec [of 2 k] assms(2) by auto
  obtain f where f: "sys_open (dentry_stk (ker e)) (Some (of_bytes (s @ [0]))) k = Some (?fd, upd_fd ?fd f k)"
    "f (fd_entry k ?fd) = opened d"
    using sys_open_entry [OF files_ok_kernel [OF assms(1)] assms(2,7)] assms(3) by (auto simp: table_of_def)
  have "fetch_str (\<lambda>b. b = 0) k a [] = Some ([] @ s @ [0])"
    using assms(6) by (intro fetch_window [OF assms(1) _ _ assms(4,5)]) auto
  then have "ece391_open e a k = Some (?fd, upd_fd ?fd f k)"
    using f(1) in_window_nonzero [OF assms(4)]
    by (simp add: ece391_open_def DO_CALL_def dispatch_syscall_def with_str_def returned_def)
  then show ?thesis
    using fd_step [OF assms(1), of ?fd f] fd f(2) fd_entry_upd [OF files_ok_kernel [OF assms(1)] fd, of ?fd f]
    by (intro exI [of _ "upd_fd ?fd f k"]) simp
qed

text \<open>The program's own stores and loads.\<close>

lemma uread_window: "kernel_ok k \<Longrightarrow> in_window a n \<Longrightarrow> i < n \<Longrightarrow> uread k (a + of_nat i) = Some (mem k (phys k a + of_nat i))"
  by (simp add: uread_def window_at(1))

lemma uwrite_window:
  assumes "kernel_ok k" and "in_window a n" and "i < n"
  shows "\<exists>k'. uwrite (a + of_nat i) b k = Some k' \<and> user_step k k' \<and> same_files fd k k' \<and> display k' = display k
    \<and> mem k' = (mem k)(phys k a + of_nat i := b)"
proof -
  note w = window_at [OF assms]
  have "uwrite (a + of_nat i) b k = Some (k\<lparr>mem := store_bytes (mem k) (phys k (a + of_nat i)) [b]\<rparr>)"
    by (simp add: uwrite_def w(1,4))
  moreover have "length [b] \<le> n - i" using assms(3) by simp
  note st = store_step [OF assms(1) w(3) this]
  ultimately show ?thesis using st by (intro exI [of _ "k\<lparr>mem := store_bytes (mem k) (phys k (a + of_nat i)) [b]\<rparr>"]) (simp add: w(4))
qed

lemma bytes_at_append_upd: "n < 4294967295 \<Longrightarrow> bytes_at (m(a + of_nat n := b)) a (n + 1) = bytes_at m a n @ [b]"
  by (rule nth_equalityI) (auto simp: nth_append less_Suc_eq)

section \<open>Directory entries\<close>

definition dentry_name :: "kernel \<Rightarrow> nat \<Rightarrow> byte list" where
  "dentry_name k i = takeWhile (\<lambda>b. b \<noteq> 0) (bytes_at (mem k) (dentry_addr (filesys k) (of_nat i)) 32)"

lemma name_bytes:
  assumes "is_cstr (at m a) n"
  shows "takeWhile (\<lambda>b. b \<noteq> 0) (bytes_at m a 32) = bytes_at m a (min n 32)"
proof -
  have t: "bytes_at m a (min n 32) = take (min n 32) (bytes_at m a 32)" by (rule bytes_at_take) simp
  have z: "m (a + of_nat n) = 0" "\<And>i. i < n \<Longrightarrow> m (a + of_nat i) \<noteq> 0" using assms by (simp_all add: is_cstr_def at_def)
  show ?thesis unfolding t
  proof (cases "n < 32")
    case True
    then show "takeWhile (\<lambda>b. b \<noteq> 0) (bytes_at m a 32) = take (min n 32) (bytes_at m a 32)"
      using z by (intro takeWhile_eq_take_P_nth) auto
  next
    case False
    then show "takeWhile (\<lambda>b. b \<noteq> 0) (bytes_at m a 32) = take (min n 32) (bytes_at m a 32)"
      using z(2) by (auto simp: in_set_conv_nth min_def)
  qed
qed

lemma strncpy_name:
  assumes "is_cstr (at m a) n"
  shows "take (min n 32) (strncpy (at m a) 32) = bytes_at m a (min n 32)"
  using assms by (intro nth_equalityI) (auto simp: strncpy_eq strncpy_byte_def is_cstr_def at_def)

lemma read_directory:
  assumes "kernel_ok k" and "2 \<le> fd" and "fd \<le> 7" and "fd_entry k fd = \<lparr>op_ptr = dirt_op_table, inode_idx = 0, file_position = of_nat pos, flags = 1\<rparr>"
    and "in_window buf 32" and "image_ok (filesys k)" and "pos \<le> unat (dentry_num (filesys k))"
  shows "pos = unat (dentry_num (filesys k)) \<Longrightarrow> ece391_read e evs fd buf 32 k = Some (0, k)"
    and "pos < unat (dentry_num (filesys k)) \<Longrightarrow> is_cstr (at (mem k) (dentry_addr (filesys k) (of_nat pos))) n \<Longrightarrow>
      \<exists>k'. ece391_read e evs fd buf 32 k = Some (int (min n 32), k') \<and> user_step k k' \<and> same_files fd k k'
        \<and> fd_entry k' fd = (fd_entry k fd)\<lparr>file_position := of_nat (Suc pos)\<rparr> \<and> display k' = display k
        \<and> bytes_at (mem k') (phys k buf) (min n 32) = dentry_name k pos"
proof -
  have fa: "file_array k \<noteq> None" using files_ok_kernel [OF assms(1)] by (auto simp: files_ok_def)
  have rd: "ece391_read e evs fd buf 32 k = (case directory_read fd buf 32 k of None \<Rightarrow> None | Some (v, k) \<Rightarrow> Some (v, k))"
    using assms(2-5) fa in_window_nonzero [OF assms(5)]
    by (auto simp: ece391_read_def DO_CALL_def dispatch_syscall_def sint_of_int_u32 returned_def sys_read_def FILE_LIMIT_def op_read_def split: option.split)
  show "ece391_read e evs fd buf 32 k = Some (0, k)" if "pos = unat (dentry_num (filesys k))"
    using rd assms(4) that by (simp add: directory_read_def)
  let ?a = "dentry_addr (filesys k) (of_nat pos)"
  assume pos: "pos < unat (dentry_num (filesys k))" and n: "is_cstr (at (mem k) ?a) n"
  define bs where "bs = strncpy (at (mem k) ?a) 32"
  have lb: "length bs = 32" by (simp add: bs_def strncpy_eq)
  define k1 where "k1 = k\<lparr>mem := store_bytes (mem k) (phys k buf) bs\<rparr>"
  define k' where "k' = upd_fd fd (\<lambda>e. e\<lparr>file_position := file_position e + 1\<rparr>) k1"
  have k1: "user_step k k1" "same_files fd k k1" "display k1 = display k"
    using store_step [OF assms(1,5), of bs] lb by (simp_all add: k1_def)
  then have ok1: "kernel_ok k1" by (simp add: user_step_def)
  have "linear k buf (phys k buf) (length bs)" using window_lin [OF assms(1,5)] lb by simp
  then have v: "vstore k buf bs = Some k1" unfolding k1_def by (rule vstore_linear)
  have "unat (of_nat pos :: u32) \<noteq> unat (dentry_num (filesys k))"
    using pos assms(6) unat_of_nat_u32 [of pos] by (simp add: image_ok_def)
  then have ne: "of_nat pos \<noteq> dentry_num (filesys k)" by metis
  have "directory_read fd buf 32 k = Some (int (min n 32), k')"
    using v [unfolded bs_def dentry_addr_def] ne in_window_nonzero [OF assms(5)] strlen_Some [OF n [unfolded dentry_addr_def]]
    unfolding directory_read_def assms(4) by (simp add: Let_def k'_def min_def)
  then have "ece391_read e evs fd buf 32 k = Some (int (min n 32), k')" using rd by simp
  moreover have "user_step k k'" "same_files fd k k'" "display k' = display k"
    using fd_step [OF ok1, of fd] k1 assms(2,3) user_step_trans same_files_trans unfolding k'_def by (blast, fastforce, simp)
  moreover have "fd_entry k' fd = (fd_entry k fd)\<lparr>file_position := of_nat (Suc pos)\<rparr>"
    using fd_entry_upd [OF files_ok_kernel [OF ok1], of fd fd] assms(2-4) by (simp add: k'_def k1_def add.commute)
  moreover have "bytes_at (mem k') (phys k buf) (min n 32) = dentry_name k pos"
    using bytes_at_take [of "min n 32" 32 "mem k'" "phys k buf"] bytes_at_store [of bs "mem k" "phys k buf"] lb
      strncpy_name [OF n] name_bytes [OF n] by (simp add: k'_def k1_def dentry_name_def bs_def)
  ultimately show "\<exists>k'. ece391_read e evs fd buf 32 k = Some (int (min n 32), k') \<and> user_step k k' \<and> same_files fd k k'
        \<and> fd_entry k' fd = (fd_entry k fd)\<lparr>file_position := of_nat (Suc pos)\<rparr> \<and> display k' = display k
        \<and> bytes_at (mem k') (phys k buf) (min n 32) = dentry_name k pos" by blast
qed

section \<open>Strings of the running program\<close>

definition ustr :: "kernel \<Rightarrow> addr \<Rightarrow> byte list \<Rightarrow> bool" where
  "ustr k a s \<longleftrightarrow> in_window a (length s + 1) \<and> bytes_at (mem k) (phys k a) (length s + 1) = s @ [0] \<and> 0 \<notin> set s"

lemma ustr_head:
  assumes "kernel_ok k"
  shows "ustr k a [] \<Longrightarrow> uread k a = Some 0" and "ustr k a (c # s) \<Longrightarrow> uread k a = Some c \<and> c \<noteq> 0 \<and> ustr k (a + 1) s"
proof -
  show "uread k a = Some 0" if "ustr k a []"
    using uread_window [OF assms, of a 1 0] that by (simp add: ustr_def bytes_at_Suc)
  assume u: "ustr k a (c # s)"
  then have w: "in_window a (length s + 2)" by (simp add: ustr_def)
  have b: "mem k (phys k a) = c" "bytes_at (mem k) (phys k a + 1) (length s + 1) = s @ [0]"
    using u bytes_at_Suc [of "mem k" "phys k a" "length s + 1"] by (simp_all add: ustr_def)
  show "uread k a = Some c \<and> c \<noteq> 0 \<and> ustr k (a + 1) s"
    using uread_window [OF assms w, of 0] window_at(3,4) [OF assms w, of 1] b u by (simp add: ustr_def)
qed

lemma strlen_ustr: "kernel_ok k \<Longrightarrow> ustr k a s \<Longrightarrow> ece391_strlen_from k a n = Some (n + of_nat (length s))"
proof (induction s arbitrary: a n)
  case Nil
  then show ?case using ustr_head(1) by (subst ece391_strlen_from.simps) simp
next
  case (Cons c s)
  note h = ustr_head(2) [OF Cons.prems]
  then have "ece391_strlen_from k a n = ece391_strlen_from k (a + 1) (n + 1)" by (subst ece391_strlen_from.simps) simp
  then show ?case using Cons.IH [OF Cons.prems(1), of "a + 1" "n + 1"] h by (simp add: add.assoc)
qed

lemma fdputs_prints:
  assumes "kernel_ok k" and "stdout_ok k" and "ustr k a s"
  shows "ece391_fdputs e 1 a k = Some (prints s k)"
proof -
  have w: "in_window a (length s)" "length s < 2147483648" using assms(3) in_window_mono by (auto simp: ustr_def in_window_def)
  have b: "bytes_at (mem k) (phys k a) (length s) = s"
    using assms(3) bytes_at_take [of "length s" "length s + 1" "mem k" "phys k a"] by (simp add: ustr_def)
  have "ece391_strlen k a = Some (of_nat (length s))" using strlen_ustr [OF assms(1,3), of 0] by (simp add: ece391_strlen_def)
  moreover have "uint (of_nat (length s) :: u32) = int (length s)" using w(2) unat_of_nat_u32 [of "length s"] by (simp add: uint_nat)
  ultimately show ?thesis using write_stdout [OF assms(1,2) w, of e] b by (simp add: ece391_fdputs_def)
qed

lemma uint_diff_zero: "uint (x :: byte) - uint y = 0 \<longleftrightarrow> x = y"
  by (simp add: word_uint_eq_iff)

lemma strcmp_ustr:
  "kernel_ok k \<Longrightarrow> ustr k a s \<Longrightarrow> ustr k b t \<Longrightarrow>
    \<exists>r. ece391_strcmp k a b = Some r \<and> (r = 0 \<longleftrightarrow> s = t) \<and> (r < 0 \<longleftrightarrow> (s, t) \<in> lexord {(x, y). x < y})"
proof (induction s arbitrary: a b t)
  case Nil
  note h = ustr_head(1) [OF Nil.prems(1,2)]
  show ?case
  proof (cases t)
    case Nil
    then have "ece391_strcmp k a b = Some 0" using h ustr_head(1) [of k b] Nil.prems by (subst ece391_strcmp.simps) simp
    then show ?thesis using Nil by simp
  next
    case (Cons d t')
    then have d: "uread k b = Some d" "d \<noteq> 0" using ustr_head(2) [of k b d t'] Nil.prems by simp_all
    then have "ece391_strcmp k a b = Some (- uint d)" using h by (subst ece391_strcmp.simps) simp
    then show ?thesis using Cons d(2) by (simp add: uint_0_iff order_less_le)
  qed
next
  case (Cons c s)
  note h = ustr_head(2) [OF Cons.prems(1,2)]
  show ?case
  proof (cases t)
    case Nil
    then have "ece391_strcmp k a b = Some (uint c)" using h ustr_head(1) [of k b] Cons.prems by (subst ece391_strcmp.simps) simp
    then show ?thesis using Nil h by (simp add: uint_0_iff not_less)
  next
    case (Cons d t')
    note d = ustr_head(2) [OF Cons.prems(1), of b d t']
    have d': "uread k b = Some d" "d \<noteq> 0" "ustr k (b + 1) t'" using d Cons.prems(3) Cons by simp_all
    show ?thesis
    proof (cases "c = d")
      case True
      then have "ece391_strcmp k a b = ece391_strcmp k (a + 1) (b + 1)" using h d' by (subst ece391_strcmp.simps) simp
      then show ?thesis using Cons.IH [OF Cons.prems(1) _ d'(3), of "a + 1"] h True Cons by simp
    next
      case False
      then have "ece391_strcmp k a b = Some (uint c - uint d)" using h d' by (subst ece391_strcmp.simps) simp
      then show ?thesis using False Cons uint_diff_zero [of c d] by (simp add: word_less_def)
    qed
  qed
qed

lemma strncmp_ustr:
  "kernel_ok k \<Longrightarrow> ustr k a s \<Longrightarrow> ustr k b t \<Longrightarrow> n < 4294967295 \<Longrightarrow>
    \<exists>r. ece391_strncmp_loop k a b (of_nat (Suc n)) = Some r \<and> (r = 0 \<longleftrightarrow> take (Suc n) s = take (Suc n) t)"
proof (induction s arbitrary: a b t n)
  case Nil
  note h = ustr_head(1) [OF Nil.prems(1,2)]
  show ?case
  proof (cases t)
    case Nil
    then have "ece391_strncmp_loop k a b (of_nat (Suc n)) = Some 0" using h ustr_head(1) [of k b] Nil.prems by (subst ece391_strncmp_loop.simps) simp
    then show ?thesis using Nil by simp
  next
    case (Cons d t')
    then have d: "uread k b = Some d" "d \<noteq> 0" using ustr_head(2) [of k b d t'] Nil.prems by simp_all
    then have "ece391_strncmp_loop k a b (of_nat (Suc n)) = Some (- uint d)" using h by (subst ece391_strncmp_loop.simps) simp
    then show ?thesis using Cons d(2) by (simp add: uint_0_iff)
  qed
next
  case (Cons c s)
  note h = ustr_head(2) [OF Cons.prems(1,2)]
  show ?case
  proof (cases t)
    case Nil
    then have "ece391_strncmp_loop k a b (of_nat (Suc n)) = Some (uint c)" using h ustr_head(1) [of k b] Cons.prems by (subst ece391_strncmp_loop.simps) simp
    then show ?thesis using Nil h by (simp add: uint_0_iff)
  next
    case (Cons d t')
    note d = ustr_head(2) [OF Cons.prems(1), of b d t']
    have d': "uread k b = Some d" "d \<noteq> 0" "ustr k (b + 1) t'" using d Cons.prems(3) Cons by simp_all
    have m: "(of_nat (Suc n) :: u32) - 1 = of_nat n" by simp
    have z: "(of_nat n :: u32) = 0 \<longleftrightarrow> n = 0" using unat_of_nat_u32 [of n] Cons.prems(4) by (cases n) (auto simp: unat_eq_0 [symmetric])
    consider "c \<noteq> d" | "c = d" "n = 0" | n' where "c = d" "n = Suc n'" by (cases n) auto
    then show ?thesis
    proof cases
      case 1
      then have "ece391_strncmp_loop k a b (of_nat (Suc n)) = Some (uint c - uint d)" using h d' by (subst ece391_strncmp_loop.simps) simp
      then show ?thesis using 1 Cons uint_diff_zero [of c d] by simp
    next
      case 2
      then have "ece391_strncmp_loop k a b (of_nat (Suc n)) = Some 0" using h d' z m by (subst ece391_strncmp_loop.simps) simp
      then show ?thesis using 2 Cons by simp
    next
      case 3
      then have "ece391_strncmp_loop k a b (of_nat (Suc n)) = ece391_strncmp_loop k (a + 1) (b + 1) (of_nat n)"
        using h d' z m by (subst ece391_strncmp_loop.simps) (simp del: of_nat_Suc)
      then show ?thesis using Cons.IH [OF Cons.prems(1) _ d'(3), of "a + 1" n'] h 3 Cons Cons.prems(4) by simp
    qed
  qed
qed

section \<open>Properties\<close>

text \<open>C38: the string functions of the user library on strings in the program's memory:
  \<open>ece391_strlen\<close> returns the length, \<open>ece391_strcmp\<close> zero exactly for equal strings and a
  negative number exactly when the first comes before the second in the dictionary order of unsigned
  bytes, and \<open>ece391_strncmp\<close> zero exactly when the first \<open>n\<close> bytes agree.\<close>

theorem ece391_strings_correct:
  assumes "kernel_ok k" and "ustr k a s" and "ustr k b t" and "n < 4294967296"
  shows "ece391_strlen k a = Some (of_nat (length s))
    \<and> (\<exists>r. ece391_strcmp k a b = Some r \<and> (r = 0 \<longleftrightarrow> s = t) \<and> (r < 0 \<longleftrightarrow> (s, t) \<in> lexord {(x, y). x < y}))
    \<and> (\<exists>r. ece391_strncmp k a b (of_nat n) = Some r \<and> (r = 0 \<longleftrightarrow> take n s = take n t))"
proof (intro conjI)
  show "ece391_strlen k a = Some (of_nat (length s))" using strlen_ustr [OF assms(1,2), of 0] by (simp add: ece391_strlen_def)
  show "\<exists>r. ece391_strcmp k a b = Some r \<and> (r = 0 \<longleftrightarrow> s = t) \<and> (r < 0 \<longleftrightarrow> (s, t) \<in> lexord {(x, y). x < y})"
    by (rule strcmp_ustr [OF assms(1-3)])
  show "\<exists>r. ece391_strncmp k a b (of_nat n) = Some r \<and> (r = 0 \<longleftrightarrow> take n s = take n t)"
  proof (cases n)
    case 0
    then show ?thesis by (simp add: ece391_strncmp_def)
  next
    case (Suc m)
    have "(of_nat n :: u32) \<noteq> 0" using unat_of_nat_u32 [OF assms(4)] Suc by (metis nat.distinct(1) unat_0)
    then show ?thesis using strncmp_ustr [OF assms(1-3), of m] assms(4) Suc by (simp add: ece391_strncmp_def)
  qed
qed

theorem ece391_strings_correct_witness:
  "\<exists>r. ece391_strcmp demo_running 0x08100000 0x08200000 = Some r \<and> r = 0"
proof -
  have "ustr demo_running a []" if "a = 0x08100000 \<or> a = 0x08200000" for a
    using that demo_running_ok(2,4) by (auto simp: ustr_def in_window_def bytes_at_Suc phys_def demo_mem_def Let_def)
  then show ?thesis using ece391_strings_correct [OF demo_running_ok(1), of "0x08100000" "[]" "0x08200000" "[]" 0] by simp
qed

end
