(* ===== verification/Kernel_Run.thy ===== *)
theory Kernel_Run
  imports User_Lib
begin

text \<open>
  The system as a step relation.  A step is a keyboard or clock interrupt, a timer interrupt with
  any of its outcomes, or an action of the running program: a system call, an exception, a store.
  The calls run with interrupts off (vector 0x80 is an interrupt gate), except in the waits of
  \<open>terminal_read\<close> and \<open>rtc_read\<close>: there the beginning and the end of the call are steps of
  their own, and any steps of the rest of the system may come between them.  Shown are the invariant
  of all runs and what a read of the terminal delivers across timer switches.
\<close>

section \<open>Steps\<close>

text \<open>
  An outcome without a state to go on in (an endless loop, an access outside every object) ends the run.
  A call that faults in the kernel is the stores it did, followed by the exception.  Pointers are not
  checked by the code, and a call may be told to write into the 4 MB page of the kernel's own code and data:
  the relation has only the calls that leave that page alone.
\<close>

inductive prog_step :: "kernel \<Rightarrow> kernel \<Rightarrow> bool" where
  call: "state_after (dispatch_syscall f [] eax ebx ecx edx k) = Some k' \<Longrightarrow> agree kernel_page_addrs (mem k) (mem k') \<Longrightarrow> prog_step k k'"
| exn: "state_after (exception_handler f msg_at cr2 x k) = Some k' \<Longrightarrow> prog_step k k'"
| store: "translate (pg k) True a = Some pa \<Longrightarrow> prog_step k (k\<lparr>mem := (mem k)(pa := v)\<rparr>)"
| frame: "prog_step k (k\<lparr>cpu_ebp := e\<rparr>)"
| read_begin: "op_ptr (fd_entry k 0) = terminal_op_table \<Longrightarrow> prog_step k (terminal_read_begin k)"
| read_end: "TERMINAL_READ_FLAG (tm k (cur_term_id k)) = 0 \<Longrightarrow> terminal_read_end buf n k = Some (r, k')
    \<Longrightarrow> agree kernel_page_addrs (mem k) (mem k') \<Longrightarrow> prog_step k k'"
| clock_end: "op_ptr (fd_entry k fd) = rtc_op_table \<Longrightarrow> rtc_counter_global k mod rtc_div k fd = 0 \<Longrightarrow> prog_step k (k\<lparr>rtc_exe_flag := 0\<rparr>)"

inductive kstep :: "kernel \<Rightarrow> kernel \<Rightarrow> bool" where
  intr: "interrupt e k = Some k' \<Longrightarrow> kstep k k'"
| timer: "state_after (pit_handler f k) = Some k' \<Longrightarrow> kstep k k'"
| prog: "prog_step k k' \<Longrightarrow> kstep k k'"

text \<open>The timer finds the next terminal empty, and the shell cannot be started there.\<close>

definition start_refused :: "kernel \<Rightarrow> kernel \<Rightarrow> bool" where
  "start_refused k k' \<longleftrightarrow> stack (terminals k ! nat (next_term k)) = [] \<and> (\<exists>f v. pit_handler f k = Returns v k')"

definition kstep_launched :: "kernel \<Rightarrow> kernel \<Rightarrow> bool" where
  "kstep_launched k k' \<longleftrightarrow> kstep k k' \<and> \<not> start_refused k k'"

text \<open>Every terminal has a program: after that no launch is left to be refused.\<close>

definition manned :: "kernel \<Rightarrow> bool" where
  "manned k \<longleftrightarrow> kernel_ok k \<and> (\<forall>i<3. stack (terminals k ! i) \<noteq> [])"

section \<open>The program of a terminal\<close>

lemma kernel_kbd: "kernel_ok k \<Longrightarrow> kbd_ok k"
  by (simp add: kernel_ok_def base_ok_def)

lemma read_begin_ok:
  assumes "kernel_ok k"
  shows "kernel_ok (terminal_read_begin k)" and "aside k (terminal_read_begin k)"
proof -
  note kb = kernel_kbd [OF assms]
  show "kernel_ok (terminal_read_begin k)"
    unfolding reading_eq [OF kb] by (rule kernel_ok_sys [OF assms reading_ok(1,3) [OF kb]])
  show "aside k (terminal_read_begin k)"
    unfolding reading_eq [OF kb] by (rule aside_upd) (simp_all add: reading_def upd_tm_def)
qed

lemma read_end_frame: "terminal_read_end buf n k = Some (r, k') \<Longrightarrow> \<exists>m. k' = k\<lparr>mem := m\<rparr>"
proof -
  assume "terminal_read_end buf n k = Some (r, k')"
  then obtain a b c d k1 where "vstore k a b = Some k1" "vstore k1 c d = Some k'"
    by (auto simp: terminal_read_end_def Let_def bind_eq_Some_conv simp del: vstore.simps)
  then show ?thesis using vstore_frame [of k a b k1] vstore_frame [of k1 c d k'] by auto
qed

lemma prog_step_ok:
  assumes "prog_step k k'" and "kernel_ok k"
  shows "kernel_ok k' \<and> aside k k'"
  using assms
proof (induction rule: prog_step.induct)
  case (call f eax ebx ecx edx k k')
  then show ?case using dispatch_outcome [of k f eax ebx ecx edx] by (simp add: outcome_ok_def)
next
  case (exn f msg_at cr2 x k k')
  then show ?case using exception_outcome [of k f msg_at cr2 x] by (simp add: outcome_ok_def)
next
  case (store k a pa v)
  then show ?case by (simp add: kernel_ok_mem aside_same)
next
  case (frame k e)
  then show ?case by (simp add: kernel_ok_ebp aside_same)
next
  case (read_begin k)
  then show ?case by (simp add: read_begin_ok)
next
  case (read_end k buf n r k')
  then obtain m where "k' = k\<lparr>mem := m\<rparr>" using read_end_frame by blast
  then show ?case using read_end.prems by (simp add: kernel_ok_mem aside_same)
next
  case (clock_end k fd)
  have "kbd_ok (k\<lparr>rtc_exe_flag := 0\<rparr>)" using kernel_kbd [OF clock_end.prems] by (simp add: kbd_ok_def console_ok_def)
  then show ?case using kernel_ok_sys [OF clock_end.prems, of "k\<lparr>rtc_exe_flag := 0\<rparr>"] by (simp add: aside_same)
qed

text \<open>What it leaves of the other terminals.\<close>

lemma terminals_three: "kernel_ok k \<Longrightarrow> length (terminals k) = 3 \<and> 0 \<le> cur_term_id k \<and> cur_term_id k < 3"
  by (auto simp: kernel_ok_def base_ok_def proc_ok_def)

lemma term_core_views: "term_core s = term_core t \<Longrightarrow> stack s = stack t \<and> line s = line t"
proof -
  assume c: "term_core s = term_core t"
  have "prog_pids s = prog_pids t" "term_prog_counter s = term_prog_counter t" "keyboard_buf s = keyboard_buf t" "buf_index s = buf_index t"
    "TERMINAL_READ_FLAG s = TERMINAL_READ_FLAG t"
    using arg_cong [OF c, of prog_pids] arg_cong [OF c, of term_prog_counter] arg_cong [OF c, of keyboard_buf] arg_cong [OF c, of buf_index]
      arg_cong [OF c, of TERMINAL_READ_FLAG] by (simp_all add: term_core_def)
  then show ?thesis by (simp add: stack_def line_def)
qed

lemma aside_views:
  assumes "kernel_ok k" and "aside k k'" and "i < 3" and "int i \<noteq> cur_term_id k"
  shows "stack (terminals k' ! i) = stack (terminals k ! i)" and "line (terminals k' ! i) = line (terminals k ! i)"
proof -
  have "term_core (terminals k' ! i) = term_core (terminals k ! i)"
    using assms(2-4) terminals_three [OF assms(1)] by (auto simp: aside_def)
  from term_core_views [OF this] show "stack (terminals k' ! i) = stack (terminals k ! i)" "line (terminals k' ! i) = line (terminals k ! i)" by simp_all
qed

lemma manned_aside:
  assumes "manned k" and "kernel_ok k'" and "aside k k'"
  shows "manned k'"
proof -
  have k: "kernel_ok k" and c: "cur_term_id k' = cur_term_id k" using assms(1,3) by (simp_all add: manned_def aside_def)
  have "stack (terminals k' ! i) \<noteq> []" if "i < 3" for i
  proof (cases "int i = cur_term_id k")
    case True
    then have "nat (cur_term_id k') = i" using c by simp
    then have "cur_stack k' = stack (terminals k' ! i)" by (simp add: cur_stack_def)
    then show ?thesis using assms(2) by (simp add: kernel_ok_def)
  next
    case False
    then show ?thesis using aside_views(1) [OF k assms(3) that] assms(1) that by (simp add: manned_def)
  qed
  then show ?thesis using assms(2) by (simp add: manned_def)
qed

section \<open>Interrupts\<close>

lemma interrupt_kernel_ok:
  assumes "kernel_ok k" and "interrupt e k = Some k'"
  shows "kernel_ok k'" and "cur_term_id k' = cur_term_id k" and "i < 3 \<Longrightarrow> stack (terminals k' ! i) = stack (terminals k ! i)"
proof -
  have s: "sys k' = sys k" "kbd_ok k'" using interrupt_sys [OF assms(2)] interrupt_ok [OF kernel_kbd [OF assms(1)] assms(2)] by simp_all
  show "kernel_ok k'" by (rule kernel_ok_sys [OF assms(1) s(2,1)])
  show "cur_term_id k' = cur_term_id k" by (rule sys_fields(7) [OF s(1)])
  note v = sys_views [OF s(1)]
  assume i: "i < 3"
  have "term_view (terminals k' ! i) = term_view (terminals k ! i)"
    using arg_cong [OF v, of "\<lambda>xs. xs ! i"] i map_eq_imp_length_eq [OF v] terminals_three [OF assms(1)] by simp
  then show "stack (terminals k' ! i) = stack (terminals k ! i)" by (simp add: term_view_def stack_def)
qed

lemma pit_manned:
  assumes "manned k" and "state_after (pit_handler f k) = Some k'"
  shows "manned k'" and "cur_term_id k' = next_term k" and "terminals k' = terminals k"
proof -
  have "stack (terminals k ! nat (next_term k)) \<noteq> []" "kernel_ok k"
    using assms(1) next_term_range [of k] by (simp_all add: manned_def)
  from pit_resumes [OF this(2,1), of f] obtain k2 where
    k2: "(\<exists>e. pit_handler f k = Frame_Return e None k2) \<or> pit_handler f k = Returns 0 k2" "kernel_ok k2"
    "cur_term_id k2 = next_term k" "terminals k2 = terminals k" by (elim exE conjE)
  have "k' = k2" using k2(1) assms(2) by auto
  then show "manned k'" "cur_term_id k' = next_term k" "terminals k' = terminals k" using k2(2-4) assms(1) by (simp_all add: manned_def)
qed

lemma pit_launched:
  assumes "kernel_ok k" and "state_after (pit_handler f k) = Some k'" and "\<not> start_refused k k'"
  shows "kernel_ok k'"
proof (cases "stack (terminals k ! nat (next_term k)) = []")
  case False
  then show ?thesis using pit_resumes [OF assms(1) False, of f] assms(2) by auto
next
  case True
  then have "pit_handler f k \<noteq> Returns v k'" for v using assms(3) by (auto simp: start_refused_def)
  then show ?thesis using pit_launches [OF assms(1) True, of f] assms(2) by auto
qed

section \<open>Runs\<close>

lemma kstep_manned: "kstep k k' \<Longrightarrow> manned k \<Longrightarrow> manned k'"
proof (induction rule: kstep.induct)
  case (intr e k k')
  then show ?case using interrupt_kernel_ok [of k e k'] by (simp add: manned_def)
next
  case (timer f k k')
  then show ?case using pit_manned(1) by blast
next
  case (prog k k')
  then show ?case using prog_step_ok [of k k'] manned_aside [of k k'] by (simp add: manned_def)
qed

lemma ksteps_manned: "kstep\<^sup>*\<^sup>* k k' \<Longrightarrow> manned k \<Longrightarrow> manned k'"
  by (induction rule: rtranclp_induct) (auto intro: kstep_manned)

lemma kstep_launched_ok: "kstep_launched k k' \<Longrightarrow> kernel_ok k \<Longrightarrow> kernel_ok k'"
  by (auto simp: kstep_launched_def elim!: kstep.cases intro: interrupt_kernel_ok(1) pit_launched dest: prog_step_ok)

lemma ksteps_launched_ok: "kstep_launched\<^sup>*\<^sup>* k k' \<Longrightarrow> kernel_ok k \<Longrightarrow> kernel_ok k'"
  by (induction rule: rtranclp_induct) (auto intro: kstep_launched_ok)

section \<open>A preempted read\<close>

text \<open>
  What may happen while the program of terminal \<open>t\<close> waits in \<open>terminal_read\<close>: key strokes (\<open>ks\<close> are
  the keys that came while its terminal was displayed), clock and timer interrupts, and while the program of
  another terminal is running, everything that program does.
\<close>

inductive waiting :: "int \<Rightarrow> kernel \<Rightarrow> key list \<Rightarrow> kernel \<Rightarrow> bool" for t k0 where
  start: "waiting t k0 [] k0"
| key: "waiting t k0 ks k \<Longrightarrow> interrupt (Key sc) k = Some k' \<Longrightarrow> waiting t k0 (if active_term_idx k = t then ks @ [key_of sc k] else ks) k'"
| clock: "waiting t k0 ks k \<Longrightarrow> interrupt Tick k = Some k' \<Longrightarrow> waiting t k0 ks k'"
| timer: "waiting t k0 ks k \<Longrightarrow> state_after (pit_handler f k) = Some k' \<Longrightarrow> waiting t k0 ks k'"
| other: "waiting t k0 ks k \<Longrightarrow> cur_term_id k \<noteq> t \<Longrightarrow> prog_step k k' \<Longrightarrow> waiting t k0 ks k'"
| frame: "waiting t k0 ks k \<Longrightarrow> waiting t k0 ks (k\<lparr>cpu_ebp := e\<rparr>)"

definition timer_step :: "call_frame \<Rightarrow> kernel \<Rightarrow> kernel \<Rightarrow> bool" where
  "timer_step f k k' \<longleftrightarrow> state_after (pit_handler f k) = Some k'"

lemma interrupt_line:
  assumes "kernel_ok k" and "interrupt e k = Some k'" and "0 \<le> t" and "t < 3"
  shows "line (tm k' t) = (if active_term_idx k = t then event_edit e k (line (tm k t)) else line (tm k t))"
proof -
  obtain k2 where "interrupt e k = Some k2" "lines_after k k2 (event_edit e k)" using interrupt_lines [OF kernel_kbd [OF assms(1)], of e] by blast
  then show ?thesis using assms(2-4) by (simp add: lines_after_def)
qed

lemma waiting_ok:
  assumes "waiting t k0 ks k" and "manned k0" and "0 \<le> t" and "t < 3" and "line (tm k0 t) = l"
  shows "manned k \<and> stack (terminals k ! nat t) = stack (terminals k0 ! nat t) \<and> line (tm k t) = fold line_edit ks l"
  using assms(1)
proof (induction rule: waiting.induct)
  case start
  then show ?case using assms by simp
next
  case (key ks k sc k')
  then have k: "kernel_ok k" by (simp add: manned_def)
  show ?case
    using key interrupt_kernel_ok [OF k key.hyps(2)] interrupt_line [OF k key.hyps(2) assms(3,4)] assms(3,4)
    by (simp add: manned_def event_edit_def)
next
  case (clock ks k k')
  then have k: "kernel_ok k" by (simp add: manned_def)
  show ?case
    using clock interrupt_kernel_ok [OF k clock.hyps(2)] interrupt_line [OF k clock.hyps(2) assms(3,4)] assms(3,4)
    by (simp add: manned_def event_edit_def)
next
  case (timer ks k f k')
  then show ?case using pit_manned [of k f k'] by (simp add: tm_def)
next
  case (other ks k k')
  then have k: "kernel_ok k" by (simp add: manned_def)
  note p = prog_step_ok [OF other.hyps(3) k]
  have "nat t < 3" "int (nat t) \<noteq> cur_term_id k" using assms(3,4) other.hyps(2) by auto
  then show ?case
    using manned_aside [of k k'] aside_views [OF k, of k' "nat t"] p other.IH by (simp add: tm_def)
next
  case (frame ks k e)
  then show ?case by (simp add: manned_def kernel_ok_ebp tm_def)
qed

text \<open>Two timer interrupts are enough to bring a terminal back.\<close>

lemma timer_back:
  assumes "manned k" and "0 \<le> t" and "t < 3"
  shows "\<exists>n\<le>2. \<exists>k'. (timer_step f ^^ n) k k' \<and> manned k' \<and> cur_term_id k' = t \<and> terminals k' = terminals k"
proof -
  have step: "\<exists>k2. timer_step f k1 k2 \<and> manned k2 \<and> cur_term_id k2 = next_term k1 \<and> terminals k2 = terminals k1" if "manned k1" for k1
  proof -
    have "kernel_ok k1" "stack (terminals k1 ! nat (next_term k1)) \<noteq> []" using that next_term_range [of k1] by (simp_all add: manned_def)
    then obtain k2 where "state_after (pit_handler f k1) = Some k2" using pit_resumes [of k1 f] by auto
    then show ?thesis using pit_manned [OF that] by (auto simp: timer_step_def)
  qed
  obtain k1 where k1: "timer_step f k k1" "manned k1" "cur_term_id k1 = next_term k" "terminals k1 = terminals k" using step [OF assms(1)] by blast
  obtain k2 where k2: "timer_step f k1 k2" "manned k2" "cur_term_id k2 = next_term k1" "terminals k2 = terminals k1" using step [OF k1(2)] by blast
  have "0 \<le> cur_term_id k" "cur_term_id k < 3" using terminals_three [of k] assms(1) by (simp_all add: manned_def)
  then consider "cur_term_id k = t" | "cur_term_id k1 = t" | "cur_term_id k2 = t"
    using assms(2,3) unfolding k2(3) k1(3) next_term_def MAX_TERMINAL_NUM_def by (atomize_elim, presburger)
  then show ?thesis
  proof cases
    case 1
    then show ?thesis using assms(1) by (intro exI [of _ 0]) simp
  next
    case 2
    have "(timer_step f ^^ 1) k k1" using k1(1) by (simp only: relpowp_1)
    then show ?thesis using 2 k1 by (intro exI [of _ 1] conjI exI [of _ k1]) simp_all
  next
    case 3
    have "(timer_step f ^^ 2) k k2" using k1(1) k2(1) by (auto simp: numeral_2_eq_2)
    then show ?thesis using 3 k1(4) k2 by (intro exI [of _ 2] conjI exI [of _ k2]) simp_all
  qed
qed

text \<open>Typing up to the first Enter closes the line for good.\<close>

lemma edited_line:
  shows "KEnter \<notin> set ks \<Longrightarrow> fst (fold line_edit ks (True, l))"
    and "KEnter \<in> set ks \<Longrightarrow> \<exists>l'. fold line_edit (takeWhile (\<lambda>x. x \<noteq> KEnter) ks) (True, l) = (True, l') \<and> fold line_edit ks (True, l) = (False, l' @ [0x0A])"
proof -
  have closed: "fold line_edit ks (False, l) = (False, l)" for ks l by (induction ks) simp_all
  have opened: "\<exists>l'. line_edit x (True, l) = (True, l')" if "x \<noteq> KEnter" for x l using that by (cases x) simp_all
  show "KEnter \<notin> set ks \<Longrightarrow> fst (fold line_edit ks (True, l))"
  proof (induction ks arbitrary: l)
    case (Cons x ks)
    then obtain l' where "line_edit x (True, l) = (True, l')" using opened [of x] by auto
    then show ?case using Cons by simp
  qed simp
  show "\<exists>l'. fold line_edit (takeWhile (\<lambda>x. x \<noteq> KEnter) ks) (True, l) = (True, l') \<and> fold line_edit ks (True, l) = (False, l' @ [0x0A])"
    if "KEnter \<in> set ks" for ks l
    using that
  proof (induction ks arbitrary: l)
    case (Cons x ks)
    show ?case
    proof (cases "x = KEnter")
      case True
      then show ?thesis using closed by simp
    next
      case False
      then obtain l' where "line_edit x (True, l) = (True, l')" using opened by blast
      then show ?thesis using Cons False by simp
    qed
  qed simp
qed

lemma read_end_delivers:
  assumes "kernel_ok k" and "line (tm k (cur_term_id k)) = (False, l @ [0x0A])" and "0 < n" and "in_window buf (nat (min n 128))"
  shows "terminal_read_end buf n k = Some (min n (int (length l) + 1),
    k\<lparr>mem := store_bytes (mem k) (phys k buf) (take (nat (min n (int (length l) + 1)) - 1) l @ [0x0A])\<rparr>)"
proof -
  have c: "0 \<le> cur_term_id k" "cur_term_id k < 3" using terminals_three [OF assms(1)] by simp_all
  define r where "r = (if n < buf_index (tm k (cur_term_id k)) then n else buf_index (tm k (cur_term_id k)))"
  note d = deliver_line [OF kernel_kbd [OF assms(1)] c assms(2,3) window_lin [OF assms(1,4)] r_def]
  show ?thesis unfolding terminal_read_end_def Let_def r_def [symmetric] using d(2) unfolding d(1) .
qed

section \<open>Properties\<close>

text \<open>C2: once every terminal has a program, the kernel invariant holds in every state the system can reach
  by steps of any kind in any order (keyboard and clock interrupts, timer interrupts with whatever outcome, also inside
  the waits of blocking reads, exceptions, stores of the running program and its system calls, as long as a call does not
  write into the kernel's own page): every terminal still has a program, consoles, line buffers, page
  tables and process table are consistent, and the current process sees its own 4 MB frame in the 128 MB window,
  reaches at user level that frame and the text pages only, has its descriptors in use and its
  kernel stack in the TSS.\<close>

theorem kernel_invariant:
  assumes "kernel_ok k" and "\<forall>i<3. stack (terminals k ! i) \<noteq> []" and "kstep\<^sup>*\<^sup>* k k'"
  shows "kernel_ok k' \<and> (\<forall>i<3. stack (terminals k' ! i) \<noteq> []) \<and> (\<exists>p<6. last (cur_stack k') = p \<and> file_array k' = Some p
    \<and> tss_esp0 k' = 0x800000 - 0x2000 * of_nat p
    \<and> (\<forall>a user. unat a div 4194304 = 32 \<longrightarrow>
        (\<exists>pa. translate (pg k') user a = Some pa \<and> unat pa = 0x800000 + 0x400000 * p + unat a mod 0x400000))
    \<and> (\<forall>a pa. translate (pg k') True a = Some pa \<longrightarrow>
        (0x800000 + 0x400000 * p \<le> unat pa \<and> unat pa < 0xC00000 + 0x400000 * p) \<or> (0xB8000 \<le> unat pa \<and> unat pa < 0xBC000)))"
proof -
  have m: "manned k'" using ksteps_manned [OF assms(3)] assms(1,2) by (simp add: manned_def)
  then have k': "kernel_ok k'" and ne: "\<forall>i<3. stack (terminals k' ! i) \<noteq> []" by (simp_all add: manned_def)
  then have inv: "paging_inv (pg k')" "cur_stack k' \<noteq> []" "active_proc k' (last (cur_stack k'))"
    by (simp_all add: kernel_ok_def base_ok_def)
  then obtain ps p where st: "cur_stack k' = ps @ [p]" using rev_exhaust by blast
  have p: "p < 6" by (rule current_proc(1) [OF k' st])
  have w: "window_of (pg k') p" "file_array k' = Some p" "tss_esp0 k' = 0x800000 - 0x2000 * of_nat p"
    using inv(3) st by (simp_all add: active_proc_def PROG0_KSTACK_BOTTOM_def KERNEL_STACK_SIZE_def)
  show ?thesis using k' ne p w st window_translate [OF inv(1) w(1) p] window_isolated [OF inv(1) w(1) p]
    by (intro conjI exI [of _ p]) (assumption | simp)+
qed

lemma demo_three_manned: "\<forall>i<3. stack (terminals demo_three ! i) \<noteq> []" "manned demo_three"
proof -
  have "i = 0 \<or> i = 1 \<or> i = 2" if "i < 3" for i :: nat using that by auto
  then show "\<forall>i<3. stack (terminals demo_three ! i) \<noteq> []" using demo_three_stacks by (metis not_Cons_self2)
  then show "manned demo_three" using demo_three_ok by (simp add: manned_def)
qed

theorem kernel_invariant_witness:
  "\<exists>k'. kstep\<^sup>*\<^sup>* demo_three k' \<and> kernel_ok k' \<and> cur_term_id k' = 1 \<and> cur_stack k' = [1] \<and> mem k' 0xC00000 = 7"
proof -
  have c: "next_term demo_three = 1" by (simp add: next_term_def demo_three_def demo_paged_fields MAX_TERMINAL_NUM_def)
  obtain k1 where k1: "state_after (pit_handler demo_frame demo_three) = Some k1"
    using pit_resumes [OF demo_three_ok, of demo_frame] demo_three_stacks(2) c by auto
  note t = pit_manned [OF demo_three_manned(2) k1]
  have ok: "kernel_ok k1" and st: "cur_stack k1 = [1]" using t c demo_three_stacks(2) by (simp_all add: manned_def cur_stack_def)
  have "translate (pg k1) True (0x08000000 + of_nat 0) = Some (phys k1 0x08000000 + of_nat 0)"
    by (rule window_at(1) [OF ok, of _ 1]) (simp_all add: in_window_def)
  then have "translate (pg k1) True 0x08000000 = Some 0xC00000" using st by (simp add: phys_def)
  from prog_step.store [OF this, of 7] have "kstep k1 (k1\<lparr>mem := (mem k1)(0xC00000 := 7)\<rparr>)" by (rule kstep.prog)
  then have r: "kstep\<^sup>*\<^sup>* demo_three (k1\<lparr>mem := (mem k1)(0xC00000 := 7)\<rparr>)" using kstep.timer [OF k1] by (meson r_into_rtranclp rtranclp.rtrancl_into_rtrancl)
  have "kernel_ok (k1\<lparr>mem := (mem k1)(0xC00000 := 7)\<rparr>)"
    by (rule kernel_invariant [OF demo_three_ok demo_three_manned(1) r, THEN conjunct1])
  then show ?thesis using r t(2) c st by (intro exI [of _ "k1\<lparr>mem := (mem k1)(0xC00000 := 7)\<rparr>"]) (simp add: cur_stack_def)
qed

text \<open>C17: a program that reads a line from its terminal gets the line typed for it, however often it is preempted:
  while it waits, key strokes, clock interrupts, timer switches and all actions of the programs of the other terminals may come
  in any order, and the line is still what the keys that came while its terminal was displayed make of an empty line, and the program still has its process.
  Without an Enter among these keys the wait goes on.  Once Enter was among them, at most two timer interrupts make its terminal the
  current one, the wait is over, and the call returns what was typed before the first Enter, cut to the size
  asked for, with a newline at the end, stored in the buffer in the program's own frame and nowhere else.\<close>

theorem terminal_read_delivers_line:
  assumes "kernel_ok k" and "\<forall>i<3. stack (terminals k ! i) \<noteq> []" and "t = cur_term_id k"
    and "waiting t (terminal_read_begin k) ks k'" and "0 < n" and "in_window buf (nat (min n 128))"
  shows "kernel_ok k' \<and> stack (terminals k' ! nat t) = cur_stack k \<and> line (tm k' t) = fold line_edit ks (True, [])
    \<and> (KEnter \<notin> set ks \<longrightarrow> TERMINAL_READ_FLAG (tm k' t) \<noteq> 0)
    \<and> (KEnter \<in> set ks \<longrightarrow> (\<exists>l i k2. fold line_edit (takeWhile (\<lambda>x. x \<noteq> KEnter) ks) (True, []) = (True, l)
        \<and> i \<le> 2 \<and> (timer_step f ^^ i) k' k2 \<and> kernel_ok k2 \<and> cur_stack k2 = cur_stack k \<and> cur_term_id k2 = t \<and> TERMINAL_READ_FLAG (tm k2 t) = 0
        \<and> terminal_read_end buf n k2 = Some (min n (int (length l) + 1),
            k2\<lparr>mem := store_bytes (mem k2) (phys k2 buf) (take (nat (min n (int (length l) + 1)) - 1) l @ [0x0A])\<rparr>)))"
proof -
  have m: "manned (terminal_read_begin k)" using manned_aside read_begin_ok [OF assms(1)] assms(1,2) by (simp add: manned_def)
  have t: "0 \<le> t" "t < 3" using terminals_three [OF assms(1)] assms(3) by simp_all
  have l0: "line (tm (terminal_read_begin k) t) = (True, [])"
    using reading_ok(2) [OF kernel_kbd [OF assms(1)]] reading_eq [OF kernel_kbd [OF assms(1)]] assms(3) by simp
  have b: "base_ok k" using assms(1) by (simp add: kernel_ok_def)
  have "cur_stack (terminal_read_begin k) = cur_stack k"
    unfolding reading_eq [OF kernel_kbd [OF assms(1)]] by (rule base_ok_sys(2) [OF b reading_ok(1,3) [OF kernel_kbd [OF assms(1)]]])
  moreover have "cur_term_id (terminal_read_begin k) = t" using read_begin_ok(2) [OF assms(1)] assms(3) by (simp add: aside_def)
  ultimately have s0: "stack (terminals (terminal_read_begin k) ! nat t) = cur_stack k" by (simp add: cur_stack_def)
  have w: "manned k'" "stack (terminals k' ! nat t) = cur_stack k" "line (tm k' t) = fold line_edit ks (True, [])"
    using waiting_ok [OF assms(4) m t l0] s0 by simp_all
  have k': "kernel_ok k'" using w(1) by (simp add: manned_def)
  have go: "TERMINAL_READ_FLAG (tm k' t) \<noteq> 0" if "KEnter \<notin> set ks" 
    using edited_line(1) [OF that, of "[]"] w(3) [symmetric] by (simp add: line_def)
  have "\<exists>l i k2. fold line_edit (takeWhile (\<lambda>x. x \<noteq> KEnter) ks) (True, []) = (True, l)
        \<and> i \<le> 2 \<and> (timer_step f ^^ i) k' k2 \<and> kernel_ok k2 \<and> cur_stack k2 = cur_stack k \<and> cur_term_id k2 = t \<and> TERMINAL_READ_FLAG (tm k2 t) = 0
        \<and> terminal_read_end buf n k2 = Some (min n (int (length l) + 1),
            k2\<lparr>mem := store_bytes (mem k2) (phys k2 buf) (take (nat (min n (int (length l) + 1)) - 1) l @ [0x0A])\<rparr>)" if ent: "KEnter \<in> set ks"
  proof -
    obtain l where l: "fold line_edit (takeWhile (\<lambda>x. x \<noteq> KEnter) ks) (True, []) = (True, l)" "fold line_edit ks (True, []) = (False, l @ [0x0A])"
      using edited_line(2) [OF ent, of "[]"] by (elim exE conjE)
    obtain i k2 where i: "i \<le> 2" "(timer_step f ^^ i) k' k2" "manned k2" "cur_term_id k2 = t" "terminals k2 = terminals k'"
      using timer_back [OF w(1) t, of f] by blast
    have k2: "kernel_ok k2" "line (tm k2 (cur_term_id k2)) = (False, l @ [0x0A])" "cur_stack k2 = cur_stack k"
      using i w l(2) by (simp_all add: manned_def tm_def cur_stack_def)
    then have "TERMINAL_READ_FLAG (tm k2 t) = 0" using i(4) by (simp add: line_def)
    then show ?thesis using l(1) i k2 read_end_delivers [OF k2(1,2) assms(5,6)] by (intro exI conjI)
  qed
  then show ?thesis using k' w go by simp
qed

theorem terminal_read_delivers_line_witness:
  "\<exists>k1 k2 i k3 k4. interrupt (Key ENTER_PRESS) (terminal_read_begin demo_three) = Some k1 \<and> state_after (pit_handler demo_frame k1) = Some k2
    \<and> cur_term_id k2 = 1 \<and> i \<le> 2 \<and> (timer_step demo_frame ^^ i) k2 k3 \<and> cur_term_id k3 = 0
    \<and> terminal_read_end 0x08000100 128 k3 = Some (1, k4) \<and> mem k4 0x800100 = 0x0A"
proof -
  let ?k = "terminal_read_begin demo_three"
  have c: "cur_term_id demo_three = 0" "active_term_idx demo_three = 0" by (simp_all add: demo_three_def demo_paged_fields)
  have m: "manned ?k" using manned_aside read_begin_ok [OF demo_three_ok] demo_three_manned by blast
  then have ok: "kernel_ok ?k" by (simp add: manned_def)
  obtain k1 where k1: "interrupt (Key ENTER_PRESS) ?k = Some k1" using interrupt_lines [OF kernel_kbd [OF ok], of "Key ENTER_PRESS"] by blast
  have m1: "manned k1" by (rule kstep_manned [OF kstep.intr [OF k1] m])
  obtain k2 where k2: "state_after (pit_handler demo_frame k1) = Some k2"
    using pit_resumes [of k1 demo_frame] m1 next_term_range [of k1] by (auto simp: manned_def)
  have "cur_term_id ?k = 0" using read_begin_ok(2) [OF demo_three_ok] c by (simp add: aside_def)
  then have "cur_term_id k1 = 0" using interrupt_kernel_ok(2) [OF ok k1] by simp
  then have c2: "cur_term_id k2 = 1" using pit_manned(2) [OF m1 k2] by (simp add: next_term_def MAX_TERMINAL_NUM_def)
  have "active_term_idx ?k = 0" using c by (simp add: terminal_read_begin_def upd_tm_def Let_def)
  moreover have "key_of ENTER_PRESS ?k = KEnter" by (simp add: key_of_def Let_def key_codes)
  ultimately have "waiting 0 ?k [KEnter] k2"
    using waiting.timer [OF waiting.key [OF waiting.start k1] k2, of 0] by simp
  moreover have "in_window 0x08000100 (nat (min 128 128))" by (simp add: in_window_def)
  ultimately obtain i k3 where k3: "i \<le> 2" "(timer_step demo_frame ^^ i) k2 k3" "kernel_ok k3" "cur_stack k3 = cur_stack demo_three" "cur_term_id k3 = 0"
    "terminal_read_end 0x08000100 128 k3 = Some (1, k3\<lparr>mem := store_bytes (mem k3) (phys k3 0x08000100) [0x0A]\<rparr>)"
    using terminal_read_delivers_line [OF demo_three_ok demo_three_manned(1), of 0 "[KEnter]" k2 128 "0x08000100" demo_frame] c(1) by auto
  have "cur_stack demo_three = [0]" using demo_three_stacks(1) c(1) by (simp add: cur_stack_def)
  then have "phys k3 0x08000100 = 0x800100" using k3(4) by (simp add: phys_def)
  then have "mem (k3\<lparr>mem := store_bytes (mem k3) (phys k3 0x08000100) [0x0A]\<rparr>) 0x800100 = 0x0A" by simp
  then show ?thesis using k1 k2 c2 k3(1,2,5,6) by (intro exI conjI)
qed

text \<open>The page of \<open>vidmap\<close>, and what else \<open>enable_prog_vid_page\<close> changes: nothing.\<close>

lemma vid_page_enabled:
  assumes "paging_inv p" and "off < 4096"
  shows "\<exists>q. translate (enable_prog_vid_page p) True (0x08400000 + of_nat off) = Some q
    \<and> unat q = 4096 * unat (page_base_addr (page_table_video p 0)) + off \<and> 0xB8000 \<le> unat q \<and> unat q < 0xBC000"
proof -
  let ?r = "enable_prog_vid_page p" and ?a = "0x08400000 + of_nat off :: addr" and ?f = "page_base_addr (page_table_video p 0)"
  have inv: "paging_inv ?r" by (rule vid_page_inv(1) [OF assms(1)])
  have u: "unat ?a = 0x08400000 + off" using unat_plus_of_nat [of "0x08400000 :: addr" off] assms(2) by simp
  have q: "unat ?a div 4096 = 33792" unfolding u by (rule div_nat_eqI) (use assms(2) in simp_all)
  then have i: "unat ?a div 4194304 = 33" "unat ?a div 4096 mod 1024 = 0" "unat ?a mod 4096 = off"
    using div_mult2_eq [of "unat ?a" 4096 1024] minus_div_mult_eq_mod [of "unat ?a" 4096] u by simp_all
  have e: "pd_present (page_directory ?r 33) = 1" "pt_present (page_table_video ?r 0) = 1" "page_base_addr (page_table_video ?r 0) = ?f"
    by (simp_all add: enable_prog_vid_page_def Let_def flush_tlb_def PROG_VID_ENTRY_def)
  have d: "pd_u_s (page_directory ?r 33) = 1" "pd_page_size (page_directory ?r 33) = 0" "pt_u_s (page_table_video ?r 0) = 1"
    using inv by (simp_all add: paging_inv_def dir_inv_def table_inv_def)
  have "translate ?r True ?a = Some (push_bit 12 (ucast ?f) OR take_bit 12 ?a)"
    using translate_4k [OF inv refl, of ?a True "page_table_video ?r"] i e d low_table(2) [OF inv] by simp
  moreover have "0xB8 \<le> unat ?f \<and> unat ?f \<le> 0xBB" using vid_frames_unat [of ?f] assms(1) by (simp add: paging_inv_def table_inv_def)
  ultimately show ?thesis using frame_4k [of ?f ?a] i(3) assms(2) by simp
qed

lemma vid_page_else:
  assumes "paging_inv p" and "unat a div 4194304 \<noteq> 33"
  shows "translate (enable_prog_vid_page p) user a = translate p user a"
proof -
  let ?r = "enable_prog_vid_page p" and ?i = "unat (drop_bit 22 a)"
  have "unat a < 4294967296" using unsigned_less [of a] by simp
  then have i: "?i = unat a div 4194304" "?i < 1024" unfolding u32_parts by simp_all
  have same: "page_directory ?r ?i = page_directory p ?i" "page_table_0 ?r = page_table_0 p" "cr0 ?r = cr0 p" "cr4 ?r = cr4 p"
    "page_table_0_at ?r = page_table_0_at p"
    using assms(2) i by (simp_all add: enable_prog_vid_page_def Let_def flush_tlb_def PROG_VID_ENTRY_def set_pde_def set_ptev_def load_cr3_def)
  have d: "pd_present (page_directory p ?i) = 0 \<or> pd_page_size (page_directory p ?i) = 1 \<and> bit (cr4 p) 4 \<or> ?i = 0"
    using assms i by (auto simp: paging_inv_def dir_inv_def)
  have w: "walk_table ?r (push_bit 12 (ucast (page_table_addr (page_directory p 0)))) = walk_table p (push_bit 12 (ucast (page_table_addr (page_directory p 0))))"
    using low_table(1) [OF assms(1)] low_table(1) [OF vid_page_inv(1) [OF assms(1)]] same(2)
    by (simp add: enable_prog_vid_page_def Let_def flush_tlb_def PROG_VID_ENTRY_def set_pde_def set_ptev_def load_cr3_def)
  show ?thesis unfolding translate_def Let_def same using d w by auto
qed

text \<open>C31: \<open>vidmap\<close> refuses every pointer outside the 4 MB user page, changing nothing; for a pointer into the page it
  returns 0 and has stored the address 132 MB there, and from then on the program can read and write at that address the
  text page that the video page table names (the screen after booting, else the screen or the backup page set by the last
  switch to a program with a video page), the mapping of all other addresses is unchanged, and
  the process, and no other, is marked as using the page.\<close>

theorem vidmap_correct:
  assumes "kernel_ok k"
  shows "(unat a div 4194304 \<noteq> 32 \<longrightarrow> vidmap a k = Some (-1, k))
   \<and> (in_window a 4 \<longrightarrow> (\<exists>k'. vidmap a k = Some (0, k') \<and> kernel_ok k'
        \<and> load32 (mem k') (phys k a) = 0x08400000 \<and> (\<forall>b. (\<forall>i<4. b \<noteq> phys k a + of_nat i) \<longrightarrow> mem k' b = mem k b)
        \<and> (\<forall>off<4096. \<exists>q. translate (pg k') True (0x08400000 + of_nat off) = Some q
            \<and> unat q = 4096 * unat (page_base_addr (page_table_video (pg k) 0)) + off \<and> 0xB8000 \<le> unat q \<and> unat q < 0xBC000)
        \<and> (\<forall>b user. unat b div 4194304 \<noteq> 33 \<longrightarrow> translate (pg k') user b = translate (pg k) user b)
        \<and> video_mem_flag (pcbs k' ! last (cur_stack k)) = 1 \<and> (\<forall>p. p \<noteq> last (cur_stack k) \<longrightarrow> pcbs k' ! p = pcbs k ! p)
        \<and> terminals k' = terminals k))"
proof -
  have inv: "paging_inv (pg k)" and pr: "proc_ok k" using assms by (simp_all add: kernel_ok_def base_ok_def)
  have "\<exists>k'. vidmap a k = Some (0, k') \<and> kernel_ok k'
        \<and> load32 (mem k') (phys k a) = 0x08400000 \<and> (\<forall>b. (\<forall>i<4. b \<noteq> phys k a + of_nat i) \<longrightarrow> mem k' b = mem k b)
        \<and> pg k' = enable_prog_vid_page (pg k)
        \<and> video_mem_flag (pcbs k' ! last (cur_stack k)) = 1 \<and> (\<forall>p. p \<noteq> last (cur_stack k) \<longrightarrow> pcbs k' ! p = pcbs k ! p)
        \<and> terminals k' = terminals k" if w: "in_window a 4"
  proof -
    note pid = current_pid [OF assms]
    define k' where "k' = upd_pcb (cur_pid k) (\<lambda>b. b\<lparr>video_mem_flag := 1\<rparr>)
      (k\<lparr>pg := enable_prog_vid_page (pg k), mem := store_bytes (mem k) (phys k a) (bytes_of_u32 0x08400000)\<rparr>)"
    have "linear (k\<lparr>pg := enable_prog_vid_page (pg k)\<rparr>) a (phys k a) 4"
    proof -
      have "unat (a + of_nat i) div 4194304 \<noteq> 33" if "i < 4" for i
        using window_at(3) [OF assms w that] by (simp add: in_window_def)
      then show ?thesis using window_at(1) [OF assms w] by (simp add: linear_def vid_page_else [OF inv])
    qed
    then have v: "vidmap a k = Some (0, k')" using vidmap_eq [of a k "phys k a"] pid(2) w by (simp add: k'_def in_window_def)
    have ok: "kernel_ok k'" using vidmap_ok [OF assms v] .
    have m: "mem k' = store_bytes (mem k) (phys k a) (bytes_of_u32 0x08400000)" by (simp add: k'_def upd_pcb_def)
    have l4: "length (bytes_of_u32 x) = 4" for x by (simp add: bytes_of_u32_def)
    have ld: "load32 (mem k') (phys k a) = 0x08400000" by (simp add: m bytes_of_u32_def load32_def)
    have out: "\<forall>b. (\<forall>i<4. b \<noteq> phys k a + of_nat i) \<longrightarrow> mem k' b = mem k b" using store_bytes_out [of "bytes_of_u32 0x08400000" _ "phys k a" "mem k"] l4 m by auto
    have "pcbs k' = (pcbs k)[last (cur_stack k) := (pcbs k ! last (cur_stack k))\<lparr>video_mem_flag := 1\<rparr>]" using pid(3) by (simp add: k'_def upd_pcb_def)
    then have "video_mem_flag (pcbs k' ! last (cur_stack k)) = 1" "\<forall>p. p \<noteq> last (cur_stack k) \<longrightarrow> pcbs k' ! p = pcbs k ! p"
      using pid(1) proc_okD(1) [OF pr] by simp_all
    moreover have "pg k' = enable_prog_vid_page (pg k)" "terminals k' = terminals k" by (simp_all add: k'_def upd_pcb_def)
    ultimately show ?thesis using v ok ld out by blast
  qed
  moreover have "unat a div 4194304 \<noteq> 32 \<longrightarrow> vidmap a k = Some (-1, k)" using vidmap_eq [of a k] by blast
  ultimately show ?thesis using vid_page_enabled [OF inv] vid_page_else [OF inv] by fastforce
qed

theorem vidmap_correct_witness:
  "\<exists>k'. vidmap 0x08000000 demo_three = Some (0, k') \<and> load32 (mem k') 0x800000 = 0x08400000 \<and> translate (pg k') True 0x08400000 = Some 0xB8000"
proof -
  have w: "in_window 0x08000000 4" by (simp add: in_window_def)
  have "cur_stack demo_three = [0]" using demo_three_stacks(1) by (simp add: cur_stack_def demo_three_def demo_paged_fields)
  then have p: "phys demo_three 0x08000000 = 0x800000" by (simp add: phys_def)
  have f: "page_base_addr (page_table_video (pg demo_three) 0) = 0xB8"
    by (simp add: demo_three_def demo_paged_def setup_paging_def init_paging_def init_prog_vid_def Let_def load_page_directory_def
        enable_paging_def enable_program_page_def flush_tlb_def VIDEO_FRAME_def VIDEO_MEM_def)
  from vidmap_correct [OF demo_three_ok, of "0x08000000"] w obtain k' where
    k': "vidmap 0x08000000 demo_three = Some (0, k')" "load32 (mem k') (phys demo_three 0x08000000) = 0x08400000"
    "\<forall>off<4096. \<exists>q. translate (pg k') True (0x08400000 + of_nat off) = Some q
            \<and> unat q = 4096 * unat (page_base_addr (page_table_video (pg demo_three) 0)) + off" by blast
  from k'(3) [rule_format, of 0] obtain q where "translate (pg k') True 0x08400000 = Some q" "unat q = 0xB8000" using f by auto
  moreover from this(2) have "q = 0xB8000" by (simp add: word_unat_eq_iff)
  ultimately show ?thesis using k' p by (intro exI [of _ k']) simp
qed

end
