(* ===== verification/User_Programs.thy ===== *)
theory User_Programs
  imports User_Lib
begin

text \<open>
  User programs (\<open>src/syscalls\<close>): \<open>main\<close> of \<open>cat\<close>, \<open>ls\<close>, \<open>shell\<close>, \<open>hello\<close>, \<open>counter\<close> and
  \<open>testprint\<close> as functions of the whole state.  The local arrays of \<open>main\<close> are at addresses the
  compiler chooses (\<open>buf\<close>); \<open>evs\<close> are the interrupts that arrive during the
  program's reads, one list per read.  Results are \<open>(value of main, state)\<close>.
\<close>

section \<open>cat\<close>

partial_function (option) cat_loop ::
  "user_env \<Rightarrow> (nat \<Rightarrow> event list) \<Rightarrow> nat \<Rightarrow> int \<Rightarrow> addr \<Rightarrow> kernel \<Rightarrow> (int \<times> kernel) option" where
  "cat_loop e evs n fd buf k =
     do { (cnt, k) \<leftarrow> ece391_read e (evs n) fd buf 1024 k;
          if cnt = 0 then Some (0, k)
          else if cnt = -1 then do { k \<leftarrow> ece391_fdputs e 1 (lit e ''file read failed\<newline>'') k; Some (3, k) }
          else do { (r, k) \<leftarrow> ece391_write e 1 buf cnt k;
                    if r = -1 then Some (3, k) else cat_loop e evs (Suc n) fd buf k } }"

definition cat_main :: "user_env \<Rightarrow> (nat \<Rightarrow> event list) \<Rightarrow> addr \<Rightarrow> kernel \<Rightarrow> (int \<times> kernel) option" where
  "cat_main e evs buf k =
     do { (r, k) \<leftarrow> ece391_getargs e buf 1024 k;
          if r \<noteq> 0 then do { k \<leftarrow> ece391_fdputs e 1 (lit e ''could not read arguments\<newline>'') k; Some (3, k) }
          else do { (fd, k) \<leftarrow> ece391_open e buf k;
                    if fd = -1 then do { k \<leftarrow> ece391_fdputs e 1 (lit e ''file not found\<newline>'') k; Some (2, k) }
                    else cat_loop e evs 0 fd buf k } }"

section \<open>ls\<close>

definition SBUFSIZE :: int where "SBUFSIZE = 33"

partial_function (option) ls_loop ::
  "user_env \<Rightarrow> (nat \<Rightarrow> event list) \<Rightarrow> nat \<Rightarrow> int \<Rightarrow> addr \<Rightarrow> kernel \<Rightarrow> (int \<times> kernel) option" where
  "ls_loop e evs n fd buf k =
     do { (cnt, k) \<leftarrow> ece391_read e (evs n) fd buf (SBUFSIZE - 1) k;
          if cnt = 0 then Some (0, k)
          else if cnt = -1
          then do { k \<leftarrow> ece391_fdputs e 1 (lit e ''directory entry read failed\<newline>'') k; Some (3, k) }
          else do { k \<leftarrow> uwrite (buf + word_of_int cnt) 0x0A k;
                    (r, k) \<leftarrow> ece391_write e 1 buf (cnt + 1) k;
                    if r = -1 then Some (3, k) else ls_loop e evs (Suc n) fd buf k } }"

definition ls_main :: "user_env \<Rightarrow> (nat \<Rightarrow> event list) \<Rightarrow> addr \<Rightarrow> kernel \<Rightarrow> (int \<times> kernel) option" where
  "ls_main e evs buf k =
     do { (fd, k) \<leftarrow> ece391_open e (lit e ''.'') k;
          if fd = -1 then do { k \<leftarrow> ece391_fdputs e 1 (lit e ''directory open failed\<newline>'') k; Some (2, k) }
          else ls_loop e evs 0 fd buf k }"

section \<open>shell\<close>

definition shell_report :: "user_env \<Rightarrow> int \<Rightarrow> kernel \<Rightarrow> kernel option" where
  "shell_report e rval k =
     (if rval = -1 then ece391_fdputs e 1 (lit e ''no such command\<newline>'') k
      else if rval = 256 then ece391_fdputs e 1 (lit e ''program terminated by exception\<newline>'') k
      else if rval \<noteq> 0 then ece391_fdputs e 1 (lit e ''program terminated abnormally\<newline>'') k
      else Some k)"

text \<open>
  One round of the loop: \<open>Some r\<close> when \<open>main\<close> returns \<open>r\<close>, \<open>None\<close> when it goes on.
\<close>

definition shell_round ::
  "user_env \<Rightarrow> event list \<Rightarrow> (u32 \<Rightarrow> kernel \<Rightarrow> (int \<times> kernel) option) \<Rightarrow> addr \<Rightarrow> kernel \<Rightarrow> (int option \<times> kernel) option" where
  "shell_round e evs child buf k =
     do { k \<leftarrow> ece391_fdputs e 1 (lit e ''391OS> '') k;
          (cnt, k) \<leftarrow> ece391_read e evs 0 buf 1023 k;
          if cnt = -1
          then do { k \<leftarrow> ece391_fdputs e 1 (lit e ''read from keyboard failed\<newline>'') k; Some (Some 3, k) }
          else do {
            cnt \<leftarrow> (if cnt > 0 then map_option (\<lambda>c. if c = 0x0A then cnt - 1 else cnt) (uread k (buf + word_of_int (cnt - 1)))
                    else Some cnt);
            k \<leftarrow> uwrite (buf + word_of_int cnt) 0 k;
            r \<leftarrow> ece391_strcmp k buf (lit e ''exit'');
            if r = 0 then Some (Some 0, k)
            else do { c \<leftarrow> uread k buf;
                      if c = 0 then Some (None, k)
                      else do { (rval, k) \<leftarrow> ece391_execute e child buf k;
                                k \<leftarrow> shell_report e rval k;
                                Some (None, k) } } } }"

partial_function (option) shell_loop ::
  "user_env \<Rightarrow> (nat \<Rightarrow> event list) \<Rightarrow> (u32 \<Rightarrow> kernel \<Rightarrow> (int \<times> kernel) option) \<Rightarrow> nat \<Rightarrow> addr \<Rightarrow> kernel \<Rightarrow> (int \<times> kernel) option" where
  "shell_loop e evs child n buf k =
     do { (r, k) \<leftarrow> shell_round e (evs n) child buf k;
          case r of None \<Rightarrow> shell_loop e evs child (Suc n) buf k | Some v \<Rightarrow> Some (v, k) }"

definition shell_main ::
  "user_env \<Rightarrow> (nat \<Rightarrow> event list) \<Rightarrow> (u32 \<Rightarrow> kernel \<Rightarrow> (int \<times> kernel) option) \<Rightarrow> addr \<Rightarrow> kernel \<Rightarrow> (int \<times> kernel) option" where
  "shell_main e evs child buf k =
     do { k \<leftarrow> ece391_fdputs e 1 (lit e ''Starting 391 Shell\<newline>'') k; shell_loop e evs child 0 buf k }"

section \<open>hello, testprint, counter\<close>

definition hello_main :: "user_env \<Rightarrow> event list \<Rightarrow> addr \<Rightarrow> kernel \<Rightarrow> (int \<times> kernel) option" where
  "hello_main e evs buf k =
     do { k \<leftarrow> ece391_fdputs e 1 (lit e ''Hi, what's your name? '') k;
          (cnt, k) \<leftarrow> ece391_read e evs 0 buf 1023 k;
          if cnt = -1
          then do { k \<leftarrow> ece391_fdputs e 1 (lit e ''Can't read name from keyboard.\<newline>'') k; Some (3, k) }
          else do { k \<leftarrow> uwrite (buf + word_of_int cnt) 0 k;
                    k \<leftarrow> ece391_fdputs e 1 (lit e ''Hello, '') k;
                    k \<leftarrow> ece391_fdputs e 1 buf k;
                    Some (0, k) } }"

definition testprint_main :: "user_env \<Rightarrow> kernel \<Rightarrow> (int \<times> kernel) option" where
  "testprint_main e k =
     do { k \<leftarrow> ece391_fdputs e 1 (lit e ''Hello, if this ran, the program was correct. Yay!\<newline>'') k; Some (0, k) }"

definition counter_lines :: "user_env \<Rightarrow> addr \<Rightarrow> nat \<Rightarrow> kernel \<Rightarrow> kernel option" where
  "counter_lines e buf lim k =
     fold (\<lambda>i r. do { k \<leftarrow> r;
                      k \<leftarrow> ece391_itoa (of_nat i + 1) buf 10 k;
                      k \<leftarrow> ece391_fdputs e 1 buf k;
                      ece391_fdputs e 1 (lit e ''\<newline>'') k }) [0..<lim] (Some k)"

definition counter_main :: "user_env \<Rightarrow> event list \<Rightarrow> addr \<Rightarrow> kernel \<Rightarrow> (int \<times> kernel) option" where
  "counter_main e evs buf k =
     do { k \<leftarrow> ece391_fdputs e 1 (lit e ''Enter the Test Number: (0): 100, (1): 10000, (2): 100000\<newline>'') k;
          (cnt, k) \<leftarrow> ece391_read e evs 0 buf 1023 k;
          if cnt = -1
          then do { k \<leftarrow> ece391_fdputs e 1 (lit e ''Can't read the number from keyboard.\<newline>'') k; Some (3, k) }
          else do { k \<leftarrow> uwrite (buf + word_of_int cnt) 0 k;
                    len \<leftarrow> ece391_strlen k buf;
                    c \<leftarrow> uread k buf;
                    if len > 2 \<or> len = 2 \<and> (c < 0x30 \<or> c > 0x32)
                    then do { k \<leftarrow> ece391_fdputs e 1 (lit e ''Wrong Choice!\<newline>'') k; Some (0, k) }
                    else do { k \<leftarrow> counter_lines e buf (if c = 0x30 then 100 else if c = 0x31 then 10000
                                       else if c = 0x32 then 100000 else 0) k;
                              Some (0, k) } } }"

section \<open>cat prints the file\<close>

text \<open>A regular file that \<open>cat\<close> can read to its end: the block of the byte after the last one is looked up too.\<close>

definition readable :: "kernel \<Rightarrow> u32 \<Rightarrow> nat \<Rightarrow> bool" where
  "readable k ino L \<longleftrightarrow> image_ok (filesys k) \<and> ino < inode_num (filesys k) \<and> L = unat (inode_length (filesys k) (mem k) ino)
     \<and> L < 1023 * 4096 \<and> (\<forall>i\<le>L. block_ok (filesys k) (mem k) ino i)"

definition contents :: "kernel \<Rightarrow> u32 \<Rightarrow> nat \<Rightarrow> byte list" where
  "contents k ino n = map (file_byte (filesys k) (mem k) ino) [0..<n]"

lemma readable_step:
  assumes "readable k ino L" and "user_step k k'"
  shows "readable k' ino L" and "i \<le> L \<Longrightarrow> file_byte (filesys k') (mem k') ino i = file_byte (filesys k) (mem k) ino i"
proof -
  have a: "agree kernel_page_addrs (mem k) (mem k')" "filesys k' = filesys k" using assms(2) by (simp_all add: user_step_def)
  have r: "image_ok (filesys k)" "ino < inode_num (filesys k)" "L < 1023 * 4096" "\<And>i. i \<le> L \<Longrightarrow> block_ok (filesys k) (mem k) ino i"
    using assms(1) by (simp_all add: readable_def)
  note f = agree_file [OF r(1) a(1) r(2)] and l = agree_inode(1) [OF r(1) a(1) r(2)]
  have b: "block_ok (filesys k) (mem k') ino i" if "i \<le> L" for i using f(1) [of i] r(3) r(4) [OF that] that by simp
  show "readable k' ino L" using assms(1) b by (simp add: readable_def l a(2))
  show "file_byte (filesys k') (mem k') ino i = file_byte (filesys k) (mem k) ino i" if "i \<le> L"
    using f(2) [of i] r(3) r(4) [OF that] that by (simp add: a(2))
qed

text \<open>One round of the loop: the next bytes of the file are printed and the position moves on.\<close>

lemma cat_round:
  assumes "kernel_ok k" and "stdout_ok k" and "2 \<le> fd" and "fd \<le> 7" and "in_window buf 1024" and "readable k ino L"
    and "fd_entry k fd = \<lparr>op_ptr = regular_file_op_table, inode_idx = ino, file_position = of_nat pos, flags = 1\<rparr>" and "pos \<le> L"
    and "m = min 1024 (L - pos)"
  shows "\<exists>k'. cat_loop e evs n fd buf k = (if m = 0 then Some (0, k') else cat_loop e evs (Suc n) fd buf k')
    \<and> user_step k k' \<and> same_files fd k k' \<and> fd_entry k' fd = (fd_entry k fd)\<lparr>file_position := of_nat (pos + m)\<rparr>
    \<and> display k' = display (prints (map (file_byte (filesys k) (mem k) ino) [pos..<pos + m]) k)"
proof -
  let ?bs = "map (file_byte (filesys k) (mem k) ino) [pos..<pos + m]"
  have r: "ino < inode_num (filesys k)" "L = unat (inode_length (filesys k) (mem k) ino)" "L + 1024 < 4294967296"
    "\<And>i. i \<le> L \<Longrightarrow> block_ok (filesys k) (mem k) ino i" using assms(6) by (simp_all add: readable_def)
  obtain k1 where k1: "ece391_read e (evs n) fd buf 1024 k = Some (int m, k1)" "user_step k k1" "same_files fd k k1"
    "fd_entry k1 fd = (fd_entry k fd)\<lparr>file_position := of_nat (pos + m)\<rparr>" "display k1 = display k"
    "bytes_at (mem k1) (phys k buf) m = ?bs"
    using read_regular [OF assms(1,3,4,7) _ assms(5) _ r(1,2) assms(8) r(3,4) assms(9), of e "evs n"] by auto
  have ok1: "kernel_ok k1" using k1(2) by (simp add: user_step_def)
  have so: "stdout_ok k1" using assms(2,3) same_files_entry [OF k1(3), of 1] by (simp add: stdout_ok_def)
  have w: "ece391_write e 1 buf (int m) k1 = Some (int m, prints ?bs k1)"
    using write_stdout [OF ok1 so in_window_mono [OF assms(5)], of m e] k1(6) assms(9) user_step_phys [OF k1(2)] by simp
  show ?thesis
  proof (cases "m = 0")
    case True
    then have "cat_loop e evs n fd buf k = Some (0, k1)" using k1(1) by (subst cat_loop.simps) simp
    then show ?thesis using True k1 by (intro exI [of _ k1]) simp
  next
    case False
    then have "cat_loop e evs n fd buf k = cat_loop e evs (Suc n) fd buf (prints ?bs k1)"
      using k1(1) w by (subst cat_loop.simps) simp
    moreover have "user_step k (prints ?bs k1)" "same_files fd k (prints ?bs k1)"
      using prints_step [OF ok1] user_step_trans [OF k1(2)] same_files_trans [OF k1(3)] by blast+
    moreover have "fd_entry (prints ?bs k1) fd = fd_entry k1 fd"
      using prints_step(2) [OF ok1, of "-1"] assms(3) by (intro same_files_entry [of "-1"]) simp_all
    moreover have "display (prints ?bs k1) = display (prints ?bs k)"
      by (rule display_prints [OF kernel_console [OF ok1] kernel_console [OF assms(1)] k1(5)])
    ultimately show ?thesis using False k1(4) by (intro exI [of _ "prints ?bs k1"]) simp
  qed
qed

lemma cat_loop_prints:
  assumes "kernel_ok k" and "stdout_ok k" and "2 \<le> fd" and "fd \<le> 7" and "in_window buf 1024" and "readable k ino L"
    and "fd_entry k fd = \<lparr>op_ptr = regular_file_op_table, inode_idx = ino, file_position = of_nat pos, flags = 1\<rparr>" and "pos \<le> L"
  shows "\<exists>k'. cat_loop e evs n fd buf k = Some (0, k') \<and> user_step k k' \<and> same_files fd k k'
    \<and> display k' = display (prints (map (file_byte (filesys k) (mem k) ino) [pos..<L]) k)"
  using assms
proof (induction "L - pos" arbitrary: pos k n rule: less_induct)
  case less
  let ?m = "min 1024 (L - pos)"
  obtain k1 where k1: "cat_loop e evs n fd buf k = (if ?m = 0 then Some (0, k1) else cat_loop e evs (Suc n) fd buf k1)"
    "user_step k k1" "same_files fd k k1" "fd_entry k1 fd = (fd_entry k fd)\<lparr>file_position := of_nat (pos + ?m)\<rparr>"
    "display k1 = display (prints (map (file_byte (filesys k) (mem k) ino) [pos..<pos + ?m]) k)"
    using cat_round [OF less.prems refl, of e evs n] by blast
  show ?case
  proof (cases "?m = 0")
    case True
    then have "pos = L" using less.prems(8) by (simp add: min_def split: if_splits)
    then show ?thesis using k1 True by (intro exI [of _ k1]) simp
  next
    case False
    have ok1: "kernel_ok k1" using k1(2) by (simp add: user_step_def)
    have so: "stdout_ok k1" using less.prems(2,3) same_files_entry [OF k1(3), of 1] by (simp add: stdout_ok_def)
    have d: "L - (pos + ?m) < L - pos" "pos + ?m \<le> L" using False less.prems(8) by (auto simp: min_def split: if_splits)
    have e1: "fd_entry k1 fd = \<lparr>op_ptr = regular_file_op_table, inode_idx = ino, file_position = of_nat (pos + ?m), flags = 1\<rparr>"
      using k1(4) less.prems(7) by simp
    note rd = readable_step [OF less.prems(6) k1(2)]
    obtain k' where k': "cat_loop e evs (Suc n) fd buf k1 = Some (0, k')" "user_step k1 k'" "same_files fd k1 k'"
      "display k' = display (prints (map (file_byte (filesys k1) (mem k1) ino) [pos + ?m..<L]) k1)"
      using less.hyps [OF d(1) ok1 so less.prems(3-5) rd(1) e1 d(2), of "Suc n"] by blast
    let ?a = "map (file_byte (filesys k) (mem k) ino) [pos..<pos + ?m]" and ?b = "map (file_byte (filesys k) (mem k) ino) [pos + ?m..<L]"
    have b: "map (file_byte (filesys k1) (mem k1) ino) [pos + ?m..<L] = ?b" using rd(2) by simp
    have "?a @ ?b = map (file_byte (filesys k) (mem k) ino) [pos..<L]"
      using d(2) upt_add_eq_append [of pos "pos + ?m" "L - (pos + ?m)"] by (simp flip: map_append)
    moreover have "console_ok (prints ?a k)" using prints_step(1) [OF less.prems(1)] kernel_console by (simp add: user_step_def)
    then have "display (prints ?b k1) = display (prints ?b (prints ?a k))"
      by (rule display_prints [OF kernel_console [OF ok1] _ k1(5)])
    ultimately have "display k' = display (prints (map (file_byte (filesys k) (mem k) ino) [pos..<L]) k)"
      using k'(4) b by (metis prints_simps(2))
    then show ?thesis using k1(1) k'(1) False user_step_trans [OF k1(2) k'(2)] same_files_trans [OF k1(3) k'(3)]
      by (intro exI [of _ k']) simp
  qed
qed

text \<open>C11: \<open>cat\<close> prints the file named by its argument: in every kernel state that keeps the
  invariant, with a free descriptor, standard output open, a regular file of that name in the
  image whose blocks are good, and the buffer in the program's memory, \<open>main\<close> returns 0 and what is
  displayed is exactly what printing all the bytes of the file (but the NULs) one after the
  other gives, however long the file is.  The kernel invariant holds again, and every descriptor but
  the one \<open>cat\<close> opened is as before.\<close>

theorem cat_prints_file:
  assumes "kernel_ok k" and "stdout_ok k" and "free_fd k 2 < 8" and "in_window buf 1024"
    and "params (pcbs k ! last (cur_stack k)) = s @ [0] @ rest" and "0 \<notin> set s" and "s \<noteq> []" and "length s < 1024"
    and "read_dentry_by_name (filesys k) (mem k) (Some (of_bytes (s @ [0]))) (Some (dentry_stk (ker e))) = Some (0, Some d)"
    and "file_type d = 2" and "readable k (d_inode_idx d) L"
  shows "\<exists>k'. cat_main e evs buf k = Some (0, k') \<and> kernel_ok k' \<and> cur_stack k' = cur_stack k
    \<and> display k' = display (prints (contents k (d_inode_idx d) L) k)
    \<and> (\<forall>i. 0 \<le> i \<and> i \<noteq> free_fd k 2 \<longrightarrow> fd_entry k' i = fd_entry k i)"
proof -
  let ?fd = "free_fd k 2" and ?ino = "d_inode_idx d"
  have fd: "2 \<le> ?fd" "?fd \<le> 7" using free_fd_spec [of 2 k] assms(3) by auto
  define k1 where "k1 = k\<lparr>mem := store_bytes (mem k) (phys k buf) (s @ [0])\<rparr>"
  note g = call_getargs [OF assms(1,5,6,8) _ assms(7,4) k1_def]
  have st: "user_step k k1" "same_files ?fd k k1" "display k1 = display k"
    using store_step [OF assms(1,4), of "s @ [0]"] assms(8) by (simp_all add: k1_def)
  have ok1: "kernel_ok k1" using st(1) by (simp add: user_step_def)
  have ff: "free_fd k1 2 = ?fd" unfolding k1_def by (rule free_fd_mem)
  have "read_dentry_by_name (filesys k1) (mem k1) (Some (of_bytes (s @ [0]))) (Some (dentry_stk (ker e))) = Some (0, Some d)"
    using agree_lookup [of "filesys k" "mem k" "mem k1"] st(1) assms(9,11) by (simp add: user_step_def readable_def)
  then obtain k2 where k2: "ece391_open e buf k1 = Some (?fd, k2)" "user_step k1 k2" "same_files ?fd k1 k2"
    "fd_entry k2 ?fd = opened d" "display k2 = display k1"
    using call_open [OF ok1, of d buf s e] assms(3,6,8,10) g(2) in_window_mono [OF assms(4)] user_step_phys [OF st(1)]
    by (auto simp: ff)
  have s2: "user_step k k2" "same_files ?fd k k2" "display k2 = display k"
    using user_step_trans [OF st(1) k2(2)] same_files_trans [OF st(2) k2(3)] st(3) k2(5) by simp_all
  have ok2: "kernel_ok k2" using s2(1) by (simp add: user_step_def)
  have so: "stdout_ok k2" using assms(2) fd(1) same_files_entry [OF s2(2), of 1] by (simp add: stdout_ok_def)
  note rd = readable_step [OF assms(11) s2(1)]
  have e2: "fd_entry k2 ?fd = \<lparr>op_ptr = regular_file_op_table, inode_idx = ?ino, file_position = of_nat 0, flags = 1\<rparr>"
    using k2(4) assms(10) by (simp add: opened_def table_of_def)
  obtain k3 where k3: "cat_loop e evs 0 ?fd buf k2 = Some (0, k3)" "user_step k2 k3" "same_files ?fd k2 k3"
    "display k3 = display (prints (map (file_byte (filesys k2) (mem k2) ?ino) [0..<L]) k2)"
    using cat_loop_prints [OF ok2 so fd assms(4) rd(1) e2, of e evs 0] by blast
  have c: "map (file_byte (filesys k2) (mem k2) ?ino) [0..<L] = contents k ?ino L" using rd(2) by (simp add: contents_def)
  have "display k3 = display (prints (contents k ?ino L) k)"
    using k3(4) display_prints [OF kernel_console [OF ok2] kernel_console [OF assms(1)] s2(3)] c by simp
  moreover have "cat_main e evs buf k = Some (0, k3)" using g(1) [of e] k2(1) k3(1) fd(1) by (simp add: cat_main_def)
  ultimately show ?thesis
    using user_step_trans [OF s2(1) k3(2)] same_files_trans [OF s2(2) k3(3)]
    by (intro exI [of _ k3]) (simp add: user_step_def same_files_def)
qed

text \<open>A running program with the argument \<open>a\<close>, for witnesses.\<close>

definition demo_reader :: kernel where
  "demo_reader = upd_pcb 0 (\<lambda>b. b\<lparr>params := [0x61, 0]\<rparr>) demo_running"

definition demo_user :: user_env where
  "demo_user = \<lparr>ker = demo_frame, lit = (\<lambda>_. 0x08048000)\<rparr>"

lemma demo_running_files:
  "length (pcbs demo_running) = 6"
  "\<forall>i<8. flags (fd_entry demo_running (int i)) = (if i < 2 then 1 else 0) \<and> (i < 2 \<longrightarrow> op_ptr (fd_entry demo_running (int i)) = terminal_op_table)"
proof -
  have pr: "proc_ok demo_paged" using demo_paged_ok by (simp add: base_ok_def)
  have a: "get_active_pcb demo_paged = Some 0" by (simp add: get_active_pcb_def demo_paged_fields zero_pcb_def upt_rec MAX_PID_def)
  have c: "create_pcb demo_paged = (0, demo_paged\<lparr>pcbs := (pcbs demo_paged)[0 := new_pcb demo_paged 0], prog_counter := prog_counter demo_paged + 1,
    file_array := Some 0, terminals := (terminals demo_paged)[cur_idx demo_paged := push_pid 0 (terminals demo_paged ! cur_idx demo_paged)]\<rparr>)"
    using create_pcb_eq [OF pr a] by (simp add: demo_paged_fields)
  then have p: "pcbs demo_running = (replicate 6 zero_pcb)[0 := new_pcb demo_paged 0]" "file_array demo_running = Some 0"
    by (simp_all add: demo_running_def set_tss_def demo_paged_fields)
  then show "length (pcbs demo_running) = 6" by simp
  have "pcb_file_array (new_pcb demo_paged 0) = std_files (pcb_file_array zero_pcb)" by (simp add: new_pcb_def demo_paged_fields)
  moreover have "length (pcb_file_array zero_pcb) = 8" by (simp add: zero_pcb_def)
  ultimately show "\<forall>i<8. flags (fd_entry demo_running (int i)) = (if i < 2 then 1 else 0) \<and> (i < 2 \<longrightarrow> op_ptr (fd_entry demo_running (int i)) = terminal_op_table)"
    using std_files_correct [of "pcb_file_array zero_pcb"] p by (simp add: fd_entry_def)
qed

lemma demo_reader_ok:
  "kernel_ok demo_reader" "stdout_ok demo_reader" "free_fd demo_reader 2 < 8" "cur_stack demo_reader = [0]"
  "mem demo_reader = demo_mem" "filesys demo_reader = demo_fs" "params (pcbs demo_reader ! 0) = [0x61] @ [0] @ []"
proof -
  note f = demo_running_files
  have e: "fd_entry demo_reader i = fd_entry demo_running i" for i unfolding demo_reader_def by (rule fd_entry_upd_pcb) simp
  show "kernel_ok demo_reader" unfolding demo_reader_def by (rule kernel_ok_upd_pcb [OF demo_running_ok(1)]) (simp add: pcb_view_def)
  show "stdout_ok demo_reader" using f(2) [rule_format, of 1] by (simp add: stdout_ok_def e)
  have "flags (fd_entry demo_reader 2) = 0" using f(2) [rule_format, of 2] by (simp add: e)
  then show "free_fd demo_reader 2 < 8" by (subst free_fd.simps) simp
  show "cur_stack demo_reader = [0]" "mem demo_reader = demo_mem" "filesys demo_reader = demo_fs"
    using demo_running_ok by (simp_all add: demo_reader_def cur_stack_def)
  show "params (pcbs demo_reader ! 0) = [0x61] @ [0] @ []" using f(1) by (simp add: demo_reader_def upd_pcb_def)
qed

lemma demo_readable: "readable demo_reader 0 5"
  using demo_file by (simp add: readable_def demo_reader_ok image_ok_def) (simp add: demo_fs_def)

theorem cat_prints_file_witness:
  "\<exists>k'. cat_main demo_user (\<lambda>_. []) 0x08100000 demo_reader = Some (0, k')
    \<and> display k' = display (prints [0x7f, 0x45, 0x4c, 0x46, 0x21] demo_reader)"
proof -
  have w: "in_window 0x08100000 1024" by (simp add: in_window_def)
  have p: "params (pcbs demo_reader ! last (cur_stack demo_reader)) = [0x61] @ [0] @ []" using demo_reader_ok by simp
  have l: "read_dentry_by_name (filesys demo_reader) (mem demo_reader) (Some (of_bytes ([0x61] @ [0]))) (Some (dentry_stk (ker demo_user))) = Some (0, Some demo_dent)"
    using demo_lookup by (simp add: demo_reader_ok demo_user_def)
  have t: "file_type demo_dent = 2" "d_inode_idx demo_dent = 0" by (simp_all add: demo_dentry)
  have c: "contents demo_reader 0 5 = [0x7f, 0x45, 0x4c, 0x46, 0x21]"
    by (simp add: contents_def upt_rec demo_reader_ok file_byte_def data_addr_def inode_block_def inode_addr_def demo_fs_def demo_mem_def load32_def Let_def)
  from cat_prints_file [OF demo_reader_ok(1-3) w p _ _ _ l t(1), of 5 "\<lambda>_. []"] demo_readable
  show ?thesis unfolding t c by auto
qed

section \<open>ls lists the directory\<close>

definition listable :: "kernel \<Rightarrow> bool" where
  "listable k \<longleftrightarrow> image_ok (filesys k) \<and> (\<forall>i < unat (dentry_num (filesys k)).
     \<exists>n>0. is_cstr (at (mem k) (dentry_addr (filesys k) (of_nat i))) n \<and> n < 64)"

definition listing :: "kernel \<Rightarrow> nat \<Rightarrow> nat \<Rightarrow> byte list" where
  "listing k i j = concat (map (\<lambda>i. dentry_name k i @ [0x0A]) [i..<j])"

lemma dentry_agree:
  assumes "image_ok (filesys k)" and a: "agree kernel_page_addrs (mem k) (mem k')" "filesys k' = filesys k" and "i < unat (dentry_num (filesys k))"
  shows "j < 64 \<Longrightarrow> at (mem k') (dentry_addr (filesys k) (of_nat i)) j = at (mem k) (dentry_addr (filesys k) (of_nat i)) j"
    and "dentry_name k' i = dentry_name k i"
proof -
  have "unat (dentry_num (filesys k)) \<le> 63" using assms(1) by (simp add: image_ok_def)
  then have "of_nat i < dentry_num (filesys k)" using assms(4) unat_of_nat_u32 [of i] by (simp add: word_less_nat_alt)
  note d = agree_dentry(1) [OF assms(1) a(1) this]
  then show "j < 64 \<Longrightarrow> at (mem k') (dentry_addr (filesys k) (of_nat i)) j = at (mem k) (dentry_addr (filesys k) (of_nat i)) j"
    by (simp add: at_def)
  have "bytes_at (mem k') (dentry_addr (filesys k) (of_nat i)) 32 = bytes_at (mem k) (dentry_addr (filesys k) (of_nat i)) 32"
    by (rule bytes_at_cong) (simp add: d)
  then show "dentry_name k' i = dentry_name k i" by (simp add: dentry_name_def a(2))
qed

lemma listing_agree:
  assumes l: "listable k" and a: "agree kernel_page_addrs (mem k) (mem k')" and fs: "filesys k' = filesys k"
  shows "listable k'" and "j \<le> unat (dentry_num (filesys k)) \<Longrightarrow> listing k' i j = listing k i j"
proof -
  have im: "image_ok (filesys k)" using l by (simp add: listable_def)
  have "\<exists>n>0. is_cstr (at (mem k') (dentry_addr (filesys k) (of_nat i))) n \<and> n < 64" if i: "i < unat (dentry_num (filesys k))" for i
  proof -
    obtain n where n: "0 < n" "is_cstr (at (mem k) (dentry_addr (filesys k) (of_nat i))) n" "n < 64" using l i by (auto simp: listable_def)
    then have "is_cstr (at (mem k') (dentry_addr (filesys k) (of_nat i))) n"
      using dentry_agree(1) [OF im a fs i] by (simp add: is_cstr_def)
    then show ?thesis using n by blast
  qed
  then show "listable k'" using im by (simp add: listable_def fs)
  show "j \<le> unat (dentry_num (filesys k)) \<Longrightarrow> listing k' i j = listing k i j"
    using dentry_agree(2) [OF im a fs] unfolding listing_def by (intro arg_cong [of _ _ concat] map_cong) auto
qed

lemma listing_step:
  assumes "listable k" and "user_step k k'"
  shows "listable k'" and "j \<le> unat (dentry_num (filesys k)) \<Longrightarrow> listing k' i j = listing k i j"
  using listing_agree [OF assms(1)] assms(2) by (simp_all add: user_step_def)

lemma ls_loop_step:
  assumes "ece391_read e (evs n) fd buf 32 k = Some (int c, k1)" and "c \<noteq> 0" and "uwrite (buf + of_nat c) 0x0A k1 = Some k2"
    and "ece391_write e 1 buf (int c + 1) k2 = Some (int c + 1, k3)"
  shows "ls_loop e evs n fd buf k = ls_loop e evs (Suc n) fd buf k3"
  using assms by (subst ls_loop.simps) (simp add: SBUFSIZE_def)

lemma ls_round:
  assumes "kernel_ok k" and "stdout_ok k" and "2 \<le> fd" and "fd \<le> 7" and "in_window buf 33" and "listable k"
    and "fd_entry k fd = \<lparr>op_ptr = dirt_op_table, inode_idx = 0, file_position = of_nat pos, flags = 1\<rparr>"
    and "pos < unat (dentry_num (filesys k))"
  shows "\<exists>k'. ls_loop e evs n fd buf k = ls_loop e evs (Suc n) fd buf k' \<and> user_step k k' \<and> same_files fd k k'
    \<and> fd_entry k' fd = (fd_entry k fd)\<lparr>file_position := of_nat (Suc pos)\<rparr>
    \<and> display k' = display (prints (dentry_name k pos @ [0x0A]) k)"
proof -
  let ?bs = "dentry_name k pos @ [0x0A]"
  obtain l where l: "0 < l" "is_cstr (at (mem k) (dentry_addr (filesys k) (of_nat pos))) l" and im: "image_ok (filesys k)"
    using assms(6,8) by (auto simp: listable_def)
  let ?c = "min l 32"
  have w: "in_window buf 32" using in_window_mono [OF assms(5)] by simp
  obtain k1 where k1: "ece391_read e (evs n) fd buf 32 k = Some (int ?c, k1)" "user_step k k1" "same_files fd k k1"
    "fd_entry k1 fd = (fd_entry k fd)\<lparr>file_position := of_nat (Suc pos)\<rparr>" "display k1 = display k"
    "bytes_at (mem k1) (phys k buf) ?c = dentry_name k pos"
    using read_directory(2) [OF assms(1,3,4,7) w im _ assms(8) l(2), of e "evs n"] assms(8) by auto
  have ok1: "kernel_ok k1" using k1(2) by (simp add: user_step_def)
  note ph = user_step_phys [OF k1(2)]
  have c: "?c < 33" "?c \<noteq> 0" using l(1) by simp_all
  obtain k2 where k2: "uwrite (buf + of_nat ?c) 0x0A k1 = Some k2" "user_step k1 k2" "same_files (-1) k1 k2" "display k2 = display k1"
    "mem k2 = (mem k1)(phys k1 buf + of_nat ?c := 0x0A)"
    using uwrite_window [OF ok1 assms(5) c(1), of "0x0A" "-1"] by blast
  have b: "bytes_at (mem k2) (phys k2 buf) (?c + 1) = ?bs"
    using bytes_at_append_upd [of ?c "mem k1" "phys k buf" "0x0A"] k1(6) k2(5) ph user_step_phys [OF k2(2)] by simp
  have u2: "user_step k k2" "same_files (-1) k1 k2" using user_step_trans [OF k1(2) k2(2)] k2(3) by simp_all
  have ok2: "kernel_ok k2" using k2(2) by (simp add: user_step_def)
  have so: "stdout_ok k2" using assms(2,3) same_files_entry [OF k1(3), of 1] same_files_entry [OF u2(2), of 1] by (simp add: stdout_ok_def)
  have wr: "ece391_write e 1 buf (int ?c + 1) k2 = Some (int ?c + 1, prints ?bs k2)"
    using write_stdout [OF ok2 so in_window_mono [OF assms(5)], of "?c + 1" e] b by (simp add: add.commute)
  have "ls_loop e evs n fd buf k = ls_loop e evs (Suc n) fd buf (prints ?bs k2)"
    by (rule ls_loop_step [where evs = evs and n = n, OF k1(1) c(2) k2(1) wr])
  moreover have "user_step k (prints ?bs k2)" using prints_step(1) [OF ok2] user_step_trans [OF u2(1)] by blast
  moreover have f2: "same_files (-1) k1 (prints ?bs k2)" using prints_step(2) [OF ok2] same_files_trans [OF u2(2)] by blast
  then have "same_files fd k (prints ?bs k2)" using k1(3) unfolding same_files_def by force
  moreover have "fd_entry (prints ?bs k2) fd = fd_entry k1 fd" using same_files_entry [OF f2, of fd] assms(3) by simp
  moreover have "display (prints ?bs k2) = display (prints ?bs k)"
    by (rule display_prints [OF kernel_console [OF ok2] kernel_console [OF assms(1)]]) (simp add: k1(5) k2(4))
  ultimately show ?thesis using k1(4) by (intro exI [of _ "prints ?bs k2"]) simp
qed

lemma ls_loop_prints:
  assumes "kernel_ok k" and "stdout_ok k" and "2 \<le> fd" and "fd \<le> 7" and "in_window buf 33" and "listable k"
    and "fd_entry k fd = \<lparr>op_ptr = dirt_op_table, inode_idx = 0, file_position = of_nat pos, flags = 1\<rparr>"
    and "pos \<le> D" and "D = unat (dentry_num (filesys k))"
  shows "\<exists>k'. ls_loop e evs n fd buf k = Some (0, k') \<and> user_step k k' \<and> same_files fd k k' \<and> op_ptr (fd_entry k' fd) = dirt_op_table
    \<and> display k' = display (prints (listing k pos D) k)"
  using assms
proof (induction "D - pos" arbitrary: pos k n)
  case 0
  then have p: "pos = unat (dentry_num (filesys k))" by simp
  have "in_window buf 32" "image_ok (filesys k)" using in_window_mono [OF "0.prems"(5)] "0.prems"(6) by (simp_all add: listable_def)
  then have "ece391_read e (evs n) fd buf 32 k = Some (0, k)"
    using read_directory(1) [OF "0.prems"(1,3,4,7)] p by simp
  then have "ls_loop e evs n fd buf k = Some (0, k)" by (subst ls_loop.simps) (simp add: SBUFSIZE_def)
  then show ?case using "0.prems"(1,7) "0.hyps" by (intro exI [of _ k]) (simp add: user_step_def same_files_def agree_def listing_def)
next
  case (Suc r)
  have lt: "pos < D" "pos < unat (dentry_num (filesys k))" using Suc.hyps(2) Suc.prems(9) by simp_all
  obtain k1 where k1: "ls_loop e evs n fd buf k = ls_loop e evs (Suc n) fd buf k1" "user_step k k1" "same_files fd k k1"
    "fd_entry k1 fd = (fd_entry k fd)\<lparr>file_position := of_nat (Suc pos)\<rparr>"
    "display k1 = display (prints (dentry_name k pos @ [0x0A]) k)"
    using ls_round [OF Suc.prems(1-7) lt(2), of e evs n] by blast
  have ok1: "kernel_ok k1" and fs: "filesys k1 = filesys k" using k1(2) by (simp_all add: user_step_def)
  have so: "stdout_ok k1" using Suc.prems(2,3) same_files_entry [OF k1(3), of 1] by (simp add: stdout_ok_def)
  have e1: "fd_entry k1 fd = \<lparr>op_ptr = dirt_op_table, inode_idx = 0, file_position = of_nat (Suc pos), flags = 1\<rparr>"
    using k1(4) Suc.prems(7) by simp
  have "r = D - Suc pos" "Suc pos \<le> D" "D = unat (dentry_num (filesys k1))" using Suc.hyps(2) lt Suc.prems(9) fs by simp_all
  then obtain k' where k': "ls_loop e evs (Suc n) fd buf k1 = Some (0, k')" "user_step k1 k'" "same_files fd k1 k'"
    "display k' = display (prints (listing k1 (Suc pos) D) k1)" "op_ptr (fd_entry k' fd) = dirt_op_table"
    using Suc.hyps(1) [OF _ ok1 so Suc.prems(3-5) listing_step(1) [OF Suc.prems(6) k1(2)] e1, of "Suc n"] by blast
  let ?a = "dentry_name k pos @ [0x0A]" and ?b = "listing k (Suc pos) D"
  have b: "listing k1 (Suc pos) D = ?b" using listing_step(2) [OF Suc.prems(6) k1(2)] Suc.prems(9) by simp
  have l: "?a @ ?b = listing k pos D" using lt(1) by (simp add: listing_def upt_conv_Cons)
  have "console_ok (prints ?a k)" using prints_step(1) [OF Suc.prems(1), of ?a] kernel_console by (simp add: user_step_def)
  then have "display (prints ?b k1) = display (prints ?b (prints ?a k))"
    by (rule display_prints [OF kernel_console [OF ok1] _ k1(5)])
  then have "display k' = display (prints (listing k pos D) k)" using k'(4) b l by (metis prints_simps(2))
  then show ?case using k1(1) k'(1,5) user_step_trans [OF k1(2) k'(2)] same_files_trans [OF k1(3) k'(3)]
    by (intro exI [of _ k']) simp
qed

lemma ls_main_lists:
  assumes "kernel_ok k" and "stdout_ok k" and "free_fd k 2 < 8" and "in_window buf 33"
    and "in_window (lit e ''.'') 2" and "bytes_at (mem k) (phys k (lit e ''.'')) 2 = [0x2E, 0]"
    and "read_dentry_by_name (filesys k) (mem k) (Some (of_bytes [0x2E, 0])) (Some (dentry_stk (ker e))) = Some (0, Some d)"
    and "file_type d = 1" and "listable k"
  shows "\<exists>k'. ls_main e evs buf k = Some (0, k') \<and> user_step k k' \<and> same_files (free_fd k 2) k k'
    \<and> op_ptr (fd_entry k' (free_fd k 2)) = dirt_op_table
    \<and> display k' = display (prints (listing k 0 (unat (dentry_num (filesys k)))) k)"
proof -
  let ?fd = "free_fd k 2" and ?D = "unat (dentry_num (filesys k))"
  have fd: "2 \<le> ?fd" "?fd \<le> 7" using free_fd_spec [of 2 k] assms(3) by auto
  have dot: "length [0x2E :: byte] + 1 = 2" "0 \<notin> set [0x2E :: byte]" by simp_all
  obtain k2 where k2: "ece391_open e (lit e ''.'') k = Some (?fd, k2)" "user_step k k2" "same_files ?fd k k2"
    "fd_entry k2 ?fd = opened d" "display k2 = display k"
    using call_open [OF assms(1,3) _ _ _ dot(2), of d "lit e ''.''" e] assms(5-8) unfolding dot(1) by auto
  have ok2: "kernel_ok k2" and fs: "filesys k2 = filesys k" using k2(2) by (simp_all add: user_step_def)
  have so: "stdout_ok k2" using assms(2) fd(1) same_files_entry [OF k2(3), of 1] by (simp add: stdout_ok_def)
  have e2: "fd_entry k2 ?fd = \<lparr>op_ptr = dirt_op_table, inode_idx = 0, file_position = of_nat 0, flags = 1\<rparr>"
    using k2(4) assms(8) by (simp add: opened_def table_of_def)
  obtain k3 where k3: "ls_loop e evs 0 ?fd buf k2 = Some (0, k3)" "user_step k2 k3" "same_files ?fd k2 k3"
    "display k3 = display (prints (listing k2 0 ?D) k2)" "op_ptr (fd_entry k3 ?fd) = dirt_op_table"
    using ls_loop_prints [OF ok2 so fd assms(4) listing_step(1) [OF assms(9) k2(2)] e2 _ refl, of e evs 0] fs by auto
  have "listing k2 0 ?D = listing k 0 ?D" by (rule listing_step(2) [OF assms(9) k2(2)]) simp
  then have "display k3 = display (prints (listing k 0 ?D) k)"
    using k3(4) display_prints [OF kernel_console [OF ok2] kernel_console [OF assms(1)] k2(5)] by simp
  moreover have "ls_main e evs buf k = Some (0, k3)" using k2(1) k3(1) fd(1) by (simp add: ls_main_def)
  ultimately show ?thesis
    using user_step_trans [OF k2(2) k3(2)] same_files_trans [OF k2(3) k3(3)] k3(5) by (intro exI [of _ k3]) simp
qed

text \<open>C12: \<open>ls\<close> lists the directory: in every kernel state that keeps the invariant, with a free
  descriptor, standard output open, the literal \<open>.\<close> in the program's memory naming the directory, and
  non-empty names in the image, \<open>main\<close> returns 0 and what is displayed is exactly what printing the
  name of every directory entry (its bytes up to a NUL, 32 at most), each with a newline, gives.\<close>

theorem ls_lists_directory:
  assumes "kernel_ok k" and "stdout_ok k" and "free_fd k 2 < 8" and "in_window buf 33"
    and "in_window (lit e ''.'') 2" and "bytes_at (mem k) (phys k (lit e ''.'')) 2 = [0x2E, 0]"
    and "read_dentry_by_name (filesys k) (mem k) (Some (of_bytes [0x2E, 0])) (Some (dentry_stk (ker e))) = Some (0, Some d)"
    and "file_type d = 1" and "listable k"
  shows "\<exists>k'. ls_main e evs buf k = Some (0, k') \<and> kernel_ok k' \<and> cur_stack k' = cur_stack k
    \<and> display k' = display (prints (concat (map (\<lambda>i. dentry_name k i @ [0x0A]) [0..<unat (dentry_num (filesys k))])) k)
    \<and> (\<forall>i. 0 \<le> i \<and> i \<noteq> free_fd k 2 \<longrightarrow> fd_entry k' i = fd_entry k i)"
  using ls_main_lists [OF assms, of evs] unfolding listing_def user_step_def same_files_def by blast

text \<open>An image with the directory only, and the literal in the program's memory.\<close>

definition demo_dir_mem :: mem where
  "demo_dir_mem a = (if a = 0x500040 \<or> a = 0x848000 then 0x2E else if a = 0x500060 then 1 else demo_mem a)"

definition demo_lister :: kernel where
  "demo_lister = demo_reader\<lparr>mem := demo_dir_mem\<rparr>"

lemma demo_dir_cells:
  "demo_dir_mem 0x500040 = 0x2E" "demo_dir_mem 0x500041 = 0" "demo_dir_mem 0x848000 = 0x2E" "demo_dir_mem 0x848001 = 0"
  "load32 demo_dir_mem 0x500060 = 1"
  by (simp_all add: demo_dir_mem_def demo_mem_def Let_def load32_def)

lemma demo_dir_name: "is_cstr (at demo_dir_mem 0x500040) 1"
  using demo_dir_cells(1,2) by (auto simp: is_cstr_def at_def)

lemma lookup_one_char:
  assumes "j < unat (dentry_num fs)" and "m (dentry_addr fs (of_nat j)) = c" and "m (dentry_addr fs (of_nat j) + 1) = 0" and "c \<noteq> 0"
    and "\<And>i. i < j \<Longrightarrow> m (dentry_addr fs (of_nat i)) \<noteq> c"
  shows "read_dentry_by_name fs m (Some (of_bytes [c, 0])) (Some d) = Some (0, Some (load_dentry m (dentry_addr fs (of_nat j))))"
proof -
  let ?n = "of_bytes [c, 0]"
  have c: "is_cstr ?n 1" using assms(4) by (auto simp: is_cstr_def of_bytes_def)
  have "?n i = at m (dentry_addr fs (of_nat j)) i" if "\<forall>k<i. ?n k \<noteq> 0" for i
  proof -
    have "\<not> 1 < i" using that c by (auto simp: is_cstr_def)
    then have "i = 0 \<or> i = 1" by arith
    then show ?thesis using assms(2,3) by (auto simp: of_bytes_def at_def)
  qed
  then have "dentry_matches fs m ?n j" unfolding dentry_matches_def cstr_eq_def by blast
  moreover have "\<not> dentry_matches fs m ?n i" if "i < j" for i
    unfolding dentry_matches_def cstr_eq_def not_all
    by (rule exI [of _ 0]) (use assms(5) [OF that] in \<open>simp add: of_bytes_def at_def\<close>)
  ultimately have "find_dentry fs m ?n (Some d) 0 = (0, Some (load_dentry m (dentry_addr fs (of_nat j))))"
    using find_dentry_first [of fs m ?n j 0 "Some d"] assms(1) by simp
  then show ?thesis using strlen_Some [OF c] by (simp add: read_dentry_by_name_def)
qed

lemma demo_dir_lookup:
  "\<exists>d'. read_dentry_by_name demo_fs demo_dir_mem (Some (of_bytes [0x2E, 0])) (Some d) = Some (0, Some d') \<and> file_type d' = 1"
proof -
  have a: "dentry_addr demo_fs 0 = 0x500040" by (simp add: dentry_addr_def demo_fs_def)
  have "file_type (load_dentry demo_dir_mem 0x500040) = 1" using demo_dir_cells(5) by (simp add: load_dentry_def)
  then show ?thesis using lookup_one_char [of 0 demo_fs demo_dir_mem "0x2E" d] demo_dir_cells(1,2) by (simp add: a) (simp add: demo_fs_def)
qed

theorem ls_lists_directory_witness:
  "\<exists>k'. ls_main demo_user (\<lambda>_. []) 0x08100000 demo_lister = Some (0, k') \<and> display k' = display (prints [0x2E, 0x0A] demo_lister)"
proof -
  note r = demo_reader_ok
  have k: "kernel_ok demo_lister" "stdout_ok demo_lister" "free_fd demo_lister 2 < 8"
    using r(1-3) by (simp_all add: demo_lister_def kernel_ok_mem stdout_ok_def free_fd_mem)
  have m: "mem demo_lister = demo_dir_mem" "filesys demo_lister = demo_fs" "cur_stack demo_lister = [0]"
    using r(4,6) by (simp_all add: demo_lister_def cur_stack_def)
  have w: "in_window 0x08100000 33" "in_window (lit demo_user ''.'') 2" by (simp_all add: in_window_def demo_user_def)
  have "phys demo_lister (lit demo_user ''.'') = 0x848000" by (simp add: phys_def m demo_user_def)
  then have b: "bytes_at (mem demo_lister) (phys demo_lister (lit demo_user ''.'')) 2 = [0x2E, 0]"
    using demo_dir_cells(3,4) by (simp add: m numeral_2_eq_2 bytes_at_Suc)
  obtain d where d: "read_dentry_by_name (filesys demo_lister) (mem demo_lister) (Some (of_bytes [0x2E, 0])) (Some (dentry_stk (ker demo_user))) = Some (0, Some d)"
    "file_type d = 1" using demo_dir_lookup unfolding m by blast
  have n: "dentry_num demo_fs = 1" "dentry_addr demo_fs 0 = 0x500040" by (simp_all add: demo_fs_def dentry_addr_def)
  have l: "listable demo_lister"
    using demo_dir_name by (auto simp: listable_def m n image_ok_def) (simp_all add: demo_fs_def)
  have "dentry_name demo_lister 0 = [0x2E]"
    using name_bytes [OF demo_dir_name] demo_dir_cells(1) by (simp add: dentry_name_def m n bytes_at_Suc)
  then have c: "concat (map (\<lambda>i. dentry_name demo_lister i @ [0x0A]) [0..<unat (dentry_num (filesys demo_lister))]) = [0x2E, 0x0A]"
    by (simp add: m n)
  from ls_lists_directory [OF k w(1,2) b d l, of "\<lambda>_. []"] show ?thesis unfolding c by blast
qed

end
