(* ===== verification/User_Shell.thy ===== *)
theory User_Shell
  imports User_Programs
begin

text \<open>
  From the keyboard to a program: what key strokes do to memory, what a read of the keyboard leaves in
  the buffer of a program, and that a round of the shell runs the command that was typed.
\<close>

section \<open>Interrupts only draw\<close>

definition draws :: "kernel \<Rightarrow> kernel \<Rightarrow> bool" where
  "draws k k' \<longleftrightarrow> (console_ok k \<longrightarrow> console_ok k' \<and> (\<forall>a. a \<notin> screen \<longrightarrow> mem k' a = mem k a))"

lemma draws_refl: "draws k k"
  by (simp add: draws_def)

lemma draws_trans: "draws k k' \<Longrightarrow> draws k' k'' \<Longrightarrow> draws k k''"
  by (simp add: draws_def)

lemma draws_putc_direct: "draws k (putc_direct c k)"
proof -
  have "page VIDEO_MEM \<subseteq> screen" "page (backup_page (active_term_idx k)) \<subseteq> screen" if "console_ok k"
    using page_screen(1) page_screen(2) [of "active_term_idx k"] that by (simp_all add: console_ok_def)
  then show ?thesis using putc_direct_laws(1,3) [of k] unfolding draws_def by blast
qed

lemma draws_clear: "draws k (clear k)"
  using quiet_clear [of k] by (simp add: quiet_def draws_def)

lemma draws_backspace: "draws k (backspace k)"
  unfolding draws_def
proof (intro impI conjI allI)
  assume c: "console_ok k"
  then show "console_ok (backspace k)" by (rule console_ok_backspace)
  let ?t = "tm k (active_term_idx k)"
  let ?off = "cursor_y ?t * NUM_COLS + cursor_x ?t"
  have "cursor_ok ?t" using c by (intro console_ok_tm) (simp_all add: console_ok_def)
  then have o: "0 \<le> ?off" "?off < 2000" by (auto simp: cursor_ok_def NUM_COLS_def NUM_ROWS_def)
  have "cell VIDEO_MEM (?off - 1) \<in> screen" "cell VIDEO_MEM (?off - 1) + 1 \<in> screen" if "?off \<noteq> 0"
    using cell_in_page [of VIDEO_MEM "?off - 1"] page_screen(1) o that by auto
  then show "mem (backspace k) a = mem k a" if "a \<notin> screen" for a
    using that by (auto simp: backspace_def Let_def)
qed

lemma memcpy_screen:
  assumes "0 \<le> i" and "i < 3" and "a \<notin> screen"
  shows "memcpy m VIDEO_MEM (backup_page i) 4096 a = m a" and "memcpy m (backup_page i) VIDEO_MEM 4096 a = m a"
proof -
  have i: "i = 0 \<or> i = 1 \<or> i = 2" using assms(1,2) by arith
  have o: "a \<noteq> x + of_nat j" if "x = VIDEO_MEM \<or> x = backup_page i" "j < unat (4096 :: u32)" for x j
  proof -
    have u: "unat x + 4096 \<le> 0xBC000" "0xB8000 \<le> unat x" using that(1) i by (auto simp: VIDEO_MEM_def backup_page_def)
    have "unat (x + of_nat j) = unat x + j" using u that(2) by (intro unat_plus_of_nat) simp
    then show ?thesis using assms(3) u that(2) by (auto simp: screen_def)
  qed
  have s: "up_safe (backup_page i) VIDEO_MEM (unat (4096 :: u32))" "up_safe VIDEO_MEM (backup_page i) (unat (4096 :: u32))"
    using backup_pages_safe [OF assms(1,2)] by simp_all
  show "memcpy m VIDEO_MEM (backup_page i) 4096 a = m a" by (rule mcpy.copy_outside [OF s(2)]) (rule o, simp_all)
  show "memcpy m (backup_page i) VIDEO_MEM 4096 a = m a" by (rule mcpy.copy_outside [OF s(1)]) (rule o, simp_all)
qed

lemma draws_switch: "0 \<le> p \<Longrightarrow> p < 3 \<Longrightarrow> 0 \<le> n \<Longrightarrow> n < 3 \<Longrightarrow> draws k (switch_terminal p n k)"
  unfolding draws_def switch_terminal_def Let_def save_video_to_backup_def restore_backup_to_video_def
  by (simp add: memcpy_screen console_ok_def)

lemma draws_frame:
  "draws k (send_eoi irq k)" "draws k (scancode_flags sc k)" "draws k (rtc_handler k)"
  "draws k (upd_tm i (put_key c) k)" "draws k (upd_tm i (\<lambda>t. t\<lparr>buf_index := f t\<rparr>) k)"
  "draws k (upd_tm i (\<lambda>t. t\<lparr>TERMINAL_READ_FLAG := n\<rparr>) k)"
proof -
  show "draws k (send_eoi irq k)" "draws k (scancode_flags sc k)" "draws k (rtc_handler k)"
    by (simp_all add: draws_def console_ok_def)
  have u: "draws k (upd_tm i g k)" if "\<And>t. cursor_x (g t) = cursor_x t \<and> cursor_y (g t) = cursor_y t" for g
    unfolding draws_def
  proof (intro impI conjI allI)
    assume c: "console_ok k"
    show "console_ok (upd_tm i g k)"
    proof (cases "nat i < length (terminals k)")
      case True
      then have "cursor_ok (tm k i)" using c by (simp add: console_ok_def tm_def)
      then show ?thesis using c that [of "tm k i"] by (intro console_ok_upd_tm) (simp_all add: cursor_ok_def)
    next
      case False
      then show ?thesis using c by (simp add: upd_tm_def list_update_beyond)
    qed
    show "mem (upd_tm i g k) a = mem k a" for a by simp
  qed
  show "draws k (upd_tm i (put_key c) k)" "draws k (upd_tm i (\<lambda>t. t\<lparr>buf_index := f t\<rparr>) k)"
    "draws k (upd_tm i (\<lambda>t. t\<lparr>TERMINAL_READ_FLAG := n\<rparr>) k)" by (intro u; simp add: put_key_def)+
qed

text \<open>The steps as introduction rules: what was drawn so far, and one more step.\<close>

lemmas draws_steps = draws_refl draws_trans [OF _ draws_putc_direct] draws_trans [OF _ draws_clear] draws_trans [OF _ draws_backspace]
  draws_trans [OF _ draws_frame(1)] draws_trans [OF _ draws_frame(2)] draws_trans [OF _ draws_frame(3)]
  draws_trans [OF _ draws_frame(4)] draws_trans [OF _ draws_frame(5)] draws_trans [OF _ draws_frame(6)]

lemma draws_tabs: "tab_fill n k1 = Some k' \<Longrightarrow> draws k k1 \<Longrightarrow> draws k k'" "tab_echo n k1 = Some k' \<Longrightarrow> draws k k1 \<Longrightarrow> draws k k'"
proof -
  show "tab_fill n k1 = Some k' \<Longrightarrow> draws k k1 \<Longrightarrow> draws k k'"
  proof (induction n arbitrary: k1)
    case (Suc n)
    let ?k = "putc_direct 0x20 (upd_terminal0 (\<lambda>t. t\<lparr>buf_index := buf_index t + 1\<rparr>) (upd_terminal0 (put_key 0x20) k1))"
    have "draws k ?k" by (intro draws_steps(2-) Suc.prems(2))
    then show ?case using Suc.IH [of ?k] Suc.prems by (auto simp: Let_def echo_eq split: if_splits)
  qed simp
  show "tab_echo n k1 = Some k' \<Longrightarrow> draws k k1 \<Longrightarrow> draws k k'"
    by (induction n arbitrary: k1) (auto simp: echo_eq intro: draws_steps)
qed

lemma draws_display:
  assumes "n = active_term_idx k \<or> 0 \<le> n \<and> n < 3"
  shows "draws k (switch_terminal (active_term_idx k) n (k\<lparr>active_term_idx := n\<rparr>))"
proof (cases "console_ok k")
  case True
  then have i: "0 \<le> active_term_idx k" "active_term_idx k < 3" "0 \<le> n" "n < 3" using assms by (auto simp: console_ok_def)
  have "draws k (k\<lparr>active_term_idx := n\<rparr>)" using i by (simp add: draws_def console_ok_def)
  then show ?thesis using draws_trans draws_switch [OF i] by blast
qed (simp add: draws_def)

lemma draws_key_action: "key_action c k = Some k' \<Longrightarrow> draws k k'"
  unfolding key_action_def Let_def
  using draws_display [of "active_term_idx k" k] draws_display [of 0 k] draws_display [of 1 k] draws_display [of 2 k]
  by (auto simp: bind_eq_Some_conv echo_eq split: if_splits intro!: draws_steps intro: draws_tabs(1) [OF _ draws_refl] draws_tabs(2) [OF _ draws_refl])

lemma draws_interrupt: "interrupt e k = Some k' \<Longrightarrow> draws k k'"
proof (cases e)
  case (Key sc)
  assume "interrupt e k = Some k'"
  then have "key_action (fst (scancode_handler sc k)) (snd (scancode_handler sc k)) = Some k'"
    using Key by (simp add: keyboard_handler_def case_prod_beta)
  moreover have "draws k (snd (scancode_handler sc k))"
    by (auto simp: scancode_handler_def Let_def intro!: draws_steps)
  ultimately show ?thesis using draws_key_action draws_trans by blast
qed (auto intro: draws_steps)

lemma draws_run: "run es k = Some k' \<Longrightarrow> draws k k'"
proof (induction es arbitrary: k)
  case (Cons e es)
  then obtain k1 where "interrupt e k = Some k1" "run es k1 = Some k'" by (auto simp: bind_eq_Some_conv)
  then show ?case using Cons.IH draws_interrupt draws_trans by blast
qed (simp add: draws_refl)

section \<open>Reading a line at user level\<close>

text \<open>Among the interrupts \<open>es\<close> and the Enter key after them one ends the line \<open>l\<close> of the current terminal.\<close>

definition typed :: "kernel \<Rightarrow> event list \<Rightarrow> byte list \<Rightarrow> bool" where
  "typed k es l \<longleftrightarrow> (\<exists>es1 ev es2 k1 k2. es @ [Key ENTER_PRESS] = es1 @ ev # es2 \<and> run es1 (reading k) = Some k1
     \<and> line (tm k1 (cur_term_id k)) = (True, l) \<and> interrupt ev k1 = Some k2
     \<and> line (tm k2 (cur_term_id k)) = (False, l @ [0x0A]))"

definition stdin_ok :: "kernel \<Rightarrow> bool" where
  "stdin_ok k \<longleftrightarrow> flags (fd_entry k 0) \<noteq> 0 \<and> op_ptr (fd_entry k 0) = terminal_op_table"

lemma console_reading: "kbd_ok k \<Longrightarrow> console_ok (reading k)"
  using reading_ok(1) [of k] kbd_ok_console by simp

lemma mem_reading [simp]: "mem (reading k) = mem k"
  by (simp add: reading_def)

lemma read_line:
  assumes "kernel_ok k" and "stdin_ok k" and "in_window buf n" and "128 \<le> n" and "n < 2147483648"
    and "run es (reading k) = Some k0" and "active_term_idx k0 = cur_term_id k"
  shows "\<exists>l k'. typed k es l \<and> length l \<le> 127
    \<and> ece391_read e (es @ Key ENTER_PRESS # rest) 0 buf (int n) k = Some (int (length l) + 1, k')
    \<and> user_step k k' \<and> same_files fd k k' \<and> bytes_at (mem k') (phys k buf) (length l + 1) = l @ [0x0A]
    \<and> (\<forall>a. a \<notin> screen \<longrightarrow> (\<forall>i<n. a \<noteq> phys k buf + of_nat i) \<longrightarrow> mem k' a = mem k a)"
proof -
  have kb: "kbd_ok k" using assms(1) by (simp add: kernel_ok_def base_ok_def)
  have nz: "buf \<noteq> 0" "0 < int n" using in_window_nonzero [OF assms(3)] assms(4) by simp_all
  have lin: "linear k buf (phys k buf) (nat (min (int n) 128))"
    using window_lin [OF assms(1) in_window_mono [OF assms(3)], of 128] assms(4) by (simp add: min_def)
  from terminal_read_line [OF kb assms(6,7) nz lin, of rest] obtain es1 ev es2 k1 k2 l r where
    w: "es @ [Key ENTER_PRESS] = es1 @ ev # es2" "run es1 (reading k) = Some k1"
      "line (tm k1 (cur_term_id k)) = (True, l)" "interrupt ev k1 = Some k2" "line (tm k2 (cur_term_id k)) = (False, l @ [0x0A])"
    and r: "kbd_ok k2" "sys k2 = sys k" "length l \<le> 127" "r = min (int n) (int (length l) + 1)"
      "terminal_read (es @ Key ENTER_PRESS # rest) 0 buf (int n) k
        = Some (r, k2\<lparr>mem := store_bytes (mem k2) (phys k buf) (take (nat r - 1) l @ [0x0A])\<rparr>)"
    by blast
  have "r = int (length l) + 1" using r(3,4) assms(4) by simp
  then have rl: "r = int (length l) + 1" "take (nat r - 1) l = l" by (simp_all add: nat_add_distrib)
  let ?bs = "l @ [0x0A :: byte]"
  define k' where "k' = k2\<lparr>mem := store_bytes (mem k2) (phys k buf) ?bs\<rparr>"
  have "draws (reading k) k2" using draws_trans [OF draws_run [OF w(2)] draws_interrupt [OF w(4)]] .
  then have m2: "mem k2 a = mem k a" if "a \<notin> screen" for a
    using that console_reading [OF kb] by (simp add: draws_def)
  have "agree kernel_page_addrs (mem k) (mem k2)" using m2 by (simp add: agree_def kernel_page_addrs_def screen_def)
  note s2 = sys_step [OF assms(1) r(1,2) this]
  have ok2: "kernel_ok k2" using s2(1) by (simp add: user_step_def)
  note ph = user_step_phys [OF s2(1), of buf]
  have "length ?bs \<le> n" using r(3) assms(4) by simp
  note s3 = store_step [OF ok2 assms(3) this, unfolded ph, folded k'_def]
  have fa: "file_array k \<noteq> None" using files_ok_kernel [OF assms(1)] by (auto simp: files_ok_def)
  have "sys_read (es @ Key ENTER_PRESS # rest) 0 buf (int n) k = Some (int (length l) + 1, k')"
    using r(5) rl nz(1) fa assms(2) by (simp add: sys_read_def FILE_LIMIT_def op_read_def stdin_ok_def k'_def)
  then have "ece391_read e (es @ Key ENTER_PRESS # rest) 0 buf (int n) k = Some (int (length l) + 1, k')"
    using assms(5) by (simp add: ece391_read_def DO_CALL_def dispatch_syscall_def sint_of_nat_u32 returned_def)
  moreover have "typed k es l" unfolding typed_def using w by blast
  moreover have "bytes_at (mem k') (phys k buf) (length l + 1) = ?bs"
    using bytes_at_store [of ?bs "mem k2" "phys k buf"] r(3) by (simp add: k'_def)
  moreover have "mem k' a = mem k a" if "a \<notin> screen" "\<forall>i<n. a \<noteq> phys k buf + of_nat i" for a
    using that m2 r(3) assms(4) store_bytes_out [of ?bs a "phys k buf" "mem k2"] by (simp add: k'_def)
  ultimately show ?thesis
    using user_step_trans [OF s2(1) s3(1)] same_files_trans [OF s2(2) s3(2)] r(3) by blast
qed

section \<open>A round of the shell\<close>

lemma ustr_frame:
  assumes "kernel_ok k" and "user_step k k'" and "ustr k a s" and "\<And>i. i \<le> length s \<Longrightarrow> mem k' (phys k a + of_nat i) = mem k (phys k a + of_nat i)"
  shows "ustr k' a s"
proof -
  have "bytes_at (mem k') (phys k a) (length s + 1) = bytes_at (mem k) (phys k a) (length s + 1)"
    by (rule bytes_at_cong) (simp add: assms(4))
  then show ?thesis using assms(3) user_step_phys [OF assms(2)] by (simp add: ustr_def)
qed

definition apart :: "addr \<Rightarrow> nat \<Rightarrow> addr \<Rightarrow> nat \<Rightarrow> bool" where
  "apart a n b m \<longleftrightarrow> unat a + n \<le> unat b \<or> unat b + m \<le> unat a"

lemma apart_phys:
  assumes "kernel_ok k" and "in_window a n" and "in_window b m" and "apart a n b m" and "i < n" and "j < m"
  shows "phys k a + of_nat i \<noteq> phys k b + of_nat j"
proof
  assume "phys k a + of_nat i = phys k b + of_nat j"
  then have "unat a mod 0x400000 + i = unat b mod 0x400000 + j"
    using window_at(2) [OF assms(1,2,5)] window_at(2) [OF assms(1,3,6)] by simp
  moreover have "unat a = 32 * 0x400000 + unat a mod 0x400000" "unat b = 32 * 0x400000 + unat b mod 0x400000"
    using assms(2,3) div_mult_mod_eq [of "unat a" "0x400000"] div_mult_mod_eq [of "unat b" "0x400000"] by (simp_all add: in_window_def)
  ultimately show False using assms(4-6) unfolding apart_def by linarith
qed

text \<open>A program that prompts and reads a line into its buffer, which it ends with a NUL.\<close>

lemma prompt_line:
  assumes "kernel_ok k" and "stdin_ok k" and "stdout_ok k" and "in_window buf 1024" and "ustr k (lit e m) p"
    and "run es (reading (prints p k)) = Some k0" and "active_term_idx k0 = cur_term_id k"
  shows "\<exists>l k1. typed (prints p k) es l \<and> length l \<le> 127 \<and> ece391_fdputs e 1 (lit e m) k = Some (prints p k)
    \<and> ece391_read e (es @ Key ENTER_PRESS # rest) 0 buf 1023 (prints p k) = Some (int (length l) + 1, k1)
    \<and> user_step k k1 \<and> stdout_ok k1 \<and> bytes_at (mem k1) (phys k buf) (length l + 1) = l @ [0x0A]
    \<and> (\<forall>a s. ustr k a s \<longrightarrow> apart a (length s + 1) buf 1024 \<longrightarrow> ustr k1 a s)"
proof -
  let ?kp = "prints p k"
  note sp = prints_step(1) [OF assms(1), of p] prints_step(2) [OF assms(1), of "-1" p] prints_step(3) [OF assms(1), of _ p]
  have okp: "kernel_ok ?kp" using sp(1) by (simp add: user_step_def)
  have si: "stdin_ok ?kp" "stdout_ok ?kp"
    using assms(2,3) same_files_entry [OF sp(2), of 0] same_files_entry [OF sp(2), of 1] by (simp_all add: stdin_ok_def stdout_ok_def)
  have tid: "cur_term_id ?kp = cur_term_id k"
    using core_fields(4) [OF fold_putc_frame(1)] sys_fields(7) [OF fold_putc_frame(2)] by (simp add: prints_def)
  obtain l k1 where l: "typed ?kp es l" "length l \<le> 127"
    "ece391_read e (es @ Key ENTER_PRESS # rest) 0 buf 1023 ?kp = Some (int (length l) + 1, k1)"
    "user_step ?kp k1" "same_files (-1) ?kp k1" "bytes_at (mem k1) (phys ?kp buf) (length l + 1) = l @ [0x0A]"
    "\<forall>a. a \<notin> screen \<longrightarrow> (\<forall>i<1023. a \<noteq> phys ?kp buf + of_nat i) \<longrightarrow> mem k1 a = mem ?kp a"
    using read_line [where fd = "-1" and e = e and rest = rest, OF okp si(1) in_window_mono [OF assms(4)] _ _ assms(6), of 1023] assms(7) tid by auto
  have u1: "user_step k k1" by (rule user_step_trans [OF sp(1) l(4)])
  have ph: "phys ?kp a = phys k a" for a using user_step_phys [OF sp(1)] by simp
  have "ustr k1 a s" if u: "ustr k a s" and ap: "apart a (length s + 1) buf 1024" for a s
  proof (rule ustr_frame [OF assms(1) u1 u])
    fix i
    assume "i \<le> length s"
    then have w: "in_window a (length s + 1)" "i < length s + 1" using u by (simp_all add: ustr_def)
    have "phys k a + of_nat i \<noteq> phys k buf + of_nat j" if "j < 1024" for j by (rule apart_phys [OF assms(1) w(1) assms(4) ap w(2) that])
    moreover have "phys k a + of_nat i \<notin> screen" by (rule window_out(1) [OF assms(1) w])
    ultimately show "mem k1 (phys k a + of_nat i) = mem k (phys k a + of_nat i)" using l(7) sp(3) by (simp add: ph)
  qed
  moreover have "stdout_ok k1" using si(2) same_files_entry [OF l(5), of 1] by (simp add: stdout_ok_def)
  ultimately show ?thesis using l(1-3) l(6) [unfolded ph] u1 fdputs_prints [OF assms(1,3,5)] by blast
qed

text \<open>What follows the read: the newline becomes a NUL, and the line is a string of the program.\<close>

lemma cut_line:
  assumes "kernel_ok k" and "in_window buf 1024" and "length l \<le> 127" and "0 \<notin> set l"
    and "bytes_at (mem k) (phys k buf) (length l + 1) = l @ [0x0A]"
  shows "uread k (buf + of_nat (length l)) = Some 0x0A"
    and "\<exists>k'. uwrite (buf + of_nat (length l)) 0 k = Some k' \<and> user_step k k' \<and> same_files fd k k' \<and> ustr k' buf l
      \<and> (\<forall>a. (\<forall>i<1024. a \<noteq> phys k buf + of_nat i) \<longrightarrow> mem k' a = mem k a)"
proof -
  have i: "length l < 1024" using assms(3) by simp
  have "mem k (phys k buf + of_nat (length l)) = 0x0A"
    using arg_cong [OF assms(5), of "\<lambda>xs. xs ! length l"] by simp
  then show "uread k (buf + of_nat (length l)) = Some 0x0A" using uread_window [OF assms(1,2) i] by simp
  obtain k' where k': "uwrite (buf + of_nat (length l)) 0 k = Some k'" "user_step k k'" "same_files fd k k'"
    "mem k' = (mem k)(phys k buf + of_nat (length l) := 0)"
    using uwrite_window [OF assms(1,2) i, of 0 fd] by blast
  have "bytes_at (mem k) (phys k buf) (length l) = l"
    using bytes_at_take [of "length l" "length l + 1" "mem k" "phys k buf"] assms(5) by simp
  then have "bytes_at (mem k') (phys k' buf) (length l + 1) = l @ [0]"
    using bytes_at_append_upd [of "length l" "mem k" "phys k buf" 0] k'(4) user_step_phys [OF k'(2)] i by simp
  then have "ustr k' buf l" using in_window_mono [OF assms(2)] i assms(4) by (simp add: ustr_def)
  then show "\<exists>k'. uwrite (buf + of_nat (length l)) 0 k = Some k' \<and> user_step k k' \<and> same_files fd k k' \<and> ustr k' buf l
      \<and> (\<forall>a. (\<forall>i<1024. a \<noteq> phys k buf + of_nat i) \<longrightarrow> mem k' a = mem k a)"
    using k' i by auto
qed

lemma call_execute:
  assumes "kernel_ok k" and "ustr k a s" and "0x0A \<notin> set s"
  shows "ece391_execute e child a k = (case execute (ker e) (Some (of_bytes (s @ [0]))) k of
      Returns v k \<Rightarrow> Some (v, k) | Iret eip cs esp ss k \<Rightarrow> child eip k | _ \<Rightarrow> None)"
proof -
  have u: "in_window a (length s + 1)" "bytes_at (mem k) (phys k a) (length s + 1) = s @ [0]" "0 \<notin> set s"
    using assms(2) by (simp_all add: ustr_def)
  have "fetch_str (\<lambda>b. b = 0 \<or> b = 0x0A) k a [] = Some ([] @ s @ [0])"
    using u(3) assms(3) by (intro fetch_window [OF assms(1) _ _ u(1,2)]) auto
  then show ?thesis using in_window_nonzero [OF u(1)] by (simp add: ece391_execute_def dispatch_syscall_def with_str_def)
qed

lemma shell_round_line:
  assumes "kernel_ok k" and "stdout_ok k" and "ustr k (lit e ''391OS> '') p"
    and "ece391_read e evs 0 buf 1023 (prints p k) = Some (int (length l) + 1, k1)"
    and "uread k1 (buf + of_nat (length l)) = Some 0x0A" and "uwrite (buf + of_nat (length l)) 0 k1 = Some k2"
    and "kernel_ok k2" and "ustr k2 buf l" and "ustr k2 (lit e ''exit'') x" and "0x0A \<notin> set l"
  shows "shell_round e evs child buf k =
    (if l = x then Some (Some 0, k2) else if l = [] then Some (None, k2)
     else Option.bind (case execute (ker e) (Some (of_bytes (l @ [0]))) k2 of
            Returns v k \<Rightarrow> Some (v, k) | Iret eip cs esp ss k \<Rightarrow> child eip k | _ \<Rightarrow> None)
          (\<lambda>(v, k). map_option (\<lambda>k. (None, k)) (shell_report e v k)))"
proof -
  have f: "ece391_fdputs e 1 (lit e ''391OS> '') k = Some (prints p k)" by (rule fdputs_prints [OF assms(1-3)])
  obtain r where r: "ece391_strcmp k2 buf (lit e ''exit'') = Some r" "r = 0 \<longleftrightarrow> l = x" using strcmp_ustr [OF assms(7-9)] by blast
  obtain c where c: "uread k2 buf = Some c" "c = 0 \<longleftrightarrow> l = []" using assms(8) ustr_head [OF assms(7), of buf] by (cases l) auto
  have m: "Option.bind q (\<lambda>k. Some (None, k)) = map_option (\<lambda>k. (None, k)) q" for q :: "kernel option" by (cases q) simp_all
  show ?thesis
    unfolding shell_round_def f Option.bind.simps assms(4)
    using assms(5,6) r c call_execute [OF assms(7,8,10), of e child]
    by (auto simp: m)
qed

section \<open>Properties\<close>

text \<open>C9: the shell runs the command that was typed.  In every kernel state that keeps the invariant,
  with the standard descriptors open, the buffer and the literals in the program's memory and not
  overlapping, let any interrupts \<open>es\<close> arrive after the prompt, and then Enter while the terminal is displayed.
  Then a line \<open>l\<close> was typed on the terminal, and the round continues with exactly that line: it
  ends \<open>main\<close> with 0 if the line is \<open>exit\<close>, prompts again if it is empty, and otherwise calls
  \<open>execute\<close> with the line and reports its result.  The state \<open>k'\<close> in which this happens keeps
  the invariant, the process and the file system image.\<close>

theorem shell_runs_typed_command:
  assumes "kernel_ok k" and "stdin_ok k" and "stdout_ok k" and "in_window buf 1024"
    and "ustr k (lit e ''391OS> '') (chars ''391OS> '')" and "ustr k (lit e ''exit'') (chars ''exit'')"
    and "apart (lit e ''exit'') 5 buf 1024"
    and "run es (reading (prints (chars ''391OS> '') k)) = Some k0" and "active_term_idx k0 = cur_term_id k"
  shows "\<exists>l k'. typed (prints (chars ''391OS> '') k) es l \<and> kernel_ok k' \<and> cur_stack k' = cur_stack k \<and> filesys k' = filesys k
    \<and> agree kernel_page_addrs (mem k) (mem k')
    \<and> (0 \<notin> set l \<longrightarrow> 0x0A \<notin> set l \<longrightarrow> shell_round e (es @ Key ENTER_PRESS # rest) child buf k =
        (if l = chars ''exit'' then Some (Some 0, k') else if l = [] then Some (None, k')
         else Option.bind (case execute (ker e) (Some (of_bytes (l @ [0]))) k' of
                Returns v k \<Rightarrow> Some (v, k) | Iret eip cs esp ss k \<Rightarrow> child eip k | _ \<Rightarrow> None)
              (\<lambda>(v, k). map_option (\<lambda>k. (None, k)) (shell_report e v k))))"
proof -
  let ?p = "chars ''391OS> ''" and ?x = "chars ''exit''"
  obtain l k1 where l: "typed (prints ?p k) es l" "length l \<le> 127"
    "ece391_read e (es @ Key ENTER_PRESS # rest) 0 buf 1023 (prints ?p k) = Some (int (length l) + 1, k1)"
    "user_step k k1" "bytes_at (mem k1) (phys k buf) (length l + 1) = l @ [0x0A]"
    "\<forall>a s. ustr k a s \<longrightarrow> apart a (length s + 1) buf 1024 \<longrightarrow> ustr k1 a s"
    using prompt_line [OF assms(1-5,8,9), of rest] by blast
  have ok1: "kernel_ok k1" using l(4) by (simp add: user_step_def)
  note ph = user_step_phys [OF l(4)]
  show ?thesis
  proof (cases "0 \<in> set l")
    case True
    then show ?thesis using l(1,4) unfolding user_step_def by blast
  next
    case False
    note cut = cut_line [OF ok1 assms(4) l(2) False, unfolded ph, OF l(5)]
    obtain k2 where k2: "uwrite (buf + of_nat (length l)) 0 k1 = Some k2" "user_step k1 k2" "ustr k2 buf l"
      "\<forall>a. (\<forall>i<1024. a \<noteq> phys k buf + of_nat i) \<longrightarrow> mem k2 a = mem k1 a"
      using cut(2) by blast
    have u2: "user_step k k2" by (rule user_step_trans [OF l(4) k2(2)])
    have x: "length ?x + 1 = 5" by (simp add: chars_def)
    have e1: "ustr k1 (lit e ''exit'') ?x" using l(6) assms(6,7) x by simp
    have ex: "ustr k2 (lit e ''exit'') ?x"
    proof (rule ustr_frame [OF ok1 k2(2) e1])
      fix i
      assume "i \<le> length ?x"
      then have w: "in_window (lit e ''exit'') 5" "i < 5" using assms(6) x by (simp_all add: ustr_def)
      have "phys k (lit e ''exit'') + of_nat i \<noteq> phys k buf + of_nat j" if "j < 1024" for j
        by (rule apart_phys [OF assms(1) w(1) assms(4,7) w(2) that])
      then show "mem k2 (phys k1 (lit e ''exit'') + of_nat i) = mem k1 (phys k1 (lit e ''exit'') + of_nat i)" using k2(4) by (simp add: ph)
    qed
    have ok2: "kernel_ok k2" using u2 by (simp add: user_step_def)
    note shell_round_line [OF assms(1,3,5) l(3) cut(1) k2(1) ok2 k2(3) ex, of child]
    then show ?thesis using l(1) u2 unfolding user_step_def by (intro exI [of _ l] exI [of _ k2]) blast
  qed
qed

text \<open>A shell with an empty line, for the witness.\<close>

definition shell_lits :: "string \<Rightarrow> addr" where
  "shell_lits s = (if s = ''391OS> '' then 0x08048100 else if s = ''exit'' then 0x08048200 else 0x08048000)"

definition demo_shell_mem :: mem where
  "demo_shell_mem a =
     (let i = unat a - 0x848100; j = unat a - 0x848200
      in if 0x848100 \<le> unat a \<and> i < 7 then chars ''391OS> '' ! i
         else if 0x848200 \<le> unat a \<and> j < 4 then chars ''exit'' ! j else demo_mem a)"

definition demo_shell :: kernel where
  "demo_shell = demo_running\<lparr>mem := demo_shell_mem\<rparr>"

lemma demo_shell_strings:
  "bytes_at demo_shell_mem 0x848100 8 = chars ''391OS> '' @ [0]" "bytes_at demo_shell_mem 0x848200 5 = chars ''exit'' @ [0]"
  by (simp_all add: bytes_at_def at_def upt_rec demo_shell_mem_def Let_def chars_def demo_mem_def)

lemma demo_shell_ok:
  "kernel_ok demo_shell" "stdin_ok demo_shell" "stdout_ok demo_shell"
  "ustr demo_shell 0x08048100 (chars ''391OS> '')" "ustr demo_shell 0x08048200 (chars ''exit'')"
proof -
  show "kernel_ok demo_shell" unfolding demo_shell_def by (rule kernel_ok_mem [OF demo_running_ok(1)])
  show "stdin_ok demo_shell" "stdout_ok demo_shell"
    using demo_running_files(2) [rule_format, of 0] demo_running_files(2) [rule_format, of 1]
    by (simp_all add: stdin_ok_def stdout_ok_def demo_shell_def)
  have "cur_stack demo_shell = [0]" using demo_running_ok(2) by (simp add: demo_shell_def cur_stack_def)
  then have p: "phys demo_shell 0x08048100 = 0x848100" "phys demo_shell 0x08048200 = 0x848200" by (simp_all add: phys_def)
  have n: "length (chars ''391OS> '') = 7" "length (chars ''exit'') = 4" "0 \<notin> set (chars ''391OS> '')" "0 \<notin> set (chars ''exit'')"
    by (simp_all add: chars_def)
  show "ustr demo_shell 0x08048100 (chars ''391OS> '')" "ustr demo_shell 0x08048200 (chars ''exit'')"
    using demo_shell_strings n by (simp_all add: ustr_def in_window_def p) (simp_all add: demo_shell_def)
qed

lemma demo_running_active: "active_term_idx demo_running = 0"
  by (simp add: demo_running_def set_tss_def create_pcb_def upd_pcb_def upd_tm_def demo_paged_fields Let_def split: option.split)

theorem shell_runs_typed_command_witness:
  "\<exists>k'. shell_round (demo_user\<lparr>lit := shell_lits\<rparr>) [Key ENTER_PRESS] (\<lambda>_ _. None) 0x08100000 demo_shell = Some (None, k') \<and> kernel_ok k'"
proof -
  let ?e = "demo_user\<lparr>lit := shell_lits\<rparr>" and ?kp = "prints (chars ''391OS> '') demo_shell"
  have e: "lit ?e ''391OS> '' = 0x08048100" "lit ?e ''exit'' = 0x08048200" by (simp_all add: shell_lits_def)
  have w: "in_window 0x08100000 1024" "apart (lit ?e ''exit'') 5 0x08100000 1024" unfolding e by (simp_all add: in_window_def apart_def)
  have "kernel_ok ?kp" using prints_step(1) [OF demo_shell_ok(1)] by (simp add: user_step_def)
  then have kb: "kbd_ok ?kp" by (simp add: kernel_ok_def base_ok_def)
  have "core ?kp = core demo_shell" by (simp add: prints_def fold_putc_frame(1))
  then have "active_term_idx ?kp = active_term_idx demo_shell" by (rule core_fields)
  moreover have "active_term_idx demo_shell = 0" "cur_term_id demo_shell = 0"
    using demo_running_ok(3) by (simp_all add: demo_shell_def demo_running_active)
  ultimately have a: "active_term_idx (reading ?kp) = cur_term_id demo_shell" by (simp add: reading_def)
  have t: "l = []" if "typed ?kp [] l" for l
    using that reading_ok(2) [OF kb] by (auto simp: typed_def Cons_eq_append_conv)
  from shell_runs_typed_command [OF demo_shell_ok(1-3) w(1) demo_shell_ok(4,5) [folded e] w(2) _ a, of "[]" "[]" "\<lambda>_ _. None"]
  obtain l k' where r: "typed ?kp [] l" "kernel_ok k'"
    "0 \<notin> set l \<longrightarrow> 0x0A \<notin> set l \<longrightarrow> shell_round ?e ([] @ Key ENTER_PRESS # []) (\<lambda>_ _. None) 0x08100000 demo_shell =
        (if l = chars ''exit'' then Some (Some 0, k') else if l = [] then Some (None, k')
         else Option.bind (case execute (ker ?e) (Some (of_bytes (l @ [0]))) k' of
                Returns v k \<Rightarrow> Some (v, k) | Iret eip cs esp ss k \<Rightarrow> None | _ \<Rightarrow> None)
              (\<lambda>(v, k). map_option (\<lambda>k. (None, k)) (shell_report ?e v k)))"
    by (simp only: run.simps simp_thms) blast
  have "chars ''exit'' \<noteq> []" by (simp add: chars_def)
  then show ?thesis using r(2,3) t [OF r(1)] by auto
qed

end
