(* ===== verification/User_Text.thy ===== *)
theory User_Text
  imports User_Shell
begin

text \<open>
  Buffers of a user program: what its stores do to an array in its memory, the in-place functions
  \<open>ece391_strrev\<close> and \<open>ece391_itoa\<close> of the user library, which agree with the kernel's own, and the
  programs \<open>counter\<close> and \<open>hello\<close>.
\<close>

section \<open>Arrays in the memory of the program\<close>

definition ubuf :: "kernel \<Rightarrow> addr \<Rightarrow> byte list \<Rightarrow> bool" where
  "ubuf k a xs \<longleftrightarrow> in_window a (length xs) \<and> bytes_at (mem k) (phys k a) (length xs) = xs"

text \<open>The program has changed \<open>n\<close> bytes at \<open>a\<close> at most, and nothing else.\<close>

definition edited :: "addr \<Rightarrow> nat \<Rightarrow> kernel \<Rightarrow> kernel \<Rightarrow> bool" where
  "edited a n k k' \<longleftrightarrow> user_step k k' \<and> same_files (-1) k k' \<and> display k' = display k
     \<and> (\<forall>x. (\<forall>i<n. x \<noteq> phys k a + of_nat i) \<longrightarrow> mem k' x = mem k x)"

lemma edited_refl: "kernel_ok k \<Longrightarrow> edited a n k k"
  by (simp add: edited_def user_step_def agree_def same_files_def)

lemma edited_trans: "edited a n k k' \<Longrightarrow> edited a n k' k'' \<Longrightarrow> edited a n k k''"
  using user_step_trans [of k k' k''] same_files_trans [of "-1" k k' k''] user_step_phys [of k k' a] by (simp add: edited_def)

lemma edited_ok: "edited a n k k' \<Longrightarrow> kernel_ok k'"
  by (simp add: edited_def user_step_def)

lemma ubuf_window: "ubuf k a xs \<Longrightarrow> length xs \<le> 4194304"
  by (simp add: ubuf_def in_window_def)

lemma ubuf_nth: "ubuf k a xs \<Longrightarrow> i < length xs \<Longrightarrow> mem k (phys k a + of_nat i) = xs ! i"
proof -
  assume u: "ubuf k a xs" and i: "i < length xs"
  then have "bytes_at (mem k) (phys k a) (length xs) ! i = xs ! i" by (simp add: ubuf_def)
  then show ?thesis using i by simp
qed

lemma ubuf_read: "kernel_ok k \<Longrightarrow> ubuf k a xs \<Longrightarrow> i < length xs \<Longrightarrow> uread k (a + of_nat i) = Some (xs ! i)"
  using uread_window [of k a "length xs" i] ubuf_nth [of k a xs i] by (simp add: ubuf_def)

lemma bytes_at_upd: "i < n \<Longrightarrow> n \<le> 4294967296 \<Longrightarrow> bytes_at (m(p + of_nat i := b)) p n = (bytes_at m p n)[i := b]"
  by (rule nth_equalityI) (auto simp: nth_list_update dest: of_nat_u32_inj)

lemma ubuf_write:
  assumes "kernel_ok k" and "ubuf k a xs" and "i < length xs"
  shows "\<exists>k'. uwrite (a + of_nat i) b k = Some k' \<and> edited a (length xs) k k' \<and> ubuf k' a (xs[i := b])"
proof -
  have w: "in_window a (length xs)" "bytes_at (mem k) (phys k a) (length xs) = xs" using assms(2) by (simp_all add: ubuf_def)
  obtain k' where k': "uwrite (a + of_nat i) b k = Some k'" "user_step k k'" "same_files (-1) k k'" "display k' = display k"
    "mem k' = (mem k)(phys k a + of_nat i := b)"
    using uwrite_window [OF assms(1) w(1) assms(3), of b "-1"] by blast
  have "bytes_at (mem k') (phys k' a) (length xs) = xs[i := b]"
    using bytes_at_upd [OF assms(3), of "mem k" "phys k a" b] ubuf_window [OF assms(2)] w(2) k'(5) user_step_phys [OF k'(2)] by simp
  then show ?thesis using k' w(1) assms(3) by (intro exI [of _ k']) (auto simp: edited_def ubuf_def)
qed

lemma ubuf_string: "ubuf k a (s @ 0 # t) \<Longrightarrow> 0 \<notin> set s \<Longrightarrow> ustr k a s"
  using bytes_at_take [of "length s + 1" "length (s @ 0 # t)" "mem k" "phys k a"] in_window_mono [of a "length (s @ 0 # t)" "length s + 1"]
  by (simp add: ubuf_def ustr_def)

lemma ustr_edited:
  assumes "kernel_ok k" and "ustr k b s" and "edited a n k k'" and "in_window a n" and "apart b (length s + 1) a n"
  shows "ustr k' b s"
proof (rule ustr_frame [OF assms(1) _ assms(2)])
  show "user_step k k'" using assms(3) by (simp add: edited_def)
  fix i
  assume i: "i \<le> length s"
  have "phys k b + of_nat i \<noteq> phys k a + of_nat j" if "j < n" for j
    using assms(2) i that by (intro apart_phys [OF assms(1) _ assms(4,5)]) (simp_all add: ustr_def)
  then show "mem k' (phys k b + of_nat i) = mem k (phys k b + of_nat i)" using assms(3) by (simp add: edited_def)
qed

lemma prints_keeps:
  assumes "kernel_ok k"
  shows "ustr k a s \<Longrightarrow> ustr (prints cs k) a s" and "ubuf k a xs \<Longrightarrow> ubuf (prints cs k) a xs"
proof -
  note st = prints_step [where cs = cs, OF assms]
  show "ustr (prints cs k) a s" if "ustr k a s"
    by (rule ustr_frame [OF assms st(1) that]) (use window_out(1) [OF assms, of a "length s + 1"] that in \<open>simp add: ustr_def st(3)\<close>)
  assume u: "ubuf k a xs"
  have "bytes_at (mem (prints cs k)) (phys k a) (length xs) = bytes_at (mem k) (phys k a) (length xs)"
    using u by (intro bytes_at_cong st(3) window_out(1) [OF assms]) (simp_all add: ubuf_def)
  then show "ubuf (prints cs k) a xs" using u user_step_phys [OF st(1)] by (simp add: ubuf_def)
qed

text \<open>Closing a descriptor.\<close>

lemma call_close:
  assumes "kernel_ok k" and "2 \<le> fd" and "fd < 8" and "flags (fd_entry k fd) \<noteq> 0" and "op_ptr (fd_entry k fd) \<noteq> OP_NULL"
  shows "\<exists>k'. ece391_close e fd k = Some (0, k') \<and> user_step k k' \<and> same_files fd k k' \<and> flags (fd_entry k' fd) = 0
    \<and> display k' = display k \<and> mem k' = mem k"
proof -
  note fok = files_ok_kernel [OF assms(1)]
  obtain f where f: "sys_close fd k = Some (0, upd_fd fd f k)" "\<forall>e. flags (f e) = 0"
    using sys_close_eq [OF fok assms(2-5)] by blast
  then have "ece391_close e fd k = Some (0, upd_fd fd f k)"
    using assms(2,3) by (simp add: ece391_close_def DO_CALL_def dispatch_syscall_def sint_of_int_u32 returned_def)
  then show ?thesis
    using fd_step [OF assms(1), of fd f] assms(2,3) fd_entry_upd [OF fok, of fd fd f] f(2) by (intro exI [of _ "upd_fd fd f k"]) simp
qed

section \<open>Reversing in place\<close>

lemma strrev_loop_ubuf:
  "kernel_ok k \<Longrightarrow> ubuf k a xs \<Longrightarrow> 0 \<le> beg \<Longrightarrow> fin < int (length xs) \<Longrightarrow>
    \<exists>k'. ece391_strrev_loop a beg fin k = Some k' \<and> edited a (length xs) k k' \<and> ubuf k' a (strrev_loop xs beg fin)"
proof (induction xs beg fin arbitrary: k rule: strrev_loop.induct)
  case (1 xs beg fin)
  show ?case
  proof (cases "beg < fin")
    case False
    then show ?thesis using 1 edited_refl by (subst ece391_strrev_loop.simps, subst strrev_loop.simps) auto
  next
    case True
    have i: "nat fin < length xs" "nat beg < length xs" using True "1.prems" by simp_all
    have c: "word_of_int fin = (of_nat (nat fin) :: addr)" "word_of_int beg = (of_nat (nat beg) :: addr)" using True "1.prems"(3) by simp_all
    let ?x1 = "xs[nat fin := xs ! nat beg]"
    let ?x2 = "?x1[nat beg := xs ! nat fin]"
    obtain k1 where k1: "uwrite (a + of_nat (nat fin)) (xs ! nat beg) k = Some k1" "edited a (length xs) k k1" "ubuf k1 a ?x1"
      using ubuf_write [OF "1.prems"(1,2) i(1)] by blast
    then have ok1: "kernel_ok k1" "nat beg < length ?x1" using edited_ok i by simp_all
    obtain k2 where k2: "uwrite (a + of_nat (nat beg)) (xs ! nat fin) k1 = Some k2" "edited a (length xs) k1 k2" "ubuf k2 a ?x2"
      using ubuf_write [OF ok1(1) k1(3) ok1(2)] by auto
    obtain k' where k': "ece391_strrev_loop a (beg + 1) (fin - 1) k2 = Some k'" "edited a (length xs) k2 k'" "ubuf k' a (strrev_loop ?x2 (beg + 1) (fin - 1))"
      using "1.IH" [OF True refl refl refl edited_ok [OF k2(2)] k2(3)] "1.prems" by auto
    have "ece391_strrev_loop a beg fin k = Some k'"
      using True k1(1) k2(1) k'(1) ubuf_read [OF "1.prems"(1,2)] i by (subst ece391_strrev_loop.simps) (simp add: c del: of_nat_nat)
    moreover have "strrev_loop xs beg fin = strrev_loop ?x2 (beg + 1) (fin - 1)" using True by (subst strrev_loop.simps) (simp add: Let_def)
    ultimately show ?thesis using k'(3) edited_trans [OF edited_trans [OF k1(2) k2(2)] k'(2)] by simp
  qed
qed

lemma strrev_ubuf:
  assumes "kernel_ok k" and "ubuf k a (s @ 0 # t)" and "0 \<notin> set s"
  shows "\<exists>k'. ece391_strrev a k = Some k' \<and> edited a (length (s @ 0 # t)) k k' \<and> ubuf k' a (rev s @ 0 # t)"
proof -
  have l: "length s < 2147483648" using ubuf_window [OF assms(2)] by simp
  have n: "ece391_strlen k a = Some (of_nat (length s))"
    using strlen_ustr [OF assms(1) ubuf_string [OF assms(2,3)], of 0] by (simp add: ece391_strlen_def)
  have f: "sint (of_nat (length s) - 1 :: u32) = int (length s) - 1" using l sint_of_int_u32 [of "int (length s) - 1"] by simp
  show ?thesis
  proof (cases "length s \<le> 1")
    case True
    then have "rev s = s" by (cases s) simp_all
    then show ?thesis using True n f assms(2) edited_refl [OF assms(1)] by (simp add: ece391_strrev_def)
  next
    case False
    then show ?thesis
      using strrev_loop_ubuf [OF assms(1,2), of 0 "int (length s) - 1"] n f strrev_loop_prefix [of s "0 # t"]
      by (simp add: ece391_strrev_def)
  qed
qed

section \<open>Numbers\<close>

lemma ece391_lookup_eq: "ece391_lookup = itoa_lookup"
  by (simp add: ece391_lookup_def itoa_lookup_def)

lemma itoa_loop_ubuf:
  assumes "2 \<le> unat radix" and "unat radix \<le> 36"
  shows "kernel_ok k \<Longrightarrow> ubuf k a (p @ q @ t) \<Longrightarrow> length q = length (lsd (unat radix) (unat v)) \<Longrightarrow>
    \<exists>k'. ece391_itoa_loop v radix (a + of_nat (length p)) k = Some (a + of_nat (length (p @ q)), k')
      \<and> edited a (length (p @ q @ t)) k k' \<and> ubuf k' a (p @ map ((!) itoa_lookup) (lsd (unat radix) (unat v)) @ t)"
proof (induction "unat v" arbitrary: v k p q rule: less_induct)
  case less
  show ?case
  proof (cases "v = 0")
    case True
    then show ?thesis using less.prems edited_refl by (subst ece391_itoa_loop.simps) (auto simp: lsd.simps)
  next
    case False
    then have pos: "0 < v" "unat v \<noteq> 0" by (simp_all add: word_gt_0 unat_eq_0)
    let ?d = "unat v mod unat radix" and ?r = "lsd (unat radix) (unat v div unat radix)"
    have d: "unat (v div radix) = unat v div unat radix" "unat (v mod radix) = ?d"
      by (simp_all add: unat_div_distrib unat_mod_distrib)
    have lt: "unat (v div radix) < unat v" using assms pos d by simp
    have l: "lsd (unat radix) (unat v) = ?d # ?r" using assms pos by (subst lsd.simps) simp
    then obtain c q' where q: "q = c # q'" "length q' = length ?r" using less.prems(3) by (cases q) simp_all
    let ?b = "itoa_lookup ! ?d"
    have i: "length p < length (p @ q @ t)" by (simp add: q)
    obtain k1 where k1: "uwrite (a + of_nat (length p)) ?b k = Some k1" "edited a (length (p @ q @ t)) k k1" "ubuf k1 a ((p @ [?b]) @ q' @ t)"
      using ubuf_write [OF less.prems(1,2) i, of ?b] by (auto simp: q list_update_append)
    have lq: "length q' = length (lsd (unat radix) (unat (v div radix)))" by (simp only: q(2) d)
    obtain k' where k': "ece391_itoa_loop (v div radix) radix (a + of_nat (length (p @ [?b]))) k1 = Some (a + of_nat (length ((p @ [?b]) @ q')), k')"
      "edited a (length ((p @ [?b]) @ q' @ t)) k1 k'" "ubuf k' a ((p @ [?b]) @ map ((!) itoa_lookup) ?r @ t)"
      using less.hyps [OF lt edited_ok [OF k1(2)] k1(3) lq] d(1) by auto
    have "?d < 36" using assms mod_less_divisor [of "unat radix" "unat v"] by linarith
    moreover have "radix \<noteq> 0" using assms by auto
    ultimately have "ece391_itoa_loop v radix (a + of_nat (length p)) k = ece391_itoa_loop (v div radix) radix (a + of_nat (length p) + 1) k1"
      using k1(1) pos(1) by (subst ece391_itoa_loop.simps) (simp add: ece391_lookup_eq d itoa_lookup_props)
    then show ?thesis using k' edited_trans [OF k1(2)] by (simp add: l q algebra_simps)
  qed
qed

lemma itoa_ubuf:
  assumes "kernel_ok k" and "ubuf k a xs" and "2 \<le> unat radix" and "unat radix \<le> 36" and "33 \<le> length xs"
  shows "\<exists>s k'. itoa v radix = Some s \<and> length s \<le> 33 \<and> ece391_itoa v a radix k = Some k' \<and> edited a (length xs) k k'
    \<and> ubuf k' a (s @ drop (length s) xs)"
proof (cases "v = 0")
  case True
  have x: "0 < length xs" "1 < length (xs[0 := 0x30])" using assms(5) by (simp_all only: length_list_update)
  obtain k1 where k1: "uwrite (a + of_nat 0) 0x30 k = Some k1" "edited a (length xs) k k1" "ubuf k1 a (xs[0 := 0x30])"
    using ubuf_write [OF assms(1,2) x(1), of "0x30"] by blast
  obtain k' where k': "uwrite (a + of_nat 1) 0 k1 = Some k'" "edited a (length (xs[0 := 0x30])) k1 k'" "ubuf k' a (xs[0 := 0x30, 1 := 0])"
    using ubuf_write [OF edited_ok [OF k1(2)] k1(3) x(2), of 0] by blast
  obtain b c ys where "xs = b # c # ys" using assms(5) by (cases xs; cases "tl xs") auto
  then show ?thesis using True k1 k' edited_trans [OF k1(2)] by (simp add: itoa_def ece391_itoa_def chars_def)
next
  case False
  let ?ds = "lsd (unat radix) (unat v)"
  let ?s = "map ((!) itoa_lookup) ?ds" and ?n = "length ?ds"
  have "unat v < 2 ^ 32" using u32_lt [of v] by simp
  also have "\<dots> \<le> unat radix ^ 32" using assms(3) by (rule power_mono) simp
  finally have n: "?n \<le> 32" "Suc ?n \<le> length xs" using length_lsd [OF assms(3)] assms(5) by fastforce+
  have split: "xs = [] @ take ?n xs @ drop ?n xs" by simp
  have ub: "ubuf k a ([] @ take ?n xs @ drop ?n xs)" using assms(2) by simp
  obtain k1 where k1: "ece391_itoa_loop v radix a k = Some (a + of_nat ?n, k1)" "edited a (length xs) k k1" "ubuf k1 a (?s @ drop ?n xs)"
    using itoa_loop_ubuf [OF assms(3,4,1) ub] n(2) by auto
  have nz: "0 \<notin> set ?s"
    using lsd_digits [of _ "unat radix" "unat v"] itoa_lookup_props(2) assms(4)
    by (metis (no_types, lifting) imageE image_set order_less_le_trans)
  have i: "?n < length (?s @ drop ?n xs)" and lx: "length (?s @ drop ?n xs) = length xs" using n by simp_all
  obtain k2 where k2: "uwrite (a + of_nat ?n) 0 k1 = Some k2" "edited a (length xs) k1 k2" "ubuf k2 a ((?s @ drop ?n xs)[?n := 0])"
    using ubuf_write [OF edited_ok [OF k1(2)] k1(3) i, of 0] unfolding lx by blast
  have z: "(?s @ drop ?n xs)[?n := 0] = ?s @ 0 # drop (Suc ?n) xs"
    using n by (simp add: list_update_append Cons_nth_drop_Suc [symmetric])
  have lz: "length (?s @ 0 # drop (Suc ?n) xs) = length xs" using n(2) by simp
  obtain k' where k': "ece391_strrev a k2 = Some k'" "edited a (length xs) k2 k'" "ubuf k' a (rev ?s @ 0 # drop (Suc ?n) xs)"
    using strrev_ubuf [OF edited_ok [OF k2(2)] k2(3) [unfolded z] nz] unfolding lz by blast
  have "itoa v radix = Some (rev ?s @ [0])" using itoa_digits [OF assms(3,4) False] by (simp add: rev_map)
  moreover have "ece391_itoa v a radix k = Some k'" using False k1(1) k2(1) k'(1) by (simp add: ece391_itoa_def)
  ultimately show ?thesis using edited_trans [OF edited_trans [OF k1(2) k2(2)] k'(2)] k'(3) n(1) by simp
qed

section \<open>counter\<close>

text \<open>What \<open>counter\<close> needs at each line, and what it has displayed.\<close>

definition counting :: "user_env \<Rightarrow> addr \<Rightarrow> kernel \<Rightarrow> byte list \<Rightarrow> kernel \<Rightarrow> bool" where
  "counting e buf k0 out k \<longleftrightarrow> user_step k0 k \<and> same_files (-1) k0 k \<and> stdout_ok k \<and> ustr k (lit e ''\<newline>'') [0x0A]
     \<and> (\<exists>xs. length xs = 1024 \<and> ubuf k buf xs) \<and> display k = display (prints out k0)"

lemma counting_prints:
  assumes "kernel_ok k0" and "counting e buf k0 out k"
  shows "counting e buf k0 (out @ cs) (prints cs k)"
proof -
  have c: "user_step k0 k" "same_files (-1) k0 k" "stdout_ok k" "display k = display (prints out k0)" using assms(2) by (simp_all add: counting_def)
  have ok: "kernel_ok k" "kernel_ok (prints out k0)" using c(1) prints_step(1) [OF assms(1)] by (simp_all add: user_step_def)
  note st = prints_step [where cs = cs, OF ok(1)]
  have "stdout_ok (prints cs k)" using c(3) same_files_entry [OF st(2) [of "-1"], of 1] by (simp add: stdout_ok_def)
  moreover have "display (prints cs k) = display (prints (out @ cs) k0)"
    using display_prints [OF kernel_console [OF ok(1)] kernel_console [OF ok(2)] c(4)] by simp
  ultimately show ?thesis
    using user_step_trans [OF c(1) st(1)] same_files_trans [OF c(2) st(2)] prints_keeps [OF ok(1)] assms(2) by (auto simp: counting_def)
qed

lemma counter_line:
  assumes "kernel_ok k0" and "counting e buf k0 out k" and "apart (lit e ''\<newline>'') 2 buf 1024"
  shows "\<exists>k'. do { k \<leftarrow> ece391_itoa v buf 10 k; k \<leftarrow> ece391_fdputs e 1 buf k; ece391_fdputs e 1 (lit e ''\<newline>'') k } = Some k'
    \<and> counting e buf k0 (out @ num_str 10 v @ [0x0A]) k'"
proof -
  let ?s = "num_str 10 v"
  have c: "user_step k0 k" "same_files (-1) k0 k" "stdout_ok k" "ustr k (lit e ''\<newline>'') [0x0A]" "display k = display (prints out k0)"
    using assms(2) by (simp_all add: counting_def)
  have ok: "kernel_ok k" using c(1) by (simp add: user_step_def)
  obtain xs where xs: "length xs = 1024" "ubuf k buf xs" using assms(2) by (auto simp: counting_def)
  have d: "itoa v 10 = Some (?s @ [0])" "0 \<notin> set ?s" using itoa_num_str [of 10 v] by simp_all
  obtain k1 where k1: "ece391_itoa v buf 10 k = Some k1" "edited buf 1024 k k1" "ubuf k1 buf ((?s @ [0]) @ drop (length (?s @ [0])) xs)"
    "length (?s @ [0]) \<le> 33"
    using itoa_ubuf [OF ok xs(2), of 10 v] xs(1) d(1) by auto
  have ok1: "kernel_ok k1" and f1: "user_step k k1" "same_files (-1) k k1" "display k1 = display k"
    using k1(2) by (simp_all add: edited_def user_step_def)
  have so: "stdout_ok k1" using c(3) same_files_entry [OF f1(2), of 1] by (simp add: stdout_ok_def)
  have w: "in_window buf 1024" using xs by (auto simp: ubuf_def)
  have "length ((?s @ [0]) @ drop (length (?s @ [0])) xs) = 1024" using k1(4) xs(1) by simp
  then have "\<exists>ys. length ys = 1024 \<and> ubuf k1 buf ys" using k1(3) by blast
  moreover have "ustr k1 (lit e ''\<newline>'') [0x0A]" using assms(3) by (intro ustr_edited [OF ok c(4) k1(2) w]) (simp add: numeral_2_eq_2)
  ultimately have "counting e buf k0 out k1"
    using user_step_trans [OF c(1) f1(1)] same_files_trans [OF c(2) f1(2)] so f1(3) c(5) by (simp add: counting_def)
  note p1 = counting_prints [OF assms(1) this, of ?s]
  note p2 = counting_prints [OF assms(1) p1, of "[0x0A]"]
  have u: "ustr k1 buf ?s" using ubuf_string [of k1 buf ?s] k1(3) d(2) by simp
  have "ece391_fdputs e 1 buf k1 = Some (prints ?s k1)" by (rule fdputs_prints [OF ok1 so u])
  moreover have "ece391_fdputs e 1 (lit e ''\<newline>'') (prints ?s k1) = Some (prints [0x0A] (prints ?s k1))"
    using p1 by (intro fdputs_prints) (simp_all add: counting_def user_step_def)
  ultimately show ?thesis using k1(1) p2 by simp
qed

lemma counter_lines_Suc:
  "counter_lines e buf (Suc n) k = do { k \<leftarrow> counter_lines e buf n k;
     k \<leftarrow> ece391_itoa (of_nat n + 1) buf 10 k; k \<leftarrow> ece391_fdputs e 1 buf k; ece391_fdputs e 1 (lit e ''\<newline>'') k }"
  by (simp add: counter_lines_def)

lemma counter_lines_counting:
  assumes "kernel_ok k0" and "counting e buf k0 [] k0" and "apart (lit e ''\<newline>'') 2 buf 1024"
  shows "\<exists>k'. counter_lines e buf n k0 = Some k' \<and> counting e buf k0 (concat (map (\<lambda>i. num_str 10 (of_nat i) @ [0x0A]) [1..<Suc n])) k'"
proof (induction n)
  case 0
  then show ?case using assms(2) by (simp add: counter_lines_def)
next
  case (Suc n)
  then obtain k1 where k1: "counter_lines e buf n k0 = Some k1" "counting e buf k0 (concat (map (\<lambda>i. num_str 10 (of_nat i) @ [0x0A]) [1..<Suc n])) k1" by blast
  obtain k' where k': "do { k \<leftarrow> ece391_itoa (of_nat n + 1) buf 10 k1; k \<leftarrow> ece391_fdputs e 1 buf k; ece391_fdputs e 1 (lit e ''\<newline>'') k } = Some k'"
    "counting e buf k0 (concat (map (\<lambda>i. num_str 10 (of_nat i) @ [0x0A]) [1..<Suc n]) @ num_str 10 (of_nat n + 1) @ [0x0A]) k'"
    using counter_line [OF assms(1) k1(2) assms(3), of "of_nat n + 1"] by blast
  have "counter_lines e buf (Suc n) k0 = Some k'" unfolding counter_lines_Suc k1(1) using k'(1) by simp
  moreover have "concat (map (\<lambda>i. num_str 10 (of_nat i) @ [0x0A]) [1..<Suc (Suc n)])
      = concat (map (\<lambda>i. num_str 10 (of_nat i) @ [0x0A]) [1..<Suc n]) @ num_str 10 (of_nat n + 1) @ [0x0A]"
    by (simp add: add.commute)
  ultimately show ?case using k'(2) by (simp only: simp_thms) blast
qed

lemma end_line:
  assumes "kernel_ok k" and "in_window buf 1024" and "bytes_at (mem k) (phys k buf) (length s) = s" and "length s < 1024" and "0 \<notin> set s"
  shows "\<exists>k' xs. uwrite (buf + of_nat (length s)) 0 k = Some k' \<and> edited buf 1024 k k' \<and> ustr k' buf s \<and> length xs = 1024 \<and> ubuf k' buf xs"
proof -
  let ?xs = "bytes_at (mem k) (phys k buf) 1024"
  have u: "ubuf k buf ?xs" using assms(2) by (simp add: ubuf_def)
  obtain k' where k': "uwrite (buf + of_nat (length s)) 0 k = Some k'" "edited buf 1024 k k'" "ubuf k' buf (?xs[length s := 0])"
    using ubuf_write [OF assms(1) u, of "length s" 0] assms(4) by auto
  have "take (length s) ?xs = s" using bytes_at_take [of "length s" 1024 "mem k" "phys k buf"] assms(3,4) by simp
  then have "?xs[length s := 0] = s @ 0 # drop (Suc (length s)) ?xs" using assms(4) by (simp add: upd_conv_take_nth_drop)
  then have "ustr k' buf s" using ubuf_string k'(3) assms(5) by metis
  then show ?thesis using k' by (intro exI [of _ k'] exI [of _ "?xs[length s := 0]"]) simp
qed

lemma counter_main_run:
  assumes "ece391_fdputs e 1 (lit e ''Enter the Test Number: (0): 100, (1): 10000, (2): 100000\<newline>'') k = Some kp"
    and "ece391_read e evs 0 buf 1023 kp = Some (2, k1)" and "uwrite (buf + 2) 0 k1 = Some k2" and "ece391_strlen k2 buf = Some 2"
    and "uread k2 buf = Some c" and "counter_lines e buf n k2 = Some k'" and "(c, n) \<in> {(0x30, 100), (0x31, 10000), (0x32, 100000)}"
  shows "counter_main e evs buf k = Some (0, k')"
  unfolding counter_main_def assms(1) using assms(2-) by auto

text \<open>C14: \<open>counter\<close> counts.  In every kernel state that keeps the invariant, with the standard descriptors
  open and the buffer and the literals in the program's memory, let any interrupts arrive after
  the prompt and then Enter while the terminal is displayed.  A line was typed; if it is \<open>0\<close>, \<open>1\<close> or \<open>2\<close>, \<open>main\<close>
  returns 0 and what it displays after the read are the decimal numbers from 1 to 100, 10000 or 100000, one per line.\<close>

theorem counter_counts:
  assumes "kernel_ok k" and "stdin_ok k" and "stdout_ok k" and "in_window buf 1024"
    and "ustr k (lit e ''Enter the Test Number: (0): 100, (1): 10000, (2): 100000\<newline>'') p"
    and "ustr k (lit e ''\<newline>'') [0x0A]" and "apart (lit e ''\<newline>'') 2 buf 1024"
    and "run es (reading (prints p k)) = Some k0" and "active_term_idx k0 = cur_term_id k"
  shows "\<exists>l. typed (prints p k) es l \<and> (\<forall>n. (l, n) \<in> {([0x30], 100), ([0x31], 10000), ([0x32], 100000)} \<longrightarrow>
    (\<exists>k1 k'. ece391_read e (es @ Key ENTER_PRESS # rest) 0 buf 1023 (prints p k) = Some (2, k1)
      \<and> counter_main e (es @ Key ENTER_PRESS # rest) buf k = Some (0, k') \<and> kernel_ok k'
      \<and> display k' = display (prints (concat (map (\<lambda>i. num_str 10 (of_nat i) @ [0x0A]) [1..<Suc n])) k1)))"
proof -
  let ?m = "''Enter the Test Number: (0): 100, (1): 10000, (2): 100000\<newline>''" and ?evs = "es @ Key ENTER_PRESS # rest"
  obtain l k1 where l: "typed (prints p k) es l" "length l \<le> 127" "ece391_fdputs e 1 (lit e ?m) k = Some (prints p k)"
    "ece391_read e ?evs 0 buf 1023 (prints p k) = Some (int (length l) + 1, k1)"
    "user_step k k1" "stdout_ok k1" "bytes_at (mem k1) (phys k buf) (length l + 1) = l @ [0x0A]"
    "\<forall>a s. ustr k a s \<longrightarrow> apart a (length s + 1) buf 1024 \<longrightarrow> ustr k1 a s"
    using prompt_line [OF assms(1-5,8,9), of rest] by blast
  have ok1: "kernel_ok k1" using l(5) by (simp add: user_step_def)
  have "\<exists>k'. counter_main e ?evs buf k = Some (0, k') \<and> kernel_ok k'
      \<and> display k' = display (prints (concat (map (\<lambda>i. num_str 10 (of_nat i) @ [0x0A]) [1..<Suc n])) k1)"
    if ln: "(l, n) \<in> {([0x30], 100), ([0x31], 10000), ([0x32], 100000)}" for n
  proof -
    let ?s = "l @ [0x0A :: byte]"
    have s: "length ?s = 2" "0 \<notin> set ?s" using ln by auto
    have b: "bytes_at (mem k1) (phys k1 buf) (length ?s) = ?s" using l(7) user_step_phys [OF l(5)] by simp
    obtain k2 xs where k2: "uwrite (buf + of_nat (length ?s)) 0 k1 = Some k2" "edited buf 1024 k1 k2" "ustr k2 buf ?s" "length xs = 1024" "ubuf k2 buf xs"
      using end_line [OF ok1 assms(4) b] s by auto
    have ok2: "kernel_ok k2" and d2: "display k2 = display k1" and f2: "same_files (-1) k1 k2" using k2(2) by (simp_all add: edited_def user_step_def)
    have "ustr k1 (lit e ''\<newline>'') [0x0A]" using l(8) assms(6,7) by (simp add: numeral_2_eq_2)
    then have "ustr k2 (lit e ''\<newline>'') [0x0A]" using assms(7) by (intro ustr_edited [OF ok1 _ k2(2) assms(4)]) (simp_all add: numeral_2_eq_2)
    moreover have "stdout_ok k2" using l(6) same_files_entry [OF f2, of 1] by (simp add: stdout_ok_def)
    ultimately have c2: "counting e buf k2 [] k2"
      using k2(4,5) ok2 edited_refl [OF ok2, of buf 0] unfolding counting_def edited_def by auto
    obtain k' where k': "counter_lines e buf n k2 = Some k'" "counting e buf k2 (concat (map (\<lambda>i. num_str 10 (of_nat i) @ [0x0A]) [1..<Suc n])) k'"
      using counter_lines_counting [OF ok2 c2 assms(7), of n] by blast
    have len: "ece391_strlen k2 buf = Some 2" using strlen_ustr [OF ok2 k2(3), of 0] s(1) by (simp add: ece391_strlen_def)
    have hd: "uread k2 buf = Some (hd l)" using ustr_head(2) [OF ok2, of buf "hd l" "tl l @ [0x0A]"] k2(3) ln by auto
    have r: "ece391_read e ?evs 0 buf 1023 (prints p k) = Some (2, k1)" "uwrite (buf + 2) 0 k1 = Some k2" using l(4) k2(1) s(1) by simp_all
    have "counter_main e ?evs buf k = Some (0, k')" by (rule counter_main_run [OF l(3) r len hd k'(1)]) (use ln in auto)
    moreover have "display k' = display (prints (concat (map (\<lambda>i. num_str 10 (of_nat i) @ [0x0A]) [1..<Suc n])) k1)"
      using k'(2) display_prints [OF kernel_console [OF ok2] kernel_console [OF ok1] d2] unfolding counting_def by metis
    moreover have "kernel_ok k'" using k'(2) by (simp add: counting_def user_step_def)
    ultimately show ?thesis by blast
  qed
  moreover have "int (length l) + 1 = 2" if "(l, n) \<in> {([0x30], 100), ([0x31], 10000), ([0x32], 100000 :: nat)}" for n using that by auto
  ultimately show ?thesis using l(1,4) by (intro exI [of _ l]) metis
qed

section \<open>A program to run\<close>

text \<open>The strings \<open>ss\<close> in the memory of a first process, 64 bytes each.\<close>

definition strings_at :: "string list \<Rightarrow> mem \<Rightarrow> mem" where
  "strings_at ss m a =
     (let n = unat a - 0x848000; s = chars (ss ! (n div 64))
      in if 0x848000 \<le> unat a \<and> n < length ss * 64 then if n mod 64 < length s then s ! (n mod 64) else 0 else m a)"

definition string_index :: "string list \<Rightarrow> string \<Rightarrow> nat" where
  "string_index ss m = length (takeWhile (\<lambda>s. s \<noteq> m) ss)"

definition strings_user :: "string list \<Rightarrow> user_env" where
  "strings_user ss = demo_user\<lparr>lit := (\<lambda>m. 0x08048000 + of_nat (64 * string_index ss m))\<rparr>"

lemma string_index: "m \<in> set ss \<Longrightarrow> string_index ss m < length ss \<and> ss ! string_index ss m = m"
  unfolding string_index_def by (induction ss) auto

lemma strings_cell:
  assumes "m \<in> set ss" and "length ss \<le> 64" and "j < 64"
  shows "strings_at ss m0 (0x848000 + of_nat (64 * string_index ss m) + of_nat j) = (if j < length (chars m) then chars m ! j else 0)"
proof -
  let ?n = "64 * string_index ss m + j"
  note i = string_index [OF assms(1)]
  have "unat (0x848000 + of_nat ?n :: addr) = 0x848000 + ?n" using i assms(2,3) unat_plus_of_nat [of "0x848000" ?n] by simp
  then have u: "unat (0x848000 + of_nat (64 * string_index ss m) + of_nat j :: addr) = 0x848000 + ?n" by (simp add: add.assoc)
  have "?n div 64 = string_index ss m" "?n mod 64 = j" "?n < length ss * 64" using i assms(3) by auto
  then show ?thesis unfolding strings_at_def u Let_def using i by simp
qed

lemma strings_ustr:
  assumes "m \<in> set ss" and "length (chars m) < 63" and "0 \<notin> set (chars m)" and "length ss \<le> 64"
    and "mem k = strings_at ss m0" and "cur_stack k = [0]"
  shows "ustr k (lit (strings_user ss) m) (chars m)"
proof -
  let ?a = "0x08048000 + of_nat (64 * string_index ss m) :: addr"
  note i = string_index [OF assms(1)]
  have e: "unat ?a = 32 * 4194304 + (294912 + 64 * string_index ss m)" using i assms(4) unat_plus_of_nat [of "0x08048000" "64 * string_index ss m"] by simp
  have q: "(32 * 4194304 + x) div 4194304 = 32 \<and> (32 * 4194304 + x) mod 4194304 = x" if "x < 4194304" for x :: nat
    using that div_mult_self3 [of 4194304 32 x] mod_mult_self3 [of 32 4194304 x] by (simp only: div_less mod_less) simp
  have "294912 + 64 * string_index ss m < 4194304" using i assms(4) by simp
  then have u: "unat ?a div 4194304 = 32" "unat ?a mod 4194304 = 294912 + 64 * string_index ss m" by (simp_all only: e q)
  have p: "phys k ?a = 0x848000 + of_nat (64 * string_index ss m)" using u(2) assms(6) by (simp add: phys_def)
  have "bytes_at (strings_at ss m0) (0x848000 + of_nat (64 * string_index ss m)) (length (chars m) + 1) = chars m @ [0]"
    by (rule nth_equalityI) (use strings_cell [OF assms(1,4)] assms(2) in \<open>auto simp: nth_append\<close>)
  then show ?thesis using assms(2-5) i u p by (simp add: ustr_def in_window_def strings_user_def)
qed

text \<open>The digit zero is typed on a keyboard without modifiers.\<close>

definition plain_keys :: "kernel \<Rightarrow> bool" where
  "plain_keys k \<longleftrightarrow> \<not> CAPS_FLAG k \<and> \<not> L_SHIFT_FLAG k \<and> \<not> R_SHIFT_FLAG k"

lemma zero_char:
  assumes "plain_keys k"
  shows "scancode_char 0x0B (scancode_flags 0x0B k) = 0x30" and "key_of 0x0B k = KChar 0x30"
proof -
  have "\<not> CAPS_FLAG (scancode_flags 0x0B k)" "\<not> SHIFT_FLAG (scancode_flags 0x0B k)"
    using assms modifier_flags [of "0x0B" k] by (simp_all add: plain_keys_def)
  then show c: "scancode_char 0x0B (scancode_flags 0x0B k) = 0x30"
    by (simp add: scancode_char_def key_codes key_tables chars_def)
  show "key_of 0x0B k = KChar 0x30" by (simp add: key_of_def Let_def c) (simp add: key_codes)
qed

lemma zero_active:
  assumes "plain_keys k" and "keyboard_handler 0x0B k = Some k'"
  shows "active_term_idx k' = active_term_idx k"
proof -
  have f: "active_term_idx (scancode_flags 0x0B k) = active_term_idx k" by (simp add: scancode_flags_def Let_def)
  have "scancode_handler 0x0B k = (0x30, scancode_flags 0x0B k)"
    using zero_char(1) [OF assms(1)] by (simp add: scancode_handler_def Let_def) (simp add: key_codes)
  then have "key_action 0x30 (scancode_flags 0x0B k) = Some k'" using assms(2) by (simp add: keyboard_handler_def)
  then show ?thesis using f
    by (auto simp: key_action_def Let_def key_codes echo_eq core_fields(8) [OF core_putc_direct] split: if_splits)
qed

lemma typed_zero:
  assumes "kbd_ok k" and "plain_keys (reading k)" and "active_term_idx (reading k) = cur_term_id k" and "typed k [Key 0x0B] l"
  shows "l = [0x30]"
proof -
  note r = reading_ok [OF assms(1)]
  obtain k1 where k1: "keyboard_handler 0x0B (reading k) = Some k1" "line (tm k1 (cur_term_id k)) = (True, [0x30])"
    using interrupt_lines [OF r(1), of "Key 0x0B"] r(2) assms(3) kbd_ok_cur [OF assms(1)] zero_char(2) [OF assms(2)]
    by (auto simp: lines_after_def event_edit_def)
  show ?thesis using assms(4) k1 by (auto simp: typed_def Cons_eq_append_conv)
qed

lemma type_zero:
  assumes "kernel_ok k" and "plain_keys k" and "active_term_idx k = cur_term_id k"
  shows "\<exists>k0. run [Key 0x0B] (reading (prints p k)) = Some k0 \<and> active_term_idx k0 = cur_term_id k" and "typed (prints p k) [Key 0x0B] l \<Longrightarrow> l = [0x30]"
proof -
  let ?kp = "prints p k"
  have "kernel_ok ?kp" using prints_step(1) [OF assms(1)] by (simp add: user_step_def)
  then have kb: "kbd_ok ?kp" by (simp add: kernel_ok_def base_ok_def)
  have c: "core ?kp = core k" by (simp add: prints_def fold_putc_frame(1))
  note cf = core_fields(7,8) [OF c]
  have "plain_keys ?kp" using assms(2) arg_cong [OF c, of CAPS_FLAG] arg_cong [OF c, of L_SHIFT_FLAG] arg_cong [OF c, of R_SHIFT_FLAG]
    by (simp add: plain_keys_def core_def)
  then have pk: "plain_keys (reading ?kp)" by (simp add: plain_keys_def reading_def upd_tm_def)
  have a: "active_term_idx (reading ?kp) = cur_term_id ?kp" using cf assms(3) by (simp add: reading_def)
  obtain k0 where k0: "keyboard_handler 0x0B (reading ?kp) = Some k0" using interrupt_lines [OF reading_ok(1) [OF kb], of "Key 0x0B"] by auto
  then show "\<exists>k0. run [Key 0x0B] (reading ?kp) = Some k0 \<and> active_term_idx k0 = cur_term_id k" using zero_active [OF pk k0] a cf by simp
  show "typed ?kp [Key 0x0B] l \<Longrightarrow> l = [0x30]" by (rule typed_zero [OF kb pk a])
qed

definition counter_strings :: "string list" where
  "counter_strings = [''Enter the Test Number: (0): 100, (1): 10000, (2): 100000\<newline>'', ''\<newline>'']"

definition demo_counter :: kernel where
  "demo_counter = demo_running\<lparr>mem := strings_at counter_strings demo_mem\<rparr>"

lemma demo_counter_ok:
  "kernel_ok demo_counter" "stdin_ok demo_counter" "stdout_ok demo_counter" "cur_stack demo_counter = [0]"
  "active_term_idx demo_counter = 0" "cur_term_id demo_counter = 0" "plain_keys demo_counter"
  "m \<in> set counter_strings \<Longrightarrow> ustr demo_counter (lit (strings_user counter_strings) m) (chars m)"
proof -
  show "kernel_ok demo_counter" unfolding demo_counter_def by (rule kernel_ok_mem [OF demo_running_ok(1)])
  show "stdin_ok demo_counter" "stdout_ok demo_counter"
    using demo_running_files(2) [rule_format, of 0] demo_running_files(2) [rule_format, of 1]
    by (simp_all add: stdin_ok_def stdout_ok_def demo_counter_def)
  show st: "cur_stack demo_counter = [0]" using demo_running_ok(2) by (simp add: demo_counter_def cur_stack_def)
  show "active_term_idx demo_counter = 0" "cur_term_id demo_counter = 0"
    using demo_running_ok(3) by (simp_all add: demo_counter_def demo_running_active)
  show "plain_keys demo_counter"
    by (simp add: demo_counter_def plain_keys_def demo_running_def set_tss_def create_pcb_def upd_pcb_def upd_tm_def demo_paged_def
        demo_kernel_def start_kernel_def Let_def split: option.split)
  show "ustr demo_counter (lit (strings_user counter_strings) m) (chars m)" if "m \<in> set counter_strings"
    using that st by (intro strings_ustr) (auto simp: counter_strings_def chars_def demo_counter_def)
qed

theorem counter_counts_witness:
  "\<exists>k1 k'. ece391_read (strings_user counter_strings) [Key 0x0B, Key ENTER_PRESS] 0 0x08100000 1023
        (prints (chars ''Enter the Test Number: (0): 100, (1): 10000, (2): 100000\<newline>'') demo_counter) = Some (2, k1)
    \<and> counter_main (strings_user counter_strings) [Key 0x0B, Key ENTER_PRESS] 0x08100000 demo_counter = Some (0, k')
    \<and> display k' = display (prints (concat (map (\<lambda>i. num_str 10 (of_nat i) @ [0x0A]) [1..<Suc 100])) k1)"
proof -
  let ?m = "''Enter the Test Number: (0): 100, (1): 10000, (2): 100000\<newline>''" and ?e = "strings_user counter_strings"
  let ?kp = "prints (chars ?m) demo_counter"
  note d = demo_counter_ok
  have nl: "chars ''\<newline>'' = [0x0A]" by (simp add: chars_def)
  have ms: "?m \<in> set counter_strings" "''\<newline>'' \<in> set counter_strings" by (simp_all add: counter_strings_def)
  have "string_index counter_strings ''\<newline>'' = 1" by (simp add: string_index_def counter_strings_def)
  then have w: "in_window 0x08100000 1024" "apart (lit ?e ''\<newline>'') 2 0x08100000 1024" by (simp_all add: in_window_def apart_def strings_user_def)
  have "active_term_idx demo_counter = cur_term_id demo_counter" using d(5,6) by simp
  note z = type_zero [OF d(1,7) this]
  obtain k0 where k0: "run [Key 0x0B] (reading ?kp) = Some k0" "active_term_idx k0 = cur_term_id demo_counter" using z(1) by blast
  from counter_counts [OF d(1-3) w(1) d(8) [OF ms(1)] d(8) [OF ms(2), unfolded nl] w(2) k0, of "[]"]
  obtain l where l: "typed ?kp [Key 0x0B] l"
    "\<forall>n. (l, n) \<in> {([0x30], 100), ([0x31], 10000), ([0x32], 100000)} \<longrightarrow>
      (\<exists>k1 k'. ece391_read ?e ([Key 0x0B] @ Key ENTER_PRESS # []) 0 0x08100000 1023 ?kp = Some (2, k1)
        \<and> counter_main ?e ([Key 0x0B] @ Key ENTER_PRESS # []) 0x08100000 demo_counter = Some (0, k') \<and> kernel_ok k'
        \<and> display k' = display (prints (concat (map (\<lambda>i. num_str 10 (of_nat i) @ [0x0A]) [1..<Suc n])) k1))" by blast
  have "(l, 100 :: nat) \<in> {([0x30], 100), ([0x31], 10000), ([0x32], 100000)}" using z(2) [OF l(1)] by simp
  from l(2) [rule_format, OF this] show ?thesis unfolding append.simps by (elim exE conjE) (intro exI conjI)
qed

text \<open>C37: the user library's \<open>ece391_itoa\<close>, which works in place in the memory of the program, agrees with
  the kernel's \<open>itoa\<close>: for a radix from 2 to 36 and a buffer in the program's memory with room for
  the digits, it returns, the buffer starts with the string that the kernel's routine computes,
  the rest of the buffer and everything else is as before.\<close>

theorem ece391_itoa_correct:
  assumes "kernel_ok k" and "ubuf k a xs" and "2 \<le> unat radix" and "unat radix \<le> 36" and "33 \<le> length xs"
  shows "\<exists>s k'. itoa v radix = Some s \<and> ece391_itoa v a radix k = Some k' \<and> edited a (length xs) k k' \<and> ubuf k' a (s @ drop (length s) xs)"
  using itoa_ubuf [OF assms] by blast

theorem ece391_itoa_correct_witness:
  "\<exists>k'. ece391_itoa 391 0x08100000 10 demo_running = Some k' \<and> bytes_at (mem k') (phys k' 0x08100000) 4 = chars ''391'' @ [0]"
proof -
  let ?xs = "bytes_at (mem demo_running) (phys demo_running 0x08100000) 40"
  have u: "ubuf demo_running 0x08100000 ?xs" by (simp add: ubuf_def in_window_def)
  have s: "itoa 391 10 = Some (chars ''391'' @ [0])"
    using itoa_digits [of 10 391] by (simp add: lsd.simps itoa_lookup_def chars_def)
  obtain k' where k': "ece391_itoa 391 0x08100000 10 demo_running = Some k'" "ubuf k' 0x08100000 ((chars ''391'' @ [0]) @ drop (Suc (Suc (Suc (Suc 0)))) ?xs)"
    using ece391_itoa_correct [OF demo_running_ok(1) u, of 10 391] s by (auto simp: chars_def)
  then have "bytes_at (mem k') (phys k' 0x08100000) 40 = (chars ''391'' @ [0]) @ drop (Suc (Suc (Suc (Suc 0)))) ?xs" by (simp add: ubuf_def chars_def)
  then show ?thesis using k'(1) bytes_at_take [of 4 40 "mem k'" "phys k' 0x08100000"] by (simp add: chars_def)
qed

section \<open>hello\<close>

text \<open>\<open>hello\<close> greets: it displays \<open>Hello, \<close> and the line that was typed, with its newline.\<close>

lemma hello_greets:
  assumes "kernel_ok k" and "stdin_ok k" and "stdout_ok k" and "in_window buf 1024"
    and "ustr k (lit e ''Hi, what's your name? '') p" and "ustr k (lit e ''Hello, '') h" and "apart (lit e ''Hello, '') (length h + 1) buf 1024"
    and "run es (reading (prints p k)) = Some k0" and "active_term_idx k0 = cur_term_id k"
  shows "\<exists>l. typed (prints p k) es l \<and> (0 \<notin> set l \<longrightarrow>
    (\<exists>k1 k'. ece391_read e (es @ Key ENTER_PRESS # rest) 0 buf 1023 (prints p k) = Some (int (length l) + 1, k1)
      \<and> hello_main e (es @ Key ENTER_PRESS # rest) buf k = Some (0, k') \<and> kernel_ok k' \<and> display k' = display (prints (h @ l @ [0x0A]) k1)))"
proof -
  let ?evs = "es @ Key ENTER_PRESS # rest"
  obtain l k1 where l: "typed (prints p k) es l" "length l \<le> 127" "ece391_fdputs e 1 (lit e ''Hi, what's your name? '') k = Some (prints p k)"
    "ece391_read e ?evs 0 buf 1023 (prints p k) = Some (int (length l) + 1, k1)"
    "user_step k k1" "stdout_ok k1" "bytes_at (mem k1) (phys k buf) (length l + 1) = l @ [0x0A]"
    "\<forall>a s. ustr k a s \<longrightarrow> apart a (length s + 1) buf 1024 \<longrightarrow> ustr k1 a s"
    using prompt_line [OF assms(1-5,8,9), of rest] by blast
  have ok1: "kernel_ok k1" using l(5) by (simp add: user_step_def)
  have "\<exists>k'. hello_main e ?evs buf k = Some (0, k') \<and> kernel_ok k' \<and> display k' = display (prints (h @ l @ [0x0A]) k1)" if nz: "0 \<notin> set l"
  proof -
    let ?s = "l @ [0x0A :: byte]"
    have b: "bytes_at (mem k1) (phys k1 buf) (length ?s) = ?s" using l(7) user_step_phys [OF l(5)] by simp
    obtain k2 where k2: "uwrite (buf + of_nat (length ?s)) 0 k1 = Some k2" "edited buf 1024 k1 k2" "ustr k2 buf ?s"
      using end_line [OF ok1 assms(4) b] nz l(2) by auto
    have ok2: "kernel_ok k2" and d2: "display k2 = display k1" and f2: "same_files (-1) k1 k2" using k2(2) by (simp_all add: edited_def user_step_def)
    have h2: "ustr k2 (lit e ''Hello, '') h" using l(8) assms(6,7) by (intro ustr_edited [OF ok1 _ k2(2) assms(4)]) simp_all
    have so: "stdout_ok k2" using l(6) same_files_entry [OF f2, of 1] by (simp add: stdout_ok_def)
    note p2 = prints_step [where cs = h, OF ok2]
    have ok3: "kernel_ok (prints h k2)" "stdout_ok (prints h k2)"
      using p2(1) so same_files_entry [OF p2(2) [of "-1"], of 1] by (simp_all add: user_step_def stdout_ok_def)
    have f: "ece391_fdputs e 1 (lit e ''Hello, '') k2 = Some (prints h k2)" "ece391_fdputs e 1 buf (prints h k2) = Some (prints (h @ ?s) k2)"
      using fdputs_prints [OF ok2 so h2] fdputs_prints [OF ok3 prints_keeps(1) [OF ok2 k2(3)], of e] by simp_all
    have r: "ece391_read e ?evs 0 buf 1023 (prints p k) = Some (int (length ?s), k1)" using l(4) by simp
    have "int (length ?s) \<noteq> -1" "buf + word_of_int (int (length ?s)) = buf + of_nat (length ?s)" by simp_all
    then have "hello_main e ?evs buf k = Some (0, prints (h @ ?s) k2)"
      unfolding hello_main_def l(3) Option.bind.simps r using k2(1) f by (simp del: length_append prints_simps)
    moreover have "display (prints (h @ ?s) k2) = display (prints (h @ ?s) k1)"
      by (rule display_prints [OF kernel_console [OF ok2] kernel_console [OF ok1] d2])
    moreover have "kernel_ok (prints (h @ ?s) k2)" using prints_step(1) [OF ok2, of "h @ ?s"] unfolding user_step_def by blast
    ultimately show ?thesis by blast
  qed
  then show ?thesis using l(1,4) by blast
qed

end
