(* ===== verification/User_Session.thy ===== *)
theory User_Session
  imports User_Text
begin

text \<open>
  A whole session: the shell reads a line, \<open>execute\<close> loads the program it names, the program runs on the
  kernel, its \<open>_start\<close> halts with the result of \<open>main\<close>, and the shell goes on in its own frame.
\<close>

section \<open>A program from execute to halt\<close>

text \<open>The run of a program in the frame of the \<open>execute\<close> that started it; its entry point is \<open>_start\<close>.\<close>

definition run_program :: "user_env \<Rightarrow> call_frame \<Rightarrow> (kernel \<Rightarrow> (int \<times> kernel) option) \<Rightarrow> u32 \<Rightarrow> kernel \<Rightarrow> (int \<times> kernel) option" where
  "run_program e f main eip k =
     (case user_start e main k of
        Frame_Return fr (Some v) k \<Rightarrow> if fr = frame_ebp f then Some (sint v, k) else None
      | _ \<Rightarrow> None)"

text \<open>What a new process finds.\<close>

definition new_process :: "kernel \<Rightarrow> byte list \<Rightarrow> byte list \<Rightarrow> nat \<Rightarrow> kernel \<Rightarrow> bool" where
  "new_process k bs args p k1 \<longleftrightarrow> kernel_ok k1 \<and> cur_stack k1 = cur_stack k @ [p] \<and> std_open k1 \<and> filesys k1 = filesys k
     \<and> agree kernel_page_addrs (mem k) (mem k1) \<and> bytes_at (mem k1) (phys k1 0x08048000) (length bs) = bs
     \<and> take (length args) (params (pcbs k1 ! p)) = args \<and> display k1 = display k"

lemma display_scene:
  assumes "scene k' = scene k" and "\<And>a. a \<in> screen \<Longrightarrow> mem k' a = mem k a"
  shows "display k' = display k"
  using assms by (auto simp: display_iff scene_def agree_def)

lemma execute_starts:
  assumes "kernel_ok k" and "ustr k a cmd" and "0x0A \<notin> set cmd" and "prog_counter k < 6" and "length (cur_stack k) < 4"
    and "parse_command (of_bytes (cmd @ [0])) = Some (name, args)" and "length args \<le> 128"
    and "read_dentry_by_name (filesys k) (mem k) (Some (of_bytes name)) (Some (dentry_stk (ker e))) = Some (0, Some d)"
    and "file_good k d n" and "executable k d" and "bs = map (file_byte (filesys k) (mem k) (d_inode_idx d)) [0..<n]"
  shows "\<exists>p eip k1. ece391_execute e child a k = child eip k1 \<and> new_process k bs args p k1 \<and> ebp (pcbs k1 ! p) = frame_ebp (ker e)
    \<and> (\<forall>r. r \<noteq> p \<longrightarrow> pcbs k1 ! r = pcbs k ! r) \<and> prog_counter k1 = prog_counter k + 1 \<and> program_exception_flag k1 = program_exception_flag k"
proof -
  have bk: "base_ok k" and pr: "proc_ok k" using assms(1) by (simp_all add: kernel_ok_def base_ok_def)
  have "term_prog_counter (tm k (cur_term_id k)) < 4"
    using stack_length [OF proc_ok_cur(2) [OF pr]] assms(5) by (simp add: cur_stack_def tm_def)
  from execute_loads [OF bk assms(4) this assms(6-11)] obtain p k1 where
    x: "execute (ker e) (Some (of_bytes (cmd @ [0]))) k = Iret (load32 (mem k1) (image_at p + 24)) USER_CS 0x083FFFFC USER_DS k1" "p < 6" "kernel_ok k1"
    "cur_stack k1 = cur_stack k @ [p]" "mem k1 = store_bytes (mem k) (image_at p) bs" "take (length args) (params (pcbs k1 ! p)) = args"
    "ebp (pcbs k1 ! p) = frame_ebp (ker e)" "\<forall>r. r \<noteq> p \<longrightarrow> pcbs k1 ! r = pcbs k ! r" "prog_counter k1 = prog_counter k + 1"
    "program_exception_flag k1 = program_exception_flag k" "scene k1 = scene k" "std_open k1" by (elim exE conjE)
  have n: "length bs \<le> 0x3B8000" using assms(9,11) by (simp add: file_good_def)
  have ph: "phys k1 0x08048000 = image_at p" using x(4) by (simp add: phys_def image_at_def)
  have at: "unat (image_at p + of_nat i) = 0x848000 + 0x400000 * p + i" if "i < length bs" for i
  proof -
    have "unat (image_at p) = 0x848000 + 0x400000 * p" unfolding image_at_def using x(2) by (intro unat_of_nat_u32) simp
    then show ?thesis using that n x(2) by (subst unat_plus_of_nat) simp_all
  qed
  have o: "mem k1 b = mem k b" if "b \<in> screen \<union> kernel_page_addrs" for b
    unfolding x(5)
  proof (rule store_bytes_out)
    fix i
    assume "i < length bs"
    then show "b \<noteq> image_at p + of_nat i" using at [of i] that by (auto simp: screen_def kernel_page_addrs_def)
  qed
  have "display k1 = display k" using x(11) o by (intro display_scene) simp_all
  moreover have "filesys k1 = filesys k" using x(11) by (simp add: scene_def)
  moreover have "bytes_at (mem k1) (image_at p) (length bs) = bs" using bytes_at_store [of bs "mem k" "image_at p"] n by (simp add: x(5))
  ultimately have "new_process k bs args p k1" using x o by (simp add: new_process_def ph agree_def)
  moreover have "ece391_execute e child a k = child (load32 (mem k1) (image_at p + 24)) k1"
    using call_execute [OF assms(1-3), of e child] x(1) by simp
  ultimately show ?thesis using x(7-10) by blast
qed

lemma program_returns:
  assumes "kernel_ok k" and "cur_stack k = ps @ [q, p]" and "closable k" and "program_exception_flag k = 0" and "main k0 = Some (v, k)"
    and "ebp (pcbs k ! p) = frame_ebp f" and "0 \<le> v" and "v < 256"
  shows "\<exists>k'. run_program e f main eip k0 = Some (v, k') \<and> kernel_ok k' \<and> cur_stack k' = ps @ [q] \<and> (\<forall>r. r \<noteq> p \<longrightarrow> pcbs k' ! r = pcbs k ! r)
    \<and> prog_counter k' = prog_counter k - 1 \<and> program_exception_flag k' = 0 \<and> scene k' = scene k \<and> mem k' = mem k"
proof -
  have st: "cur_stack k = (ps @ [q]) @ [p]" using assms(2) by simp
  obtain kc where kc: "close_all (dying p k) = Some kc" by (rule dying_closes [OF assms(1) st assms(3)])
  let ?s = "ucast (word_of_int v :: u32) :: byte"
  from halt_to_parent [OF assms(1) st kc, of "ker e" ?s] obtain k' where
    h: "halt (ker e) ?s k = Frame_Return (ebp (pcbs k ! p)) (Some (if program_exception_flag k \<noteq> 0 then EXP_ERROR else ucast ?s)) k'"
    "kernel_ok k'" "cur_stack k' = ps @ [q]" "program_exception_flag k' = 0" "\<forall>r. r \<noteq> p \<longrightarrow> pcbs k' ! r = pcbs k ! r"
    "prog_counter k' = prog_counter k - 1" "scene k' = scene k" "mem k' = mem k" by (elim exE conjE)
  have "?s = word_of_int v" by (rule bit_word_eqI) (simp add: bit_simps)
  moreover have "sint (ucast (word_of_int v :: byte) :: u32) = v"
  proof -
    have "ucast (word_of_int v :: byte) = (word_of_int v :: u32)" using assms(7,8) by (simp add: unsigned_of_int take_bit_int_eq_self)
    then show ?thesis using assms(7,8) sint_of_int_u32 [of v] by simp
  qed
  ultimately have "run_program e f main eip k0 = Some (v, k')"
    using h(1) assms(4-6) by (simp add: run_program_def user_start_def dispatch_syscall_def)
  then show ?thesis using h(2-) by blast
qed

text \<open>The program that a command names: the file is found, it is good and executable, and \<open>bs\<close> are its bytes.\<close>

definition names_program :: "user_env \<Rightarrow> kernel \<Rightarrow> byte list \<Rightarrow> byte list \<Rightarrow> byte list \<Rightarrow> bool" where
  "names_program e k cmd args bs \<longleftrightarrow> 0x0A \<notin> set cmd \<and> length args \<le> 128 \<and> (\<exists>name d. parse_command (of_bytes (cmd @ [0])) = Some (name, args)
     \<and> read_dentry_by_name (filesys k) (mem k) (Some (of_bytes name)) (Some (dentry_stk (ker e))) = Some (0, Some d)
     \<and> file_good k d (length bs) \<and> executable k d \<and> bs = map (file_byte (filesys k) (mem k) (d_inode_idx d)) [0..<length bs])"

lemma names_program_agree:
  assumes "names_program e k cmd args bs" and "image_ok (filesys k)" and "agree kernel_page_addrs (mem k) (mem k')" and fs: "filesys k' = filesys k"
  shows "names_program e k' cmd args bs"
proof -
  obtain name d where n: "0x0A \<notin> set cmd" "length args \<le> 128" "parse_command (of_bytes (cmd @ [0])) = Some (name, args)"
    "read_dentry_by_name (filesys k) (mem k) (Some (of_bytes name)) (Some (dentry_stk (ker e))) = Some (0, Some d)"
    "file_good k d (length bs)" "executable k d" "bs = map (file_byte (filesys k) (mem k) (d_inode_idx d)) [0..<length bs]"
    using assms(1) unfolding names_program_def by (elim exE conjE)
  have g: "d_inode_idx d < inode_num (filesys k)" "4 \<le> length bs" "length bs \<le> 0x3B8000" "\<And>i. i < length bs \<Longrightarrow> block_ok (filesys k) (mem k) (d_inode_idx d) i"
    using n(5) by (simp_all add: file_good_def)
  note f = agree_file [OF assms(2,3) g(1)]
  have fb: "file_byte (filesys k) (mem k') (d_inode_idx d) i = file_byte (filesys k) (mem k) (d_inode_idx d) i" if "i < length bs" for i
    using f(2) [of i] g(3) g(4) [OF that] that by simp
  have mp: "map (file_byte (filesys k) (mem k') (d_inode_idx d)) [0..<j] = map (file_byte (filesys k) (mem k) (d_inode_idx d)) [0..<j]" if "j \<le> length bs" for j
    using fb that by simp
  have "file_good k' d (length bs)"
    using n(5) f(1) g(3) agree_inode(1) [OF assms(2,3) g(1)] by (simp add: file_good_def fs)
  then show ?thesis
    unfolding names_program_def executable_def fs agree_lookup [OF assms(2,3)]
    using n(1-4) n(6) [unfolded executable_def] trans [OF n(7) mp [of "length bs", symmetric]] mp [of 4] g(2)
    by (intro conjI exI [of _ name] exI [of _ d]) simp_all
qed

text \<open>
  A program that runs to its end: \<open>execute\<close> returns what \<open>main\<close> returned, to the process that called it, which
  finds its own control block as it was and the screen as the program left it.
\<close>

lemma execute_returns:
  assumes "kernel_ok k" and "ustr k a cmd" and "prog_counter k < 6" and "length (cur_stack k) < 4" and "program_exception_flag k = 0"
    and "names_program e k cmd args bs" and "0 \<le> v" and "v < 256"
    and main: "\<And>p k1. new_process k bs args p k1 \<Longrightarrow> \<exists>k2. main k1 = Some (v, k2) \<and> user_step k1 k2 \<and> closable k2 \<and> display k2 = D"
  shows "\<exists>k'. ece391_execute e (run_program ec (ker e) main) a k = Some (v, k') \<and> kernel_ok k' \<and> cur_stack k' = cur_stack k \<and> filesys k' = filesys k
    \<and> agree kernel_page_addrs (mem k) (mem k') \<and> pcbs k' ! last (cur_stack k) = pcbs k ! last (cur_stack k)
    \<and> prog_counter k' = prog_counter k \<and> program_exception_flag k' = 0 \<and> display k' = D"
proof -
  obtain name d where n: "0x0A \<notin> set cmd" "length args \<le> 128" "parse_command (of_bytes (cmd @ [0])) = Some (name, args)"
    "read_dentry_by_name (filesys k) (mem k) (Some (of_bytes name)) (Some (dentry_stk (ker e))) = Some (0, Some d)"
    "file_good k d (length bs)" "executable k d" "bs = map (file_byte (filesys k) (mem k) (d_inode_idx d)) [0..<length bs]"
    using assms(6) unfolding names_program_def by (elim exE conjE)
  from execute_starts [OF assms(1,2) n(1) assms(3,4) n(3,2,4-7), of "run_program ec (ker e) main"] obtain p eip k1 where
    x: "ece391_execute e (run_program ec (ker e) main) a k = run_program ec (ker e) main eip k1" "new_process k bs args p k1"
    "ebp (pcbs k1 ! p) = frame_ebp (ker e)" "\<forall>r. r \<noteq> p \<longrightarrow> pcbs k1 ! r = pcbs k ! r" "prog_counter k1 = prog_counter k + 1"
    "program_exception_flag k1 = program_exception_flag k" by (elim exE conjE)
  obtain k2 where k2: "main k1 = Some (v, k2)" "user_step k1 k2" "closable k2" "display k2 = D" using main [OF x(2)] by blast
  have ok1: "kernel_ok k1" and st1: "cur_stack k1 = cur_stack k @ [p]" using x(2) by (simp_all add: new_process_def)
  obtain ps q where q: "cur_stack k = ps @ [q]" using assms(1) by (cases "cur_stack k" rule: rev_cases) (auto simp: kernel_ok_def)
  have ok2: "kernel_ok k2" and st2: "cur_stack k2 = ps @ [q, p]" and eb: "ebp (pcbs k2 ! p) = frame_ebp (ker e)"
    and o2: "\<forall>r. r \<noteq> p \<longrightarrow> pcbs k2 ! r = pcbs k1 ! r" and pc: "prog_counter k2 = prog_counter k1" and fl: "program_exception_flag k2 = 0"
    using k2(2) st1 q x(3,6) assms(5) by (simp_all add: user_step_def)
  from program_returns [where main = main and v = v, OF ok2 st2 k2(3) fl k2(1) eb assms(7,8), of ec eip] obtain k' where
    k': "run_program ec (ker e) main eip k1 = Some (v, k')" "kernel_ok k'" "cur_stack k' = ps @ [q]" "\<forall>r. r \<noteq> p \<longrightarrow> pcbs k' ! r = pcbs k2 ! r"
    "prog_counter k' = prog_counter k2 - 1" "program_exception_flag k' = 0" "scene k' = scene k2" "mem k' = mem k2" by (elim exE conjE)
  have "q \<noteq> p" using parent_proc(1) [OF ok2, of ps q p] st2 by simp
  then have "pcbs k' ! last (cur_stack k) = pcbs k ! last (cur_stack k)" using k'(4) o2 x(4) q by simp
  moreover have "display k' = D" using display_scene [OF k'(7)] k'(8) k2(4) by simp
  moreover have "filesys k' = filesys k" "agree kernel_page_addrs (mem k) (mem k')"
    using k'(7,8) k2(2) x(2) by (auto simp: scene_def user_step_def new_process_def agree_def)
  moreover have "prog_counter k' = prog_counter k" using k'(5) pc x(5) by simp
  ultimately show ?thesis using x(1) k'(1-3,6) q by (intro exI [of _ k']) simp
qed

section \<open>The shell lists the directory\<close>

lemma std_open_ls: "std_open k \<Longrightarrow> stdout_ok k \<and> free_fd k 2 = 2"
  by (subst free_fd.simps) (auto simp: std_open_def stdout_ok_def FILE_LIMIT_def dest: spec [of _ "1 :: nat"] spec [of _ "2 :: nat"])

lemma image_phys:
  assumes "off < 0x3B8000"
  shows "phys k (0x08048000 + of_nat off) = phys k 0x08048000 + of_nat off" and "off + n \<le> 0x3B8000 \<Longrightarrow> in_window (0x08048000 + of_nat off) n"
proof -
  have u: "unat (0x08048000 + of_nat off :: addr) = 32 * 4194304 + (294912 + off)" using assms unat_plus_of_nat [of "0x08048000" off] by simp
  have q: "(32 * 4194304 + x) div 4194304 = 32 \<and> (32 * 4194304 + x) mod 4194304 = x" if "x < 4194304" for x :: nat
    using that div_mult_self3 [of 4194304 32 x] mod_mult_self3 [of 32 4194304 x] by (simp only: div_less mod_less) simp
  have d: "unat (0x08048000 + of_nat off :: addr) div 4194304 = 32" "unat (0x08048000 + of_nat off :: addr) mod 4194304 = 294912 + off"
    using assms by (simp_all only: u q)
  show "phys k (0x08048000 + of_nat off) = phys k 0x08048000 + of_nat off" using d(2) by (simp add: phys_def)
  show "off + n \<le> 0x3B8000 \<Longrightarrow> in_window (0x08048000 + of_nat off) n" using d by (simp add: in_window_def)
qed

text \<open>
  The image of the program has the literal at \<open>off\<close>, where the program looks for it, and the file system has the directory.
\<close>

definition ls_image :: "user_env \<Rightarrow> kernel \<Rightarrow> nat \<Rightarrow> byte list \<Rightarrow> bool" where
  "ls_image e k off bs \<longleftrightarrow> listable k \<and> lit e ''.'' = 0x08048000 + of_nat off \<and> off + 2 \<le> length bs \<and> take 2 (drop off bs) = [0x2E, 0]
     \<and> (\<exists>d. read_dentry_by_name (filesys k) (mem k) (Some (of_bytes [0x2E, 0])) (Some (dentry_stk (ker e))) = Some (0, Some d) \<and> file_type d = 1)"

lemma ls_image_agree:
  assumes "ls_image e k off bs" and "agree kernel_page_addrs (mem k) (mem k')" and "filesys k' = filesys k"
  shows "ls_image e k' off bs"
proof -
  have l: "listable k" "image_ok (filesys k)" using assms(1) by (simp_all add: ls_image_def listable_def)
  show ?thesis using assms(1) listing_agree(1) [OF l(1) assms(2,3)] by (simp add: ls_image_def assms(3) agree_lookup [OF l(2) assms(2)])
qed

lemma ls_process:
  assumes "kernel_ok k" and "new_process k bs args p k1" and "ls_image e k off bs" and "length bs \<le> 0x3B8000" and "in_window buf 33"
  shows "\<exists>k2. ls_main e evs buf k1 = Some (0, k2) \<and> user_step k1 k2 \<and> closable k2
    \<and> display k2 = display (prints (listing k 0 (unat (dentry_num (filesys k)))) k)"
proof -
  let ?D = "unat (dentry_num (filesys k))"
  have n: "kernel_ok k1" "std_open k1" "filesys k1 = filesys k" "agree kernel_page_addrs (mem k) (mem k1)"
    "bytes_at (mem k1) (phys k1 0x08048000) (length bs) = bs" "display k1 = display k" using assms(2) by (simp_all add: new_process_def)
  have l: "listable k" "image_ok (filesys k)" using assms(3) by (simp_all add: ls_image_def listable_def)
  have i: "listable k1" "lit e ''.'' = 0x08048000 + of_nat off" "off + 2 \<le> length bs" "take 2 (drop off bs) = [0x2E, 0]"
    using ls_image_agree [OF assms(3) n(4,3)] by (simp_all add: ls_image_def)
  obtain d where d: "read_dentry_by_name (filesys k1) (mem k1) (Some (of_bytes [0x2E, 0])) (Some (dentry_stk (ker e))) = Some (0, Some d)" "file_type d = 1"
    using ls_image_agree [OF assms(3) n(4,3)] by (auto simp: ls_image_def)
  have o: "off < 0x3B8000" "off + 2 \<le> 0x3B8000" using i(3) assms(4) by simp_all
  have "mem k1 (phys k1 0x08048000 + of_nat (off + j)) = bs ! (off + j)" if "j < 2" for j
    using i(3) that arg_cong [OF n(5), of "\<lambda>xs. xs ! (off + j)"] bytes_at_simps(2) [of "off + j" "length bs"] by simp
  then have "bytes_at (mem k1) (phys k1 0x08048000 + of_nat off) 2 = take 2 (drop off bs)"
    by (intro nth_equalityI) (use i(3) in \<open>auto simp: add.assoc\<close>)
  then have b: "bytes_at (mem k1) (phys k1 (lit e ''.'')) 2 = [0x2E, 0]" using image_phys(1) [OF o(1)] by (simp add: i(2,4))
  have w: "in_window (lit e ''.'') 2" unfolding i(2) by (rule image_phys(2) [OF o])
  note so = std_open_ls [OF n(2)]
  obtain k2 where k2: "ls_main e evs buf k1 = Some (0, k2)" "user_step k1 k2" "same_files 2 k1 k2" "op_ptr (fd_entry k2 2) = dirt_op_table"
    "display k2 = display (prints (listing k1 0 ?D) k1)"
    using ls_main_lists [OF n(1) conjunct1 [OF so] _ assms(5) w b d i(1), of evs] so n(3) by auto
  have "listing k1 0 ?D = listing k 0 ?D" by (rule listing_agree(2) [OF l(1) n(4,3)]) simp
  then have "display k2 = display (prints (listing k 0 ?D) k)"
    using k2(5) display_prints [OF kernel_console [OF n(1)] kernel_console [OF assms(1)] n(6)] by simp
  moreover have "closable k2"
    unfolding closable_def
  proof (intro allI impI)
    fix j :: nat
    assume "j < 8" and j: "2 \<le> j \<and> flags (fd_entry k2 (int j)) \<noteq> 0"
    then have "j = 2" using same_files_entry [OF k2(3), of "int j"] n(2) by (cases "j = 2") (auto simp: std_open_def)
    then show "op_ptr (fd_entry k2 (int j)) \<noteq> OP_NULL" using k2(4) by simp
  qed
  ultimately show ?thesis using k2(1,2) by (intro exI [of _ k2]) simp
qed

lemma uwrite_pcbs: "uwrite a b k = Some k' \<Longrightarrow> pcbs k' = pcbs k"
  by (auto simp: uwrite_def)

text \<open>What a round of the shell does with a line that names a program which runs to its end and returns 0.\<close>

lemma shell_round_program:
  assumes "kernel_ok k" and "stdout_ok k" and "ustr k (lit e ''391OS> '') p" and "in_window buf 1024"
    and "ece391_read e evs 0 buf 1023 (prints p k) = Some (int (length l) + 1, k1)" and "user_step k k1"
    and "bytes_at (mem k1) (phys k buf) (length l + 1) = l @ [0x0A]" and "length l \<le> 127" and "0 \<notin> set l" and "l \<notin> {[], x}"
    and "ustr k1 (lit e ''exit'') x" and "apart (lit e ''exit'') (length x + 1) buf 1024"
    and "prog_counter k < 6" and "length (cur_stack k) < 4" and "program_exception_flag k = 0"
    and "image_ok (filesys k)" and "names_program e k l args bs"
    and main: "\<And>q k2 k3. user_step k k2 \<Longrightarrow> display k2 = display k1 \<Longrightarrow> new_process k2 bs args q k3 \<Longrightarrow>
      \<exists>k4. main k3 = Some (0, k4) \<and> user_step k3 k4 \<and> closable k4 \<and> display k4 = D"
  shows "\<exists>k'. shell_round e evs (run_program ec (ker e) main) buf k = Some (None, k') \<and> kernel_ok k' \<and> cur_stack k' = cur_stack k
    \<and> prog_counter k' = prog_counter k \<and> pcbs k' ! last (cur_stack k) = pcbs k1 ! last (cur_stack k) \<and> display k' = D"
proof -
  have ok1: "kernel_ok k1" using assms(6) by (simp add: user_step_def)
  note ph = user_step_phys [OF assms(6)]
  have b: "bytes_at (mem k1) (phys k1 buf) (length l + 1) = l @ [0x0A]" using assms(7) by (simp add: ph)
  have "bytes_at (mem k1) (phys k1 buf) (length l) = l" using bytes_at_take [of "length l" "length l + 1"] b by simp
  then obtain k2 where k2: "uwrite (buf + of_nat (length l)) 0 k1 = Some k2" "edited buf 1024 k1 k2" "ustr k2 buf l"
    using end_line [OF ok1 assms(4), of l] assms(8,9) by auto
  have nl: "uread k1 (buf + of_nat (length l)) = Some 0x0A" by (rule cut_line(1) [OF ok1 assms(4,8,9) b])
  have ed: "user_step k1 k2" and dp: "display k2 = display k1" using k2(2) by (simp_all add: edited_def)
  have u2: "user_step k k2" by (rule user_step_trans [OF assms(6) ed])
  have ok2: "kernel_ok k2" using u2 by (simp add: user_step_def)
  have ex: "ustr k2 (lit e ''exit'') x" by (rule ustr_edited [OF ok1 assms(11) k2(2) assms(4,12)])
  have s: "cur_stack k2 = cur_stack k" "prog_counter k2 = prog_counter k" "program_exception_flag k2 = 0"
    "filesys k2 = filesys k" "agree kernel_page_addrs (mem k) (mem k2)" using u2 assms(15) by (simp_all add: user_step_def)
  have np: "names_program e k2 l args bs" by (rule names_program_agree [OF assms(17,16) s(5,4)])
  have nn: "0x0A \<notin> set l" using assms(17) by (simp add: names_program_def)
  obtain k' where k': "ece391_execute e (run_program ec (ker e) main) buf k2 = Some (0, k')" "kernel_ok k'" "cur_stack k' = cur_stack k"
    "pcbs k' ! last (cur_stack k) = pcbs k2 ! last (cur_stack k)" "prog_counter k' = prog_counter k" "display k' = D"
    using execute_returns [where main = main and ec = ec and v = 0 and D = D, OF ok2 k2(3) _ _ s(3) np] main [OF u2 dp] assms(13,14)
    unfolding s(1,2) by auto
  have "shell_round e evs (run_program ec (ker e) main) buf k = Some (None, k')"
    using shell_round_line [OF assms(1-3,5) nl k2(1) ok2 k2(3) ex nn, of "run_program ec (ker e) main"] assms(10)
      k'(1) [unfolded call_execute [OF ok2 k2(3) nn]] by (simp add: shell_report_def)
  then show ?thesis using k'(2-) uwrite_pcbs [OF k2(1)] by (intro exI [of _ k']) simp
qed

text \<open>C5: a command runs to its end.  In every kernel state that keeps the invariant, with the standard descriptors open,
  the buffer and the literals in the shell's memory and room for one more process, let any interrupts arrive after
  the prompt and then Enter while the terminal is displayed.  A line was typed; if it names an executable file whose
  image is \<open>ls\<close>, then the round of the shell returns: \<open>execute\<close> has loaded the file, \<open>ls\<close> has run on the kernel as a
  process of its own and halted, and the shell prompts again.  The screen is the one
  that printing the name of every directory entry after the read gives, the invariant holds, the process that runs is the shell again,
  with its control block as it was, and no process has been lost.\<close>

theorem shell_lists_directory:
  assumes "kernel_ok k" and "stdin_ok k" and "stdout_ok k" and "in_window buf 1024"
    and "ustr k (lit e ''391OS> '') (chars ''391OS> '')" and "ustr k (lit e ''exit'') (chars ''exit'')"
    and "apart (lit e ''exit'') 5 buf 1024"
    and "run es (reading (prints (chars ''391OS> '') k)) = Some k0" and "active_term_idx k0 = cur_term_id k"
    and "prog_counter k < 6" and "length (cur_stack k) < 4" and "program_exception_flag k = 0" and "in_window buf' 33"
  shows "\<exists>l k1. typed (prints (chars ''391OS> '') k) es l
    \<and> ece391_read e (es @ Key ENTER_PRESS # rest) 0 buf 1023 (prints (chars ''391OS> '') k) = Some (int (length l) + 1, k1)
    \<and> (0 \<notin> set l \<longrightarrow> l \<notin> {[], chars ''exit''} \<longrightarrow> names_program e k l args bs \<longrightarrow> ls_image ec k off bs \<longrightarrow>
      (\<exists>k'. shell_round e (es @ Key ENTER_PRESS # rest) (run_program ec (ker e) (ls_main ec evs buf')) buf k = Some (None, k')
        \<and> kernel_ok k' \<and> cur_stack k' = cur_stack k \<and> prog_counter k' = prog_counter k
        \<and> pcbs k' ! last (cur_stack k) = pcbs k1 ! last (cur_stack k)
        \<and> display k' = display (prints (concat (map (\<lambda>i. dentry_name k i @ [0x0A]) [0..<unat (dentry_num (filesys k))])) k1)))"
proof -
  let ?p = "chars ''391OS> ''" and ?x = "chars ''exit''" and ?evs = "es @ Key ENTER_PRESS # rest" and ?D = "unat (dentry_num (filesys k))"
  let ?c = "run_program ec (ker e) (ls_main ec evs buf')"
  obtain l k1 where l: "typed (prints ?p k) es l" "length l \<le> 127"
    "ece391_read e ?evs 0 buf 1023 (prints ?p k) = Some (int (length l) + 1, k1)"
    "user_step k k1" "bytes_at (mem k1) (phys k buf) (length l + 1) = l @ [0x0A]"
    "\<forall>a s. ustr k a s \<longrightarrow> apart a (length s + 1) buf 1024 \<longrightarrow> ustr k1 a s"
    using prompt_line [OF assms(1-5,8,9), of rest] by blast
  have ok1: "kernel_ok k1" using l(4) by (simp add: user_step_def)
  have x: "length ?x + 1 = 5" by (simp add: chars_def)
  then have ex: "ustr k1 (lit e ''exit'') ?x" "apart (lit e ''exit'') (length ?x + 1) buf 1024" using l(6) assms(6,7) by simp_all
  have "\<exists>k'. shell_round e ?evs ?c buf k = Some (None, k') \<and> kernel_ok k' \<and> cur_stack k' = cur_stack k \<and> prog_counter k' = prog_counter k
        \<and> pcbs k' ! last (cur_stack k) = pcbs k1 ! last (cur_stack k) \<and> display k' = display (prints (listing k 0 ?D) k1)"
    if h: "0 \<notin> set l" "l \<notin> {[], ?x}" "names_program e k l args bs" "ls_image ec k off bs"
  proof (rule shell_round_program [OF assms(1,3,5,4) l(3,4,5,2) h(1,2) ex assms(10-12) _ h(3)])
    have ls: "listable k" using h(4) by (simp add: ls_image_def)
    then show "image_ok (filesys k)" by (simp add: listable_def)
    fix q k2 k3
    assume u2: "user_step k k2" and dp: "display k2 = display k1" and np: "new_process k2 bs args q k3"
    have f: "kernel_ok k2" "filesys k2 = filesys k" "agree kernel_page_addrs (mem k) (mem k2)" using u2 by (simp_all add: user_step_def)
    have n: "length bs \<le> 0x3B8000" using h(3) by (auto simp: names_program_def file_good_def)
    have "listing k2 0 ?D = listing k 0 ?D" by (rule listing_step(2) [OF ls u2]) simp
    then have "display (prints (listing k2 0 ?D) k2) = display (prints (listing k 0 ?D) k1)"
      using display_prints [OF kernel_console [OF f(1)] kernel_console [OF ok1] dp] by simp
    then show "\<exists>k4. ls_main ec evs buf' k3 = Some (0, k4) \<and> user_step k3 k4 \<and> closable k4 \<and> display k4 = display (prints (listing k 0 ?D) k1)"
      using ls_process [OF f(1) np ls_image_agree [OF h(4) f(3,2)] n assms(13), of evs] f(2) by simp
  qed
  then show ?thesis using l(1,3) unfolding listing_def by blast
qed

text \<open>An image with the directory and the program, which is the file \<open>0\<close> with the literal after its magic number, and a shell to run it.\<close>

definition session_mem :: mem where
  "session_mem a =
     (let j = a - 0x500000
      in if j = 64 \<or> j = 8196 then 0x2E else if j = 96 then 1 else if j = 128 then 0x30 else if j = 160 then 2
         else if j = 4096 then 6 else demo_shell_mem a)"

definition session_fs :: fs where
  "session_fs = demo_fs\<lparr>dentry_num := 2\<rparr>"

definition demo_session :: kernel where
  "demo_session = demo_running\<lparr>mem := session_mem, filesys := session_fs\<rparr>"

definition session_shell :: user_env where
  "session_shell = demo_user\<lparr>lit := shell_lits\<rparr>"

definition session_ls :: user_env where
  "session_ls = demo_user\<lparr>lit := (\<lambda>_. 0x08048004)\<rparr>"

lemma session_cells:
  "session_mem 0x500040 = 0x2E" "session_mem 0x500041 = 0" "session_mem 0x500080 = 0x30" "session_mem 0x500081 = 0"
  "load32 session_mem 0x500060 = 1" "load32 session_mem 0x5000A0 = 2" "load32 session_mem 0x5000A4 = 0"
  "load32 session_mem 0x501000 = 6" "load32 session_mem 0x501004 = 0"
  "bytes_at session_mem 0x502000 6 = [0x7F, 0x45, 0x4C, 0x46, 0x2E, 0]"
  by (simp_all add: session_mem_def demo_shell_mem_def demo_mem_def Let_def load32_def bytes_at_def at_def upt_rec)

lemma session_addrs:
  "dentry_addr session_fs 0 = 0x500040" "dentry_addr session_fs 1 = 0x500080" "dentry_num session_fs = 2" "inode_num session_fs = 1"
  "block_num session_fs = 1" "inode_addr session_fs 0 = 0x501000" "data_addr session_fs 0 = 0x502000"
  by (simp_all add: session_fs_def demo_fs_def dentry_addr_def inode_addr_def data_addr_def)

lemma session_fields:
  "mem demo_session = session_mem" "filesys demo_session = session_fs" "fd_entry demo_session i = fd_entry demo_running i"
  "cur_stack demo_session = [0]" "cur_term_id demo_session = 0" "active_term_idx demo_session = 0" "plain_keys demo_session"
  "prog_counter demo_session = 1" "program_exception_flag demo_session = 0"
  using demo_running_ok demo_running_active demo_counter_ok(7)
  by (simp_all add: demo_session_def fd_entry_def cur_stack_def plain_keys_def demo_counter_def)

lemma demo_session_ok:
  "kernel_ok demo_session" "stdin_ok demo_session" "stdout_ok demo_session"
  "ustr demo_session 0x08048100 (chars ''391OS> '')" "ustr demo_session 0x08048200 (chars ''exit'')"
proof -
  have b: "base_ok demo_running" "paging_inv (pg demo_running)" and ap: "active_proc demo_running 0"
    using demo_running_ok(1,2) by (simp_all add: kernel_ok_def base_ok_def)
  have "base_ok demo_session" unfolding demo_session_def by (rule base_ok_cong [OF b(1)]) (simp_all add: b(2))
  then show "kernel_ok demo_session" using ap by (simp add: kernel_ok_def session_fields(4)) (simp add: demo_session_def active_proc_def)
  show "stdin_ok demo_session" "stdout_ok demo_session"
    using demo_shell_ok(2,3) by (simp_all add: stdin_ok_def stdout_ok_def session_fields demo_shell_def)
  have m: "session_mem a = demo_shell_mem a" if "0x848000 \<le> unat a" for a
  proof -
    have "a - 0x500000 \<noteq> of_nat n" if "n \<le> 8196" for n
    proof
      assume "a - 0x500000 = of_nat n"
      then have "a = 0x500000 + of_nat n" by (simp add: algebra_simps)
      then have "unat a = 0x500000 + n" using that unat_plus_of_nat [of "0x500000" n] by simp
      then show False using that \<open>0x848000 \<le> unat a\<close> by simp
    qed
    from this [of 64] this [of 8196] this [of 96] this [of 128] this [of 160] this [of 4096]
    show ?thesis by (simp add: session_mem_def Let_def)
  qed
  have st: "cur_stack demo_shell = [0]" using demo_running_ok(2) by (simp add: demo_shell_def cur_stack_def)
  have p: "phys demo_session a = phys demo_shell a" for a by (simp add: phys_def session_fields st)
  have same: "bytes_at session_mem (0x848000 + of_nat x) n = bytes_at demo_shell_mem (0x848000 + of_nat x) n" if "x + n < 4096" for x n
  proof (rule bytes_at_cong)
    fix i
    assume "i < n"
    then have "unat (0x848000 + of_nat (x + i) :: addr) = 0x848000 + (x + i)" using that unat_plus_of_nat [of "0x848000" "x + i"] by simp
    then show "session_mem (0x848000 + of_nat x + of_nat i) = demo_shell_mem (0x848000 + of_nat x + of_nat i)" using m by (simp add: add.assoc)
  qed
  have q: "phys demo_shell 0x08048100 = 0x848100" "phys demo_shell 0x08048200 = 0x848200" by (simp_all add: phys_def st)
  have len: "length (chars ''391OS> '') + 1 = 8" "length (chars ''exit'') + 1 = 5" by (simp_all add: chars_def)
  show "ustr demo_session 0x08048100 (chars ''391OS> '')" "ustr demo_session 0x08048200 (chars ''exit'')"
    using demo_shell_ok(4,5) same [of 256 8] same [of 512 5] unfolding ustr_def len p q by (simp_all add: session_fields(1)) (simp_all add: demo_shell_def)
qed

lemma session_program:
  "names_program session_shell demo_session [0x30] [0] [0x7F, 0x45, 0x4C, 0x46, 0x2E, 0]"
  "ls_image session_ls demo_session 4 [0x7F, 0x45, 0x4C, 0x46, 0x2E, 0]"
  "concat (map (\<lambda>i. dentry_name demo_session i @ [0x0A]) [0..<unat (dentry_num (filesys demo_session))]) = [0x2E, 0x0A, 0x30, 0x0A]"
proof -
  note a = session_addrs and c = session_cells
  have zero: "is_cstr (at session_mem 0x500040) 1" "is_cstr (at session_mem 0x500080) 1" using c(1-4) by (auto simp: is_cstr_def at_def)
  have two: "[0..<2] = [0, 1 :: nat]" by (simp add: upt_rec)
  have "dentry_name demo_session 0 = [0x2E]" "dentry_name demo_session 1 = [0x30]"
    using name_bytes [OF zero(1)] name_bytes [OF zero(2)] c(1,3) by (simp_all add: dentry_name_def session_fields a bytes_at_Suc)
  then show "concat (map (\<lambda>i. dentry_name demo_session i @ [0x0A]) [0..<unat (dentry_num (filesys demo_session))]) = [0x2E, 0x0A, 0x30, 0x0A]"
    by (simp add: session_fields a two)
  have im: "image_ok session_fs" by (simp add: image_ok_def session_fs_def demo_fs_def)
  have "\<exists>n>0. is_cstr (at session_mem (dentry_addr session_fs (of_nat i))) n \<and> n < 64" if "i < 2" for i
    using that zero by (intro exI [of _ 1]) (auto simp: less_Suc_eq numeral_2_eq_2 a)
  then have ls: "listable demo_session" using im by (simp add: listable_def session_fields a)
  have "file_type (load_dentry session_mem 0x500040) = 1" using c(5) by (simp add: load_dentry_def)
  then show "ls_image session_ls demo_session 4 [0x7F, 0x45, 0x4C, 0x46, 0x2E, 0]"
    using lookup_one_char [of 0 session_fs session_mem "0x2E" "dentry_stk (ker session_ls)"] c(1,2) ls
    by (simp add: ls_image_def session_fields a) (simp add: session_ls_def)
  let ?d = "load_dentry session_mem 0x500080"
  have d: "file_type ?d = 2" "d_inode_idx ?d = 0" using c(6,7) by (simp_all add: load_dentry_def)
  have b: "inode_block session_fs session_mem 0 0 = 0" using c(9) by (simp add: inode_block_def a)
  then have fb: "file_byte session_fs session_mem 0 i = session_mem (0x502000 + of_nat i)" "block_ok session_fs session_mem 0 i" if "i < 6" for i
    using that by (simp_all add: file_byte_def block_ok_def a)
  have "map (file_byte session_fs session_mem 0) [0..<6] = bytes_at session_mem 0x502000 6"
    by (rule nth_equalityI) (simp_all add: fb)
  then have bs: "map (file_byte session_fs session_mem 0) [0..<6] = [0x7F, 0x45, 0x4C, 0x46, 0x2E, 0]" using c(10) by simp
  have "take 4 (map (file_byte session_fs session_mem 0) [0..<6]) = map (file_byte session_fs session_mem 0) [0..<4]" by (simp add: take_map)
  then have "map (file_byte session_fs session_mem 0) [0..<4] = EXEC_HEAD" unfolding bs by (simp add: EXEC_HEAD_def)
  moreover have "inode_length session_fs session_mem 0 = 6" using c(8) by (simp add: inode_length_def a)
  ultimately have "file_good demo_session ?d 6" "executable demo_session ?d"
    using d fb(2) by (simp_all add: file_good_def executable_def session_fields a)
  moreover have "read_dentry_by_name session_fs session_mem (Some (of_bytes [0x30, 0])) (Some (dentry_stk (ker session_shell))) = Some (0, Some ?d)"
    using lookup_one_char [of 1 session_fs session_mem "0x30" "dentry_stk (ker session_shell)"] c(1,3,4) by (simp add: a)
  moreover have "parse_command (of_bytes ([0x30] @ [0])) = Some ([0x30, 0], [0])" using parse_word [of "[0x30]"] by (simp add: name_char_def)
  moreover have len: "length [0x7F, 0x45, 0x4C, 0x46, 0x2E, 0 :: byte] = 6" "(0x0A :: byte) \<notin> set [0x30]" "length [0 :: byte] \<le> 128" by simp_all
  ultimately show "names_program session_shell demo_session [0x30] [0] [0x7F, 0x45, 0x4C, 0x46, 0x2E, 0]"
    unfolding names_program_def len(1) session_fields by (intro conjI exI [of _ "[0x30, 0]"] exI [of _ ?d]) (assumption | rule len | simp only: d bs)+
qed

theorem shell_lists_directory_witness:
  "\<exists>k1 k'. ece391_read session_shell [Key 0x0B, Key ENTER_PRESS] 0 0x08100000 1023 (prints (chars ''391OS> '') demo_session) = Some (2, k1)
    \<and> shell_round session_shell [Key 0x0B, Key ENTER_PRESS] (run_program session_ls (ker session_shell) (ls_main session_ls (\<lambda>_. []) 0x08100000))
        0x08100000 demo_session = Some (None, k')
    \<and> display k' = display (prints [0x2E, 0x0A, 0x30, 0x0A] k1)"
proof -
  let ?e = session_shell and ?kp = "prints (chars ''391OS> '') demo_session" and ?bs = "[0x7F, 0x45, 0x4C, 0x46, 0x2E, 0] :: byte list"
  note d = demo_session_ok and f = session_fields
  have e: "lit ?e ''391OS> '' = 0x08048100" "lit ?e ''exit'' = 0x08048200" by (simp_all add: session_shell_def shell_lits_def)
  have w: "in_window 0x08100000 1024" "apart (lit ?e ''exit'') 5 0x08100000 1024" "in_window 0x08100000 33" unfolding e by (simp_all add: in_window_def apart_def)
  have r: "prog_counter demo_session < 6" "length (cur_stack demo_session) < 4" by (simp_all add: f)
  have "active_term_idx demo_session = cur_term_id demo_session" by (simp add: f)
  note tz = type_zero [OF d(1) f(7) this]
  obtain k0 where k0: "run [Key 0x0B] (reading ?kp) = Some k0" "active_term_idx k0 = cur_term_id demo_session" using tz(1) by blast
  from shell_lists_directory [where args = "[0]" and bs = "[0x7F, 0x45, 0x4C, 0x46, 0x2E, 0]" and off = 4 and ec = session_ls and rest = "[]" and evs = "\<lambda>_. []",
      OF d(1-3) w(1) d(4,5) [folded e] w(2) k0 r f(9) w(3)]
  obtain l k1 where l: "typed ?kp [Key 0x0B] l" "ece391_read ?e ([Key 0x0B] @ Key ENTER_PRESS # []) 0 0x08100000 1023 ?kp = Some (int (length l) + 1, k1)"
    "0 \<notin> set l \<longrightarrow> l \<notin> {[], chars ''exit''} \<longrightarrow> names_program ?e demo_session l [0] ?bs \<longrightarrow> ls_image session_ls demo_session 4 ?bs \<longrightarrow>
      (\<exists>k'. shell_round ?e ([Key 0x0B] @ Key ENTER_PRESS # []) (run_program session_ls (ker ?e) (ls_main session_ls (\<lambda>_. []) 0x08100000)) 0x08100000 demo_session = Some (None, k')
        \<and> kernel_ok k' \<and> cur_stack k' = cur_stack demo_session \<and> prog_counter k' = prog_counter demo_session
        \<and> pcbs k' ! last (cur_stack demo_session) = pcbs k1 ! last (cur_stack demo_session)
        \<and> display k' = display (prints (concat (map (\<lambda>i. dentry_name demo_session i @ [0x0A]) [0..<unat (dentry_num (filesys demo_session))])) k1))"
    by (elim exE conjE)
  have z: "l = [0x30]" by (rule tz(2) [OF l(1)])
  have "0 \<notin> set l" "l \<notin> {[], chars ''exit''}" unfolding z by (simp_all add: chars_def)
  from l(3) [rule_format, OF this session_program(1) [folded z] session_program(2)]
  show ?thesis using l(2) unfolding session_program(3) by (auto simp: z)
qed

end
