(* ===== verification/User_Syserr.thy ===== *)
theory User_Syserr
  imports User_Text
begin

text \<open>
  The test program \<open>syserr\<close> (\<open>ece391syserr.c\<close>), which calls the kernel in every way that must fail,
  and the proof that all its tests pass on the kernel model.
\<close>

definition NEG_FD :: int where "NEG_FD = -1073741823"
definition BIG_FD :: int where "BIG_FD = 1073741823"
definition BIG_NUM :: int where "BIG_NUM = 1073741823"
definition NEG_NUM :: int where "NEG_NUM = -1073741823"

lemmas syserr_consts = NEG_FD_def BIG_FD_def BIG_NUM_def NEG_NUM_def

section \<open>The tests\<close>

text \<open>\<open>call_sys\<close>: the argument registers hold whatever they held (\<open>regs3\<close>).\<close>

definition call_sys :: "user_env \<Rightarrow> u32 \<times> u32 \<times> u32 \<Rightarrow> int \<Rightarrow> kernel \<Rightarrow> (int \<times> kernel) option" where
  "call_sys e regs3 num k = (case regs3 of (b, c, d) \<Rightarrow> DO_CALL e [] (word_of_int num) b c d k)"

definition ece391_vidmap :: "user_env \<Rightarrow> addr \<Rightarrow> kernel \<Rightarrow> (int \<times> kernel) option" where
  "ece391_vidmap e screen_start = DO_CALL e [] 8 screen_start 0 0"

text \<open>\<open>if (-1 != call) { fail = 2; fdputs(msg); }\<close>, and the line at the end of a test.\<close>

definition expect_fail ::
  "user_env \<Rightarrow> (kernel \<Rightarrow> (int \<times> kernel) option) \<Rightarrow> string \<Rightarrow> int \<times> kernel \<Rightarrow> (int \<times> kernel) option" where
  "expect_fail e call msg = (\<lambda>(fail, k).
     do { (r, k) \<leftarrow> call k;
          if r \<noteq> -1 then do { k \<leftarrow> ece391_fdputs e 1 (lit e msg) k; Some (2, k) } else Some (fail, k) })"

definition verdict :: "user_env \<Rightarrow> string \<Rightarrow> string \<Rightarrow> int \<times> kernel \<Rightarrow> (int \<times> kernel) option" where
  "verdict e FAIL PASS = (\<lambda>(fail, k).
     do { k \<leftarrow> ece391_fdputs e 1 (lit e (if fail \<noteq> 0 then FAIL else PASS)) k; Some (fail, k) })"

definition err_neg_fd :: "user_env \<Rightarrow> event list \<Rightarrow> addr \<Rightarrow> kernel \<Rightarrow> (int \<times> kernel) option" where
  "err_neg_fd e evs buf k =
     do { s \<leftarrow> expect_fail e (ece391_read e evs NEG_FD buf 31) ''read fail\<newline>'' (0, k);
          s \<leftarrow> expect_fail e (ece391_write e NEG_FD buf 31) ''write fail\<newline>'' s;
          s \<leftarrow> expect_fail e (ece391_close e NEG_FD) ''close fail\<newline>'' s;
          verdict e ''err_neg_fd: FAIL\<newline>'' ''err_neg_fd: PASS\<newline>'' s }"

definition err_big_fd :: "user_env \<Rightarrow> event list \<Rightarrow> addr \<Rightarrow> kernel \<Rightarrow> (int \<times> kernel) option" where
  "err_big_fd e evs buf k =
     do { s \<leftarrow> expect_fail e (ece391_read e evs BIG_FD buf 31) ''read fail\<newline>'' (0, k);
          s \<leftarrow> expect_fail e (ece391_write e BIG_FD buf 31) ''write fail\<newline>'' s;
          s \<leftarrow> expect_fail e (ece391_close e BIG_FD) ''close fail\<newline>'' s;
          verdict e ''err_big_fd: FAIL\<newline>'' ''err_big_fd: PASS\<newline>'' s }"

fun open_lots :: "user_env \<Rightarrow> nat \<Rightarrow> int \<times> kernel \<Rightarrow> (int \<times> kernel) option" where
  "open_lots e 0 s = Some s"
| "open_lots e (Suc n) (cnt, k) =
     do { (fd, k) \<leftarrow> ece391_open e (lit e ''.'') k;
          open_lots e n (if fd = -1 then cnt + 1 else cnt, k) }"

fun close_from :: "user_env \<Rightarrow> nat \<Rightarrow> int \<Rightarrow> kernel \<Rightarrow> kernel option" where
  "close_from e 0 i k = Some k"
| "close_from e (Suc n) i k = do { (r, k) \<leftarrow> ece391_close e i k; close_from e n (i + 1) k }"

definition err_open_lots :: "user_env \<Rightarrow> kernel \<Rightarrow> (int \<times> kernel) option" where
  "err_open_lots e k =
     do { (cnt, k) \<leftarrow> open_lots e 7 (0, k);
          k \<leftarrow> close_from e 6 2 k;
          if cnt = 1 then do { k \<leftarrow> ece391_fdputs e 1 (lit e ''err_open_lots: PASS\<newline>'') k; Some (0, k) }
          else do { k \<leftarrow> ece391_fdputs e 1 (lit e ''err_open_lots: FAIL\<newline>'') k; Some (2, k) } }"

definition err_open :: "user_env \<Rightarrow> kernel \<Rightarrow> (int \<times> kernel) option" where
  "err_open e k =
     do { s \<leftarrow> expect_fail e (ece391_open e (lit e ''helloo'')) '''helloo' fail\<newline>'' (0, k);
          s \<leftarrow> expect_fail e (ece391_open e (lit e ''shel'')) '''shel' fail\<newline>'' s;
          s \<leftarrow> expect_fail e (ece391_open e (lit e '''')) ''empty string fail\<newline>'' s;
          verdict e ''err_open: FAIL\<newline>'' ''err_open: PASS\<newline>'' s }"

fun expect_all :: "user_env \<Rightarrow> (int \<Rightarrow> kernel \<Rightarrow> (int \<times> kernel) option) \<Rightarrow> string \<Rightarrow> nat \<Rightarrow> int \<Rightarrow> int \<times> kernel \<Rightarrow> (int \<times> kernel) option" where
  "expect_all e call msg 0 i s = Some s"
| "expect_all e call msg (Suc n) i s = do { s \<leftarrow> expect_fail e (call i) msg s; expect_all e call msg n (i + 1) s }"

definition err_unopened :: "user_env \<Rightarrow> (int \<Rightarrow> event list) \<Rightarrow> addr \<Rightarrow> kernel \<Rightarrow> (int \<times> kernel) option" where
  "err_unopened e evs buf k =
     do { s \<leftarrow> expect_all e (\<lambda>i. ece391_close e i) ''close unopened or invalid fd fail\<newline>'' 8 0 (0, k);
          s \<leftarrow> expect_all e (\<lambda>i. ece391_read e (evs i) i buf 31) ''read from unopened fd fail\<newline>'' 6 2 s;
          s \<leftarrow> expect_all e (\<lambda>i. ece391_write e i buf 31) ''write to unopened fd fail\<newline>'' 6 2 s;
          verdict e ''err_unopened: FAIL\<newline>'' ''err_unopened: PASS\<newline>'' s }"

definition err_vidmap :: "user_env \<Rightarrow> kernel \<Rightarrow> (int \<times> kernel) option" where
  "err_vidmap e k =
     do { s \<leftarrow> expect_fail e (ece391_vidmap e 0) ''Null pointer fail\<newline>'' (0, k);
          s \<leftarrow> expect_fail e (ece391_vidmap e 0x400000) ''Kernel pointer fail fail\<newline>'' s;
          verdict e ''err_vidmap: FAIL\<newline>'' ''err_vidmap: PASS\<newline>'' s }"

definition err_stdin_out :: "user_env \<Rightarrow> event list \<Rightarrow> addr \<Rightarrow> kernel \<Rightarrow> (int \<times> kernel) option" where
  "err_stdin_out e evs buf k =
     do { s \<leftarrow> expect_fail e (ece391_write e 0 buf 31) ''write to stdin fail\<newline>'' (0, k);
          s \<leftarrow> expect_fail e (ece391_read e evs 1 buf 31) ''read from stdout fail\<newline>'' s;
          verdict e ''err_stdin_out: FAIL\<newline>'' ''err_stdin_out: PASS\<newline>'' s }"

definition err_syscall_num :: "user_env \<Rightarrow> u32 \<times> u32 \<times> u32 \<Rightarrow> kernel \<Rightarrow> (int \<times> kernel) option" where
  "err_syscall_num e regs3 k =
     do { s \<leftarrow> expect_fail e (call_sys e regs3 BIG_NUM) ''syscall 0 fail\<newline>'' (0, k);
          s \<leftarrow> expect_fail e (call_sys e regs3 NEG_NUM) ''big num syscall fail\<newline>'' s;
          s \<leftarrow> expect_fail e (call_sys e regs3 0) ''neg num syscall fail\<newline>'' s;
          verdict e ''err_syscall_num: FAIL\<newline>'' ''err_syscall_num: PASS\<newline>'' s }"

section \<open>main\<close>

text \<open>\<open>fail += test();\<close>\<close>

definition plus_test :: "(kernel \<Rightarrow> (int \<times> kernel) option) \<Rightarrow> int \<times> kernel \<Rightarrow> (int \<times> kernel) option" where
  "plus_test test = (\<lambda>(fail, k). do { (r, k) \<leftarrow> test k; Some (fail + r, k) })"

definition syserr_all :: "user_env \<Rightarrow> (int \<Rightarrow> event list) \<Rightarrow> u32 \<times> u32 \<times> u32 \<Rightarrow> addr \<Rightarrow> kernel \<Rightarrow> (int \<times> kernel) option" where
  "syserr_all e evs regs3 buf k =
     do { s \<leftarrow> plus_test (err_neg_fd e (evs 0) buf) (0, k);
          s \<leftarrow> plus_test (err_big_fd e (evs 0) buf) s;
          s \<leftarrow> plus_test (err_open_lots e) s;
          s \<leftarrow> plus_test (err_open e) s;
          s \<leftarrow> plus_test (err_unopened e evs buf) s;
          s \<leftarrow> plus_test (err_vidmap e) s;
          s \<leftarrow> plus_test (err_stdin_out e (evs 0) buf) s;
          s \<leftarrow> plus_test (err_syscall_num e regs3) s;
          verdict e ''\<newline>Overall Tests: FAIL\<newline>'' ''\<newline>Overall Tests: PASS\<newline>'' s }"

definition syserr_main ::
  "user_env \<Rightarrow> event list \<Rightarrow> (int \<Rightarrow> event list) \<Rightarrow> u32 \<times> u32 \<times> u32 \<Rightarrow> addr \<Rightarrow> addr \<Rightarrow> kernel \<Rightarrow> (int \<times> kernel) option" where
  "syserr_main e sel evs regs3 buf tbuf k =
     do { k \<leftarrow> ece391_fdputs e 1 (lit e ''Choose from tests 1-8. 0 to run all: '') k;
          (cnt, k) \<leftarrow> ece391_read e sel 0 buf 127 k;
          if cnt = -1 then do { k \<leftarrow> ece391_fdputs e 1 (lit e ''Can't read test #\<newline>'') k; Some (2, k) }
          else do {
            c \<leftarrow> uread k buf;
            let select = uint c - 0x30;
            if select = 0 then syserr_all e evs regs3 tbuf k
            else if select = 1 then err_neg_fd e (evs 0) tbuf k
            else if select = 2 then err_big_fd e (evs 0) tbuf k
            else if select = 3 then err_open_lots e k
            else if select = 4 then err_open e k
            else if select = 5 then err_unopened e evs tbuf k
            else if select = 6 then err_vidmap e k
            else if select = 7 then err_stdin_out e (evs 0) tbuf k
            else if select = 8 then err_syscall_num e regs3 k
            else do { k \<leftarrow> ece391_fdputs e 1 (lit e ''Invalid test number. Choose from tests 1-8 or 0'') k; Some (0, k) } } }"

section \<open>Calls that fail\<close>

text \<open>A program that has opened nothing, and the strings it needs.\<close>

definition fresh :: "kernel \<Rightarrow> bool" where
  "fresh k \<longleftrightarrow> kernel_ok k \<and> stdin_ok k \<and> stdout_ok k \<and> (\<forall>i. 2 \<le> i \<and> i < 8 \<longrightarrow> flags (fd_entry k i) = 0)"

definition lits_ok :: "user_env \<Rightarrow> kernel \<Rightarrow> string set \<Rightarrow> bool" where
  "lits_ok e k S \<longleftrightarrow> (\<forall>m\<in>S. ustr k (lit e m) (chars m))"

lemma read_fails:
  assumes "fresh k" and "fd < 0 \<or> 1 \<le> fd" and "- 2147483648 \<le> fd" and "fd < 2147483648"
  shows "ece391_read e evs fd buf 31 k = Some (-1, k)"
proof -
  have "sys_read evs fd buf 31 k = Some (-1, k)"
    using assms by (cases "fd = 1") (auto simp: sys_read_def FILE_LIMIT_def fresh_def stdout_ok_def op_read_def terminal_read_def)
  then show ?thesis using assms(3,4) by (simp add: ece391_read_def DO_CALL_def dispatch_syscall_def sint_of_int_u32 returned_def)
qed

lemma write_fails:
  assumes "fresh k" and "fd \<noteq> 1" and "- 2147483648 \<le> fd" and "fd < 2147483648"
  shows "ece391_write e fd buf 31 k = Some (-1, k)"
proof -
  have "sys_write fd buf 31 k = Some (-1, k)"
    using assms by (cases "fd = 0") (auto simp: sys_write_def FILE_LIMIT_def fresh_def stdin_ok_def op_write_def terminal_write_def)
  then show ?thesis using assms(3,4) by (simp add: ece391_write_def DO_CALL_def dispatch_syscall_def sint_of_int_u32 returned_def)
qed

lemma close_fails:
  assumes "fresh k" and "- 2147483648 \<le> fd" and "fd < 2147483648"
  shows "ece391_close e fd k = Some (-1, k)"
proof -
  have "sys_close fd k = Some (-1, k)" using assms(1) by (auto simp: sys_close_def FILE_LIMIT_def fresh_def)
  then show ?thesis using assms(2,3) by (simp add: ece391_close_def DO_CALL_def dispatch_syscall_def sint_of_int_u32 returned_def)
qed

lemma vidmap_fails: "a < MB_128 \<Longrightarrow> ece391_vidmap e a k = Some (-1, k)"
  by (simp add: ece391_vidmap_def DO_CALL_def dispatch_syscall_def vidmap_def returned_def)

lemma number_fails:
  "n < 1 \<or> 10 < n \<Longrightarrow> - 2147483648 \<le> n \<Longrightarrow> n < 2147483648 \<Longrightarrow> call_sys e r n k = Some (-1, k)"
  by (cases r) (auto simp: call_sys_def DO_CALL_def dispatch_syscall_def sint_of_int_u32)

lemma open_fails:
  assumes "kernel_ok k" and "ustr k a s"
    and "free_fd k 2 = 8 \<or> read_dentry_by_name (filesys k) (mem k) (Some (of_bytes (s @ [0]))) (Some (dentry_stk (ker e))) = Some (-1, d)"
  shows "ece391_open e a k = Some (-1, k)"
proof -
  have u: "in_window a (length s + 1)" "bytes_at (mem k) (phys k a) (length s + 1) = s @ [0]" "0 \<notin> set s"
    using assms(2) by (simp_all add: ustr_def)
  have "fetch_str (\<lambda>b. b = 0) k a [] = Some ([] @ s @ [0])"
    using u(3) by (intro fetch_window [OF assms(1) _ _ u(1,2)]) auto
  moreover have "file_array k \<noteq> None" using files_ok_kernel [OF assms(1)] by (auto simp: files_ok_def)
  then have "sys_open (dentry_stk (ker e)) (Some (of_bytes (s @ [0]))) k = Some (-1, k)"
    using assms(3) by (auto simp: sys_open_def FILE_LIMIT_def Let_def)
  ultimately show ?thesis using in_window_nonzero [OF u(1)]
    by (simp add: ece391_open_def DO_CALL_def dispatch_syscall_def with_str_def returned_def)
qed

lemma expect_fail_ok: "call k = Some (-1, k) \<Longrightarrow> expect_fail e call msg (f, k) = Some (f, k)"
  by (simp add: expect_fail_def)

lemma expect_all_ok: "(\<And>j. i \<le> j \<Longrightarrow> j < i + int n \<Longrightarrow> call j k = Some (-1, k)) \<Longrightarrow> expect_all e call msg n i (f, k) = Some (f, k)"
  by (induction n arbitrary: i) (simp_all add: expect_fail_ok)

section \<open>Passing a test\<close>

text \<open>A test passes: it returns 0 and displays its line, and the program is as fresh as before.\<close>

definition calm :: "kernel \<Rightarrow> kernel \<Rightarrow> bool" where
  "calm k k' \<longleftrightarrow> fresh k' \<and> user_step k k' \<and> (\<forall>a. a \<notin> screen \<longrightarrow> mem k' a = mem k a)"

definition passes :: "(kernel \<Rightarrow> (int \<times> kernel) option) \<Rightarrow> string \<Rightarrow> kernel \<Rightarrow> bool" where
  "passes test msg k \<longleftrightarrow> (\<exists>k'. test k = Some (0, k') \<and> calm k k' \<and> display k' = display (prints (chars msg) k))"

lemma calm_lits: "calm k k' \<Longrightarrow> kernel_ok k \<Longrightarrow> lits_ok e k S \<Longrightarrow> lits_ok e k' S"
proof -
  assume c: "calm k k'" and k: "kernel_ok k" and l: "lits_ok e k S"
  have "ustr k' (lit e m) (chars m)" if m: "m \<in> S" for m
  proof (rule ustr_frame [OF k])
    show "user_step k k'" using c by (simp add: calm_def)
    show u: "ustr k (lit e m) (chars m)" using l m by (simp add: lits_ok_def)
    fix i
    assume "i \<le> length (chars m)"
    then have "phys k (lit e m) + of_nat i \<notin> screen" using u by (intro window_out(1) [OF k]) (auto simp: ustr_def)
    then show "mem k' (phys k (lit e m) + of_nat i) = mem k (phys k (lit e m) + of_nat i)" using c by (simp add: calm_def)
  qed
  then show "lits_ok e k' S" by (simp add: lits_ok_def)
qed

lemma fresh_same: "fresh k \<Longrightarrow> kernel_ok k' \<Longrightarrow> same_files (-1) k k' \<Longrightarrow> fresh k'"
  by (simp add: fresh_def stdin_ok_def stdout_ok_def same_files_def)

lemma prints_calm: "fresh k \<Longrightarrow> calm k (prints cs k)"
  using prints_step [of k] fresh_same [of k "prints cs k"] by (auto simp: calm_def fresh_def user_step_def)

lemma calm_trans: "calm k k' \<Longrightarrow> calm k' k'' \<Longrightarrow> calm k k''"
  using user_step_trans by (auto simp: calm_def)

lemma verdict_ok:
  assumes "fresh k" and "lits_ok e k {PASS}"
  shows "verdict e FAIL PASS (0, k) = Some (0, prints (chars PASS) k)"
  using assms fdputs_prints [of k "lit e PASS" "chars PASS" e] by (simp add: verdict_def fresh_def lits_ok_def)

lemma passesI: "fresh k \<Longrightarrow> test k = Some (0, prints (chars msg) k) \<Longrightarrow> passes test msg k"
  unfolding passes_def using prints_calm by blast

lemma simple_tests:
  assumes "fresh k"
  shows "lits_ok e k {''err_neg_fd: PASS\<newline>''} \<Longrightarrow> passes (err_neg_fd e evs buf) ''err_neg_fd: PASS\<newline>'' k"
    and "lits_ok e k {''err_big_fd: PASS\<newline>''} \<Longrightarrow> passes (err_big_fd e evs buf) ''err_big_fd: PASS\<newline>'' k"
    and "lits_ok e k {''err_unopened: PASS\<newline>''} \<Longrightarrow> passes (err_unopened e evss buf) ''err_unopened: PASS\<newline>'' k"
    and "lits_ok e k {''err_vidmap: PASS\<newline>''} \<Longrightarrow> passes (err_vidmap e) ''err_vidmap: PASS\<newline>'' k"
    and "lits_ok e k {''err_stdin_out: PASS\<newline>''} \<Longrightarrow> passes (err_stdin_out e evs buf) ''err_stdin_out: PASS\<newline>'' k"
    and "lits_ok e k {''err_syscall_num: PASS\<newline>''} \<Longrightarrow> passes (err_syscall_num e regs3) ''err_syscall_num: PASS\<newline>'' k"
  using assms
  by (intro passesI;
      simp add: err_neg_fd_def err_big_fd_def err_unopened_def err_vidmap_def err_stdin_out_def err_syscall_num_def
        expect_fail_ok expect_all_ok read_fails write_fails close_fails vidmap_fails number_fails verdict_ok syserr_consts MB_128_def)+

section \<open>Opening and closing every descriptor\<close>

text \<open>Descriptors \<open>a\<close> to \<open>b - 1\<close> are open, the other ones from 2 on are free.\<close>

definition open_range :: "kernel \<Rightarrow> int \<Rightarrow> int \<Rightarrow> bool" where
  "open_range k a b \<longleftrightarrow> kernel_ok k \<and> stdin_ok k \<and> stdout_ok k
     \<and> (\<forall>i. 2 \<le> i \<and> i < 8 \<longrightarrow> (if a \<le> i \<and> i < b then flags (fd_entry k i) \<noteq> 0 \<and> op_ptr (fd_entry k i) \<noteq> OP_NULL else flags (fd_entry k i) = 0))"

definition unseen :: "kernel \<Rightarrow> kernel \<Rightarrow> bool" where
  "unseen k k' \<longleftrightarrow> user_step k k' \<and> display k' = display k \<and> mem k' = mem k"

lemma unseen_trans: "unseen k k' \<Longrightarrow> unseen k' k'' \<Longrightarrow> unseen k k''"
  using user_step_trans by (auto simp: unseen_def)

lemma open_range_free: "open_range k 2 b \<Longrightarrow> 2 \<le> b \<Longrightarrow> b \<le> 8 \<Longrightarrow> free_fd k 2 = b"
proof -
  assume r: "open_range k 2 b" "2 \<le> b" "b \<le> 8"
  have f: "2 \<le> free_fd k 2" "free_fd k 2 \<le> 8" "\<forall>i. 2 \<le> i \<and> i < free_fd k 2 \<longrightarrow> flags (fd_entry k i) \<noteq> 0"
    "free_fd k 2 < 8 \<longrightarrow> flags (fd_entry k (free_fd k 2)) = 0" using free_fd_spec [of 2 k] by simp_all
  have "\<not> free_fd k 2 < b" using f(1,4) r unfolding open_range_def by auto
  moreover have "\<not> b < free_fd k 2"
  proof
    assume "b < free_fd k 2"
    then have "flags (fd_entry k b) \<noteq> 0" "b < 8" using f(2,3) r(2) by simp_all
    then show False using r(1,2) unfolding open_range_def by auto
  qed
  ultimately show ?thesis by simp
qed

lemma open_range_upd:
  assumes "open_range k a b" and "same_files fd k k'" and "kernel_ok k'" and "2 \<le> fd" and "fd < 8"
    and "\<And>i. i \<noteq> fd \<Longrightarrow> (a' \<le> i \<and> i < b') = (a \<le> i \<and> i < b)"
    and "if a' \<le> fd \<and> fd < b' then flags (fd_entry k' fd) \<noteq> 0 \<and> op_ptr (fd_entry k' fd) \<noteq> OP_NULL else flags (fd_entry k' fd) = 0"
  shows "open_range k' a' b'"
proof -
  have e: "fd_entry k' i = fd_entry k i" if "0 \<le> i" "i \<noteq> fd" for i using same_files_entry [OF assms(2) that] .
  have "stdin_ok k'" "stdout_ok k'" using assms(1,4) e [of 0] e [of 1] by (simp_all add: open_range_def stdin_ok_def stdout_ok_def)
  moreover have "if a' \<le> i \<and> i < b' then flags (fd_entry k' i) \<noteq> 0 \<and> op_ptr (fd_entry k' i) \<noteq> OP_NULL else flags (fd_entry k' i) = 0"
    if "2 \<le> i" "i < 8" for i
  proof (cases "i = fd")
    case True
    then show ?thesis using assms(7) by simp
  next
    case False
    then show ?thesis using assms(1) assms(6) [OF False] e [of i] that unfolding open_range_def by simp
  qed
  ultimately show ?thesis using assms(3) unfolding open_range_def by blast
qed

text \<open>What is in the directory of the image, by name: the entry \<open>.\<close> of type directory, and no entry of a
  given name.\<close>

definition has_dir :: "kernel \<Rightarrow> bool" where
  "has_dir k \<longleftrightarrow> image_ok (filesys k) \<and> (\<exists>i < unat (dentry_num (filesys k)). dentry_name k i = chars ''.'' \<and> (\<forall>j<i. dentry_name k j \<noteq> chars ''.'')
     \<and> file_type (load_dentry (mem k) (dentry_addr (filesys k) (of_nat i))) = 1)"

definition no_file :: "kernel \<Rightarrow> string \<Rightarrow> bool" where
  "no_file k s \<longleftrightarrow> (\<forall>i < unat (dentry_num (filesys k)). dentry_name k i \<noteq> chars s)"

lemma name_match:
  assumes "0 \<notin> set bs" and "length bs < 32"
  shows "dentry_matches (filesys k) (mem k) (of_bytes (bs @ [0])) i \<longleftrightarrow> dentry_name k i = bs"
proof -
  let ?a = "dentry_addr (filesys k) (of_nat i)" and ?n = "length bs"
  let ?s = "at (mem k) ?a" and ?f = "of_bytes (bs @ [0])"
  have f: "?f j = (bs @ [0]) ! j" if "j \<le> ?n" for j using that by (simp add: of_bytes_def)
  have nz: "?f j \<noteq> 0" if "j < ?n" for j using f [of j] that assms(1) nth_mem [OF that] by (metis less_imp_le nth_append)
  have same: "dentry_matches (filesys k) (mem k) ?f i \<longleftrightarrow> (\<forall>j\<le>?n. ?s j = (bs @ [0]) ! j)"
  proof -
    have "(\<forall>l<j. ?f l \<noteq> 0) \<longleftrightarrow> j \<le> ?n" for j using nz f [of ?n] by (auto simp: nth_append dest: leI)
    then show ?thesis using assms(2) f by (auto simp: dentry_matches_def cstr_eq_def)
  qed
  show ?thesis
  proof
    assume "dentry_matches (filesys k) (mem k) ?f i"
    then have s: "\<forall>j\<le>?n. ?s j = (bs @ [0]) ! j" unfolding same .
    then have "is_cstr ?s ?n" using f nz by (simp add: is_cstr_def)
    from name_bytes [OF this] show "dentry_name k i = bs"
      using s assms(2) by (simp add: dentry_name_def bytes_at_def) (intro nth_equalityI, simp_all add: nth_append)
  next
    assume d: "dentry_name k i = bs"
    let ?xs = "bytes_at (mem k) ?a 32"
    have t: "takeWhile (\<lambda>b. b \<noteq> 0) ?xs = bs" using d by (simp add: dentry_name_def)
    have "?s j = (bs @ [0]) ! j" if "j \<le> ?n" for j
    proof (cases "j = ?n")
      case True
      then show ?thesis using nth_length_takeWhile [of "\<lambda>b. b \<noteq> 0" ?xs] t assms(2) by (simp add: bytes_at_def)
    next
      case False
      then show ?thesis using takeWhile_nth [of j "\<lambda>b. b \<noteq> 0" ?xs] t that assms(2) by (simp add: bytes_at_def nth_append)
    qed
    then show "dentry_matches (filesys k) (mem k) ?f i" unfolding same by blast
  qed
qed

lemma stored_name:
  assumes "bytes_at (mem k) (dentry_addr (filesys k) (of_nat i)) (Suc (length bs)) = bs @ [0]" and "0 \<notin> set bs" and "length bs < 32"
  shows "dentry_name k i = bs"
proof -
  let ?s = "at (mem k) (dentry_addr (filesys k) (of_nat i))"
  have "?s j = of_bytes (bs @ [0]) j" if "j \<le> length bs" for j
    using arg_cong [OF assms(1), of "\<lambda>xs. xs ! j"] that by (simp add: bytes_at_def of_bytes_def nth_append del: upt_Suc)
  moreover have "of_bytes (bs @ [0]) (length bs) = 0" by (simp add: of_bytes_def nth_append)
  ultimately have "dentry_matches (filesys k) (mem k) (of_bytes (bs @ [0])) i"
    unfolding dentry_matches_def cstr_eq_def by (metis linorder_not_le)
  then show ?thesis unfolding name_match [OF assms(2,3)] .
qed

lemma has_dir_lookup:
  assumes "has_dir k"
  shows "\<exists>d. file_type d = 1 \<and> read_dentry_by_name (filesys k) (mem k) (Some (of_bytes [0x2E, 0])) (Some dl) = Some (0, Some d)"
proof -
  obtain i where i: "i < unat (dentry_num (filesys k))" "dentry_name k i = chars ''.''" "\<forall>j<i. dentry_name k j \<noteq> chars ''.''"
    "file_type (load_dentry (mem k) (dentry_addr (filesys k) (of_nat i))) = 1" using assms unfolding has_dir_def by blast
  have c: "chars ''.'' = [0x2E]" by (simp add: chars_def)
  have f: "is_cstr (of_bytes [0x2E, 0]) 1" by (simp add: is_cstr_def of_bytes_def)
  note m = name_match [of "[0x2E]" k, simplified]
  show ?thesis using lookup_first [OF f _ i(1), of "mem k" dl] i(2-4) unfolding c by (auto simp: m)
qed

lemma no_file_lookup:
  assumes "no_file k s" and "0 \<notin> set (chars s)" and "length s < 32"
  shows "read_dentry_by_name (filesys k) (mem k) (Some (of_bytes (chars s @ [0]))) (Some dl) = Some (-1, Some dl)"
proof -
  have l: "length (chars s) < 32" using assms(3) by (simp add: chars_def)
  have "\<not> dentry_matches (filesys k) (mem k) (of_bytes (chars s @ [0])) i" if "i < unat (dentry_num (filesys k))" for i
    using assms(1) that unfolding name_match [OF assms(2) l] by (simp add: no_file_def)
  then show ?thesis using lookup_none [OF is_cstr_of_bytes [OF assms(2)], of "filesys k" "mem k" dl] l by simp
qed

lemma names_agree:
  assumes "image_ok (filesys k)" and "agree kernel_page_addrs (mem k) (mem k')" and "filesys k' = filesys k"
  shows "has_dir k \<Longrightarrow> has_dir k'" and "no_file k s \<Longrightarrow> no_file k' s"
proof -
  note n = dentry_agree(2) [OF assms(1-3)]
  have lt: "of_nat i < dentry_num (filesys k)" if "i < unat (dentry_num (filesys k))" for i
  proof -
    have "unat (dentry_num (filesys k)) \<le> 63" using assms(1) by (simp add: image_ok_def)
    then show ?thesis using that unat_of_nat_u32 [of i] by (simp add: word_less_nat_alt)
  qed
  have d: "load_dentry (mem k') (dentry_addr (filesys k) (of_nat i)) = load_dentry (mem k) (dentry_addr (filesys k) (of_nat i))"
    if "i < unat (dentry_num (filesys k))" for i by (rule agree_dentry(2) [OF assms(1,2) lt [OF that]])
  show "no_file k s \<Longrightarrow> no_file k' s" using n by (simp add: no_file_def assms(3))
  assume "has_dir k"
  then obtain i where i: "i < unat (dentry_num (filesys k))" "dentry_name k i = chars ''.''" "\<forall>j<i. dentry_name k j \<noteq> chars ''.''"
    "file_type (load_dentry (mem k) (dentry_addr (filesys k) (of_nat i))) = 1" unfolding has_dir_def by blast
  then show "has_dir k'" unfolding has_dir_def assms(3) using n d assms(1) by (intro conjI exI [of _ i]) auto
qed

lemma unseen_keeps:
  assumes "unseen k k'"
  shows "has_dir k \<Longrightarrow> has_dir k'" and "ustr k a s \<Longrightarrow> ustr k' a s"
proof -
  have "user_step k k'" and m: "mem k' = mem k" using assms by (simp_all add: unseen_def)
  then have p: "phys k' b = phys k b" and f: "filesys k' = filesys k" for b using user_step_phys by (simp_all add: user_step_def)
  show "has_dir k \<Longrightarrow> has_dir k'" by (simp add: has_dir_def dentry_name_def m f)
  show "ustr k a s \<Longrightarrow> ustr k' a s" by (simp add: ustr_def m p)
qed

lemma open_lots_range:
  "open_range k 2 (2 + int n) \<Longrightarrow> n \<le> 6 \<Longrightarrow> has_dir k \<Longrightarrow> ustr k (lit e ''.'') [0x2E] \<Longrightarrow>
    \<exists>k'. open_lots e (Suc (6 - n)) (0, k) = Some (1, k') \<and> open_range k' 2 8 \<and> unseen k k'"
proof (induction "6 - n" arbitrary: n k)
  case 0
  then have n: "n = 6" by simp
  have ok: "kernel_ok k" using "0.prems"(1) by (simp add: open_range_def)
  have "ece391_open e (lit e ''.'') k = Some (-1, k)"
    using open_range_free [OF "0.prems"(1)] n by (intro open_fails [OF ok "0.prems"(4)]) simp
  then show ?case using "0.prems"(1) n ok by (intro exI [of _ k]) (simp add: unseen_def user_step_def agree_def)
next
  case (Suc m)
  have ok: "kernel_ok k" using Suc.prems(1) by (simp add: open_range_def)
  have nn: "n < 6" "6 - n = Suc (6 - Suc n)" using Suc.hyps(2) by simp_all
  have fd: "free_fd k 2 = 2 + int n" using open_range_free [OF Suc.prems(1)] nn by simp
  have u: "in_window (lit e ''.'') (length [0x2E :: byte] + 1)" "bytes_at (mem k) (phys k (lit e ''.'')) (length [0x2E :: byte] + 1) = [0x2E] @ [0]" "0 \<notin> set [0x2E :: byte]"
    using Suc.prems(4) unfolding ustr_def by blast+
  obtain d where d: "file_type d = 1 \<or> file_type d = 2" "file_type d = 1"
    "read_dentry_by_name (filesys k) (mem k) (Some (of_bytes ([0x2E] @ [0]))) (Some (dentry_stk (ker e))) = Some (0, Some d)"
    using has_dir_lookup [OF Suc.prems(3)] by auto
  have lt: "free_fd k 2 < 8" using fd nn(1) by simp
  obtain k1 where k1: "ece391_open e (lit e ''.'') k = Some (2 + int n, k1)" "user_step k k1" "same_files (2 + int n) k k1"
    "fd_entry k1 (2 + int n) = opened d" "display k1 = display k" "mem k1 = mem k"
    using call_open [OF ok lt d(1) u d(3)] fd by auto
  have ok1: "kernel_ok k1" using k1(2) by (simp add: user_step_def)
  have "open_range k1 2 (2 + int (Suc n))"
    using nn(1) k1(4) d(2) by (intro open_range_upd [OF Suc.prems(1) k1(3) ok1]) (auto simp: opened_def table_of_def)
  moreover have un: "unseen k k1" using k1 by (simp add: unseen_def)
  moreover have m: "m = 6 - Suc n" "Suc n \<le> 6" using Suc.hyps(2) nn(1) by simp_all
  ultimately obtain k' where "open_lots e (Suc (6 - Suc n)) (0, k1) = Some (1, k')" "open_range k' 2 8" "unseen k1 k'"
    using Suc.hyps(1) [OF m(1) _ m(2) unseen_keeps(1) [OF un Suc.prems(3)] unseen_keeps(2) [OF un Suc.prems(4)]] by blast
  then show ?case using k1(1) nn unseen_trans [OF un] by (intro exI [of _ k']) simp
qed

lemma close_range:
  "open_range k (8 - int n) 8 \<Longrightarrow> n \<le> 6 \<Longrightarrow> \<exists>k'. close_from e n (8 - int n) k = Some k' \<and> open_range k' 8 8 \<and> unseen k k'"
proof (induction n arbitrary: k)
  case 0
  then show ?case by (intro exI [of _ k]) (simp add: unseen_def user_step_def agree_def open_range_def)
next
  case (Suc n)
  let ?fd = "8 - int (Suc n)"
  have ok: "kernel_ok k" and fd: "2 \<le> ?fd" "?fd < 8" using Suc.prems by (simp_all add: open_range_def)
  have o: "flags (fd_entry k ?fd) \<noteq> 0" "op_ptr (fd_entry k ?fd) \<noteq> OP_NULL" using Suc.prems(1) fd unfolding open_range_def by auto
  obtain k1 where k1: "ece391_close e ?fd k = Some (0, k1)" "user_step k k1" "same_files ?fd k k1" "flags (fd_entry k1 ?fd) = 0"
    "display k1 = display k" "mem k1 = mem k"
    using call_close [OF ok fd o, of e] by blast
  have ok1: "kernel_ok k1" using k1(2) by (simp add: user_step_def)
  have "open_range k1 (8 - int n) 8" by (rule open_range_upd [OF Suc.prems(1) k1(3) ok1 fd]) (use k1(4) in auto)
  then obtain k' where "close_from e n (8 - int n) k1 = Some k'" "open_range k' 8 8" "unseen k1 k'" using Suc.IH [of k1] Suc.prems(2) by auto
  moreover have "unseen k k1" using k1 by (simp add: unseen_def)
  moreover have "close_from e (Suc n) ?fd k = close_from e n (8 - int n) k1" using k1(1) by simp
  ultimately show ?case using unseen_trans by (intro exI [of _ k']) metis
qed

section \<open>All tests pass\<close>

definition syserr_strings :: "string list" where
  "syserr_strings =
     [''.'', ''helloo'', ''shel'', '''', ''err_neg_fd: PASS\<newline>'', ''err_big_fd: PASS\<newline>'', ''err_open_lots: PASS\<newline>'',
      ''err_open: PASS\<newline>'', ''err_unopened: PASS\<newline>'', ''err_vidmap: PASS\<newline>'', ''err_stdin_out: PASS\<newline>'',
      ''err_syscall_num: PASS\<newline>'', ''\<newline>Overall Tests: PASS\<newline>'']"

text \<open>What the program finds: its strings in its memory, the directory in the image, and none of the
  three names.\<close>

definition test_env :: "user_env \<Rightarrow> kernel \<Rightarrow> bool" where
  "test_env e k \<longleftrightarrow> fresh k \<and> lits_ok e k (set syserr_strings) \<and> has_dir k
     \<and> no_file k ''helloo'' \<and> no_file k ''shel'' \<and> no_file k ''''"

lemma lits_sub: "lits_ok e k S \<Longrightarrow> T \<subseteq> S \<Longrightarrow> lits_ok e k T"
  by (auto simp: lits_ok_def)

lemma test_env_calm:
  assumes "test_env e k" and "calm k k'"
  shows "test_env e k'"
proof -
  have ok: "kernel_ok k" and im: "image_ok (filesys k)" using assms(1) by (simp_all add: test_env_def fresh_def has_dir_def)
  have u: "agree kernel_page_addrs (mem k) (mem k')" "filesys k' = filesys k" using assms(2) by (simp_all add: calm_def user_step_def)
  show ?thesis
    using assms calm_lits [OF assms(2) ok] names_agree [OF im u] by (simp add: test_env_def calm_def)
qed

lemma test_env_lit: "test_env e k \<Longrightarrow> m \<in> set syserr_strings \<Longrightarrow> ustr k (lit e m) (chars m)"
  by (simp add: test_env_def lits_ok_def)

lemma open_fails_name:
  assumes "test_env e k" and "m \<in> {''helloo'', ''shel'', ''''}"
  shows "ece391_open e (lit e m) k = Some (-1, k)"
proof -
  have "no_file k m" "0 \<notin> set (chars m)" "length m < 32" using assms by (auto simp: test_env_def chars_def)
  note d = no_file_lookup [OF this, of "dentry_stk (ker e)"]
  have u: "ustr k (lit e m) (chars m)" using assms(2) by (intro test_env_lit [OF assms(1)]) (auto simp: syserr_strings_def)
  have "kernel_ok k" using assms(1) by (simp add: test_env_def fresh_def)
  then show ?thesis by (rule open_fails [OF _ u disjI2 [OF d]])
qed

lemma err_open_passes:
  assumes "test_env e k"
  shows "passes (err_open e) ''err_open: PASS\<newline>'' k"
proof (rule passesI)
  show f: "fresh k" using assms by (simp add: test_env_def)
  have "lits_ok e k {''err_open: PASS\<newline>''}" using test_env_lit [OF assms] by (simp add: lits_ok_def syserr_strings_def)
  from verdict_ok [OF f this] show "err_open e k = Some (0, prints (chars ''err_open: PASS\<newline>'') k)"
    using open_fails_name [OF assms] by (simp add: err_open_def expect_fail_ok)
qed

lemma err_open_lots_passes:
  assumes "test_env e k"
  shows "passes (err_open_lots e) ''err_open_lots: PASS\<newline>'' k"
proof -
  let ?m = "''err_open_lots: PASS\<newline>''"
  have f: "fresh k" "has_dir k" and ok: "kernel_ok k" using assms by (simp_all add: test_env_def fresh_def)
  have r: "open_range k 2 (2 + int 0)" using f(1) by (simp add: open_range_def fresh_def)
  have s: "ustr k (lit e ''.'') [0x2E]" using test_env_lit [OF assms, of "''.''"] by (simp add: chars_def syserr_strings_def)
  obtain k1 where k1: "open_lots e 7 (0, k) = Some (1, k1)" "open_range k1 2 8" "unseen k k1"
    using open_lots_range [OF r _ f(2) s] by auto
  then have "open_range k1 (8 - int 6) 8" by simp
  from close_range [OF this, of e] obtain k2 where k2: "close_from e 6 2 k1 = Some k2" "open_range k2 8 8" "unseen k1 k2" by auto
  have u: "unseen k k2" by (rule unseen_trans [OF k1(3) k2(3)])
  have f2: "fresh k2" using k2(2) by (auto simp: open_range_def fresh_def)
  then have ok2: "kernel_ok k2" "stdout_ok k2" by (simp_all add: fresh_def)
  have "ustr k2 (lit e ?m) (chars ?m)" by (intro unseen_keeps(2) [OF u] test_env_lit [OF assms]) (simp add: syserr_strings_def)
  from fdputs_prints [OF ok2 this, of e] have "err_open_lots e k = Some (0, prints (chars ?m) k2)"
    using k1(1) k2(1) by (simp add: err_open_lots_def)
  moreover have "calm k k2" using u f2 by (simp add: calm_def unseen_def)
  then have "calm k (prints (chars ?m) k2)" by (rule calm_trans [OF _ prints_calm [OF f2]])
  moreover have "display (prints (chars ?m) k2) = display (prints (chars ?m) k)"
    using u by (intro display_prints kernel_console ok ok2) (simp add: unseen_def)
  ultimately show ?thesis unfolding passes_def by (intro exI conjI)
qed

lemma tests_pass:
  assumes "test_env e k"
  shows "passes (err_neg_fd e evs buf) ''err_neg_fd: PASS\<newline>'' k"
    and "passes (err_big_fd e evs buf) ''err_big_fd: PASS\<newline>'' k"
    and "passes (err_unopened e evss buf) ''err_unopened: PASS\<newline>'' k"
    and "passes (err_vidmap e) ''err_vidmap: PASS\<newline>'' k"
    and "passes (err_stdin_out e evs buf) ''err_stdin_out: PASS\<newline>'' k"
    and "passes (err_syscall_num e regs3) ''err_syscall_num: PASS\<newline>'' k"
proof -
  have f: "fresh k" and l: "lits_ok e k (set syserr_strings)" using assms by (simp_all add: test_env_def)
  show "passes (err_neg_fd e evs buf) ''err_neg_fd: PASS\<newline>'' k"
    "passes (err_big_fd e evs buf) ''err_big_fd: PASS\<newline>'' k"
    "passes (err_unopened e evss buf) ''err_unopened: PASS\<newline>'' k"
    "passes (err_vidmap e) ''err_vidmap: PASS\<newline>'' k"
    "passes (err_stdin_out e evs buf) ''err_stdin_out: PASS\<newline>'' k"
    "passes (err_syscall_num e regs3) ''err_syscall_num: PASS\<newline>'' k"
    by (rule simple_tests [OF f]; rule lits_sub [OF l]; simp add: syserr_strings_def)+
qed

lemmas all_tests_pass = tests_pass(1,2) err_open_lots_passes err_open_passes tests_pass(3-)

text \<open>A run from \<open>k0\<close> on which the messages \<open>ms\<close> have been displayed, and its next test.\<close>

definition after :: "user_env \<Rightarrow> kernel \<Rightarrow> string list \<Rightarrow> kernel \<Rightarrow> bool" where
  "after e k0 ms k \<longleftrightarrow> test_env e k \<and> kernel_ok k0 \<and> display k = display (prints (concat (map chars ms)) k0)"

lemma after_env: "after e k0 ms k \<Longrightarrow> test_env e k"
  by (simp add: after_def)

lemma after_prints:
  assumes "after e k0 ms k" and "calm k k'" and "display k' = display (prints (chars m) k)"
  shows "after e k0 (ms @ [m]) k'"
proof -
  have a: "test_env e k" "kernel_ok k0" "display k = display (prints (concat (map chars ms)) k0)" using assms(1) by (simp_all add: after_def)
  then have "kernel_ok k" "kernel_ok (prints (concat (map chars ms)) k0)"
    using prints_step(1) [OF a(2)] by (simp_all add: test_env_def fresh_def user_step_def)
  then have "display (prints (chars m) k) = display (prints (chars m) (prints (concat (map chars ms)) k0))"
    by (intro display_prints kernel_console a(3))
  then show ?thesis using assms(3) a(2) test_env_calm [OF a(1) assms(2)] by (simp add: after_def)
qed

lemma plus_chain:
  assumes "after e k0 ms k" and "passes test m k"
    and "\<And>k'. after e k0 (ms @ [m]) k' \<Longrightarrow> \<exists>k''. rest (0, k') = Some (0, k'') \<and> Q k''"
  shows "\<exists>k''. Option.bind (plus_test test (0, k)) rest = Some (0, k'') \<and> Q k''"
proof -
  obtain k' where k': "test k = Some (0, k')" "calm k k'" "display k' = display (prints (chars m) k)"
    using assms(2) by (auto simp: passes_def)
  from assms(3) [OF after_prints [OF assms(1) k'(2,3)]] show ?thesis using k'(1) by (simp add: plus_test_def)
qed

lemma overall:
  assumes "after e k0 ms k" and "m = ''\<newline>Overall Tests: PASS\<newline>''"
  shows "\<exists>k'. verdict e FAIL m (0, k) = Some (0, k') \<and> after e k0 (ms @ [m]) k'"
proof -
  have t: "test_env e k" by (rule after_env [OF assms(1)])
  then have f: "fresh k" by (simp add: test_env_def)
  have "lits_ok e k {m}" using test_env_lit [OF t] assms(2) by (simp add: lits_ok_def syserr_strings_def)
  from verdict_ok [OF f this] show ?thesis using after_prints [OF assms(1) prints_calm [OF f] refl] by (intro exI conjI)
qed

text \<open>C10: the kernel stands the tests of \<open>syserr\<close>: run by a program that has opened nothing on an
  image whose directory has an entry \<open>.\<close> and no entry named \<open>helloo\<close>, \<open>shel\<close> or with an empty name (it may
  have \<open>hello\<close> and \<open>shell\<close>), all eight tests (negative and large
  descriptors, too many open files, wrong names, unopened descriptors, bad pointers to \<open>vidmap\<close>,
  writing to standard input and reading from standard output, wrong system call numbers) return 0,
  the program displays their \<open>PASS\<close> lines and the overall one and nothing else, and every descriptor
  from 2 on is free again.\<close>

theorem syserr_all_passes:
  assumes "test_env e k"
  shows "\<exists>k'. syserr_all e evs regs3 buf k = Some (0, k') \<and> kernel_ok k' \<and> (\<forall>i. 2 \<le> i \<and> i < 8 \<longrightarrow> flags (fd_entry k' i) = 0)
    \<and> display k' = display (prints (concat (map chars
        [''err_neg_fd: PASS\<newline>'', ''err_big_fd: PASS\<newline>'', ''err_open_lots: PASS\<newline>'', ''err_open: PASS\<newline>'',
         ''err_unopened: PASS\<newline>'', ''err_vidmap: PASS\<newline>'', ''err_stdin_out: PASS\<newline>'', ''err_syscall_num: PASS\<newline>'',
         ''\<newline>Overall Tests: PASS\<newline>''])) k)"
proof -
  have z: "after e k [] k" using assms by (simp add: after_def test_env_def fresh_def)
  have "\<exists>k'. syserr_all e evs regs3 buf k = Some (0, k') \<and> after e k
     ((((((((([] @ [''err_neg_fd: PASS\<newline>'']) @ [''err_big_fd: PASS\<newline>'']) @ [''err_open_lots: PASS\<newline>'']) @ [''err_open: PASS\<newline>'']) @
       [''err_unopened: PASS\<newline>'']) @ [''err_vidmap: PASS\<newline>'']) @ [''err_stdin_out: PASS\<newline>'']) @ [''err_syscall_num: PASS\<newline>'']) @
       [''\<newline>Overall Tests: PASS\<newline>'']) k'"
    unfolding syserr_all_def
    by (rule plus_chain [OF z all_tests_pass(1) [OF assms]], (rule plus_chain, assumption, rule all_tests_pass, erule after_env)+,
      rule overall [OF _ refl], assumption)
  then show ?thesis unfolding append.simps after_def test_env_def fresh_def by blast
qed

text \<open>A first process with the strings of the program in its memory, on an image with the entries \<open>.\<close>, \<open>hello\<close> and \<open>shell\<close>.\<close>

definition demo_names_mem :: mem where
  "demo_names_mem = store_bytes (store_bytes demo_dir_mem 0x500080 (chars ''hello'')) 0x5000C0 (chars ''shell'')"

definition demo_tester :: kernel where
  "demo_tester = demo_running\<lparr>mem := strings_at syserr_strings demo_names_mem, filesys := demo_fs\<lparr>dentry_num := 3\<rparr>\<rparr>"

lemma demo_tester_lits: "lits_ok (strings_user syserr_strings) demo_tester (set syserr_strings)"
  unfolding lits_ok_def
proof
  fix m
  assume m: "m \<in> set syserr_strings"
  moreover have "length (chars m) < 63" "0 \<notin> set (chars m)" "length syserr_strings \<le> 64"
    using m by (auto simp: syserr_strings_def chars_def)
  ultimately show "ustr demo_tester (lit (strings_user syserr_strings) m) (chars m)"
    using demo_running_ok(2) by (intro strings_ustr) (simp_all add: demo_tester_def cur_stack_def)
qed

lemma demo_tester_names:
  "dentry_name demo_tester 0 = chars ''.''" "dentry_name demo_tester 1 = chars ''hello''" "dentry_name demo_tester 2 = chars ''shell''"
  "file_type (load_dentry (mem demo_tester) (dentry_addr (filesys demo_tester) 0)) = 1" "unat (dentry_num (filesys demo_tester)) = 3"
  "image_ok (filesys demo_tester)"
proof -
  have m: "mem demo_tester a = demo_names_mem a" if "0x500000 \<le> unat a" "unat a < 0x600000" for a
    using that by (simp add: demo_tester_def strings_at_def Let_def)
  have a: "dentry_addr (filesys demo_tester) (of_nat i) = 0x500040 + 64 * of_nat i" for i by (simp add: demo_tester_def demo_fs_def dentry_addr_def algebra_simps)
  have "demo_names_mem 0x500040 = 0x2E" "demo_names_mem 0x500041 = 0" by (simp_all add: demo_names_mem_def chars_def demo_dir_cells)
  then have "bytes_at (mem demo_tester) (dentry_addr (filesys demo_tester) (of_nat 0)) (Suc (length (chars ''.''))) = chars ''.'' @ [0]"
    unfolding a by (simp add: chars_def bytes_at_Suc m)
  then show "dentry_name demo_tester 0 = chars ''.''" by (rule stored_name) (simp_all add: chars_def)
  have "bytes_at (mem demo_tester) (dentry_addr (filesys demo_tester) (of_nat 1)) (Suc (length (chars ''hello''))) = chars ''hello'' @ [0]"
    unfolding a by (simp add: chars_def bytes_at_Suc m demo_names_mem_def demo_dir_mem_def demo_mem_def Let_def)
  then show "dentry_name demo_tester 1 = chars ''hello''" by (rule stored_name) (simp_all add: chars_def)
  have "bytes_at (mem demo_tester) (dentry_addr (filesys demo_tester) (of_nat 2)) (Suc (length (chars ''shell''))) = chars ''shell'' @ [0]"
    unfolding a by (simp add: chars_def bytes_at_Suc m demo_names_mem_def demo_dir_mem_def demo_mem_def Let_def)
  then show "dentry_name demo_tester 2 = chars ''shell''" by (rule stored_name) (simp_all add: chars_def)
  have "load32 (mem demo_tester) 0x500060 = 1"
    by (simp add: load32_def m demo_names_mem_def chars_def demo_dir_mem_def demo_mem_def Let_def)
  then show "file_type (load_dentry (mem demo_tester) (dentry_addr (filesys demo_tester) 0)) = 1"
    using a [of 0] by (simp add: load_dentry_def)
  show "unat (dentry_num (filesys demo_tester)) = 3" "image_ok (filesys demo_tester)"
    by (simp_all add: demo_tester_def demo_fs_def image_ok_def)
qed

lemma demo_tester_env: "test_env (strings_user syserr_strings) demo_tester"
proof -
  note n = demo_tester_names
  have f: "fd_entry demo_tester i = fd_entry demo_running i" for i by (simp add: demo_tester_def fd_entry_def)
  have "flags (fd_entry demo_tester i) = 0" if "2 \<le> i" "i < 8" for i
    using demo_running_files(2) [rule_format, of "nat i"] that by (simp add: f)
  moreover have "stdin_ok demo_tester" "stdout_ok demo_tester"
    using demo_running_files(2) [rule_format, of 0] demo_running_files(2) [rule_format, of 1] by (simp_all add: stdin_ok_def stdout_ok_def f)
  moreover have "kernel_ok demo_tester" unfolding demo_tester_def
    using demo_running_ok(1) by - (rule kernel_ok_frame [OF demo_running_ok(1)]; simp add: kernel_ok_def base_ok_def kbd_ok_def console_ok_def)
  ultimately have "fresh demo_tester" by (simp add: fresh_def)
  moreover have "has_dir demo_tester" unfolding has_dir_def using n by (intro conjI exI [of _ 0]) simp_all
  moreover have "no_file demo_tester m" if "m \<in> {''helloo'', ''shel'', ''''}" for m
  proof -
    have "(\<forall>i<3. P i) \<longleftrightarrow> P 0 \<and> P 1 \<and> P 2" for P :: "nat \<Rightarrow> bool" by (auto simp: less_Suc_eq numeral_3_eq_3 numeral_2_eq_2)
    then show ?thesis unfolding no_file_def n(5) using n(1-3) that by (auto simp: chars_def)
  qed
  ultimately show ?thesis using demo_tester_lits by (simp add: test_env_def)
qed

theorem syserr_all_passes_witness:
  "\<exists>k'. dentry_name demo_tester 1 = chars ''hello'' \<and> dentry_name demo_tester 2 = chars ''shell''
    \<and> syserr_all (strings_user syserr_strings) (\<lambda>_. []) (0, 0, 0) 0x08100000 demo_tester = Some (0, k') \<and> kernel_ok k'"
  using syserr_all_passes [OF demo_tester_env, of "\<lambda>_. []" "(0, 0, 0)" "0x08100000"] demo_tester_names(2,3) by blast

end
