(* ===== verification/User_Grep.thy ===== *)
theory User_Grep
  imports User_Text "HOL-Library.Sublist"
begin

text \<open>
  The program \<open>grep\<close> (\<open>ece391grep.c\<close>) with its line buffer, and the proof that \<open>do_one_file\<close> prints
  the lines of a file that contain the pattern.
\<close>

section \<open>do_one_file\<close>

partial_function (option) find_line_end :: "kernel \<Rightarrow> addr \<Rightarrow> int \<Rightarrow> int \<Rightarrow> int option" where
  "find_line_end k data last' line_end =
     (if line_end < last'
      then Option.bind (uread k (data + word_of_int line_end)) (\<lambda>c.
           if c \<noteq> 0x0A then find_line_end k data last' (line_end + 1) else Some line_end)
      else Some line_end)"

text \<open>The search of a line; \<open>s[0] == data[check]\<close> compares a signed with an unsigned character.\<close>

partial_function (option) check_line ::
  "user_env \<Rightarrow> addr \<Rightarrow> u32 \<Rightarrow> addr \<Rightarrow> addr \<Rightarrow> int \<Rightarrow> int \<Rightarrow> int \<Rightarrow> kernel \<Rightarrow> kernel option" where
  "check_line e s s_len fname data line_start line_end check k =
     (if check < line_end
      then do { c0 \<leftarrow> uread k s;
                c \<leftarrow> uread k (data + word_of_int check);
                r \<leftarrow> (if sint c0 = uint c then ece391_strncmp k (data + word_of_int check) s s_len else Some 1);
                if sint c0 = uint c \<and> r = 0
                then do { k \<leftarrow> ece391_fdputs e 1 fname k;
                          k \<leftarrow> ece391_fdputs e 1 (lit e '':'') k;
                          k \<leftarrow> ece391_fdputs e 1 (data + word_of_int line_start) k;
                          ece391_fdputs e 1 (lit e ''\<newline>'') k }
                else check_line e s s_len fname data line_start line_end (check + 1) k }
      else Some k)"

text \<open>The lines in the buffer; the result is the new value of \<open>last\<close>.\<close>

partial_function (option) grep_lines ::
  "user_env \<Rightarrow> addr \<Rightarrow> u32 \<Rightarrow> addr \<Rightarrow> addr \<Rightarrow> int \<Rightarrow> int \<Rightarrow> int \<Rightarrow> kernel \<Rightarrow> (int \<times> kernel) option" where
  "grep_lines e s s_len fname data cnt last' line_start k =
     do { line_end \<leftarrow> find_line_end k data last' line_start;
          c \<leftarrow> uread k (data + word_of_int line_end);
          if c \<noteq> 0x0A \<and> cnt \<noteq> 0 \<and> line_start \<noteq> 0
          then do { k \<leftarrow> uwrite (data + word_of_int line_end) 0 k;
                    k \<leftarrow> ece391_strcpy data (data + word_of_int line_start) k;
                    Some (last' - line_start, k) }
          else do { k \<leftarrow> uwrite (data + word_of_int line_end) 0 k;
                    k \<leftarrow> check_line e s s_len fname data line_start line_end line_start k;
                    if line_end + 1 \<ge> last' then Some (0, k)
                    else grep_lines e s s_len fname data cnt last' (line_end + 1) k } }"

partial_function (option) grep_loop ::
  "user_env \<Rightarrow> (nat \<Rightarrow> event list) \<Rightarrow> nat \<Rightarrow> addr \<Rightarrow> u32 \<Rightarrow> addr \<Rightarrow> addr \<Rightarrow> int \<Rightarrow> int \<Rightarrow> kernel \<Rightarrow> (int \<times> kernel) option" where
  "grep_loop e evs n s s_len fname data fd last' k =
     do { (cnt, k) \<leftarrow> ece391_read e (evs n) fd (data + word_of_int last') (1024 - last') k;
          if cnt = -1
          then do { k \<leftarrow> ece391_fdputs e 1 (lit e ''file read failed\<newline>'') k; Some (-1, k) }
          else do {
            (last', k) \<leftarrow> grep_lines e s s_len fname data cnt (last' + cnt) 0 k;
            if cnt = 0
            then do { (r, k) \<leftarrow> ece391_close e fd k;
                      if r = -1 then do { k \<leftarrow> ece391_fdputs e 1 (lit e ''file close failed\<newline>'') k; Some (-1, k) }
                      else Some (0, k) }
            else grep_loop e evs (Suc n) s s_len fname data fd last' k } }"

definition do_one_file ::
  "user_env \<Rightarrow> (nat \<Rightarrow> event list) \<Rightarrow> addr \<Rightarrow> addr \<Rightarrow> addr \<Rightarrow> kernel \<Rightarrow> (int \<times> kernel) option" where
  "do_one_file e evs data s fname k =
     do { s_len \<leftarrow> ece391_strlen k s;
          (fd, k) \<leftarrow> ece391_open e fname k;
          if fd = -1 then do { k \<leftarrow> ece391_fdputs e 1 (lit e ''file open failed\<newline>'') k; Some (-1, k) }
          else grep_loop e evs 0 s s_len fname data fd 0 k }"

section \<open>main\<close>

partial_function (option) grep_files ::
  "user_env \<Rightarrow> (nat \<Rightarrow> event list) \<Rightarrow> (nat \<Rightarrow> nat \<Rightarrow> event list) \<Rightarrow> nat \<Rightarrow> int \<Rightarrow> addr \<Rightarrow> addr \<Rightarrow> addr \<Rightarrow> kernel \<Rightarrow> (int \<times> kernel) option" where
  "grep_files e evs fevs n fd buf search data k =
     do { (cnt, k) \<leftarrow> ece391_read e (evs n) fd buf (SBUFSIZE - 1) k;
          if cnt = 0 then Some (0, k)
          else if cnt = -1
          then do { k \<leftarrow> ece391_fdputs e 1 (lit e ''directory entry read failed\<newline>'') k; Some (3, k) }
          else do { c \<leftarrow> uread k buf;
                    if c = 0x2E then grep_files e evs fevs (Suc n) fd buf search data k
                    else do { k \<leftarrow> uwrite (buf + word_of_int cnt) 0 k;
                              (r, k) \<leftarrow> do_one_file e (fevs n) data search buf k;
                              if r \<noteq> 0 then Some (3, k) else grep_files e evs fevs (Suc n) fd buf search data k } } }"

definition grep_main ::
  "user_env \<Rightarrow> (nat \<Rightarrow> event list) \<Rightarrow> (nat \<Rightarrow> nat \<Rightarrow> event list) \<Rightarrow> addr \<Rightarrow> addr \<Rightarrow> addr \<Rightarrow> kernel \<Rightarrow> (int \<times> kernel) option" where
  "grep_main e evs fevs buf search data k =
     do { (r, k) \<leftarrow> ece391_getargs e search 1024 k;
          if r \<noteq> 0 then do { k \<leftarrow> ece391_fdputs e 1 (lit e ''could not read argument\<newline>'') k; Some (3, k) }
          else do { (fd, k) \<leftarrow> ece391_open e (lit e ''.'') k;
                    if fd = -1 then do { k \<leftarrow> ece391_fdputs e 1 (lit e ''directory open failed\<newline>'') k; Some (2, k) }
                    else grep_files e evs fevs 0 fd buf search data k } }"

section \<open>Strings beside the line buffer\<close>

text \<open>The strings \<open>A\<close> of the program, apart from the line buffer, and standard output.\<close>

definition beside :: "(addr \<times> byte list) set \<Rightarrow> addr \<Rightarrow> kernel \<Rightarrow> bool" where
  "beside A data k \<longleftrightarrow> kernel_ok k \<and> stdout_ok k \<and> in_window data 1025
     \<and> (\<forall>(a, s)\<in>A. ustr k a s \<and> apart a (length s + 1) data 1025)"

lemma beside_prints: "beside A data k \<Longrightarrow> beside A data (prints cs k)"
proof -
  assume b: "beside A data k"
  then have ok: "kernel_ok k" by (simp add: beside_def)
  note st = prints_step [where cs = cs, OF ok]
  have "stdout_ok (prints cs k)" using b same_files_entry [OF st(2) [of "-1"], of 1] by (simp add: beside_def stdout_ok_def)
  then show "beside A data (prints cs k)" using b st(1) prints_keeps(1) [OF ok] by (auto simp: beside_def user_step_def)
qed

lemma beside_step:
  assumes "beside A data k" and "user_step k k'" and "same_files fd k k'" and "fd \<noteq> 1"
    and "\<forall>x. (\<forall>i<1025. x \<noteq> phys k data + of_nat i) \<longrightarrow> mem k' x = mem k x"
  shows "beside A data k'"
proof -
  have b: "kernel_ok k" "stdout_ok k" "in_window data 1025" "\<And>a s. (a, s) \<in> A \<Longrightarrow> ustr k a s \<and> apart a (length s + 1) data 1025"
    using assms(1) by (auto simp: beside_def)
  have "ustr k' a s" if "(a, s) \<in> A" for a s
  proof (rule ustr_frame [OF b(1) assms(2)])
    show u: "ustr k a s" using b(4) that by simp
    fix i
    assume i: "i \<le> length s"
    have w: "in_window a (length s + 1)" "apart a (length s + 1) data 1025" "i < length s + 1"
      using u b(4) [OF \<open>(a, s) \<in> A\<close>] i by (simp_all add: ustr_def)
    have "phys k a + of_nat i \<noteq> phys k data + of_nat j" if "j < 1025" for j by (rule apart_phys [OF b(1) w(1) b(3) w(2,3) that])
    then show "mem k' (phys k a + of_nat i) = mem k (phys k a + of_nat i)" using assms(5) by blast
  qed
  moreover have "stdout_ok k'" using b(2) same_files_entry [OF assms(3), of 1] assms(4) by (simp add: stdout_ok_def)
  ultimately show ?thesis using b(3,4) assms(2) by (auto simp: beside_def user_step_def)
qed

lemma beside_edited: "beside A data k \<Longrightarrow> edited data 1025 k k' \<Longrightarrow> beside A data k'"
  using beside_step [where fd = "-1"] unfolding edited_def by simp

lemma beside_puts: "beside A data k \<Longrightarrow> ustr k a s \<Longrightarrow> ece391_fdputs e 1 a k = Some (prints s k)"
  by (rule fdputs_prints) (simp_all add: beside_def)

lemma beside_str: "beside A data k \<Longrightarrow> (a, s) \<in> A \<Longrightarrow> ustr k a s"
  by (auto simp: beside_def)

section \<open>Searching a line\<close>

lemma ustr_drop: "kernel_ok k \<Longrightarrow> ustr k a s \<Longrightarrow> j \<le> length s \<Longrightarrow> ustr k (a + of_nat j) (drop j s)"
proof (induction s arbitrary: a j)
  case (Cons c s)
  show ?case
  proof (cases j)
    case (Suc i)
    have "ustr k (a + 1) s" using ustr_head(2) [OF Cons.prems(1,2)] by simp
    from Cons.IH [OF Cons.prems(1) this, of i] show ?thesis using Suc Cons.prems(3) by (simp add: add.assoc)
  qed (use Cons.prems in simp)
qed simp

lemma prefix_drop_iff: "take (length S) (drop j l) = S \<longleftrightarrow> prefix S (drop j l)"
  by (metis append_eq_conv_conj prefix_def)

lemma sublist_iff_drop: "sublist S l \<longleftrightarrow> (\<exists>j\<le>length l. prefix S (drop j l))"
proof
  assume "sublist S l"
  then obtain ps ss where "l = ps @ S @ ss" by (auto simp: sublist_def)
  then show "\<exists>j\<le>length l. prefix S (drop j l)" by (intro exI [of _ "length ps"]) (simp add: prefix_def)
next
  assume "\<exists>j\<le>length l. prefix S (drop j l)"
  then obtain j ss where "drop j l = S @ ss" by (auto simp: prefix_def)
  then have "l = take j l @ S @ ss" by (metis append_take_drop_id)
  then show "sublist S l" by (auto simp: sublist_def)
qed

text \<open>The printed form of a matching line.\<close>

definition grep_line :: "byte list \<Rightarrow> byte list \<Rightarrow> byte list" where
  "grep_line F l = F @ [0x3A] @ l @ [0x0A]"

definition pattern_ok :: "byte list \<Rightarrow> bool" where
  "pattern_ok S \<longleftrightarrow> S \<noteq> [] \<and> hd S < 0x80 \<and> length S < 4294967296"

lemma first_char: "hd S < (0x80 :: byte) \<Longrightarrow> sint (hd S) = uint c \<longleftrightarrow> hd S = c"
proof -
  assume "hd S < 0x80"
  then have "uint (hd S) < 2 ^ 7" by (simp add: word_less_def)
  moreover have "- (2 ^ 7) \<le> uint (hd S)" by (rule order_trans [OF _ uint_ge_0]) simp
  ultimately have "signed_take_bit 7 (uint (hd S)) = uint (hd S)" by (intro signed_take_bit_int_eq_self)
  then have "sint (hd S) = uint (hd S)" by (simp add: sint_uint)
  then show ?thesis by (simp add: word_uint_eq_iff)
qed

lemma compare_at:
  assumes "kernel_ok k" and "ustr k s S" and "pattern_ok S" and "ustr k a l" and "j < length l"
  shows "uread k s = Some (hd S)" and "uread k (a + of_nat j) = Some (l ! j)"
    and "\<exists>r. ece391_strncmp k (a + of_nat j) s (of_nat (length S)) = Some r \<and> (r = 0 \<longleftrightarrow> prefix S (drop j l))"
proof -
  obtain c S' where S: "S = c # S'" using assms(3) by (cases S) (simp_all add: pattern_ok_def)
  show "uread k s = Some (hd S)" using ustr_head(2) [OF assms(1), of s c S'] assms(2) S by simp
  have d: "ustr k (a + of_nat j) (drop j l)" using ustr_drop [OF assms(1,4)] assms(5) by simp
  show "uread k (a + of_nat j) = Some (l ! j)" using ustr_head(2) [OF assms(1), of "a + of_nat j" "l ! j"] d assms(5)
    by (simp add: Cons_nth_drop_Suc [symmetric])
  have n: "length S = Suc (length S')" "length S' < 4294967295" using S assms(3) by (simp_all add: pattern_ok_def)
  have "(of_nat (length S) :: u32) \<noteq> 0" using unat_of_nat_u32 [of "length S"] assms(3) n(1) by (metis nat.distinct(1) pattern_ok_def unat_0)
  then show "\<exists>r. ece391_strncmp k (a + of_nat j) s (of_nat (length S)) = Some r \<and> (r = 0 \<longleftrightarrow> prefix S (drop j l))"
    using strncmp_ustr [OF assms(1) d assms(2) n(2)] prefix_drop_iff [of S j l] unfolding ece391_strncmp_def n(1) [symmetric] by simp
qed

lemma check_line_found:
  assumes "beside {(s, S), (f, F), (lit e '':'', [0x3A]), (lit e ''\<newline>'', [0x0A])} data k" and "ustr k (data + of_nat st) l"
  shows "do { k \<leftarrow> ece391_fdputs e 1 f k; k \<leftarrow> ece391_fdputs e 1 (lit e '':'') k;
     k \<leftarrow> ece391_fdputs e 1 (data + of_nat st) k; ece391_fdputs e 1 (lit e ''\<newline>'') k } = Some (prints (grep_line F l) k)"
proof -
  note b0 = assms(1)
  note b1 = beside_prints [OF b0, of F]
  note b2 = beside_prints [OF b1, of "[0x3A]"]
  note b3 = beside_prints [OF b2, of l]
  have u: "ustr (prints [0x3A] (prints F k)) (data + of_nat st) l"
    using prints_keeps(1) assms(2) b0 b1 by (simp add: beside_def)
  have "prints (grep_line F l) k = prints [0x0A] (prints l (prints [0x3A] (prints F k)))" by (simp only: grep_line_def prints_simps)
  then show ?thesis
    using beside_puts [OF b0 beside_str [OF b0, of f F]] beside_puts [OF b1 beside_str [OF b1, of "lit e '':''" "[0x3A]"]]
      beside_puts [OF b2 u] beside_puts [OF b3 beside_str [OF b3, of "lit e ''\<newline>''" "[0x0A]"]]
    by simp
qed

lemma check_line_spec:
  assumes "beside {(s, S), (f, F), (lit e '':'', [0x3A]), (lit e ''\<newline>'', [0x0A])} data k" and "pattern_ok S"
    and "ustr k (data + of_nat st) l" and "st + length l < 2147483648"
  shows "i \<le> length l \<Longrightarrow> check_line e s (of_nat (length S)) f data (int st) (int (st + length l)) (int (st + i)) k
    = Some (prints (if \<exists>j\<ge>i. j \<le> length l \<and> prefix S (drop j l) then grep_line F l else []) k)"
proof (induction rule: inc_induct)
  case base
  have "\<not> prefix S []" using assms(2) by (simp add: pattern_ok_def)
  then show ?case by (subst check_line.simps) (auto dest: le_antisym)
next
  case (step i)
  have ok: "kernel_ok k" "ustr k s S" using assms(1) by (auto simp: beside_def)
  note c = compare_at [OF ok assms(2,3) step(2)]
  obtain r where r: "ece391_strncmp k (data + of_nat st + of_nat i) s (of_nat (length S)) = Some r" "r = 0 \<longleftrightarrow> prefix S (drop i l)"
    using c(3) by blast
  have h: "sint (hd S) = uint (l ! i) \<longleftrightarrow> hd S = l ! i" using assms(2) first_char by (simp add: pattern_ok_def)
  have p: "prefix S (drop i l) \<Longrightarrow> hd S = l ! i"
    using assms(2) step(2) by (cases S) (auto simp: pattern_ok_def Cons_nth_drop_Suc [symmetric])
  have a: "data + word_of_int (int (st + i)) = data + of_nat st + of_nat i" "data + word_of_int (int st) = data + of_nat st" by simp_all
  show ?case
  proof (cases "prefix S (drop i l)")
    case True
    then have "check_line e s (of_nat (length S)) f data (int st) (int (st + length l)) (int (st + i)) k = Some (prints (grep_line F l) k)"
      using c(1,2) r h p [OF True] step(2) check_line_found [OF assms(1,3)] unfolding check_line.simps [of e s _ f data "int st" _ "int (st + i)"] a by simp
    then show ?thesis using True step(2) by auto
  next
    case False
    then have "check_line e s (of_nat (length S)) f data (int st) (int (st + length l)) (int (st + i)) k
        = check_line e s (of_nat (length S)) f data (int st) (int (st + length l)) (int (st + Suc i)) k"
      using c(1,2) r h step(2) unfolding check_line.simps [of e s _ f data "int st" _ "int (st + i)"] a by (simp add: add.commute)
    moreover have "(\<exists>j\<ge>i. j \<le> length l \<and> prefix S (drop j l)) = (\<exists>j\<ge>Suc i. j \<le> length l \<and> prefix S (drop j l))"
      using False by (metis Suc_leD le_antisym not_less_eq_eq)
    ultimately show ?thesis using step.IH by simp
  qed
qed

section \<open>The lines of the buffer\<close>

lemma ubuf_drop:
  assumes "kernel_ok k" and "ubuf k a (p @ q)" and "q \<noteq> []"
  shows "ubuf k (a + of_nat (length p)) q"
proof -
  have n: "in_window a (length (p @ q))" "length p < length (p @ q)" using assms(2,3) by (simp_all add: ubuf_def)
  note w = window_at(3,4) [OF assms(1) n]
  have "bytes_at (mem k) (phys k a + of_nat (length p)) (length q) = q"
  proof (rule nth_equalityI)
    fix i
    assume "i < length (bytes_at (mem k) (phys k a + of_nat (length p)) (length q))"
    then have i: "i < length q" by simp
    then show "bytes_at (mem k) (phys k a + of_nat (length p)) (length q) ! i = q ! i"
      using ubuf_nth [OF assms(2), of "length p + i"] by (simp add: nth_append add.assoc)
  qed simp
  then show ?thesis using w by (simp add: ubuf_def)
qed

definition grep_out :: "byte list \<Rightarrow> byte list \<Rightarrow> byte list list \<Rightarrow> byte list" where
  "grep_out S F ls = concat (map (\<lambda>l. if sublist S l then grep_line F l else []) ls)"

definition text_of :: "byte list list \<Rightarrow> byte list" where
  "text_of ls = concat (map (\<lambda>l. l @ [0x0A]) ls)"

lemma find_line_end_eq:
  assumes "kernel_ok k" and "ubuf k data (pre @ l @ x # post)" and "0x0A \<notin> set l"
    and "x = 0x0A \<and> length pre + length l < n \<or> n = length pre + length l"
  shows "i \<le> length l \<Longrightarrow> find_line_end k data (int n) (int (length pre + i)) = Some (int (length pre + length l))"
proof (induction rule: inc_induct)
  case base
  have "uread k (data + of_nat (length pre + length l)) = Some x" using ubuf_read [OF assms(1,2), of "length pre + length l"] by (simp add: nth_append)
  moreover have "data + word_of_int (int (length pre + length l)) = data + of_nat (length pre + length l)" by simp
  moreover have "x = 0x0A \<and> int (length pre + length l) < int n \<or> \<not> int (length pre + length l) < int n" using assms(4) by auto
  ultimately show ?case by (subst find_line_end.simps) (auto simp only: Option.bind.simps if_True simp_thms if_False)
next
  case (step i)
  have "uread k (data + of_nat (length pre + i)) = Some (l ! i)" using ubuf_read [OF assms(1,2), of "length pre + i"] step(2) by (simp add: nth_append)
  moreover have "l ! i \<noteq> 0x0A" using assms(3) step(2) nth_mem by metis
  moreover have "int (length pre + i) < int n" "int (length pre + i) + 1 = int (length pre + Suc i)"
    "data + word_of_int (int (length pre + i)) = data + of_nat (length pre + i)" using assms(4) step(2) by auto
  ultimately show ?case using step.IH by (subst find_line_end.simps) (simp only: Option.bind.simps if_True not_False_eq_True)
qed

text \<open>What a part of the program has done: it has printed \<open>cs\<close>, and its strings are where they were.\<close>

definition did :: "(addr \<times> byte list) set \<Rightarrow> addr \<Rightarrow> int \<Rightarrow> byte list \<Rightarrow> kernel \<Rightarrow> kernel \<Rightarrow> bool" where
  "did A data fd cs k k' \<longleftrightarrow> user_step k k' \<and> same_files fd k k' \<and> beside A data k' \<and> display k' = display (prints cs k)"

lemma did_trans:
  assumes "kernel_ok k" and "did A data fd cs k k1" and "did A data fd' cs' k1 k2" and "fd' = fd \<or> fd' = -1"
  shows "did A data fd (cs @ cs') k k2"
proof -
  have d: "user_step k k1" "same_files fd k k1" "beside A data k1" "display k1 = display (prints cs k)"
    "user_step k1 k2" "same_files fd' k1 k2" "beside A data k2" "display k2 = display (prints cs' k1)" using assms(2,3) by (simp_all add: did_def)
  have "console_ok (prints cs k)" using prints_step(1) [OF assms(1), of cs] kernel_console unfolding user_step_def by blast
  moreover have "console_ok k1" using d(3) kernel_console by (simp add: beside_def)
  ultimately have "display (prints cs' k1) = display (prints cs' (prints cs k))" using d(4) by (intro display_prints)
  moreover have "same_files fd k k2" using d(2,6) assms(4) unfolding same_files_def by auto
  ultimately show ?thesis using user_step_trans [OF d(1,5)] d(7,8) by (simp add: did_def)
qed

lemma did_edited: "beside A data k \<Longrightarrow> edited data 1025 k k' \<Longrightarrow> did A data (-1) [] k k'"
  using beside_edited by (simp add: did_def edited_def)

text \<open>A line that is complete, because of its newline, or because it is taken as such at the end of the bytes read.\<close>

lemma grep_lines_step:
  assumes "beside {(s, S), (f, F), (lit e '':'', [0x3A]), (lit e ''\<newline>'', [0x0A])} data k" and "pattern_ok S"
    and "ubuf k data (pre @ l @ x # post)" and "length (pre @ l @ x # post) = 1025" and "0x0A \<notin> set l" and "0 \<notin> set l"
    and "x = 0x0A \<and> length pre + length l < n \<or> n = length pre + length l" and "x = 0x0A \<or> cnt = 0 \<or> pre = []"
  shows "\<exists>k'. grep_lines e s (of_nat (length S)) f data cnt (int n) (int (length pre)) k
      = (if int (length (pre @ l @ [0])) \<ge> int n then Some (0, k')
         else grep_lines e s (of_nat (length S)) f data cnt (int n) (int (length (pre @ l @ [0]))) k')
    \<and> did {(s, S), (f, F), (lit e '':'', [0x3A]), (lit e ''\<newline>'', [0x0A])} data (-1) (if sublist S l then grep_line F l else []) k k'
    \<and> ubuf k' data ((pre @ l @ [0]) @ post)"
proof -
  let ?A = "{(s, S), (f, F), (lit e '':'', [0x3A]), (lit e ''\<newline>'', [0x0A])}" and ?m = "length pre + length l"
  let ?out = "if sublist S l then grep_line F l else []"
  have ok: "kernel_ok k" using assms(1) by (simp add: beside_def)
  have le: "find_line_end k data (int n) (int (length pre)) = Some (int ?m)" using find_line_end_eq [OF ok assms(3,5,7), of 0] by simp
  have i: "?m < length (pre @ l @ x # post)" by simp
  have a: "data + word_of_int (int ?m) = data + of_nat ?m" "data + word_of_int (int (length pre)) = data + of_nat (length pre)" by simp_all
  have c: "uread k (data + of_nat ?m) = Some x" using ubuf_read [OF ok assms(3) i] by (simp add: nth_append)
  have g: "(x \<noteq> 0x0A \<and> cnt \<noteq> 0 \<and> int (length pre) \<noteq> 0) = False" using assms(8) by auto
  have upd: "(pre @ l @ x # post)[?m := 0] = pre @ l @ 0 # post" by (simp add: list_update_append)
  obtain k1 where k1: "uwrite (data + of_nat ?m) 0 k = Some k1" "edited data 1025 k k1" "ubuf k1 data (pre @ l @ 0 # post)"
    using ubuf_write [OF ok assms(3) i, of 0] unfolding upd assms(4) by blast
  note d1 = did_edited [OF assms(1) k1(2)]
  then have b1: "beside ?A data k1" by (simp add: did_def)
  have ok1: "kernel_ok k1" by (rule edited_ok [OF k1(2)])
  have u: "ustr k1 (data + of_nat (length pre)) l"
    by (rule ubuf_string [OF ubuf_drop [OF ok1 k1(3)] assms(6)]) simp
  have lt: "length pre + length l < 2147483648" using assms(4) by simp
  have sub: "sublist S l \<longleftrightarrow> (\<exists>j\<ge>0. j \<le> length l \<and> prefix S (drop j l))" using sublist_iff_drop [of S l] by auto
  have ck: "check_line e s (of_nat (length S)) f data (int (length pre)) (int ?m) (int (length pre)) k1 = Some (prints ?out k1)"
    using check_line_spec [OF b1 assms(2) u lt, of 0] unfolding sub by simp
  let ?k = "prints ?out k1"
  have nx: "int (length (pre @ l @ [0 :: byte])) = int ?m + 1" by simp
  have "grep_lines e s (of_nat (length S)) f data cnt (int n) (int (length pre)) k
      = (if int ?m + 1 \<ge> int n then Some (0, ?k) else grep_lines e s (of_nat (length S)) f data cnt (int n) (int ?m + 1) ?k)"
    using le c k1(1) ck g by (subst grep_lines.simps) (simp only: a Option.bind.simps if_False)
  moreover have "did ?A data (-1) ?out k1 ?k" using prints_step [where cs = ?out, OF ok1] beside_prints [OF b1] by (simp add: did_def)
  then have "did ?A data (-1) ([] @ ?out) k ?k" using did_trans [OF ok d1] by blast
  moreover have "ubuf ?k data ((pre @ l @ [0]) @ post)" using prints_keeps(2) [OF ok1 k1(3)] by simp
  ultimately show ?thesis unfolding nx by (intro exI [of _ ?k]) simp
qed

text \<open>The copy of a string to a lower address of the same buffer.\<close>

lemma strcpy_down:
  assumes "kernel_ok k" and "ubuf k a (p @ q @ w @ 0 # r)" and "q \<noteq> []" and "0 \<notin> set w" and "length (p @ q @ w @ 0 # r) = N"
  shows "\<exists>k'. ece391_strcpy (a + of_nat (length p)) (a + of_nat (length (p @ q))) k = Some k' \<and> edited a N k k'
    \<and> ubuf k' a (p @ w @ 0 # drop (length w + 1) (q @ w @ 0 # r))"
  using assms
proof (induction w arbitrary: k p q)
  case Nil
  let ?xs = "p @ q @ 0 # r"
  have rd: "uread k (a + of_nat (length (p @ q))) = Some 0" using ubuf_read [OF Nil(1), of a ?xs "length (p @ q)"] Nil(2) by (simp add: nth_append)
  obtain k1 where k1: "uwrite (a + of_nat (length p)) 0 k = Some k1" "edited a (length ?xs) k k1" "ubuf k1 a (?xs[length p := 0])"
    using ubuf_write [OF Nil(1), of a ?xs "length p" 0] Nil(2) by auto
  have "?xs[length p := 0] = p @ 0 # drop 1 (q @ 0 # r)" using Nil(3) by (cases q) (simp_all add: list_update_append)
  then show ?case using k1 rd Nil(5) by (subst ece391_strcpy.simps) simp
next
  case (Cons c w)
  let ?xs = "p @ q @ (c # w) @ 0 # r"
  obtain c1 q1 where q: "q = c1 # q1" using Cons.prems(3) by (cases q) auto
  have rd: "uread k (a + of_nat (length (p @ q))) = Some c" using ubuf_read [OF Cons.prems(1,2), of "length (p @ q)"] by (simp add: nth_append)
  obtain k1 where k1: "uwrite (a + of_nat (length p)) c k = Some k1" "edited a (length ?xs) k k1" "ubuf k1 a (?xs[length p := c])"
    using ubuf_write [OF Cons.prems(1,2), of "length p" c] q by auto
  have xs: "?xs[length p := c] = (p @ [c]) @ (q1 @ [c]) @ w @ 0 # r" by (simp add: q list_update_append)
  have len: "length ((p @ [c]) @ (q1 @ [c]) @ w @ 0 # r) = N" using Cons.prems(5) q by simp
  obtain k' where k': "ece391_strcpy (a + of_nat (length (p @ [c]))) (a + of_nat (length ((p @ [c]) @ (q1 @ [c])))) k1 = Some k'" "edited a N k1 k'"
    "ubuf k' a ((p @ [c]) @ w @ 0 # drop (length w + 1) ((q1 @ [c]) @ w @ 0 # r))"
    using Cons.IH [OF edited_ok [OF k1(2)] k1(3) [unfolded xs] _ _ len] Cons.prems(4) by auto
  have ad: "a + of_nat (length p) + 1 = a + of_nat (length (p @ [c]))" "a + of_nat (length (p @ q)) + 1 = a + of_nat (length ((p @ [c]) @ (q1 @ [c])))"
    by (simp_all add: q algebra_simps)
  have "ece391_strcpy (a + of_nat (length p)) (a + of_nat (length (p @ q))) k = Some k'"
    unfolding ece391_strcpy.simps [of "a + of_nat (length p)"] rd k1(1) Option.bind.simps ad k'(1) using Cons.prems(4) by simp
  moreover have "edited a N k k'" using edited_trans k1(2) k'(2) Cons.prems(5) by metis
  moreover have "(p @ [c]) @ w @ 0 # drop (length w + 1) ((q1 @ [c]) @ w @ 0 # r) = p @ (c # w) @ 0 # drop (length (c # w) + 1) (q @ (c # w) @ 0 # r)"
    by (simp add: q)
  ultimately show ?case using k'(3) by simp
qed

text \<open>A line that may go on in the next block is moved to the front of the buffer.\<close>

lemma grep_lines_carry:
  assumes "beside {(s, S), (f, F), (lit e '':'', [0x3A]), (lit e ''\<newline>'', [0x0A])} data k"
    and "ubuf k data (pre @ l @ x # post)" and "length (pre @ l @ x # post) = 1025" and "0x0A \<notin> set l" and "0 \<notin> set l"
    and "n = length pre + length l" and "x \<noteq> 0x0A" and "cnt \<noteq> 0" and "pre \<noteq> []"
  shows "\<exists>k'. grep_lines e s m f data cnt (int n) (int (length pre)) k = Some (int (length l), k')
    \<and> did {(s, S), (f, F), (lit e '':'', [0x3A]), (lit e ''\<newline>'', [0x0A])} data (-1) [] k k'
    \<and> ubuf k' data (l @ 0 # drop (length l + 1) (pre @ l @ 0 # post))"
proof -
  let ?m = "length pre + length l"
  have ok: "kernel_ok k" using assms(1) by (simp add: beside_def)
  have le: "find_line_end k data (int n) (int (length pre)) = Some (int ?m)" using find_line_end_eq [OF ok assms(2,4), of n 0] assms(6) by simp
  have i: "?m < length (pre @ l @ x # post)" by simp
  have a: "data + word_of_int (int ?m) = data + of_nat ?m" "data + word_of_int (int (length pre)) = data + of_nat (length pre)" by simp_all
  have c: "uread k (data + of_nat ?m) = Some x" using ubuf_read [OF ok assms(2) i] by (simp add: nth_append)
  have g: "(x \<noteq> 0x0A \<and> cnt \<noteq> 0 \<and> int (length pre) \<noteq> 0) = True" using assms(7-9) by simp
  have upd: "(pre @ l @ x # post)[?m := 0] = pre @ l @ 0 # post" by (simp add: list_update_append)
  obtain k1 where k1: "uwrite (data + of_nat ?m) 0 k = Some k1" "edited data 1025 k k1" "ubuf k1 data (pre @ l @ 0 # post)"
    using ubuf_write [OF ok assms(2) i, of 0] unfolding upd assms(3) by blast
  have len: "length ([] @ pre @ l @ 0 # post) = 1025" using assms(3) by simp
  obtain k2 where k2: "ece391_strcpy data (data + of_nat (length pre)) k1 = Some k2" "edited data 1025 k1 k2"
    "ubuf k2 data (l @ 0 # drop (length l + 1) (pre @ l @ 0 # post))"
    using strcpy_down [OF edited_ok [OF k1(2)], of data "[]" pre l post, OF _ assms(9,5) len] k1(3) by auto
  have "int n - int (length pre) = int (length l)" using assms(6) by simp
  then have "grep_lines e s m f data cnt (int n) (int (length pre)) k = Some (int (length l), k2)"
    using le c k1(1) k2(1) g by (subst grep_lines.simps) (simp only: a Option.bind.simps if_True)
  then show ?thesis using did_edited [OF assms(1) edited_trans [OF k1(2) k2(2)]] k2(3) by blast
qed

definition plain_lines :: "byte list list \<Rightarrow> bool" where
  "plain_lines ls \<longleftrightarrow> (\<forall>l\<in>set ls. 0x0A \<notin> set l \<and> 0 \<notin> set l)"

lemma text_of_simps [simp]:
  "text_of [] = []" "text_of (l # ls) = l @ 0x0A # text_of ls" "text_of (ls @ ls') = text_of ls @ text_of ls'" "text_of ls = [] \<longleftrightarrow> ls = []"
  by (simp_all add: text_of_def)

lemma grep_out_simps [simp]:
  "grep_out S F [] = []" "grep_out S F (l # ls) = (if sublist S l then grep_line F l else []) @ grep_out S F ls"
  "grep_out S F (ls @ ls') = grep_out S F ls @ grep_out S F ls'"
  by (simp_all add: grep_out_def)

text \<open>All lines in the buffer, and the bytes \<open>Q\<close> after the last newline.\<close>

lemma grep_buffer:
  assumes "pattern_ok S" and "cnt \<noteq> 0" and "0x0A \<notin> set Q" and "0 \<notin> set Q"
  shows "plain_lines ls \<Longrightarrow> ls \<noteq> [] \<or> Q \<noteq> [] \<Longrightarrow> beside {(s, S), (f, F), (lit e '':'', [0x3A]), (lit e ''\<newline>'', [0x0A])} data k \<Longrightarrow>
    ubuf k data (pre @ text_of ls @ Q @ x # post) \<Longrightarrow> length (pre @ text_of ls @ Q @ x # post) = 1025 \<Longrightarrow> last (x # post) \<noteq> 0x0A \<Longrightarrow>
    n = length (pre @ text_of ls @ Q) \<Longrightarrow>
    \<exists>k' r ys. grep_lines e s (of_nat (length S)) f data cnt (int n) (int (length pre)) k = Some (int r, k')
      \<and> ubuf k' data ys \<and> length ys = 1025 \<and> last ys \<noteq> 0x0A \<and> take r ys = (if r = 0 then [] else Q) \<and> (r \<noteq> 0 \<longrightarrow> r = length Q \<and> pre @ text_of ls \<noteq> [])
      \<and> did {(s, S), (f, F), (lit e '':'', [0x3A]), (lit e ''\<newline>'', [0x0A])} data (-1) (grep_out S F (ls @ (if r = 0 then [Q] else []))) k k'
      \<and> (r = 0 \<longrightarrow> Q = [] \<or> x = 0x0A \<or> pre @ text_of ls = [])"
proof (induction ls arbitrary: pre k)
  case Nil
  let ?A = "{(s, S), (f, F), (lit e '':'', [0x3A]), (lit e ''\<newline>'', [0x0A])}"
  have Q: "Q \<noteq> []" using Nil(2) by simp
  have u: "ubuf k data (pre @ Q @ x # post)" and len: "length (pre @ Q @ x # post) = 1025" and n: "n = length pre + length Q"
    using Nil by simp_all
  show ?case
  proof (cases "x = 0x0A \<or> pre = []")
    case True
    have "x = 0x0A \<or> cnt = 0 \<or> pre = []" using True by auto
    from grep_lines_step [OF Nil(3) assms(1) u len assms(3,4) disjI2 [OF n] this] n obtain k' where
      k': "grep_lines e s (of_nat (length S)) f data cnt (int n) (int (length pre)) k = Some (0, k')"
      "did ?A data (-1) (if sublist S Q then grep_line F Q else []) k k'" "ubuf k' data ((pre @ Q @ [0]) @ post)" by auto
    have "last ((pre @ Q @ [0]) @ post) \<noteq> 0x0A" using Nil(6) by (cases post) simp_all
    then show ?thesis using k' len True by (intro exI [of _ k'] exI [of _ 0] exI [of _ "(pre @ Q @ [0]) @ post"]) simp
  next
    case False
    from grep_lines_carry [OF Nil(3) u len assms(3,4) n _ assms(2), of "of_nat (length S)"] False obtain k' where
      k': "grep_lines e s (of_nat (length S)) f data cnt (int n) (int (length pre)) k = Some (int (length Q), k')"
      "did ?A data (-1) [] k k'" "ubuf k' data (Q @ 0 # drop (length Q + 1) (pre @ Q @ 0 # post))" by auto
    let ?ys = "Q @ 0 # drop (length Q + 1) (pre @ Q @ 0 # post)"
    have ly: "length ?ys = 1025" using len False by (cases pre) simp_all
    have "last ?ys \<noteq> 0x0A"
    proof (cases "drop (length Q + 1) (pre @ Q @ 0 # post) = []")
      case True
      then show ?thesis by simp
    next
      case ne: False
      then have lt: "length Q + 1 < length (pre @ Q @ 0 # post)" by (simp only: drop_eq_Nil not_le)
      have "last ?ys = last (drop (length Q + 1) (pre @ Q @ 0 # post))" using ne by (simp only: last_append last.simps if_False list.distinct)
      also have "\<dots> = last (pre @ Q @ 0 # post)" by (rule last_drop [OF lt])
      also have "\<dots> \<noteq> 0x0A" using Nil(6) by (cases post) simp_all
      finally show ?thesis .
    qed
    then show ?thesis using k' ly Q False by (intro exI [of _ k'] exI [of _ "length Q"] exI [of _ ?ys]) simp
  qed
next
  case (Cons l ls)
  let ?A = "{(s, S), (f, F), (lit e '':'', [0x3A]), (lit e ''\<newline>'', [0x0A])}" and ?pre = "pre @ l @ [0]"
  let ?out = "if sublist S l then grep_line F l else []"
  have t: "pre @ text_of (l # ls) @ Q @ x # post = pre @ l @ 0x0A # (text_of ls @ Q @ x # post)" by simp
  have p: "0x0A \<notin> set l" "0 \<notin> set l" "plain_lines ls" using Cons.prems(1) by (simp_all add: plain_lines_def)
  have lt: "0x0A = (0x0A :: byte) \<and> length pre + length l < n \<or> n = length pre + length l" using Cons.prems(7) by simp
  obtain k1 where k1: "grep_lines e s (of_nat (length S)) f data cnt (int n) (int (length pre)) k
      = (if int (length ?pre) \<ge> int n then Some (0, k1) else grep_lines e s (of_nat (length S)) f data cnt (int n) (int (length ?pre)) k1)"
    "did ?A data (-1) ?out k k1" "ubuf k1 data (?pre @ text_of ls @ Q @ x # post)"
    using grep_lines_step [OF Cons.prems(3) assms(1) Cons.prems(4) [unfolded t] Cons.prems(5) [unfolded t] p(1,2) lt, of cnt] by blast
  have ok: "kernel_ok k" and b1: "beside ?A data k1" using Cons.prems(3) k1(2) by (simp_all add: beside_def did_def)
  have n: "int (length ?pre) \<ge> int n \<longleftrightarrow> ls = [] \<and> Q = []" using Cons.prems(7) by (cases ls) auto
  have len: "length (?pre @ text_of ls @ Q @ x # post) = 1025" "n = length (?pre @ text_of ls @ Q)" using Cons.prems(5,7) by simp_all
  show ?case
  proof (cases "ls = [] \<and> Q = []")
    case True
    have "last (?pre @ text_of ls @ Q @ x # post) \<noteq> 0x0A" using Cons.prems(6) by simp
    moreover have "\<not> sublist S []" using assms(1) by (simp add: pattern_ok_def)
    ultimately show ?thesis using k1 n True len(1) by (intro exI [of _ k1] exI [of _ 0] exI [of _ "?pre @ text_of ls @ Q @ x # post"]) simp
  next
    case False
    then have "ls \<noteq> [] \<or> Q \<noteq> []" by auto
    from Cons.IH [OF p(3) this b1 k1(3) len(1) Cons.prems(6) len(2)] obtain k' r ys where
      k': "grep_lines e s (of_nat (length S)) f data cnt (int n) (int (length ?pre)) k1 = Some (int r, k')"
      "ubuf k' data ys" "length ys = 1025" "last ys \<noteq> 0x0A" "take r ys = (if r = 0 then [] else Q)" "r \<noteq> 0 \<longrightarrow> r = length Q"
      "did ?A data (-1) (grep_out S F (ls @ (if r = 0 then [Q] else []))) k1 k'" "r = 0 \<longrightarrow> Q = [] \<or> x = 0x0A" by auto
    have "did ?A data (-1) (?out @ grep_out S F (ls @ (if r = 0 then [Q] else []))) k k'" using did_trans [OF ok k1(2) k'(7)] by simp
    then have "did ?A data (-1) (grep_out S F ((l # ls) @ (if r = 0 then [Q] else []))) k k'" by simp
    moreover have "grep_lines e s (of_nat (length S)) f data cnt (int n) (int (length pre)) k = Some (int r, k')" using k1(1) k'(1) n False by simp
    ultimately show ?thesis using k'(2-6,8) by (intro exI [of _ k'] exI [of _ r] exI [of _ ys]) auto
  qed
qed

section \<open>A file\<close>

text \<open>A beginning of a text is some of its lines and a beginning of the next.\<close>

lemma text_split:
  "text_of ls @ Q = B @ R \<Longrightarrow> plain_lines ls \<Longrightarrow> 0x0A \<notin> set Q \<Longrightarrow>
    \<exists>ls1 ls2 P. ls = ls1 @ ls2 \<and> B = text_of ls1 @ P \<and> 0x0A \<notin> set P \<and> P @ R = text_of ls2 @ Q"
proof (induction ls arbitrary: B)
  case Nil
  then show ?case by (intro exI [of _ "[]"] exI [of _ B]) auto
next
  case (Cons l ls)
  have "(l @ [0x0A]) @ (text_of ls @ Q) = B @ R" using Cons.prems(1) by simp
  then obtain us where us: "l @ [0x0A] = B @ us \<and> us @ text_of ls @ Q = R \<or> (l @ [0x0A]) @ us = B \<and> text_of ls @ Q = us @ R"
    unfolding append_eq_append_conv2 by blast
  have p: "0x0A \<notin> set l" "plain_lines ls" using Cons.prems(2) by (simp_all add: plain_lines_def)
  show ?case
  proof (cases "\<exists>vs. (l @ [0x0A]) @ vs = B \<and> text_of ls @ Q = vs @ R")
    case True
    then obtain vs where v: "(l @ [0x0A]) @ vs = B" "text_of ls @ Q = vs @ R" by blast
    from Cons.IH [OF v(2) p(2) Cons.prems(3)] obtain ls1 ls2 P where "ls = ls1 @ ls2" "vs = text_of ls1 @ P" "0x0A \<notin> set P" "P @ R = text_of ls2 @ Q" by blast
    then show ?thesis using v(1) by (intro exI [of _ "l # ls1"] exI [of _ ls2] exI [of _ P]) simp
  next
    case False
    then have u: "l @ [0x0A] = B @ us" "us @ text_of ls @ Q = R" using us by auto
    have "us \<noteq> []" using False u by auto
    then obtain vs where "us = vs @ [0x0A]" using u(1) by (cases us rule: rev_cases) auto
    then have "l = B @ vs" using u(1) by simp
    then show ?thesis using u(2) p(1) Cons.prems(1) by (intro exI [of _ "[]"] exI [of _ "l # ls"] exI [of _ B]) simp
  qed
qed

text \<open>A read behind the \<open>P\<close> bytes that are already in the buffer.\<close>

lemma grep_read:
  assumes "beside A data k" and "2 \<le> fd" and "fd \<le> 7" and "readable k ino L" and "pos \<le> L"
    and "fd_entry k fd = \<lparr>op_ptr = regular_file_op_table, inode_idx = ino, file_position = of_nat pos, flags = 1\<rparr>"
    and "ubuf k data (P @ post)" and "length (P @ post) = 1025" and "post \<noteq> []" and "m = min (1024 - length P) (L - pos)"
  shows "\<exists>k1 x post'. ece391_read e ev fd (data + of_nat (length P)) (1024 - int (length P)) k = Some (int m, k1) \<and> did A data fd [] k k1
    \<and> fd_entry k1 fd = (fd_entry k fd)\<lparr>file_position := of_nat (pos + m)\<rparr>
    \<and> ubuf k1 data (P @ take m (drop pos (contents k ino L)) @ x # post') \<and> length (P @ take m (drop pos (contents k ino L)) @ x # post') = 1025
    \<and> last (x # post') = last post"
proof -
  let ?p = "length P" and ?C = "take m (drop pos (contents k ino L))" and ?pd = "phys k data"
  have ok: "kernel_ok k" and w: "in_window data 1025" using assms(1) by (simp_all add: beside_def)
  have p: "?p \<le> 1024" "?p < 1025" using assms(8,9) by (cases post; simp)+
  note wp = window_at(3,4) [OF ok w p(2)]
  have wn: "in_window (data + of_nat ?p) (1024 - ?p)" by (rule in_window_mono [OF wp(1)]) simp
  have r0: "ino < inode_num (filesys k)" "L = unat (inode_length (filesys k) (mem k) ino)" "L < 1023 * 4096"
    "\<And>i. i \<le> L \<Longrightarrow> block_ok (filesys k) (mem k) ino i" using assms(4) by (simp_all add: readable_def)
  have r: "L + (1024 - ?p) < 4294967296" "1024 - ?p < 2147483648" using r0(3) by linarith+
  obtain k1 where k1: "ece391_read e ev fd (data + of_nat ?p) (int (1024 - ?p)) k = Some (int m, k1)" "user_step k k1" "same_files fd k k1"
    "fd_entry k1 fd = (fd_entry k fd)\<lparr>file_position := of_nat (pos + m)\<rparr>" "display k1 = display k"
    "bytes_at (mem k1) (phys k (data + of_nat ?p)) m = map (file_byte (filesys k) (mem k) ino) [pos..<pos + m]"
    "\<forall>x. (\<forall>i<1024 - ?p. x \<noteq> phys k (data + of_nat ?p) + of_nat i) \<longrightarrow> mem k1 x = mem k x"
    using read_regular_frame [OF ok assms(2,3,6) _ wn r(2) r0(1,2) assms(5) r(1) r0(4) assms(10), of e ev] by auto
  have "pos + m \<le> L" using assms(5,10) by simp
  then have C: "?C = map (file_byte (filesys k) (mem k) ino) [pos..<pos + m]" "length ?C = m"
    using \<open>pos + m \<le> L\<close> by (simp_all add: contents_def drop_map take_map take_upt)
  have pd: "phys k1 data = ?pd" by (rule user_step_phys [OF k1(2)])
  have keep: "mem k1 (?pd + of_nat j) = (P @ post) ! j" if "j < ?p \<or> j = 1024" for j
  proof -
    have j: "j < 1025" using that p by auto
    have "?pd + of_nat j \<noteq> ?pd + of_nat ?p + of_nat i" if i: "i < 1024 - ?p" for i
    proof
      assume "?pd + of_nat j = ?pd + of_nat ?p + of_nat i"
      then have "(of_nat j :: addr) = of_nat (?p + i)" by (simp add: add.assoc)
      then have "j = ?p + i" using of_nat_u32_inj [of j "?p + i"] j i by simp
      then show False using \<open>j < ?p \<or> j = 1024\<close> i by simp
    qed
    then have "mem k1 (?pd + of_nat j) = mem k (?pd + of_nat j)" using k1(7) unfolding wp(2) by blast
    then show ?thesis using ubuf_nth [OF assms(7), of j] j assms(8) by simp
  qed
  let ?ys = "bytes_at (mem k1) ?pd 1025"
  have "1025 = ?p + (m + (1025 - ?p - m))" using assms(10) p by simp
  then have "?ys = bytes_at (mem k1) ?pd ?p @ bytes_at (mem k1) (?pd + of_nat ?p) m @ bytes_at (mem k1) (?pd + of_nat ?p + of_nat m) (1025 - ?p - m)"
    by (metis bytes_at_add)
  moreover have "bytes_at (mem k1) ?pd ?p = P" using keep by (intro nth_equalityI) (simp_all add: nth_append)
  moreover have "bytes_at (mem k1) (?pd + of_nat ?p) m = ?C" using k1(6) unfolding wp(2) C(1) .
  moreover obtain x post' where xp: "bytes_at (mem k1) (?pd + of_nat ?p + of_nat m) (1025 - ?p - m) = x # post'"
    using assms(10) p by (cases "bytes_at (mem k1) (?pd + of_nat ?p + of_nat m) (1025 - ?p - m)") (auto simp: bytes_at_def)
  ultimately have ys: "?ys = P @ ?C @ x # post'" by simp
  have "last ?ys = ?ys ! 1024" by (simp add: last_conv_nth bytes_at_def)
  also have "\<dots> = (P @ post) ! 1024" using keep [of 1024] by simp
  also have "\<dots> = last post" using assms(8,9) by (metis One_nat_def add_diff_cancel_right' append_is_Nil_conv last_appendR last_conv_nth numeral_plus_one semiring_norm(5) semiring_norm(8))
  finally have "last (x # post') = last post" unfolding ys by simp
  moreover have "length (P @ ?C @ x # post') = 1025" unfolding ys [symmetric] by simp
  moreover have "ubuf k1 data (P @ ?C @ x # post')" unfolding ys [symmetric] using w pd by (simp add: ubuf_def)
  moreover have "beside A data k1"
  proof (rule beside_step [OF assms(1) k1(2,3)])
    show "fd \<noteq> 1" using assms(2) by simp
    have "x = phys k (data + of_nat ?p) + of_nat i \<Longrightarrow> i < 1024 - ?p \<Longrightarrow> \<exists>j<1025. x = ?pd + of_nat j" for x i
      unfolding wp(2) by (intro exI [of _ "?p + i"]) (simp add: add.assoc)
    then show "\<forall>x. (\<forall>i<1025. x \<noteq> ?pd + of_nat i) \<longrightarrow> mem k1 x = mem k x" using k1(7) by blast
  qed
  moreover have "int (1024 - ?p) = 1024 - int ?p" using p by simp
  ultimately show ?thesis using k1(1-5) by (intro exI [of _ k1] exI [of _ x] exI [of _ post']) (simp add: did_def)
qed

text \<open>The last read finds the end of the file: what is still in the buffer is the last line.\<close>

lemma grep_loop_end:
  assumes "beside {(s, S), (f, F), (lit e '':'', [0x3A]), (lit e ''\<newline>'', [0x0A])} data k" and "pattern_ok S" and "2 \<le> fd" and "fd \<le> 7"
    and "readable k ino L" and "fd_entry k fd = \<lparr>op_ptr = regular_file_op_table, inode_idx = ino, file_position = of_nat L, flags = 1\<rparr>"
    and "ubuf k data (P @ post)" and "length (P @ post) = 1025" and "post \<noteq> []" and "0x0A \<notin> set P" and "0 \<notin> set P"
  shows "\<exists>k'. grep_loop e evs n s (of_nat (length S)) f data fd (int (length P)) k = Some (0, k') \<and> user_step k k' \<and> same_files fd k k'
    \<and> flags (fd_entry k' fd) = 0 \<and> display k' = display (prints (grep_out S F [P]) k)"
proof -
  let ?A = "{(s, S), (f, F), (lit e '':'', [0x3A]), (lit e ''\<newline>'', [0x0A])}"
  have ok: "kernel_ok k" using assms(1) by (simp add: beside_def)
  obtain k1 x post' where k1: "ece391_read e (evs n) fd (data + of_nat (length P)) (1024 - int (length P)) k = Some (0, k1)" "did ?A data fd [] k k1"
    "fd_entry k1 fd = fd_entry k fd" "ubuf k1 data (P @ x # post')" "length (P @ x # post') = 1025"
    using grep_read [OF assms(1,3,4,5) order_refl assms(6-9), of 0 e "evs n"] assms(6) by auto
  have b1: "beside ?A data k1" using k1(2) by (simp add: did_def)
  obtain k2 where k2: "grep_lines e s (of_nat (length S)) f data 0 (int (length P)) 0 k1 = Some (0, k2)" "did ?A data (-1) (grep_out S F [P]) k1 k2"
    using grep_lines_step [OF b1 assms(2), of "[]" P x post' "length P" 0, OF _ _ assms(10,11)] k1(4,5) by auto
  have d2: "did ?A data fd (grep_out S F [P]) k k2" using did_trans [OF ok k1(2) k2(2)] by simp
  have e2: "fd_entry k2 fd = fd_entry k fd" using same_files_entry [of "-1" k1 k2 fd] k2(2) assms(3) k1(3) by (simp add: did_def)
  have ok2: "kernel_ok k2" using d2 by (simp add: did_def beside_def)
  obtain k3 where k3: "ece391_close e fd k2 = Some (0, k3)" "user_step k2 k3" "same_files fd k2 k3" "flags (fd_entry k3 fd) = 0" "display k3 = display k2"
    using call_close [OF ok2 assms(3), of e] assms(4,6) e2 by auto
  have "grep_loop e evs n s (of_nat (length S)) f data fd (int (length P)) k = Some (0, k3)"
    using k1(1) k2(1) k3(1) by (subst grep_loop.simps) simp
  then show ?thesis using d2 k3(2-5) user_step_trans [of k k2 k3] same_files_trans [of fd k k2 k3] by (intro exI [of _ k3]) (simp add: did_def)
qed

text \<open>A line that is taken as complete at the end of the bytes read is the last of the file: lines are shorter
  than the buffer, and the byte behind the buffer is no newline.\<close>

lemma grep_last_line:
  assumes "m = min (1024 - length P) (L - pos)" and "pos \<le> L" and "0x0A \<notin> set P'" and "P' @ drop (pos + m) T = text_of ls2 @ Q"
    and "length P + m = length ([] @ text_of ls1 @ P')" and "length ([] @ text_of ls1 @ P' @ x # post) = 1025" and "last (x # post) \<noteq> 0x0A"
    and "x = 0x0A \<or> ls1 = []" and "length Q \<le> 1023" and "\<forall>l\<in>set ls2. length l \<le> 1023" and "length T = L"
  shows "pos + m = L \<and> ls2 = [] \<and> P' = Q"
proof (cases "length P + m = 1024")
  case True
  then have "post = []" using assms(5,6) by (cases post) simp_all
  then have P': "length P' = 1024" using assms(5,7,8) True by auto
  show ?thesis
  proof (cases ls2)
    case Nil
    then show ?thesis using arg_cong [OF assms(4), of length] P' assms(9) by simp
  next
    case (Cons l ls)
    have "(P' @ drop (pos + m) T) ! length l = 0x0A" using assms(4) Cons by simp
    moreover have "length l < length P'" using assms(10) Cons P' by simp
    ultimately have "0x0A \<in> set P'" by (metis nth_append nth_mem)
    then show ?thesis using assms(3) by simp
  qed
next
  case False
  have "length P + m \<le> 1024" using assms(5,6) by simp
  then have e: "pos + m = L" using False assms(1,2) by (auto simp: min_def split: if_splits)
  then have "P' = text_of ls2 @ Q" using assms(4,11) by simp
  moreover from this have "ls2 = []" using assms(3) by (cases ls2) simp_all
  ultimately show ?thesis using e by simp
qed

text \<open>The file, block by block: \<open>P\<close> is the beginning of a line that was carried over.\<close>

lemma grep_loop_file:
  assumes "pattern_ok S" and "2 \<le> fd" and "fd \<le> 7" and "0x0A \<notin> set Q" and "0 \<notin> set Q" and "length Q \<le> 1023"
  shows "beside {(s, S), (f, F), (lit e '':'', [0x3A]), (lit e ''\<newline>'', [0x0A])} data k \<Longrightarrow> readable k ino L \<Longrightarrow> pos \<le> L \<Longrightarrow>
    fd_entry k fd = \<lparr>op_ptr = regular_file_op_table, inode_idx = ino, file_position = of_nat pos, flags = 1\<rparr> \<Longrightarrow>
    ubuf k data (P @ post) \<Longrightarrow> length (P @ post) = 1025 \<Longrightarrow> length P \<le> 1023 \<Longrightarrow> last post \<noteq> 0x0A \<Longrightarrow> 0x0A \<notin> set P \<Longrightarrow>
    P @ drop pos (contents k ino L) = text_of ls @ Q \<Longrightarrow> plain_lines ls \<Longrightarrow> \<forall>l\<in>set ls. length l \<le> 1023 \<Longrightarrow>
    \<exists>k'. grep_loop e evs n s (of_nat (length S)) f data fd (int (length P)) k = Some (0, k') \<and> user_step k k' \<and> same_files fd k k'
      \<and> flags (fd_entry k' fd) = 0 \<and> display k' = display (prints (grep_out S F (ls @ [Q])) k)"
proof (induction "L - pos" arbitrary: k pos P post ls n rule: less_induct)
  case less
  let ?A = "{(s, S), (f, F), (lit e '':'', [0x3A]), (lit e ''\<newline>'', [0x0A])}"
  note pr = less.prems
  have ok: "kernel_ok k" using pr(1) by (simp add: beside_def)
  have ne: "post \<noteq> []" using pr(6,7) by auto
  have "0 \<notin> set (text_of ls @ Q)" using pr(11) assms(5) by (auto simp: plain_lines_def text_of_def)
  then have nz: "0 \<notin> set (P @ drop pos (contents k ino L))" unfolding pr(10) .
  show ?case
  proof (cases "pos = L")
    case True
    then have "P = text_of ls @ Q" using pr(10) by (simp add: contents_def)
    then have "ls = []" "P = Q" using pr(9) by (cases ls; simp)+
    then show ?thesis using grep_loop_end [OF pr(1) assms(1-3) pr(2) _ pr(5,6) ne pr(9), of evs n] pr(4) nz True by simp
  next
    case False
    define m where "m = min (1024 - length P) (L - pos)"
    have m: "0 < m" "pos + m \<le> L" "L - (pos + m) < L - pos" using False pr(3,7) by (auto simp: m_def)
    let ?T = "contents k ino L"
    let ?C = "take m (drop pos ?T)"
    obtain k1 x post' where k1: "ece391_read e (evs n) fd (data + of_nat (length P)) (1024 - int (length P)) k = Some (int m, k1)" "did ?A data fd [] k k1"
      "fd_entry k1 fd = (fd_entry k fd)\<lparr>file_position := of_nat (pos + m)\<rparr>"
      "ubuf k1 data (P @ ?C @ x # post')" "length (P @ ?C @ x # post') = 1025" "last (x # post') = last post"
      using grep_read [OF pr(1) assms(2,3) pr(2,3,4,5,6) ne m_def, of e "evs n"] by blast
    have b1: "beside ?A data k1" using k1(2) by (simp add: did_def)
    have "text_of ls @ Q = (P @ ?C) @ drop (pos + m) ?T" using pr(10) append_take_drop_id [of m "drop pos ?T"] by (simp add: add.commute)
    from text_split [OF this pr(11) assms(4)] obtain ls1 ls2 P' where
      sp: "ls = ls1 @ ls2" "P @ ?C = text_of ls1 @ P'" "0x0A \<notin> set P'" "P' @ drop (pos + m) ?T = text_of ls2 @ Q" by blast
    have lC: "length ?C = m" using m(2) by (simp add: contents_def)
    have n: "length P + m = length ([] @ text_of ls1 @ P')" using arg_cong [OF sp(2), of length] lC by simp
    have "set P' \<subseteq> set (P @ ?C)" unfolding sp(2) by simp
    moreover have "set (P @ ?C) \<subseteq> set (P @ drop pos ?T)" using set_take_subset [of m "drop pos ?T"] by auto
    ultimately have nzP: "0 \<notin> set P'" using nz by blast
    have pl: "plain_lines ls1" "plain_lines ls2" "\<forall>l\<in>set ls2. length l \<le> 1023" using pr(11,12) sp(1) by (auto simp: plain_lines_def)
    have ne1: "ls1 \<noteq> [] \<or> P' \<noteq> []" using n m(1) by auto
    have u1: "ubuf k1 data ([] @ text_of ls1 @ P' @ x # post')" "length ([] @ text_of ls1 @ P' @ x # post') = 1025"
      using k1(4,5) unfolding append_assoc [symmetric] sp(2) by simp_all
    have p1: "length P + m \<le> 1024" using pr(7) by (simp add: m_def)
    have m0: "int m \<noteq> 0" using m(1) by simp
    have lx: "last (x # post') \<noteq> 0x0A" using k1(6) pr(8) by simp
    from grep_buffer [OF assms(1) m0 sp(3) nzP pl(1) ne1 b1 u1 lx n] obtain k2 r ys where
      k2: "grep_lines e s (of_nat (length S)) f data (int m) (int (length P + m)) 0 k1 = Some (int r, k2)"
      "ubuf k2 data ys" "length ys = 1025" "last ys \<noteq> 0x0A" "take r ys = (if r = 0 then [] else P')" "r \<noteq> 0 \<longrightarrow> r = length P' \<and> ls1 \<noteq> []"
      "did ?A data (-1) (grep_out S F (ls1 @ (if r = 0 then [P'] else []))) k1 k2" "r = 0 \<longrightarrow> P' = [] \<or> x = 0x0A \<or> ls1 = []" by auto
    have d2: "did ?A data fd (grep_out S F (ls1 @ (if r = 0 then [P'] else []))) k k2" using did_trans [OF ok k1(2) k2(7)] by simp
    then have b2: "beside ?A data k2" and u2: "user_step k k2" by (simp_all add: did_def)
    have ok2: "kernel_ok k2" using b2 by (simp add: beside_def)
    have e2: "fd_entry k2 fd = \<lparr>op_ptr = regular_file_op_table, inode_idx = ino, file_position = of_nat (pos + m), flags = 1\<rparr>"
      using same_files_entry [of "-1" k1 k2 fd] k2(7) assms(2) k1(3) pr(4) by (simp add: did_def)
    note rd = readable_step [OF pr(2) u2]
    have T: "contents k2 ino L = ?T" unfolding contents_def using rd(2) by (intro map_cong) simp_all
    have out: "grep_out S F [[]] = []" using assms(1) by (simp add: pattern_ok_def)
    show ?thesis
    proof (cases "r = 0 \<and> P' \<noteq> []")
      case True
      have e: "pos + m = L \<and> ls2 = [] \<and> P' = Q"
        by (rule grep_last_line [OF m_def pr(3) sp(3,4) n u1(2) lx _ assms(6) pl(3)]) (use True k2(8) in \<open>auto simp: contents_def\<close>)
      have yne: "ys \<noteq> []" using k2(3) by auto
      obtain k' where k': "grep_loop e evs (Suc n) s (of_nat (length S)) f data fd (int (length [])) k2 = Some (0, k')" "user_step k2 k'" "same_files fd k2 k'"
        "flags (fd_entry k' fd) = 0" "display k' = display (prints (grep_out S F [[]]) k2)"
        using grep_loop_end [OF b2 assms(1-3) rd(1), of "[]" ys evs "Suc n"] e2 e k2(2,3) yne by auto
      have "grep_loop e evs n s (of_nat (length S)) f data fd (int (length P)) k = Some (0, k')"
        using k1(1) k2(1) k'(1) m0 True by (subst grep_loop.simps) simp
      moreover have "display k' = display (prints (grep_out S F (ls @ [Q])) k)" using k'(5) out d2 True e sp(1) by (simp add: did_def)
      ultimately show ?thesis
        using user_step_trans [OF u2 k'(2)] same_files_trans [of fd k k2 k'] d2 k'(3,4) by (intro exI [of _ k']) (simp add: did_def)
    next
      case False
      define P2 where "P2 = (if r = 0 then [] else P')"
      have r: "r = length P2" "P2 = P'" using False k2(6) by (auto simp: P2_def)
      have "P2 @ drop r ys = ys" using k2(5) append_take_drop_id [of r ys] by (simp add: P2_def)
      then have ys: "ubuf k2 data (P2 @ drop r ys)" "length (P2 @ drop r ys) = 1025" using k2(2,3) by (simp_all only:)
      have l2: "length P2 \<le> 1023"
      proof (cases "r = 0")
        case False
        then have "length (text_of ls1) \<noteq> 0" using k2(6) unfolding length_0_conv text_of_simps by blast
        then show ?thesis using n p1 r(2) by (simp only: append_Nil length_append)
      qed (simp add: P2_def)
      have ls: "last (drop r ys) \<noteq> 0x0A" using k2(3,4) l2 r(1) by (simp add: last_drop)
      have out1: "grep_out S F (ls1 @ (if r = 0 then [P'] else [])) = grep_out S F ls1" using out False by auto
      obtain k' where k': "grep_loop e evs (Suc n) s (of_nat (length S)) f data fd (int (length P2)) k2 = Some (0, k')" "user_step k2 k'" "same_files fd k2 k'"
        "flags (fd_entry k' fd) = 0" "display k' = display (prints (grep_out S F (ls2 @ [Q])) k2)"
        using less.hyps [OF m(3) b2 rd(1) m(2) e2 ys l2 ls _ _ pl(2,3), of "Suc n"] sp(3,4) r(2) T by auto
      have "grep_loop e evs n s (of_nat (length S)) f data fd (int (length P)) k = Some (0, k')"
        using k1(1) k2(1) k'(1) m0 r(1) by (subst grep_loop.simps) simp
      moreover have "display k' = display (prints (grep_out S F (ls @ [Q])) k)"
      proof -
        have "console_ok (prints (grep_out S F ls1) k)" using prints_step(1) [OF ok, of "grep_out S F ls1"] kernel_console unfolding user_step_def by blast
        then have "display (prints (grep_out S F (ls2 @ [Q])) k2) = display (prints (grep_out S F (ls2 @ [Q])) (prints (grep_out S F ls1) k))"
          using d2 out1 by (intro display_prints [OF kernel_console [OF ok2]]) (simp_all add: did_def)
        then show ?thesis using k'(5) sp(1) by simp
      qed
      ultimately show ?thesis
        using user_step_trans [OF u2 k'(2)] same_files_trans [of fd k k2 k'] d2 k'(3,4) by (intro exI [of _ k']) (simp add: did_def)
    qed
  qed
qed

text \<open>C13: \<open>do_one_file\<close> of \<open>grep\<close> prints the matching lines of a file of any size.  Let the pattern \<open>S\<close> (non-empty, with an ASCII first
  character), the name \<open>F\<close> and the literals be strings of the program apart from the buffer \<open>data\<close>, standard output open and a
  descriptor free, and let \<open>F\<close> name a regular file of lines \<open>ls\<close>, each with its newline, and perhaps a last line \<open>Q\<close> without one.  The
  lines hold no NUL and have at most 1023 bytes (a longer one does not fit the buffer), and the uninitialised last byte of the
  buffer is not a newline.  Then \<open>do_one_file\<close>, which reads the file in blocks and carries unfinished lines over to the next
  block, returns 0, and what is displayed is exactly \<open>F\<close>, a colon and the line, for every line that has
  the pattern as a substring, in order; the descriptor is free again and the others are as before.\<close>

theorem grep_prints_matching_lines:
  assumes "beside {(s, S), (f, F), (lit e '':'', [0x3A]), (lit e ''\<newline>'', [0x0A])} data k"
    and "S \<noteq> []" and "hd S < 0x80" and "free_fd k 2 < 8"
    and "read_dentry_by_name (filesys k) (mem k) (Some (of_bytes (F @ [0]))) (Some (dentry_stk (ker e))) = Some (0, Some d)"
    and "file_type d = 2" and "readable k (d_inode_idx d) L"
    and "contents k (d_inode_idx d) L = concat (map (\<lambda>l. l @ [0x0A]) ls) @ Q"
    and "\<forall>l\<in>set (ls @ [Q]). 0x0A \<notin> set l \<and> 0 \<notin> set l \<and> length l \<le> 1023" and "mem k (phys k data + 1024) \<noteq> 0x0A"
  shows "\<exists>k'. do_one_file e evs data s f k = Some (0, k') \<and> kernel_ok k' \<and> cur_stack k' = cur_stack k
    \<and> display k' = display (prints (concat (map (\<lambda>l. if sublist S l then F @ [0x3A] @ l @ [0x0A] else []) (ls @ [Q]))) k)
    \<and> (\<forall>i. 0 \<le> i \<and> i \<noteq> free_fd k 2 \<longrightarrow> fd_entry k' i = fd_entry k i) \<and> flags (fd_entry k' (free_fd k 2)) = 0"
proof -
  let ?fd = "free_fd k 2"
  let ?A = "{(s, S), (f, F), (lit e '':'', [0x3A]), (lit e ''\<newline>'', [0x0A])}"
  have fd: "2 \<le> ?fd" "?fd \<le> 7" using free_fd_spec [of 2 k] assms(4) by auto
  have ok: "kernel_ok k" and us: "ustr k s S" "ustr k f F" and w: "in_window data 1025" using assms(1) by (auto simp: beside_def)
  have uf: "in_window f (length F + 1)" "bytes_at (mem k) (phys k f) (length F + 1) = F @ [0]" "0 \<notin> set F" using us(2) by (simp_all add: ustr_def)
  have S: "pattern_ok S" using assms(2,3) us(1) by (simp add: pattern_ok_def ustr_def in_window_def)
  have len: "ece391_strlen k s = Some (of_nat (length S))" using strlen_ustr [OF ok us(1), of 0] by (simp add: ece391_strlen_def)
  obtain k1 where k1: "ece391_open e f k = Some (?fd, k1)" "user_step k k1" "same_files ?fd k k1" "fd_entry k1 ?fd = opened d"
    "display k1 = display k" "mem k1 = mem k"
    using call_open [OF ok assms(4) _ uf assms(5)] assms(6) by auto
  have b1: "beside ?A data k1" using beside_step [OF assms(1) k1(2,3)] fd(1) k1(6) by simp
  have e1: "fd_entry k1 ?fd = \<lparr>op_ptr = regular_file_op_table, inode_idx = d_inode_idx d, file_position = of_nat 0, flags = 1\<rparr>"
    using k1(4) assms(6) by (simp add: opened_def table_of_def)
  note rd = readable_step [OF assms(7) k1(2)]
  have "contents k1 (d_inode_idx d) L = contents k (d_inode_idx d) L" unfolding contents_def using rd(2) by (intro map_cong) simp_all
  then have c1: "[] @ drop 0 (contents k1 (d_inode_idx d) L) = text_of ls @ Q" using assms(8) by (simp add: text_of_def)
  let ?xs = "bytes_at (mem k1) (phys k1 data) 1025"
  have u1: "ubuf k1 data ([] @ ?xs)" "length ([] @ ?xs) = 1025" using w by (simp_all add: ubuf_def)
  have "last ?xs = ?xs ! 1024" by (simp add: last_conv_nth bytes_at_def)
  then have lx: "last ?xs \<noteq> 0x0A" using assms(10) k1(6) user_step_phys [OF k1(2)] by simp
  have pl: "plain_lines ls" "\<forall>l\<in>set ls. length l \<le> 1023" and Q: "0x0A \<notin> set Q" "0 \<notin> set Q" "length Q \<le> 1023"
    using assms(9) by (simp_all add: plain_lines_def)
  obtain k' where k': "grep_loop e evs 0 s (of_nat (length S)) f data ?fd (int (length [])) k1 = Some (0, k')" "user_step k1 k'" "same_files ?fd k1 k'"
    "flags (fd_entry k' ?fd) = 0" "display k' = display (prints (grep_out S F (ls @ [Q])) k1)"
    using grep_loop_file [OF S fd Q b1 rd(1) le0 e1 u1 _ lx _ c1 pl, of evs 0] by auto
  have "do_one_file e evs data s f k = Some (0, k')" using len k1(1) k'(1) fd(1) by (simp add: do_one_file_def)
  moreover have "kernel_ok k1" using b1 by (simp add: beside_def)
  then have "display k' = display (prints (grep_out S F (ls @ [Q])) k)"
    unfolding k'(5) by (intro display_prints [OF kernel_console kernel_console [OF ok] k1(5)])
  then have "display k' = display (prints (concat (map (\<lambda>l. if sublist S l then F @ [0x3A] @ l @ [0x0A] else []) (ls @ [Q]))) k)"
    unfolding grep_out_def grep_line_def .
  moreover have "kernel_ok k'" "cur_stack k' = cur_stack k" using user_step_trans [OF k1(2) k'(2)] by (simp_all add: user_step_def)
  moreover have "\<forall>i. 0 \<le> i \<and> i \<noteq> ?fd \<longrightarrow> fd_entry k' i = fd_entry k i" using same_files_trans [OF k1(3) k'(3)] by (simp add: same_files_def)
  ultimately show ?thesis using k'(4) by (intro exI [of _ k'] conjI)
qed

text \<open>The demonstration file with a newline at its end, searched for \<open>EL\<close>.\<close>

definition demo_text_mem :: mem where
  "demo_text_mem = demo_mem(0x502004 := 0x0A)"

definition grep_strings :: "string list" where
  "grep_strings = [''EL'', ''a'', '':'', ''\<newline>'']"

definition demo_grep :: kernel where
  "demo_grep = demo_running\<lparr>mem := strings_at grep_strings demo_text_mem\<rparr>"

lemma demo_grep_file:
  "readable demo_grep 0 5" "contents demo_grep 0 5 = concat (map (\<lambda>l. l @ [0x0A]) [[0x7f, 0x45, 0x4c, 0x46]])"
  "\<exists>d'. read_dentry_by_name (filesys demo_grep) (mem demo_grep) (Some (of_bytes [0x61, 0])) (Some d) = Some (0, Some d') \<and> file_type d' = 2 \<and> d_inode_idx d' = 0"
proof -
  have f: "filesys demo_grep = demo_fs" using demo_reader_ok(6) by (simp add: demo_grep_def demo_reader_def)
  have m: "mem demo_grep a = demo_text_mem a" if "unat a < 0x848000" for a using that by (simp add: demo_grep_def strings_at_def)
  have u: "unat (dentry_addr demo_fs 0) = 0x500040" by (simp add: dentry_addr_def demo_fs_def)
  have n: "inode_num demo_fs = 1" "inode_length demo_fs (mem demo_grep) 0 = 5" "\<And>k. k < 4096 \<Longrightarrow> block_ok demo_fs (mem demo_grep) 0 k"
    by (simp_all add: demo_fs_def inode_length_def inode_addr_def block_ok_def inode_block_def m demo_text_mem_def demo_mem_def load32_def Let_def)
  then show "readable demo_grep 0 5" by (simp add: readable_def f image_ok_def) (simp add: demo_fs_def)
  show "contents demo_grep 0 5 = concat (map (\<lambda>l. l @ [0x0A]) [[0x7f, 0x45, 0x4c, 0x46]])"
    by (simp add: contents_def upt_rec f file_byte_def data_addr_def inode_block_def inode_addr_def demo_fs_def m demo_text_mem_def demo_mem_def load32_def Let_def)
  have d: "file_type (load_dentry (mem demo_grep) (dentry_addr demo_fs 0)) = 2" "d_inode_idx (load_dentry (mem demo_grep) (dentry_addr demo_fs 0)) = 0"
    by (simp_all add: load_dentry_def dentry_addr_def demo_fs_def m demo_text_mem_def demo_mem_def load32_def Let_def)
  have "read_dentry_by_name demo_fs (mem demo_grep) (Some (of_bytes [0x61, 0])) (Some d) = Some (0, Some (load_dentry (mem demo_grep) (dentry_addr demo_fs 0)))"
    by (rule lookup_one_char [where j = 0, unfolded semiring_1_class.of_nat_0]) (simp_all add: demo_fs_def dentry_addr_def m demo_text_mem_def demo_mem_def Let_def)
  then show "\<exists>d'. read_dentry_by_name (filesys demo_grep) (mem demo_grep) (Some (of_bytes [0x61, 0])) (Some d) = Some (0, Some d') \<and> file_type d' = 2 \<and> d_inode_idx d' = 0"
    using d by (simp add: f)
qed

theorem grep_prints_matching_lines_witness:
  "\<exists>k'. do_one_file (strings_user grep_strings) (\<lambda>_. []) 0x08100000 0x08048000 0x08048040 demo_grep = Some (0, k')
    \<and> display k' = display (prints [0x61, 0x3A, 0x7f, 0x45, 0x4c, 0x46, 0x0A] demo_grep)"
proof -
  let ?e = "strings_user grep_strings"
  let ?A = "{(lit ?e ''EL'', [0x45, 0x4c :: byte]), (lit ?e ''a'', [0x61]), (lit ?e '':'', [0x3A]), (lit ?e ''\<newline>'', [0x0A])}"
  have st: "cur_stack demo_grep = [0]" using demo_running_ok(2) by (simp add: demo_grep_def cur_stack_def)
  have ok: "kernel_ok demo_grep" unfolding demo_grep_def by (rule kernel_ok_mem [OF demo_running_ok(1)])
  have so: "stdout_ok demo_grep" using demo_running_files(2) [rule_format, of 1] by (simp add: stdout_ok_def demo_grep_def)
  have u: "ustr demo_grep (lit ?e x) (chars x)" if "x \<in> set grep_strings" for x
    using that st by (intro strings_ustr) (auto simp: grep_strings_def chars_def demo_grep_def)
  have i: "lit ?e ''EL'' = 0x08048000" "lit ?e ''a'' = 0x08048040" "lit ?e '':'' = 0x08048080" "lit ?e ''\<newline>'' = 0x080480C0"
    by (simp_all add: strings_user_def string_index_def grep_strings_def)
  have m: "''EL'' \<in> set grep_strings" "''a'' \<in> set grep_strings" "'':'' \<in> set grep_strings" "''\<newline>'' \<in> set grep_strings"
    by (simp_all add: grep_strings_def)
  have b: "beside ?A 0x08100000 demo_grep"
    using ok so u [OF m(1)] u [OF m(2)] u [OF m(3)] u [OF m(4)] by (simp add: beside_def i in_window_def apart_def chars_def)
  have "flags (fd_entry demo_grep 2) = 0" using demo_running_files(2) [rule_format, of 2] by (simp add: demo_grep_def)
  then have fr: "free_fd demo_grep 2 < 8" by (subst free_fd.simps) simp
  obtain d where d: "read_dentry_by_name (filesys demo_grep) (mem demo_grep) (Some (of_bytes ([0x61] @ [0]))) (Some (dentry_stk (ker ?e))) = Some (0, Some d)"
    "file_type d = 2" "d_inode_idx d = 0" using demo_grep_file(3) [of "dentry_stk (ker ?e)"] by auto
  have s: "sublist [0x45, 0x4c :: byte] [0x7f, 0x45, 0x4c, 0x46]" by (simp add: sublist_def Cons_eq_append_conv)
  have c: "contents demo_grep (d_inode_idx d) 5 = concat (map (\<lambda>l. l @ [0x0A]) [[0x7f, 0x45, 0x4c, 0x46]]) @ []" using demo_grep_file(2) d(3) by simp
  have "phys demo_grep 0x08100000 + 1024 = 0x900400" using st by (simp add: phys_def)
  then have l: "mem demo_grep (phys demo_grep 0x08100000 + 1024) \<noteq> 0x0A"
    by (simp add: demo_grep_def strings_at_def grep_strings_def demo_text_mem_def demo_mem_def Let_def)
  from grep_prints_matching_lines [OF b _ _ fr d(1,2) demo_grep_file(1) [folded d(3)] c _ l, of "\<lambda>_. []"]
  show ?thesis using s by (auto simp: i)
qed

end
