(* ===== verification/User_Pingpong.thy ===== *)
theory User_Pingpong
  imports User_Text
begin

text \<open>
  The program \<open>pingpong\<close> (\<open>ece391pingpong.c\<close>), an endless animation paced by the clock file, and the proof
  that each of its frames is the line with the two walls and the moving letter.
\<close>

section \<open>The program\<close>

definition BUFMAX :: nat where "BUFMAX = 79 + 2"
definition STARTLOOP :: nat where "STARTLOOP = 1 + 1"
definition LOOPMAX :: nat where "LOOPMAX = 79 + 2 - 2 - 1"

lemmas pingpong_consts = BUFMAX_def STARTLOOP_def LOOPMAX_def

text \<open>\<open>for (i = a; i < b; i++) buf[i] = ' ';\<close>\<close>

definition fill_blank :: "addr \<Rightarrow> nat \<Rightarrow> nat \<Rightarrow> kernel \<Rightarrow> kernel option" where
  "fill_blank buf a b k = fold (\<lambda>i r. Option.bind r (uwrite (buf + of_nat i) 0x20)) [a..<b] (Some k)"

definition pingpong_draw :: "user_env \<Rightarrow> addr \<Rightarrow> nat \<Rightarrow> byte \<Rightarrow> kernel \<Rightarrow> kernel option" where
  "pingpong_draw e buf j curchar k =
     do { k \<leftarrow> fill_blank buf STARTLOOP LOOPMAX k;
          k \<leftarrow> uwrite (buf + of_nat j) curchar k;
          ece391_fdputs e 1 buf k }"

text \<open>The frames of one direction; \<open>evs\<close> are the interrupts of each wait for the clock.\<close>

fun pingpong_frames ::
  "user_env \<Rightarrow> (nat \<Rightarrow> event list) \<Rightarrow> int \<Rightarrow> addr \<Rightarrow> addr \<Rightarrow> byte \<Rightarrow> nat list \<Rightarrow> kernel \<Rightarrow> kernel option" where
  "pingpong_frames e evs rtc_fd buf garbage curchar [] k = Some k"
| "pingpong_frames e evs rtc_fd buf garbage curchar (j # js) k =
     do { k \<leftarrow> pingpong_draw e buf j curchar k;
          (r, k) \<leftarrow> ece391_read e (evs j) rtc_fd garbage 4 k;
          pingpong_frames e evs rtc_fd buf garbage curchar js k }"

definition next_char :: "byte \<Rightarrow> byte" where
  "next_char curchar = (if curchar = 0x5A then 0x41 else curchar + 1)"

partial_function (option) pingpong_loop ::
  "user_env \<Rightarrow> (nat \<Rightarrow> nat \<Rightarrow> event list) \<Rightarrow> nat \<Rightarrow> int \<Rightarrow> addr \<Rightarrow> addr \<Rightarrow> byte \<Rightarrow> kernel \<Rightarrow> (int \<times> kernel) option" where
  "pingpong_loop e evs n rtc_fd buf garbage curchar k =
     do { k \<leftarrow> pingpong_frames e (evs n) rtc_fd buf garbage curchar [STARTLOOP..<LOOPMAX] k;
          k \<leftarrow> pingpong_frames e (evs (Suc n)) rtc_fd buf garbage curchar (rev [STARTLOOP..<LOOPMAX]) k;
          pingpong_loop e evs (Suc (Suc n)) rtc_fd buf garbage (next_char curchar) k }"

text \<open>\<open>ret_val = 32\<close> at its address, low byte first.\<close>

definition pingpong_main ::
  "user_env \<Rightarrow> (nat \<Rightarrow> nat \<Rightarrow> event list) \<Rightarrow> addr \<Rightarrow> addr \<Rightarrow> addr \<Rightarrow> kernel \<Rightarrow> (int \<times> kernel) option" where
  "pingpong_main e evs buf ret_val garbage k =
     do { k \<leftarrow> fill_blank buf 0 BUFMAX k;
          k \<leftarrow> uwrite (buf + of_nat (BUFMAX - 1)) 0 k;
          k \<leftarrow> uwrite (buf + of_nat (BUFMAX - 2)) 0x0A k;
          k \<leftarrow> uwrite (buf + of_nat (BUFMAX - 3)) 0x7C k;
          k \<leftarrow> uwrite (buf + of_nat 1) 0x7C k;
          (rtc_fd, k) \<leftarrow> ece391_open e (lit e ''rtc'') k;
          k \<leftarrow> uwrite ret_val 32 k;
          k \<leftarrow> uwrite (ret_val + 1) 0 k;
          k \<leftarrow> uwrite (ret_val + 2) 0 k;
          k \<leftarrow> uwrite (ret_val + 3) 0 k;
          (r, k) \<leftarrow> ece391_write e rtc_fd ret_val 4 k;
          pingpong_loop e evs 0 rtc_fd buf garbage 0x41 k }"

section \<open>A frame\<close>

lemma fill_blank_eq:
  "kernel_ok k \<Longrightarrow> ubuf k buf xs \<Longrightarrow> a \<le> b \<Longrightarrow> b \<le> length xs \<Longrightarrow>
    \<exists>k'. fill_blank buf a b k = Some k' \<and> edited buf (length xs) k k' \<and> ubuf k' buf (take a xs @ replicate (b - a) 0x20 @ drop b xs)"
proof (induction b)
  case 0
  then show ?case using edited_refl by (simp add: fill_blank_def)
next
  case (Suc b)
  show ?case
  proof (cases "a \<le> b")
    case False
    then have "a = Suc b" using Suc.prems(3) by simp
    then show ?thesis using Suc.prems edited_refl by (simp add: fill_blank_def)
  next
    case True
    let ?ys = "take a xs @ replicate (b - a) 0x20 @ drop b xs"
    obtain k1 where k1: "fill_blank buf a b k = Some k1" "edited buf (length xs) k k1" "ubuf k1 buf ?ys"
      using Suc.IH Suc.prems True by auto
    have b: "b < length ?ys" "length ?ys = length xs" using Suc.prems(4) True by simp_all
    obtain k' where k': "uwrite (buf + of_nat b) 0x20 k1 = Some k'" "edited buf (length xs) k1 k'" "ubuf k' buf (?ys[b := 0x20])"
      using ubuf_write [OF edited_ok [OF k1(2)] k1(3) b(1), of "0x20"] unfolding b(2) by blast
    have "?ys[b := 0x20] = take a xs @ replicate (Suc b - a) 0x20 @ drop (Suc b) xs"
      using Suc.prems(4) True by (intro nth_equalityI) (auto simp: nth_append nth_list_update)
    moreover have "fill_blank buf a (Suc b) k = Some k'" using True k1(1) k'(1) by (simp add: fill_blank_def)
    ultimately show ?thesis using k'(3) edited_trans [OF k1(2) k'(2)] by auto
  qed
qed

text \<open>The line of a frame: a blank, a wall, the letter among blanks, a wall and the end of the line.\<close>

definition frame_line :: "nat \<Rightarrow> byte \<Rightarrow> byte list" where
  "frame_line j c = [0x20, 0x7C] @ (replicate 76 0x20)[j - 2 := c] @ [0x7C, 0x0A]"

lemma pingpong_draws:
  assumes "kernel_ok k" and "stdout_ok k" and "ubuf k buf ([0x20, 0x7C] @ mid @ [0x7C, 0x0A, 0])" and "length mid = 76"
    and "2 \<le> j" and "j < 78" and "c \<noteq> 0"
  shows "\<exists>k'. pingpong_draw e buf j c k = Some k' \<and> user_step k k' \<and> same_files (-1) k k' \<and> ubuf k' buf (frame_line j c @ [0])
    \<and> display k' = display (prints (frame_line j c) k)"
proof -
  let ?xs = "[0x20, 0x7C] @ mid @ [0x7C, 0x0A, 0 :: byte]" and ?ys = "[0x20, 0x7C] @ replicate 76 0x20 @ [0x7C, 0x0A, 0 :: byte]"
  have l: "length ?xs = 81" "length ?ys = 81" using assms(4) by simp_all
  have ys: "take 2 ?xs @ replicate (78 - 2) 0x20 @ drop 78 ?xs = ?ys" using assms(4) by simp
  obtain k1 where k1: "fill_blank buf 2 78 k = Some k1" "edited buf 81 k k1" "ubuf k1 buf ?ys"
    using fill_blank_eq [OF assms(1,3), of 2 78] unfolding l(1) ys by auto
  have j: "j < length ?ys" using assms(6) l by simp
  have fl: "?ys[j := c] = frame_line j c @ [0]"
    using assms(5,6) by (simp add: frame_line_def list_update_append numeral_2_eq_2 less_Suc_eq split: nat.split)
  obtain k2 where k2: "uwrite (buf + of_nat j) c k1 = Some k2" "edited buf 81 k1 k2" "ubuf k2 buf (frame_line j c @ [0])"
    using ubuf_write [OF edited_ok [OF k1(2)] k1(3) j, of c] unfolding fl l(2) by blast
  have nz: "0 \<notin> set (frame_line j c)" using assms(7) set_update_subset_insert [of "replicate 76 0x20" "j - 2" c] by (auto simp: frame_line_def)
  have ed: "edited buf 81 k k2" by (rule edited_trans [OF k1(2) k2(2)])
  have ok2: "kernel_ok k2" and s2: "user_step k k2" "same_files (-1) k k2" "display k2 = display k" using ed by (simp_all add: edited_def user_step_def)
  have so: "stdout_ok k2" using assms(2) same_files_entry [OF s2(2), of 1] by (simp add: stdout_ok_def)
  have u: "ustr k2 buf (frame_line j c)" using ubuf_string [of k2 buf "frame_line j c" "[]"] k2(3) nz by simp
  note st = prints_step [where cs = "frame_line j c", OF ok2]
  have "pingpong_draw e buf j c k = Some (prints (frame_line j c) k2)"
    using k1(1) k2(1) fdputs_prints [OF ok2 so u] by (simp add: pingpong_draw_def pingpong_consts numeral_2_eq_2)
  moreover have "display (prints (frame_line j c) k2) = display (prints (frame_line j c) k)"
    by (rule display_prints [OF kernel_console [OF ok2] kernel_console [OF assms(1)] s2(3)])
  ultimately show ?thesis
    using user_step_trans [OF s2(1) st(1)] same_files_trans [OF s2(2) st(2)] prints_keeps(2) [OF ok2 k2(3)] by blast
qed

end
