(* ===== verification/Spec2Isabelle.thy ===== *)
theory Spec2Isabelle
  imports Kernel_Boot Kernel_Run User_Session User_Syserr User_Grep User_Pingpong
begin

text \<open>
  A verification development for the 391OS kernel under \<open>src/student-distrib\<close>, a small x86 kernel
  with three text terminals, six processes, a read-only file system in memory, ten system calls and
  round-robin scheduling by the interval timer, and for the user programs under \<open>src/syscalls\<close> that run on it.

  \<^bold>\<open>The program and its model.\<close>  All theories share one record \<open>kernel\<close> (\<open>Kernel_State\<close>) with a field for
  every global variable of the C code: physical memory, the port writes so far, the 8259 masks, the page
  tables and control registers, the three \<open>terminal_t\<close>, keyboard flags, clock counters, the file system
  globals, the six process control blocks, \<open>file_array\<close> (the process whose descriptors are current),
  the program counters, the TSS fields and the frame pointer the processor is in.  An operation of the
  code is a function on this record; C integers are words (\<open>int\<close> where the source computes with
  small signed counters), loops are \<open>for_loop\<close>, \<open>function\<close> with a termination proof, or
  \<open>partial_function (option)\<close> where they may run forever.

  \<^item> \<open>Prelude\<close>: words, byte memory (\<open>load32\<close>, \<open>store_bytes\<close>), C strings, counting loops.
  \<^item> \<open>Lib_Mem\<close>, \<open>Lib_String\<close>: the memory and string routines of \<open>lib.c\<close>, the inline assembly with its
    alignment prefix, word part and tail; equivalence with plain byte stores, \<open>itoa\<close> as digits of the value.
  \<^item> \<open>File_System\<close>: \<open>file_system.c\<close> without the descriptor operations: directory search, \<open>read_data\<close>,
    \<open>program_loader\<close>, \<open>parse_command\<close>, \<open>check_validity\<close>.
  \<^item> \<open>I8259\<close>, \<open>Rtc\<close>: the interrupt controllers and the clock hardware.
  \<^item> \<open>Console\<close>: the text output of \<open>lib.c\<close>.  The locale \<open>char_sink\<close> states what \<open>puts\<close> and \<open>printf\<close> rely
    on; it is interpreted for \<open>putc\<close> and for the keyboard's \<open>putc_direct\<close>.
  \<^item> \<open>Paging\<close>: \<open>paging.c\<close> with the processor's page walk \<open>translate\<close> and the invariant of the tables;
    \<open>User_Memory\<close>: how kernel code accesses a buffer through the tables.
  \<^item> \<open>Keyboard\<close>: the interrupt handler of \<open>keyboard.c\<close> and \<open>switch_terminal\<close>; it refines a line editor.
  \<^item> \<open>Devices\<close>: the open, close, read and write operations of clock, directory, files and terminal and the
    dispatch through the operation tables; the locale \<open>file_driver\<close> is the contract of a driver, with
    one interpretation per driver.
  \<^item> \<open>Process\<close>, \<open>System_Call\<close>, \<open>Scheduling\<close>: \<open>process.c\<close>, \<open>system_call.c\<close> (with the dispatch of
    \<open>system_call_linkage.S\<close>) and \<open>scheduling.c\<close>.
  \<^item> \<open>Descriptors\<close>, \<open>Boot\<close>: \<open>idt.c\<close>, the descriptors of \<open>x86_desc.h\<close>, \<open>exceptions.c\<close> and \<open>kernel.c\<close>.
  \<^item> \<open>Kernel_Inv\<close>, \<open>Kernel_Exec\<close>, \<open>Kernel_Steps\<close>, \<open>Kernel_Boot\<close>: the properties that span components.
    \<open>Kernel_Run\<close>: the system as a step relation, with the invariant of its runs, and the reads of the
    terminal that are preempted.
  \<^item> \<open>User_Lib\<close>: the user library \<open>ece391support.c\<close> and the wrappers of \<open>ece391syscall.S\<close>, which end in the kernel's
    \<open>dispatch_syscall\<close>; user code reads and writes memory through the page tables.  \<open>User_Programs\<close>: \<open>main\<close> of \<open>cat\<close>,
    \<open>ls\<close>, \<open>shell\<close>, \<open>hello\<close>, \<open>testprint\<close> and \<open>counter\<close>, with the proofs for \<open>cat\<close> and \<open>ls\<close>; \<open>User_Shell\<close>: a round of
    the shell; \<open>User_Text\<close>: arrays in user memory, the in-place string functions, \<open>counter\<close> and \<open>hello\<close>; \<open>User_Syserr\<close>,
    \<open>User_Grep\<close>, \<open>User_Pingpong\<close>: the programs \<open>ece391syserr.c\<close>, \<open>ece391grep.c\<close> and \<open>ece391pingpong.c\<close>;
    \<open>User_Session\<close>: a program from the command line to its end, through \<open>execute\<close>, \<open>_start\<close> and \<open>halt\<close>.

  \<^bold>\<open>Conventions.\<close>  A result \<open>None\<close> is a call that does not return: a wait with no interrupt left in the list
  of events that stands for what happens meanwhile, a page fault, a string without end or a NULL operation
  table.  A call that may leave its caller's control flow has an \<open>outcome\<close> (\<open>Process\<close>): a return, an
  \<open>iret\<close> to user level, a return from another stack frame (\<open>halt\<close>, the scheduler), an endless loop, or
  \<open>Undefined\<close> for an access outside every object.  What uninitialised locals hold is an argument
  (\<open>call_frame\<close>).  Assembly stubs, link addresses and device input bytes are arguments.  A user program is a
  function of the same state; the addresses of its local arrays and string literals are arguments, and so is the
  run of a program that the shell starts (which program a file holds is not derived from its bytes).  Such a run takes no
  timer switch: between its instructions none, and during its blocking reads keyboard and clock interrupts only.  What timer
  switches keep and how a read goes on across them is the subject of \<open>Kernel_Steps\<close> and \<open>Kernel_Run\<close>.

  \<^bold>\<open>What is shown.\<close>  Components: functional correctness of the library routines, directory search,
  file reading, command parsing, console output, page mapping, line editing, descriptor operations and
  process creation, with the error returns.  The whole system: \<open>kernel_ok\<close> says that console, line
  buffers, page tables and process table are consistent (the programs of a terminal form a stack linked
  by parent pointers, the stacks partition the used PCBs) and that the top process of the
  current terminal is the one that is mapped, whose descriptors are current and whose kernel stack the TSS
  names.  Booting establishes it.  A step of the system (\<open>kstep\<close>) is a keyboard, clock or timer interrupt with any outcome, a
  system call, an exception, a store, or the beginning or end of a blocking read.  Once all three terminals have a program, every step keeps
  the invariant; before that, every step but one does: if the scheduler cannot start the shell of an empty terminal (six programs
  are running), it goes on without a current program (\<open>refused_launch_breaks\<close>).  \<open>execute\<close> loads and runs a program and \<open>halt\<close> undoes
  it; three timer interrupts bring control back to the first program in its frame; a read of the terminal delivers the line typed
  on it, whatever timer switches and other programs come between; an exception ends only the faulting program.  Programs on the kernel: with \<open>display\<close> the
  contents of the screen and its backup pages, the cursors and the port writes, \<open>cat\<close>, \<open>ls\<close>, \<open>grep\<close> and \<open>counter\<close> are shown to
  return and to display exactly what they promise, the shell to hand exactly the typed line to \<open>execute\<close>, and all the error tests of \<open>syserr\<close> to pass.
  These meet in \<open>shell_lists_directory\<close>: a command is typed, the shell has the kernel load and start \<open>ls\<close>, which prints the
  directory and halts, and the shell is back in its own frame.

  \<^bold>\<open>Bounds.\<close>  The only fuel is the list of events of a blocking read; the liveness properties state which
  lists suffice, and \<open>grep\<close> is shown for lines of up to 1023 bytes (its buffer has 1024).  Numbers of terminals, processes and descriptors are those of the code (3, 6, 8).

  \<^bold>\<open>Not modelled.\<close>  The assembly stubs that save registers, \<open>boot.S\<close> and the static tables of
  \<open>x86_desc.S\<close>; \<open>tests.c\<close> (compiled out); \<open>print_file_names\<close>, an endless debugging loop; \<open>ece391sigtest.c\<close>, a
  demonstration of signals, which the kernel does not implement; \<open>fish.c\<close>, which draws through the assembly of \<open>blink.S\<close>;
  the emulation of the system calls on a Linux host (\<open>ece391emulate.c\<close>).
  The records of the kernel are not at addresses of the modelled memory.  The code does not check the pointers it is given, so that
  \<open>read\<close> or \<open>getargs\<close> can be made to overwrite the kernel's data: the model of such a call changes only the memory there, and
  the steps of \<open>kstep\<close> are the calls that leave the kernel's 4 MB page alone.
\<close>

section \<open>From power-on\<close>

text \<open>C1: whatever the boot loader passes and whatever happens afterwards (keyboard, clock and timer interrupts,
  exceptions, stores of user programs and their system calls, as long as a call does not write into the kernel's own page, in any order), once \<open>entry\<close> has
  reached user level the system is consistent and isolated in every state that is reached without the scheduler failing
  to start the shell of an empty terminal (with six programs on the other terminals it does, and then goes on without a current program):
  the boot loader was multiboot, the GDT descriptors point to the LDT and the TSS, the kernel invariant
  holds, a user access reaches the frame of the current process or the text pages only, and the kernel's 4 MB
  page is mapped to itself, for the kernel alone.\<close>

theorem power_on_invariant:
  assumes "boot_globals k" and "entry e magic mbi g k = (g', Iret eip cs esp ss k0)" and "kstep_launched\<^sup>*\<^sup>* k0 k'"
  shows "magic = 0x2BADB002 \<and> base_of (ldt_desc_ptr g') = ldt_at e \<and> base_of (tss_desc_ptr g') = tss_at e \<and> kernel_ok k'
    \<and> (\<exists>p<6. last (cur_stack k') = p \<and> (\<forall>a pa. translate (pg k') True a = Some pa \<longrightarrow>
        (0x800000 + 0x400000 * p \<le> unat pa \<and> unat pa < 0xC00000 + 0x400000 * p) \<or> (0xB8000 \<le> unat pa \<and> unat pa < 0xBC000)))
    \<and> (\<forall>a. unat a div 4194304 = 1 \<longrightarrow> translate (pg k') False a = Some a \<and> translate (pg k') True a = None)"
proof -
  have e: "kernel_ok k0" "magic = MULTIBOOT_BOOTLOADER_MAGIC" "g' = init_descriptors e g" using entry_outcome [OF assms(1,2)] by simp_all
  have k': "kernel_ok k'" by (rule ksteps_launched_ok [OF assms(3) e(1)])
  then have inv: "paging_inv (pg k')" "cur_stack k' \<noteq> []" "active_proc k' (last (cur_stack k'))"
    by (simp_all add: kernel_ok_def base_ok_def)
  then obtain ps p where st: "cur_stack k' = ps @ [p]" using rev_exhaust by blast
  have p: "p < 6" "last (cur_stack k') = p" using current_proc(1) [OF k' st] st by simp_all
  have w: "window_of (pg k') p" using inv(3) st by (simp add: active_proc_def)
  have d: "base_of (ldt_desc_ptr g') = ldt_at e" "base_of (tss_desc_ptr g') = tss_at e"
    by (simp_all add: e(3) init_descriptors_def descriptor_roundtrip)
  have iso: "\<forall>a pa. translate (pg k') True a = Some pa \<longrightarrow>
        (0x800000 + 0x400000 * p \<le> unat pa \<and> unat pa < 0xC00000 + 0x400000 * p) \<or> (0xB8000 \<le> unat pa \<and> unat pa < 0xBC000)"
    using window_isolated [OF inv(1) w p(1)] by blast
  have kp: "\<forall>a. unat a div 4194304 = 1 \<longrightarrow> translate (pg k') False a = Some a \<and> translate (pg k') True a = None"
    using kernel_page [OF inv(1)] by blast
  have m: "magic = 0x2BADB002" using e(2) by (simp add: MULTIBOOT_BOOTLOADER_MAGIC_def)
  show ?thesis using m d k' p iso kp by (intro conjI exI [of _ p])
qed

definition demo_gdt :: gdt where
  "demo_gdt = \<lparr>ldt_desc_ptr = stk_desc demo_env, tss_desc_ptr = stk_desc demo_env, ldt_segment_selector = 0, ldtr = 0, task_reg = 0\<rparr>"

theorem power_on_invariant_witness:
  "\<exists>g' eip k0 k1. entry demo_env 0x2BADB002 0x9000 demo_gdt shell_start = (g', Iret eip USER_CS 0x083FFFFC USER_DS k0)
    \<and> interrupt Tick k0 = Some k1 \<and> kernel_ok k1 \<and> base_of (tss_desc_ptr g') = tss_at demo_env"
proof -
  have m: "(0x2BADB002 :: u32) = MULTIBOOT_BOOTLOADER_MAGIC" by (simp add: MULTIBOOT_BOOTLOADER_MAGIC_def)
  from shell_entry [of demo_gdt] obtain eip k0 where
    r: "entry demo_env MULTIBOOT_BOOTLOADER_MAGIC 0x9000 demo_gdt shell_start
      = (init_descriptors demo_env demo_gdt, Iret eip USER_CS 0x083FFFFC USER_DS k0)" by (elim exE)
  have k0: "kernel_ok k0" using entry_outcome [OF shell_start_ok(1) r] by simp
  have k1: "interrupt Tick k0 = Some (rtc_handler k0)" by simp
  have "\<not> start_refused k0 (rtc_handler k0)"
  proof
    assume s: "start_refused k0 (rtc_handler k0)"
    then obtain f v where f: "stack (terminals k0 ! nat (next_term k0)) = []" "pit_handler f k0 = Returns v (rtc_handler k0)" by (auto simp: start_refused_def)
    then have "cur_stack (rtc_handler k0) = []" using pit_launches [OF k0 f(1), of f] by auto
    then show False using interrupt_kernel_ok(1) [OF k0 k1] by (simp add: kernel_ok_def)
  qed
  then have st: "kstep_launched\<^sup>*\<^sup>* k0 (rtc_handler k0)" using kstep.intr [OF k1] by (intro r_into_rtranclp) (simp add: kstep_launched_def)
  note p = power_on_invariant [OF shell_start_ok(1) r st]
  have "kernel_ok (rtc_handler k0)" by (rule p [THEN conjunct2, THEN conjunct2, THEN conjunct2, THEN conjunct1])
  moreover have "base_of (tss_desc_ptr (init_descriptors demo_env demo_gdt)) = tss_at demo_env"
    by (rule p [THEN conjunct2, THEN conjunct2, THEN conjunct1])
  ultimately show ?thesis unfolding m using r k1 by (intro exI conjI)
qed

end
